(* ===== verification/Prelude.thy ===== *)
theory Prelude
  imports Main "HOL-Library.Word" "HOL-Library.Monad_Syntax"
begin

text \<open>
  Shared vocabulary of the development.

  \<^item> Machine integers: C's \<open>int\<close>, \<open>unsigned int\<close>, \<open>long\<close> and pointers of the 32-bit ports are
    \<open>32 word\<close> where the code can wrap around; \<open>uint8_t\<close>, \<open>uint16_t\<close> and \<open>uint64_t\<close> are words of
    their width.
  \<^item> Byte memory: a finite array of bytes indexed by address. Address 0 is \<open>NULL\<close>. A read or a
    write outside the array, or through \<open>NULL\<close>, is a fault, and a computation that faults is \<open>None\<close>.
  \<^item> Error numbers: the constants of src/src/kernel/include/errors.h and of
    src/src/libc/include/errno.h as a datatype with their codes.
\<close>

unbundle bit_operations_syntax

type_synonym u8 = "8 word"
type_synonym u16 = "16 word"
type_synonym u32 = "32 word"
type_synonym u64 = "64 word"
type_synonym mem = "u8 list"
type_synonym addr = nat

named_theorems mem_simps "rewrite rules for loads, stores and block writes"
named_theorems mem_defs "definitions of the byte memory"

section \<open>Error numbers\<close>

datatype errno =
    EPERM | ENOENT | ESRCH | EINTR | EIO | ENOEXEC | EBADF | ECHILD | ENOMEM | EACCES | EFAULT
  | ENOTBLK | EBUSY | EXDEV | ENODEV | ENOTDIR | EISDIR | EINVAL | ENOTTY | ENOSPC | ESPIPE
  | EROFS | ERANGE | ELOOP | ENOTSOCK | ENAMETOOLONG | EOPNOTSUPP | ENOTCONN
  | EIOCTLNOTSUPPORTED

fun errno_code :: "errno \<Rightarrow> int" where
  "errno_code EPERM = 1"
| "errno_code ENOENT = 2"
| "errno_code ESRCH = 3"
| "errno_code EINTR = 4"
| "errno_code EIO = 5"
| "errno_code ENOEXEC = 8"
| "errno_code EBADF = 9"
| "errno_code ECHILD = 10"
| "errno_code ENOMEM = 12"
| "errno_code EACCES = 13"
| "errno_code EFAULT = 14"
| "errno_code ENOTBLK = 15"
| "errno_code EBUSY = 16"
| "errno_code EXDEV = 18"
| "errno_code ENODEV = 19"
| "errno_code ENOTDIR = 20"
| "errno_code EISDIR = 21"
| "errno_code EINVAL = 22"
| "errno_code ENOTTY = 25"
| "errno_code ENOSPC = 28"
| "errno_code ESPIPE = 29"
| "errno_code EROFS = 30"
| "errno_code ERANGE = 34"
| "errno_code ELOOP = 40"
| "errno_code ENOTSOCK = 88"
| "errno_code ENAMETOOLONG = 91"
| "errno_code EOPNOTSUPP = 95"
| "errno_code ENOTCONN = 107"
| "errno_code EIOCTLNOTSUPPORTED = 1024"

lemma errno_code_pos [simp]: "0 < errno_code e"
  by (cases e) simp_all

lemma errno_code_nonneg [simp]: "0 \<le> errno_code e"
  by (cases e) simp_all

lemma errno_code_le: "errno_code e \<le> 1024"
  by (cases e) simp_all

section \<open>Byte memory\<close>

definition NULL :: addr where
  "NULL = 0"

definition load :: "mem \<Rightarrow> addr \<Rightarrow> u8 option" where
  "load m a = (if 0 < a \<and> a < length m then Some (m ! a) else None)"

definition store :: "mem \<Rightarrow> addr \<Rightarrow> u8 \<Rightarrow> mem option" where
  "store m a b = (if 0 < a \<and> a < length m then Some (m[a := b]) else None)"

text \<open>The \<open>n\<close> bytes at \<open>p\<close> are addressable.\<close>

definition region :: "mem \<Rightarrow> addr \<Rightarrow> nat \<Rightarrow> bool" where
  "region m p n \<longleftrightarrow> 0 < p \<and> p + n \<le> length m"

definition bytes_at :: "mem \<Rightarrow> addr \<Rightarrow> nat \<Rightarrow> u8 list" where
  "bytes_at m p n = take n (drop p m)"

text \<open>Memory after the block \<open>xs\<close> has been written at \<open>p\<close>.\<close>

definition blit :: "mem \<Rightarrow> addr \<Rightarrow> u8 list \<Rightarrow> mem" where
  "blit m p xs = take p m @ xs @ drop (p + length xs) m"

text \<open>The NUL-terminated string \<open>s\<close> is stored at \<open>p\<close>.\<close>

definition cstr :: "mem \<Rightarrow> addr \<Rightarrow> u8 list \<Rightarrow> bool" where
  "cstr m p s \<longleftrightarrow> region m p (Suc (length s)) \<and> bytes_at m p (Suc (length s)) = s @ [0] \<and> 0 \<notin> set s"

text \<open>Two blocks have no byte in common.\<close>

definition disjnt_blocks :: "addr \<Rightarrow> nat \<Rightarrow> addr \<Rightarrow> nat \<Rightarrow> bool" where
  "disjnt_blocks p n q k \<longleftrightarrow> p + n \<le> q \<or> q + k \<le> p"

lemmas mem_unfold [mem_defs] = load_def store_def region_def bytes_at_def NULL_def

lemma region_mono: "region m p n \<Longrightarrow> k \<le> n \<Longrightarrow> region m p k"
  by (simp add: region_def)

lemma region_add: "region m p n \<Longrightarrow> k \<le> n \<Longrightarrow> region m (p + k) (n - k)"
  by (auto simp: region_def)

lemma load_region [mem_simps]: "region m p n \<Longrightarrow> i < n \<Longrightarrow> load m (p + i) = Some (m ! (p + i))"
  by (simp add: mem_defs)

lemma load_SomeD: "load m a = Some b \<Longrightarrow> 0 < a \<and> a < length m \<and> b = m ! a"
  by (simp add: load_def split: if_splits)

lemma store_SomeD: "store m a b = Some m' \<Longrightarrow> 0 < a \<and> a < length m \<and> m' = m[a := b]"
  by (simp add: store_def split: if_splits)

lemma length_store: "store m a b = Some m' \<Longrightarrow> length m' = length m"
  by (auto dest: store_SomeD)

lemma load_NULL [simp]: "load m 0 = None"
  by (simp add: load_def)

lemma length_bytes_at [simp]: "region m p n \<Longrightarrow> length (bytes_at m p n) = n"
  by (auto simp: mem_defs min_def)

lemma nth_bytes_at: "region m p n \<Longrightarrow> i < n \<Longrightarrow> bytes_at m p n ! i = m ! (p + i)"
  by (simp add: mem_defs)

lemma bytes_at_0 [simp]: "bytes_at m p 0 = []"
  by (simp add: bytes_at_def)

lemma bytes_at_eqI:
  assumes "region m p (length xs)" and "\<And>i. i < length xs \<Longrightarrow> m ! (p + i) = xs ! i"
  shows "bytes_at m p (length xs) = xs"
  using assms by (intro nth_equalityI) (auto simp: nth_bytes_at)

lemma length_blit [simp]: "region m p (length xs) \<Longrightarrow> length (blit m p xs) = length m"
  by (simp add: blit_def region_def)

lemma nth_blit:
  assumes "region m p (length xs)" and "i < length m"
  shows "blit m p xs ! i = (if p \<le> i \<and> i < p + length xs then xs ! (i - p) else m ! i)"
  using assms by (auto simp: blit_def region_def nth_append min_def)

lemma blit_nthI:
  assumes "length m' = length m" and "region m p (length xs)"
    and "\<And>i. i < length m \<Longrightarrow>
      m' ! i = (if p \<le> i \<and> i < p + length xs then xs ! (i - p) else m ! i)"
  shows "m' = blit m p xs"
  using assms by (intro nth_equalityI) (auto simp: nth_blit)

lemma blit_Nil [simp]: "p \<le> length m \<Longrightarrow> blit m p [] = m"
  by (simp add: blit_def)

lemma store_blit: "0 < p \<Longrightarrow> p < length m \<Longrightarrow> store m p b = Some (blit m p [b])"
  by (auto simp: store_def blit_def upd_conv_take_nth_drop)

lemma blit_blit_append:
  assumes "region m p (length xs + length ys)"
  shows "blit (blit m p xs) (p + length xs) ys = blit m p (xs @ ys)"
proof -
  from assms have "min (length m) p = p" by (simp add: region_def)
  then show ?thesis by (simp add: blit_def ac_simps)
qed

lemma region_blit [simp]: "region m p (length xs) \<Longrightarrow> region (blit m p xs) q n = region m q n"
  by (simp add: region_def blit_def)

lemma bytes_at_blit_same [simp]:
  assumes "region m p (length xs)"
  shows "bytes_at (blit m p xs) p (length xs) = xs"
  using assms by (simp add: bytes_at_def blit_def region_def)

lemma bytes_at_blit_other:
  assumes "region m p (length xs)" and "region m q n" and "disjnt_blocks p (length xs) q n"
  shows "bytes_at (blit m p xs) q n = bytes_at m q n"
proof (rule nth_equalityI)
  show "length (bytes_at (blit m p xs) q n) = length (bytes_at m q n)"
    using assms by simp
next
  fix i assume "i < length (bytes_at (blit m p xs) q n)"
  with assms(1,2) have i: "i < n" by simp
  from assms(2) i have "q + i < length m" by (simp add: region_def)
  with assms i show "bytes_at (blit m p xs) q n ! i = bytes_at m q n ! i"
    by (auto simp: nth_bytes_at nth_blit disjnt_blocks_def)
qed

section \<open>NUL-terminated strings\<close>

lemma cstr_region: "cstr m p s \<Longrightarrow> region m p (Suc (length s))"
  by (simp add: cstr_def)

lemma cstr_nth:
  assumes "cstr m p s" and "i \<le> length s"
  shows "m ! (p + i) = (s @ [0]) ! i"
proof -
  have "bytes_at m p (Suc (length s)) ! i = m ! (p + i)"
    using assms by (intro nth_bytes_at) (simp_all add: cstr_def)
  with assms show ?thesis by (simp add: cstr_def)
qed

lemma cstr_load [mem_simps]:
  assumes "cstr m p s" and "i \<le> length s"
  shows "load m (p + i) = Some ((s @ [0]) ! i)"
proof -
  have "load m (p + i) = Some (m ! (p + i))"
    using assms by (intro load_region [where n = "Suc (length s)"]) (simp_all add: cstr_def)
  with cstr_nth [OF assms] show ?thesis by simp
qed

lemma cstr_load_char: "cstr m p s \<Longrightarrow> i < length s \<Longrightarrow> load m (p + i) = Some (s ! i)"
  by (simp add: cstr_load nth_append)

lemma cstr_load_end: "cstr m p s \<Longrightarrow> load m (p + length s) = Some 0"
  by (simp add: cstr_load)

lemma cstr_char_nonzero: "cstr m p s \<Longrightarrow> i < length s \<Longrightarrow> s ! i \<noteq> 0"
  by (metis cstr_def nth_mem)

lemma cstr_not_NULL [simp]: "cstr m 0 s \<longleftrightarrow> False"
  by (simp add: cstr_def region_def)

lemma cstr_unique:
  assumes "cstr m p s" and "cstr m p t"
  shows "s = t"
proof -
  have "length s = length t"
  proof (rule ccontr)
    assume "length s \<noteq> length t"
    then consider "length s < length t" | "length t < length s" by linarith
    then show False
    proof cases
      case 1
      with assms have "t ! length s = 0"
        by (metis cstr_load_char cstr_load_end option.inject)
      with 1 assms(2) show False by (simp add: cstr_char_nonzero)
    next
      case 2
      with assms have "s ! length t = 0"
        by (metis cstr_load_char cstr_load_end option.inject)
      with 2 assms(1) show False by (simp add: cstr_char_nonzero)
    qed
  qed
  with assms show ?thesis by (auto simp: cstr_def)
qed

lemma cstr_blit_same:
  assumes "region m p (Suc (length s))" and "0 \<notin> set s"
  shows "cstr (blit m p (s @ [0])) p s"
proof -
  have r: "region m p (length (s @ [0]))" using assms(1) by simp
  then have "bytes_at (blit m p (s @ [0])) p (length (s @ [0])) = s @ [0]"
    by (rule bytes_at_blit_same)
  with assms show ?thesis unfolding cstr_def using region_blit [OF r] by simp
qed

lemma cstr_blit_other:
  assumes "cstr m q s" and "region m p (length xs)"
    and "disjnt_blocks p (length xs) q (Suc (length s))"
  shows "cstr (blit m p xs) q s"
  using assms by (simp add: cstr_def bytes_at_blit_other)

lemma cstr_suffix:
  assumes "cstr m p s" and "k \<le> length s"
  shows "cstr m (p + k) (drop k s)"
proof -
  from assms have r: "region m (p + k) (Suc (length s) - k)"
    by (intro region_add) (simp_all add: cstr_def)
  have "bytes_at m (p + k) (Suc (length s) - k) = drop k (bytes_at m p (Suc (length s)))"
    by (simp add: bytes_at_def drop_take add.commute)
  with assms r show ?thesis
    by (auto simp: cstr_def Suc_diff_le dest: in_set_dropD)
qed

section \<open>Words in memory\<close>

text \<open>The bytes of a 32-bit word, least significant first.\<close>

definition bytes_of_u32 :: "u32 \<Rightarrow> u8 list" where
  "bytes_of_u32 w = [ucast w, ucast (drop_bit 8 w), ucast (drop_bit 16 w), ucast (drop_bit 24 w)]"

definition u32_of_bytes :: "u8 list \<Rightarrow> u32" where
  "u32_of_bytes bs = (case bs of
     [a, b, c, d] \<Rightarrow> ucast a OR push_bit 8 (ucast b) OR push_bit 16 (ucast c) OR push_bit 24 (ucast d)
   | _ \<Rightarrow> 0)"

definition load32 :: "mem \<Rightarrow> addr \<Rightarrow> u32 option" where
  "load32 m a = (if region m a 4 then Some (u32_of_bytes (bytes_at m a 4)) else None)"

definition store32 :: "mem \<Rightarrow> addr \<Rightarrow> u32 \<Rightarrow> mem option" where
  "store32 m a w = (if region m a 4 then Some (blit m a (bytes_of_u32 w)) else None)"

lemma length_bytes_of_u32 [simp]: "length (bytes_of_u32 w) = 4"
  by (simp add: bytes_of_u32_def)

lemma u32_of_bytes_of_u32 [simp]: "u32_of_bytes (bytes_of_u32 w) = w"
proof (rule bit_word_eqI)
  fix n assume n: "n < LENGTH(32)"
  then consider "n < 8" | "8 \<le> n" "n < 16" | "16 \<le> n" "n < 24" | "24 \<le> n" "n < 32"
    by fastforce
  then show "bit (u32_of_bytes (bytes_of_u32 w)) n \<longleftrightarrow> bit w n"
    by cases (auto simp: u32_of_bytes_def bytes_of_u32_def bit_simps)
qed

lemma load32_store32:
  assumes "store32 m a w = Some m'"
  shows "load32 m' a = Some w"
proof -
  from assms have r: "region m a (length (bytes_of_u32 w))" and m': "m' = blit m a (bytes_of_u32 w)"
    by (auto simp: store32_def split: if_splits)
  from bytes_at_blit_same [OF r] have "bytes_at m' a 4 = bytes_of_u32 w" by (simp add: m')
  with r region_blit [OF r, of a 4] show ?thesis by (simp add: load32_def m')
qed

section \<open>Unsigned 32-bit arithmetic on natural numbers\<close>

definition add32 :: "nat \<Rightarrow> nat \<Rightarrow> nat" where
  "add32 a b = (a + b) mod 2 ^ 32"

definition sub32 :: "nat \<Rightarrow> nat \<Rightarrow> nat" where
  "sub32 a b = (a + (2 ^ 32 - b)) mod 2 ^ 32"

lemma add32_small: "a + b < 2 ^ 32 \<Longrightarrow> add32 a b = a + b"
  by (simp add: add32_def)

lemma sub32_small: "b \<le> a \<Longrightarrow> a < 2 ^ 32 \<Longrightarrow> sub32 a b = a - b"
proof -
  assume a: "b \<le> a" "a < 2 ^ 32"
  then have e: "a + (2 ^ 32 - b) = (a - b) + 2 ^ 32" by simp
  show ?thesis using a unfolding sub32_def e by (simp only: mod_add_self2) simp
qed

text \<open>An unsigned value converted to \<open>int\<close>.\<close>

definition as_int :: "nat \<Rightarrow> int" where
  "as_int n = sint (of_nat n :: u32)"

lemma as_int_small: "n < 2 ^ 31 \<Longrightarrow> as_int n = int n"
  by (simp add: as_int_def sint_uint signed_take_bit_int_eq_self uint_nat unat_of_nat)

section \<open>Data refinement\<close>

text \<open>
  A component is a state with a step function that may fault; its specification is a step function on
  abstract states. A run collects the results of a list of operations.
\<close>

fun crun :: "('c \<Rightarrow> 'op \<Rightarrow> ('r \<times> 'c) option) \<Rightarrow> 'c \<Rightarrow> 'op list \<Rightarrow> ('r list \<times> 'c) option" where
  "crun cstep c [] = Some ([], c)"
| "crun cstep c (x # xs) =
     (case cstep c x of None \<Rightarrow> None
      | Some (r, c') \<Rightarrow> map_option (\<lambda>(rs, c''). (r # rs, c'')) (crun cstep c' xs))"

fun arun :: "('a \<Rightarrow> 'op \<Rightarrow> 'r \<times> 'a) \<Rightarrow> 'a \<Rightarrow> 'op list \<Rightarrow> 'r list \<times> 'a" where
  "arun astep a [] = ([], a)"
| "arun astep a (x # xs) =
     (case astep a x of (r, a') \<Rightarrow> case arun astep a' xs of (rs, a'') \<Rightarrow> (r # rs, a''))"

text \<open>Every operation of a list is allowed in the abstract state it is called in.\<close>

fun allowed :: "('a \<Rightarrow> 'op \<Rightarrow> bool) \<Rightarrow> ('a \<Rightarrow> 'op \<Rightarrow> 'r \<times> 'a) \<Rightarrow> 'a \<Rightarrow> 'op list \<Rightarrow> bool" where
  "allowed pre astep a [] \<longleftrightarrow> True"
| "allowed pre astep a (x # xs) \<longleftrightarrow> pre a x \<and> allowed pre astep (snd (astep a x)) xs"

locale data_refinement =
  fixes valid :: "'c \<Rightarrow> bool"
    and abs :: "'c \<Rightarrow> 'a"
    and cstep :: "'c \<Rightarrow> 'op \<Rightarrow> ('r \<times> 'c) option"
    and astep :: "'a \<Rightarrow> 'op \<Rightarrow> 'r \<times> 'a"
    and pre :: "'a \<Rightarrow> 'op \<Rightarrow> bool"
  assumes step: "valid c \<Longrightarrow> pre (abs c) x \<Longrightarrow>
      \<exists>r c'. cstep c x = Some (r, c') \<and> valid c' \<and> astep (abs c) x = (r, abs c')"
begin

lemma run_refines:
  "valid c \<Longrightarrow> allowed pre astep (abs c) xs \<Longrightarrow>
     \<exists>rs c'. crun cstep c xs = Some (rs, c') \<and> valid c' \<and> arun astep (abs c) xs = (rs, abs c')"
proof (induction xs arbitrary: c)
  case (Cons x xs)
  from step [OF Cons.prems(1), of x] Cons.prems(2) obtain r c1 where
    c1: "cstep c x = Some (r, c1)" "valid c1" "astep (abs c) x = (r, abs c1)" by auto
  with Cons.IH [OF c1(2)] Cons.prems(2) show ?case by auto
qed simp

end

end
