(* ===== verification/Libc_String.thy ===== *)
theory Libc_String
  imports Prelude
begin

text \<open>
  The string functions of the C library: src/src/libc/string.c and src/src/libc/string/memmove.c.

  Each function works on the byte memory of \<open>Prelude\<close>; a call returns \<open>None\<close> when the C code would
  touch memory outside the array. \<open>size_t\<close> is 32 bits wide, so \<open>size - 1\<close> with \<open>size = 0\<close> is
  \<open>SIZE_MAX\<close>. A loop of the source is a recursive function over its index.
\<close>

definition SIZE_MAX :: nat where
  "SIZE_MAX = 2 ^ 32 - 1"

definition size_dec :: "nat \<Rightarrow> nat" where
  "size_dec n = (if n = 0 then SIZE_MAX else n - 1)"

section \<open>Definitions\<close>

subsection \<open>Raw memory\<close>

function memchr_loop :: "mem \<Rightarrow> addr \<Rightarrow> u8 \<Rightarrow> nat \<Rightarrow> nat \<Rightarrow> addr option" where
  "memchr_loop m s c n i =
     (if i < n then
        case load m (s + i) of None \<Rightarrow> None
        | Some b \<Rightarrow> if b = c then Some (s + i) else memchr_loop m s c n (Suc i)
      else Some NULL)"
  by pat_completeness auto
termination by (relation "measure (\<lambda>(m, s, c, n, i). n - i)") auto

definition memchr :: "mem \<Rightarrow> addr \<Rightarrow> u32 \<Rightarrow> nat \<Rightarrow> addr option" where
  "memchr m s c n = memchr_loop m s (ucast c) n 0"

text \<open>
  \<open>for (i = n - 1; i >= 0; i--)\<close> with an unsigned \<open>i\<close>: the condition never fails, so the loop ends
  only on a match or on a fault.
\<close>

partial_function (option) memrchr_loop :: "mem \<Rightarrow> addr \<Rightarrow> u8 \<Rightarrow> nat \<Rightarrow> addr option" where
  "memrchr_loop m s c i =
     (case load m (s + i) of None \<Rightarrow> None
      | Some b \<Rightarrow> if b = c then Some (s + i) else memrchr_loop m s c (size_dec i))"

definition memrchr :: "mem \<Rightarrow> addr \<Rightarrow> u32 \<Rightarrow> nat \<Rightarrow> addr option" where
  "memrchr m s c n = memrchr_loop m s (ucast c) (size_dec n)"

function memcmp_loop :: "mem \<Rightarrow> addr \<Rightarrow> addr \<Rightarrow> nat \<Rightarrow> nat \<Rightarrow> int option" where
  "memcmp_loop m s1 s2 n i =
     (if i < n then
        case (load m (s1 + i), load m (s2 + i)) of
          (Some a, Some b) \<Rightarrow>
            if a \<noteq> b then Some (if a < b then -1 else 1) else memcmp_loop m s1 s2 n (Suc i)
        | _ \<Rightarrow> None
      else Some 0)"
  by pat_completeness auto
termination by (relation "measure (\<lambda>(m, s1, s2, n, i). n - i)") auto

definition memcmp :: "mem \<Rightarrow> addr \<Rightarrow> addr \<Rightarrow> nat \<Rightarrow> int option" where
  "memcmp m s1 s2 n = memcmp_loop m s1 s2 n 0"

function memcpy_loop :: "mem \<Rightarrow> addr \<Rightarrow> addr \<Rightarrow> nat \<Rightarrow> nat \<Rightarrow> mem option" where
  "memcpy_loop m dest src n i =
     (if i < n then
        case load m (src + i) of None \<Rightarrow> None
        | Some b \<Rightarrow> (case store m (dest + i) b of None \<Rightarrow> None
                    | Some m' \<Rightarrow> memcpy_loop m' dest src n (Suc i))
      else Some m)"
  by pat_completeness auto
termination by (relation "measure (\<lambda>(m, dest, src, n, i). n - i)") auto

definition memcpy :: "mem \<Rightarrow> addr \<Rightarrow> addr \<Rightarrow> nat \<Rightarrow> (addr \<times> mem) option" where
  "memcpy m dest src n = map_option (Pair dest) (memcpy_loop m dest src n 0)"

function memset_loop :: "mem \<Rightarrow> addr \<Rightarrow> u8 \<Rightarrow> nat \<Rightarrow> nat \<Rightarrow> mem option" where
  "memset_loop m s c n i =
     (if i < n then
        case store m (s + i) c of None \<Rightarrow> None
        | Some m' \<Rightarrow> memset_loop m' s c n (Suc i)
      else Some m)"
  by pat_completeness auto
termination by (relation "measure (\<lambda>(m, s, c, n, i). n - i)") auto

definition memset :: "mem \<Rightarrow> addr \<Rightarrow> u32 \<Rightarrow> nat \<Rightarrow> (addr \<times> mem) option" where
  "memset m s c n = map_option (Pair s) (memset_loop m s (ucast c) n 0)"

subsection \<open>Lengths\<close>

function strlen_loop :: "mem \<Rightarrow> addr \<Rightarrow> nat \<Rightarrow> nat option" where
  "strlen_loop m s i =
     (case load m (s + i) of None \<Rightarrow> None
      | Some b \<Rightarrow> if b \<noteq> 0 then strlen_loop m s (Suc i) else Some i)"
  by pat_completeness auto
termination
  by (relation "measure (\<lambda>(m, s, i). length m - (s + i))") (auto dest!: load_SomeD)

definition strlen :: "mem \<Rightarrow> addr \<Rightarrow> nat option" where
  "strlen m s = strlen_loop m s 0"

function strnlen_loop :: "mem \<Rightarrow> addr \<Rightarrow> nat \<Rightarrow> nat \<Rightarrow> nat option" where
  "strnlen_loop m s maxlen i =
     (if i < maxlen then
        case load m (s + i) of None \<Rightarrow> None
        | Some b \<Rightarrow> if b \<noteq> 0 then strnlen_loop m s maxlen (Suc i) else Some i
      else Some i)"
  by pat_completeness auto
termination by (relation "measure (\<lambda>(m, s, maxlen, i). maxlen - i)") auto

definition strnlen :: "mem \<Rightarrow> addr \<Rightarrow> nat \<Rightarrow> nat option" where
  "strnlen m s maxlen = strnlen_loop m s maxlen 0"

subsection \<open>Concatenation\<close>

function strcat_loop :: "mem \<Rightarrow> addr \<Rightarrow> addr \<Rightarrow> nat \<Rightarrow> mem option" where
  "strcat_loop m dest src i =
     (case load m src of None \<Rightarrow> None
      | Some b \<Rightarrow>
          if b \<noteq> 0 then
            (case store m (dest + i) b of None \<Rightarrow> None
             | Some m' \<Rightarrow> strcat_loop m' dest (Suc src) (Suc i))
          else store m (dest + i) 0)"
  by pat_completeness auto
termination
  by (relation "measure (\<lambda>(m, dest, src, i). length m - src)")
     (auto dest!: load_SomeD store_SomeD)

definition strcat :: "mem \<Rightarrow> addr \<Rightarrow> addr \<Rightarrow> (addr \<times> mem) option" where
  "strcat m dest src =
     (case strlen m dest of None \<Rightarrow> None
      | Some i \<Rightarrow> map_option (Pair dest) (strcat_loop m dest src i))"

text \<open>The source never advances \<open>destI\<close>.\<close>

function strncat_loop :: "mem \<Rightarrow> addr \<Rightarrow> addr \<Rightarrow> nat \<Rightarrow> nat \<Rightarrow> nat \<Rightarrow> mem option" where
  "strncat_loop m dest src n destI i =
     (if i < n then
        case load m (src + i) of None \<Rightarrow> None
        | Some b \<Rightarrow>
            if b = 0 then store m (dest + destI) 0
            else (case store m (dest + destI) b of None \<Rightarrow> None
                  | Some m' \<Rightarrow> strncat_loop m' dest src n destI (Suc i))
      else store m (dest + destI) 0)"
  by pat_completeness auto
termination by (relation "measure (\<lambda>(m, dest, src, n, destI, i). n - i)") auto

definition strncat :: "mem \<Rightarrow> addr \<Rightarrow> addr \<Rightarrow> nat \<Rightarrow> (addr \<times> mem) option" where
  "strncat m dest src n =
     (case strlen m dest of None \<Rightarrow> None
      | Some destI \<Rightarrow> map_option (Pair dest) (strncat_loop m dest src n destI 0))"

subsection \<open>Searching\<close>

function strchr_loop :: "mem \<Rightarrow> addr \<Rightarrow> u8 \<Rightarrow> addr option" where
  "strchr_loop m s c =
     (case load m s of None \<Rightarrow> None
      | Some b \<Rightarrow> if b \<noteq> 0 then (if b = c then Some s else strchr_loop m (Suc s) c)
                 else Some NULL)"
  by pat_completeness auto
termination
  by (relation "measure (\<lambda>(m, s, c). length m - s)") (auto dest!: load_SomeD)

definition strchr :: "mem \<Rightarrow> addr \<Rightarrow> u32 \<Rightarrow> addr option" where
  "strchr m s c = strchr_loop m s (ucast c)"

function strrchr_loop :: "mem \<Rightarrow> addr \<Rightarrow> u8 \<Rightarrow> addr \<Rightarrow> addr option" where
  "strrchr_loop m s c lastOccurrence =
     (case load m s of None \<Rightarrow> None
      | Some b \<Rightarrow> if b \<noteq> 0 then strrchr_loop m (Suc s) c (if b = c then s else lastOccurrence)
                 else Some lastOccurrence)"
  by pat_completeness auto
termination
  by (relation "measure (\<lambda>(m, s, c, l). length m - s)") (auto dest!: load_SomeD)

definition strrchr :: "mem \<Rightarrow> addr \<Rightarrow> u32 \<Rightarrow> addr option" where
  "strrchr m s c = strrchr_loop m s (ucast c) NULL"

subsection \<open>Comparison\<close>

function strcmp_loop :: "mem \<Rightarrow> addr \<Rightarrow> addr \<Rightarrow> nat \<Rightarrow> int option" where
  "strcmp_loop m str1 str2 i =
     (case (load m (str1 + i), load m (str2 + i)) of
        (Some a, Some b) \<Rightarrow>
          if a = b then (if a = 0 then Some 0 else strcmp_loop m str1 str2 (Suc i))
          else Some (if a < b then -1 else 1)
      | _ \<Rightarrow> None)"
  by pat_completeness auto
termination
  by (relation "measure (\<lambda>(m, str1, str2, i). length m - (str1 + i))")
     (auto dest!: load_SomeD [OF sym])

definition strcmp :: "mem \<Rightarrow> addr \<Rightarrow> addr \<Rightarrow> int option" where
  "strcmp m str1 str2 = strcmp_loop m str1 str2 0"

function strncmp_loop :: "mem \<Rightarrow> addr \<Rightarrow> addr \<Rightarrow> nat \<Rightarrow> nat \<Rightarrow> int option" where
  "strncmp_loop m str1 str2 n i =
     (if i < n then
        case (load m (str1 + i), load m (str2 + i)) of
          (Some a, Some b) \<Rightarrow>
            if a \<noteq> b then Some (if a < b then -1 else 1)
            else if a = 0 then Some 0
            else strncmp_loop m str1 str2 n (Suc i)
        | _ \<Rightarrow> None
      else Some 0)"
  by pat_completeness auto
termination by (relation "measure (\<lambda>(m, str1, str2, n, i). n - i)") auto

definition strncmp :: "mem \<Rightarrow> addr \<Rightarrow> addr \<Rightarrow> nat \<Rightarrow> int option" where
  "strncmp m str1 str2 n = strncmp_loop m str1 str2 n 0"

subsection \<open>Copying\<close>

function strcpy_loop :: "mem \<Rightarrow> addr \<Rightarrow> addr \<Rightarrow> nat \<Rightarrow> mem option" where
  "strcpy_loop m dest src i =
     (case load m (src + i) of None \<Rightarrow> None
      | Some b \<Rightarrow>
          if b \<noteq> 0 then
            (case store m (dest + i) b of None \<Rightarrow> None
             | Some m' \<Rightarrow> strcpy_loop m' dest src (Suc i))
          else store m (dest + i) 0)"
  by pat_completeness auto
termination
  by (relation "measure (\<lambda>(m, dest, src, i). length m - (src + i))")
     (auto dest!: load_SomeD store_SomeD)

definition strcpy :: "mem \<Rightarrow> addr \<Rightarrow> addr \<Rightarrow> (addr \<times> mem) option" where
  "strcpy m dest src = map_option (Pair dest) (strcpy_loop m dest src 0)"

text \<open>The copying loop of \<open>strlcpy\<close> runs to \<open>size - 1\<close>; after it the source is only scanned.\<close>

function strlcpy_loop :: "mem \<Rightarrow> addr \<Rightarrow> addr \<Rightarrow> nat \<Rightarrow> nat \<Rightarrow> (nat \<times> mem) option" where
  "strlcpy_loop m dst src sz i =
     (if i < size_dec sz then
        case load m (src + i) of None \<Rightarrow> None
        | Some b \<Rightarrow> (case store m (dst + i) b of None \<Rightarrow> None
                    | Some m' \<Rightarrow>
                        (case load m' (src + i) of None \<Rightarrow> None
                         | Some b' \<Rightarrow> if b' = 0 then Some (i, m')
                                     else strlcpy_loop m' dst src sz (Suc i)))
      else
        (case store m (dst + i) 0 of None \<Rightarrow> None
         | Some m' \<Rightarrow> (case strlen_loop m' src i of None \<Rightarrow> None | Some j \<Rightarrow> Some (j, m'))))"
  by pat_completeness auto
termination by (relation "measure (\<lambda>(m, dst, src, sz, i). size_dec sz - i)") auto

definition strlcpy :: "mem \<Rightarrow> addr \<Rightarrow> addr \<Rightarrow> nat \<Rightarrow> (nat \<times> mem) option" where
  "strlcpy m dst src sz = strlcpy_loop m dst src sz 0"

function strncpy_loop :: "mem \<Rightarrow> addr \<Rightarrow> addr \<Rightarrow> nat \<Rightarrow> nat \<Rightarrow> mem option" where
  "strncpy_loop m dest src n i =
     (if i < n then
        case load m (src + i) of None \<Rightarrow> None
        | Some b \<Rightarrow>
            if b = 0 then memset_loop m dest 0 n i
            else (case store m (dest + i) b of None \<Rightarrow> None
                  | Some m' \<Rightarrow> strncpy_loop m' dest src n (Suc i))
      else Some m)"
  by pat_completeness auto
termination by (relation "measure (\<lambda>(m, dest, src, n, i). n - i)") auto

definition strncpy :: "mem \<Rightarrow> addr \<Rightarrow> addr \<Rightarrow> nat \<Rightarrow> (addr \<times> mem) option" where
  "strncpy m dest src n = map_option (Pair dest) (strncpy_loop m dest src n 0)"

text \<open>\<open>malloc\<close> takes the memory and a size and returns an address and the memory after it.\<close>

type_synonym malloc_fn = "mem \<Rightarrow> nat \<Rightarrow> addr \<times> mem"

definition strdup :: "malloc_fn \<Rightarrow> mem \<Rightarrow> addr \<Rightarrow> (addr \<times> mem) option" where
  "strdup malloc m s =
     (case strlen m s of None \<Rightarrow> None
      | Some len \<Rightarrow> (let (newstr, m') = malloc m (len + 1) in memcpy m' newstr s (len + 1)))"

definition strndup :: "malloc_fn \<Rightarrow> mem \<Rightarrow> addr \<Rightarrow> nat \<Rightarrow> (addr \<times> mem) option" where
  "strndup malloc m s n =
     (case strlen m s of None \<Rightarrow> None
      | Some slen \<Rightarrow>
          (let minLen = (if n > slen then slen else n);
               (newstr, m') = malloc m (minLen + 1)
           in case memcpy m' newstr s minLen of None \<Rightarrow> None
              | Some (_, m'') \<Rightarrow> map_option (Pair newstr) (store m'' (newstr + minLen) 0)))"

function rawstrcpy_loop :: "mem \<Rightarrow> addr \<Rightarrow> addr \<Rightarrow> nat \<Rightarrow> nat \<Rightarrow> mem option" where
  "rawstrcpy_loop m dest src n i =
     (if i < size_dec n then
        case load m (src + i) of None \<Rightarrow> None
        | Some b \<Rightarrow> (case store m (dest + i) b of None \<Rightarrow> None
                    | Some m' \<Rightarrow>
                        (case load m' (src + i) of None \<Rightarrow> None
                         | Some b' \<Rightarrow> if b' = 0 then Some m'
                                     else rawstrcpy_loop m' dest src n (Suc i)))
      else store m (dest + i) 0)"
  by pat_completeness auto
termination by (relation "measure (\<lambda>(m, dest, src, n, i). size_dec n - i)") auto

definition rawstrcpy :: "mem \<Rightarrow> addr \<Rightarrow> addr \<Rightarrow> nat \<Rightarrow> nat \<Rightarrow> (addr \<times> mem) option" where
  "rawstrcpy m dest src destSize srcSize =
     (let n = (if srcSize < destSize then srcSize else destSize)
      in map_option (Pair dest) (rawstrcpy_loop m dest src n 0))"

subsection \<open>memmove\<close>

text \<open>A \<open>long\<close> is read and written as its four bytes in memory order.\<close>

definition load_long :: "mem \<Rightarrow> addr \<Rightarrow> u8 list option" where
  "load_long m p = (if region m p 4 then Some (bytes_at m p 4) else None)"

definition store_long :: "mem \<Rightarrow> addr \<Rightarrow> u8 list \<Rightarrow> mem option" where
  "store_long m p w = (if region m p 4 then Some (blit m p w) else None)"

definition copy_long :: "mem \<Rightarrow> addr \<Rightarrow> addr \<Rightarrow> mem option" where
  "copy_long m dst src = Option.bind (load_long m src) (store_long m dst)"

definition UNALIGNED :: "addr \<Rightarrow> addr \<Rightarrow> bool" where
  "UNALIGNED x y \<longleftrightarrow> x mod 4 \<noteq> 0 \<or> y mod 4 \<noteq> 0"

definition BIGBLOCKSIZE :: nat where
  "BIGBLOCKSIZE = 16"

definition LITTLEBLOCKSIZE :: nat where
  "LITTLEBLOCKSIZE = 4"

definition TOO_SMALL :: "nat \<Rightarrow> bool" where
  "TOO_SMALL len \<longleftrightarrow> len < BIGBLOCKSIZE"

text \<open>\<open>while (length--) *--dst = *--src\<close>, from the ends of the two blocks.\<close>

fun move_backward :: "mem \<Rightarrow> addr \<Rightarrow> addr \<Rightarrow> nat \<Rightarrow> mem option" where
  "move_backward m dst src 0 = Some m"
| "move_backward m dst src (Suc len) =
     (case load m (src - 1) of None \<Rightarrow> None
      | Some b \<Rightarrow> (case store m (dst - 1) b of None \<Rightarrow> None
                  | Some m' \<Rightarrow> move_backward m' (dst - 1) (src - 1) len))"

text \<open>\<open>while (length--) *dst++ = *src++\<close>.\<close>

fun move_forward :: "mem \<Rightarrow> addr \<Rightarrow> addr \<Rightarrow> nat \<Rightarrow> mem option" where
  "move_forward m dst src 0 = Some m"
| "move_forward m dst src (Suc len) =
     (case load m src of None \<Rightarrow> None
      | Some b \<Rightarrow> (case store m dst b of None \<Rightarrow> None
                  | Some m' \<Rightarrow> move_forward m' (Suc dst) (Suc src) len))"

text \<open>The two loops over words return the memory, the advanced pointers and what is left.\<close>

function move_littleblocks ::
  "mem \<Rightarrow> addr \<Rightarrow> addr \<Rightarrow> nat \<Rightarrow> (mem \<times> addr \<times> addr \<times> nat) option" where
  "move_littleblocks m dst src len =
     (if LITTLEBLOCKSIZE \<le> len then
        case copy_long m dst src of None \<Rightarrow> None
        | Some m' \<Rightarrow> move_littleblocks m' (dst + 4) (src + 4) (len - LITTLEBLOCKSIZE)
      else Some (m, dst, src, len))"
  by pat_completeness auto
termination
  by (relation "measure (\<lambda>(m, dst, src, len). len)") (auto simp: LITTLEBLOCKSIZE_def)

function move_bigblocks ::
  "mem \<Rightarrow> addr \<Rightarrow> addr \<Rightarrow> nat \<Rightarrow> (mem \<times> addr \<times> addr \<times> nat) option" where
  "move_bigblocks m dst src len =
     (if BIGBLOCKSIZE \<le> len then
        case do { m1 \<leftarrow> copy_long m dst src;
                  m2 \<leftarrow> copy_long m1 (dst + 4) (src + 4);
                  m3 \<leftarrow> copy_long m2 (dst + 8) (src + 8);
                  copy_long m3 (dst + 12) (src + 12) } of
          None \<Rightarrow> None
        | Some m' \<Rightarrow> move_bigblocks m' (dst + 16) (src + 16) (len - BIGBLOCKSIZE)
      else Some (m, dst, src, len))"
  by pat_completeness auto
termination
  by (relation "measure (\<lambda>(m, dst, src, len). len)") (auto simp: BIGBLOCKSIZE_def)

text \<open>The variant selected by \<open>PREFER_SIZE_OVER_SPEED\<close> or \<open>__OPTIMIZE_SIZE__\<close>.\<close>

definition memmove_size :: "mem \<Rightarrow> addr \<Rightarrow> addr \<Rightarrow> nat \<Rightarrow> (addr \<times> mem) option" where
  "memmove_size m dst_void src_void len =
     (let dst = dst_void; src = src_void in
      map_option (Pair dst_void)
       (if src < dst \<and> dst < src + len then move_backward m (dst + len) (src + len) len
        else move_forward m dst src len))"

definition memmove :: "mem \<Rightarrow> addr \<Rightarrow> addr \<Rightarrow> nat \<Rightarrow> (addr \<times> mem) option" where
  "memmove m dst_void src_void len =
     (let dst = dst_void; src = src_void in
      map_option (Pair dst_void)
       (if src < dst \<and> dst < src + len then move_backward m (dst + len) (src + len) len
        else if \<not> TOO_SMALL len \<and> \<not> UNALIGNED src dst then
          do { (m1, d1, s1, l1) \<leftarrow> move_bigblocks m dst src len;
               (m2, d2, s2, l2) \<leftarrow> move_littleblocks m1 d1 s1 l1;
               move_forward m2 d2 s2 l2 }
        else move_forward m dst src len))"

lemmas string_loops = memchr_loop.simps memcmp_loop.simps memcpy_loop.simps memset_loop.simps
  strlen_loop.simps strnlen_loop.simps strcat_loop.simps strncat_loop.simps strchr_loop.simps
  strrchr_loop.simps strcmp_loop.simps strncmp_loop.simps strcpy_loop.simps strlcpy_loop.simps
  strncpy_loop.simps rawstrcpy_loop.simps move_littleblocks.simps move_bigblocks.simps

declare string_loops [simp del]

section \<open>Block copies\<close>

text \<open>Copying upwards never overwrites a byte that is still to be read.\<close>

definition fwd_ok :: "mem \<Rightarrow> addr \<Rightarrow> addr \<Rightarrow> nat \<Rightarrow> bool" where
  "fwd_ok m d s n \<longleftrightarrow> region m d n \<and> region m s n \<and> (d \<le> s \<or> s + n \<le> d)"

text \<open>Memory after the first \<open>i\<close> of the \<open>n\<close> bytes at \<open>s\<close> have been copied to \<open>d\<close>.\<close>

definition copied :: "mem \<Rightarrow> addr \<Rightarrow> addr \<Rightarrow> nat \<Rightarrow> nat \<Rightarrow> mem" where
  "copied m d s n i = blit m d (take i (bytes_at m s n))"

lemma copied_0: "fwd_ok m d s n \<Longrightarrow> copied m d s n 0 = m"
  by (simp add: copied_def fwd_ok_def region_def)

lemma copied_all: "region m s n \<Longrightarrow> copied m d s n n = blit m d (bytes_at m s n)"
  by (simp add: copied_def)

lemma length_take_bytes_at: "region m s n \<Longrightarrow> i \<le> n \<Longrightarrow> length (take i (bytes_at m s n)) = i"
  by simp

lemma bytes_at_sub: "i + c \<le> n \<Longrightarrow> bytes_at m (s + i) c = take c (drop i (bytes_at m s n))"
  by (simp add: bytes_at_def drop_take add.commute)

lemma region_copied: "fwd_ok m d s n \<Longrightarrow> i \<le> n \<Longrightarrow> region (copied m d s n i) p k = region m p k"
  unfolding copied_def
  by (rule region_blit) (auto simp: fwd_ok_def region_def)

lemma bytes_at_copied:
  assumes "fwd_ok m d s n" and "i + c \<le> n"
  shows "bytes_at (copied m d s n i) (s + i) c = take c (drop i (bytes_at m s n))"
proof -
  let ?xs = "take i (bytes_at m s n)"
  from assms have len: "length ?xs = i" by (simp add: fwd_ok_def)
  have "bytes_at (blit m d ?xs) (s + i) c = bytes_at m (s + i) c"
  proof (rule bytes_at_blit_other)
    show "region m d (length ?xs)" "region m (s + i) c"
      "disjnt_blocks d (length ?xs) (s + i) c"
      using assms len by (auto simp: fwd_ok_def region_def disjnt_blocks_def)
  qed
  with bytes_at_sub [OF assms(2)] show ?thesis by (simp add: copied_def)
qed

lemma copied_step:
  assumes "fwd_ok m d s n" and "i + c \<le> n"
  shows "blit (copied m d s n i) (d + i) (bytes_at (copied m d s n i) (s + i) c)
    = copied m d s n (i + c)"
proof -
  let ?xs = "bytes_at m s n"
  from assms have len: "length (take i ?xs) = i" "length (take c (drop i ?xs)) = c"
    by (simp_all add: fwd_ok_def)
  have "blit (blit m d (take i ?xs)) (d + length (take i ?xs)) (take c (drop i ?xs))
      = blit m d (take i ?xs @ take c (drop i ?xs))"
    using assms len by (intro blit_blit_append) (auto simp: fwd_ok_def region_def)
  with len assms show ?thesis
    by (simp add: bytes_at_copied) (simp add: copied_def take_add [symmetric])
qed

lemma load_bytes_at: "region m p 1 \<Longrightarrow> load m p = Some (hd (bytes_at m p 1))"
  by (simp add: mem_defs take_Suc hd_drop_conv_nth)

lemma bytes_at_1: "region m p 1 \<Longrightarrow> bytes_at m p 1 = [m ! p]"
  by (simp add: mem_defs take_Suc hd_drop_conv_nth)

lemma copy_byte:
  assumes "fwd_ok m d s n" and "i < n"
  shows "\<exists>b. load (copied m d s n i) (s + i) = Some b
    \<and> store (copied m d s n i) (d + i) b = Some (copied m d s n (Suc i))"
proof -
  let ?m = "copied m d s n i"
  from assms have r: "region ?m (s + i) 1" "region ?m (d + i) 1"
    by (auto simp: region_copied) (auto simp: fwd_ok_def region_def)
  have "blit ?m (d + i) [?m ! (s + i)] = copied m d s n (Suc i)"
    using copied_step [OF assms(1), of i 1] assms(2) bytes_at_1 [OF r(1)] by simp
  moreover have "load ?m (s + i) = Some (?m ! (s + i))"
    using r(1) by (simp add: mem_defs)
  moreover have "store ?m (d + i) (?m ! (s + i)) = Some (blit ?m (d + i) [?m ! (s + i)])"
    using r(2) by (intro store_blit) (simp_all add: region_def)
  ultimately show ?thesis by auto
qed

lemma memcpy_loop_copied:
  assumes "fwd_ok m d s n"
  shows "i \<le> n \<Longrightarrow> memcpy_loop (copied m d s n i) d s n i = Some (copied m d s n n)"
proof (induction "n - i" arbitrary: i)
  case 0
  then show ?case by (simp add: memcpy_loop.simps)
next
  case (Suc k)
  then have i: "i < n" by simp
  from copy_byte [OF assms i] obtain b where
    "load (copied m d s n i) (s + i) = Some b"
    "store (copied m d s n i) (d + i) b = Some (copied m d s n (Suc i))" by blast
  with i Suc show ?case by (simp add: memcpy_loop.simps [where i = i])
qed

lemma move_forward_copied:
  assumes "fwd_ok m d s n"
  shows "i \<le> n \<Longrightarrow> move_forward (copied m d s n i) (d + i) (s + i) (n - i) = Some (copied m d s n n)"
proof (induction "n - i" arbitrary: i)
  case 0
  then show ?case by simp
next
  case (Suc k)
  then have i: "i < n" and k: "n - i = Suc (n - Suc i)" by simp_all
  from copy_byte [OF assms i] obtain b where
    "load (copied m d s n i) (s + i) = Some b"
    "store (copied m d s n i) (d + i) b = Some (copied m d s n (Suc i))" by blast
  moreover have "move_forward (copied m d s n (Suc i)) (d + Suc i) (s + Suc i) (n - Suc i)
    = Some (copied m d s n n)"
    using Suc i by (intro Suc.hyps(1)) auto
  ultimately show ?case unfolding k by simp
qed

lemma copy_long_copied:
  assumes "fwd_ok m d s n" and "i + 4 \<le> n"
  shows "copy_long (copied m d s n i) (d + i) (s + i) = Some (copied m d s n (i + 4))"
proof -
  from assms have "region (copied m d s n i) (s + i) 4" "region (copied m d s n i) (d + i) 4"
    by (auto simp: region_copied) (auto simp: fwd_ok_def region_def)
  then show ?thesis
    by (simp add: copy_long_def load_long_def store_long_def copied_step [OF assms])
qed

lemma move_littleblocks_copied:
  assumes "fwd_ok m d s n"
  shows "i \<le> n \<Longrightarrow> \<exists>j \<le> n. move_littleblocks (copied m d s n i) (d + i) (s + i) (n - i)
    = Some (copied m d s n j, d + j, s + j, n - j)"
proof (induction "n - i" arbitrary: i rule: less_induct)
  case less
  show ?case
  proof (cases "4 \<le> n - i")
    case True
    with less have "\<exists>j \<le> n. move_littleblocks (copied m d s n (i + 4)) (d + (i + 4)) (s + (i + 4))
        (n - (i + 4)) = Some (copied m d s n j, d + j, s + j, n - j)"
      by (intro less.hyps) auto
    with True copy_long_copied [OF assms, of i] show ?thesis
      by (simp add: move_littleblocks.simps [of "copied m d s n i"] LITTLEBLOCKSIZE_def
          add.assoc)
  next
    case False
    with less.prems show ?thesis
      by (auto simp: move_littleblocks.simps [of "copied m d s n i"] LITTLEBLOCKSIZE_def)
  qed
qed

lemma move_bigblocks_copied:
  assumes "fwd_ok m d s n"
  shows "i \<le> n \<Longrightarrow> \<exists>j \<le> n. move_bigblocks (copied m d s n i) (d + i) (s + i) (n - i)
    = Some (copied m d s n j, d + j, s + j, n - j)"
proof (induction "n - i" arbitrary: i rule: less_induct)
  case less
  show ?case
  proof (cases "16 \<le> n - i")
    case True
    then have l: "i + 4 \<le> n" "(i + 4) + 4 \<le> n" "(i + 8) + 4 \<le> n" "(i + 12) + 4 \<le> n" by auto
    from True less
    have "\<exists>j \<le> n. move_bigblocks (copied m d s n (i + 16)) (d + (i + 16)) (s + (i + 16))
        (n - (i + 16)) = Some (copied m d s n j, d + j, s + j, n - j)"
      by (intro less.hyps) auto
    with l [THEN copy_long_copied [OF assms]] True show ?thesis
      by (simp add: move_bigblocks.simps [of "copied m d s n i"] BIGBLOCKSIZE_def add.assoc)
  next
    case False
    with less.prems show ?thesis
      by (auto simp: move_bigblocks.simps [of "copied m d s n i"] BIGBLOCKSIZE_def)
  qed
qed

text \<open>Copying downwards: the last \<open>k\<close> bytes have been moved.\<close>

lemma move_backward_moved:
  assumes "region m d n" and "region m s n" and "s < d"
  shows "k \<le> n \<Longrightarrow> move_backward (blit m (d + k) (drop k (bytes_at m s n))) (d + k) (s + k) k
    = Some (blit m d (bytes_at m s n))"
proof (induction k)
  case 0
  then show ?case by simp
next
  case (Suc k)
  let ?xs = "bytes_at m s n" and ?m = "blit m (d + Suc k) (drop (Suc k) (bytes_at m s n))"
  from assms Suc.prems have len: "length ?xs = n" "k < length ?xs" by auto
  have rd: "region m (d + Suc k) (length (drop (Suc k) ?xs))"
    using assms Suc.prems len by (auto simp: region_def)
  have lenm: "length ?m = length m" using rd by simp
  have "?m ! (s + k) = m ! (s + k)"
    using rd assms Suc.prems by (subst nth_blit) (auto simp: region_def)
  then have "load ?m (s + k) = Some (?xs ! k)"
    using assms Suc.prems lenm by (auto simp: load_def region_def bytes_at_def)
  moreover have "store ?m (d + k) (?xs ! k) = Some (blit m (d + k) (drop k ?xs))"
  proof -
    have "store ?m (d + k) (?xs ! k) = Some (blit ?m (d + k) [?xs ! k])"
      using assms Suc.prems lenm by (intro store_blit) (auto simp: region_def)
    also have "blit ?m (d + k) [?xs ! k] = blit m (d + k) (?xs ! k # drop (Suc k) ?xs)"
    proof (rule blit_nthI)
      show "length (blit ?m (d + k) [?xs ! k]) = length m"
        using assms Suc.prems lenm by (simp add: region_def)
      show "region m (d + k) (length (?xs ! k # drop (Suc k) ?xs))"
        using assms Suc.prems len by (auto simp: region_def)
    next
      fix i assume i: "i < length m"
      have "region ?m (d + k) (length [?xs ! k])"
        using assms Suc.prems lenm by (auto simp: region_def)
      then show "blit ?m (d + k) [?xs ! k] ! i =
          (if d + k \<le> i \<and> i < d + k + length (?xs ! k # drop (Suc k) ?xs)
           then (?xs ! k # drop (Suc k) ?xs) ! (i - (d + k)) else m ! i)"
        using i lenm rd by (auto simp: nth_blit nth_Cons')
    qed
    also have "?xs ! k # drop (Suc k) ?xs = drop k ?xs"
      using len by (simp add: Cons_nth_drop_Suc)
    finally show ?thesis .
  qed
  ultimately show ?case using Suc by simp
qed

lemma move_backward_blit:
  assumes "region m d n" and "region m s n" and "s < d \<and> d < s + n"
  shows "move_backward m (d + n) (s + n) n = Some (blit m d (bytes_at m s n))"
proof -
  have "d + n \<le> length m" using assms(1) by (simp add: region_def)
  with move_backward_moved [of m d n s n] assms show ?thesis by simp
qed

lemma move_forward_blit:
  assumes "region m d n" and "region m s n" and "\<not> (s < d \<and> d < s + n)"
  shows "move_forward m d s n = Some (blit m d (bytes_at m s n))"
proof -
  from assms have ok: "fwd_ok m d s n" by (auto simp: fwd_ok_def)
  from move_forward_copied [OF ok, of 0] show ?thesis
    by (simp add: copied_0 [OF ok] copied_all [OF assms(2)])
qed

lemma memmove_size_blit:
  assumes "region m d n" and "region m s n"
  shows "memmove_size m d s n = Some (d, blit m d (bytes_at m s n))"
  using move_backward_blit [OF assms] move_forward_blit [OF assms]
  by (cases "s < d \<and> d < s + n") (auto simp: memmove_size_def)

lemma memmove_blit:
  assumes "region m d n" and "region m s n"
  shows "memmove m d s n = Some (d, blit m d (bytes_at m s n))"
proof (cases "s < d \<and> d < s + n")
  case True
  with move_backward_blit [OF assms True] show ?thesis by (simp add: memmove_def)
next
  case False
  with assms have ok: "fwd_ok m d s n" by (auto simp: fwd_ok_def)
  from move_bigblocks_copied [OF ok, of 0] obtain j where j: "j \<le> n"
    "move_bigblocks m d s n = Some (copied m d s n j, d + j, s + j, n - j)"
    by (auto simp: copied_0 [OF ok])
  from move_littleblocks_copied [OF ok j(1)] obtain k where k: "k \<le> n"
    "move_littleblocks (copied m d s n j) (d + j) (s + j) (n - j)
      = Some (copied m d s n k, d + k, s + k, n - k)" by blast
  have "move_forward (copied m d s n k) (d + k) (s + k) (n - k) = Some (copied m d s n n)"
    using ok k(1) by (rule move_forward_copied)
  with False j k move_forward_blit [OF assms False] show ?thesis
    by (auto simp: memmove_def copied_all [OF assms(2)])
qed

lemma memcpy_blit:
  assumes "region m d n" and "region m s n" and "d \<le> s \<or> s + n \<le> d"
  shows "memcpy m d s n = Some (d, blit m d (bytes_at m s n))"
proof -
  from assms have ok: "fwd_ok m d s n" by (simp add: fwd_ok_def)
  from memcpy_loop_copied [OF ok, of 0] show ?thesis
    by (simp add: memcpy_def copied_0 [OF ok] copied_all [OF assms(2)])
qed

lemma memset_loop_blit:
  assumes "region m p n"
  shows "i \<le> n \<Longrightarrow> memset_loop m p c n i = Some (blit m (p + i) (replicate (n - i) c))"
  using assms
proof (induction "n - i" arbitrary: i m)
  case 0
  then show ?case by (simp add: memset_loop.simps region_def)
next
  case (Suc k)
  then have i: "i < n" "n - i = Suc (n - Suc i)" by simp_all
  from Suc i have st: "store m (p + i) c = Some (blit m (p + i) [c])"
    by (intro store_blit) (auto simp: region_def)
  have "memset_loop (blit m (p + i) [c]) p c n (Suc i)
      = Some (blit (blit m (p + i) [c]) (p + Suc i) (replicate (n - Suc i) c))"
    using Suc i by (intro Suc.hyps(1)) (auto simp: region_def blit_def)
  also have "blit (blit m (p + i) [c]) (p + Suc i) (replicate (n - Suc i) c)
      = blit m (p + i) ([c] @ replicate (n - Suc i) c)"
    using blit_blit_append [of m "p + i" "[c]" "replicate (n - Suc i) c"] Suc.prems i
    by (simp add: region_def)
  finally show ?case using i st by (simp add: memset_loop.simps [where i = i])
qed

lemma memset_blit: "region m p n \<Longrightarrow> memset m p c n = Some (p, blit m p (replicate n (ucast c)))"
  using memset_loop_blit [of m p n 0] by (simp add: memset_def)

section \<open>Lengths\<close>

lemma strlen_loop_cstr:
  assumes "cstr m p s"
  shows "i \<le> length s \<Longrightarrow> strlen_loop m p i = Some (length s)"
proof (induction "length s - i" arbitrary: i)
  case 0
  with cstr_load_end [OF assms] show ?case by (simp add: strlen_loop.simps [where i = i])
next
  case (Suc k)
  then have "i < length s" by simp
  with Suc assms show ?case
    by (simp add: strlen_loop.simps [where i = i] cstr_load_char cstr_char_nonzero)
qed

lemma strlen_cstr: "cstr m p s \<Longrightarrow> strlen m p = Some (length s)"
  by (simp add: strlen_def strlen_loop_cstr)

lemma strlen_loop_SomeD:
  "strlen_loop m p i = Some n \<Longrightarrow>
     i \<le> n \<and> load m (p + n) = Some 0 \<and> (\<forall>j. i \<le> j \<and> j < n \<longrightarrow> (\<exists>b. load m (p + j) = Some b \<and> b \<noteq> 0))"
proof (induction m p i rule: strlen_loop.induct)
  case (1 m p i)
  show ?case
  proof (cases "load m (p + i)")
    case None
    with "1.prems" show ?thesis by (simp add: strlen_loop.simps [of m p i])
  next
    case (Some b)
    show ?thesis
    proof (cases "b = 0")
      case True
      with Some "1.prems" show ?thesis by (auto simp: strlen_loop.simps [of m p i])
    next
      case False
      with Some "1.prems" "1.IH" [OF Some False] show ?thesis
        by (auto simp: strlen_loop.simps [of m p i]) (metis Suc_leI le_neq_implies_less)
    qed
  qed
qed

lemma strlen_SomeD:
  assumes "strlen m p = Some n"
  shows "cstr m p (bytes_at m p n)"
proof -
  from assms strlen_loop_SomeD have n: "load m (p + n) = Some 0"
    and j: "\<And>j. j < n \<Longrightarrow> \<exists>b. load m (p + j) = Some b \<and> b \<noteq> 0"
    by (fastforce simp: strlen_def)+
  have p: "0 < p"
    using n j [of 0] by (cases "n = 0") (auto dest!: load_SomeD)
  with n have r: "region m p (Suc n)" by (auto simp: region_def dest!: load_SomeD)
  then have "bytes_at m p (Suc n) = bytes_at m p n @ [0]"
    using n by (auto simp: bytes_at_def region_def take_Suc_conv_app_nth dest!: load_SomeD)
  moreover have "0 \<notin> set (bytes_at m p n)"
    using j r by (fastforce simp: in_set_conv_nth nth_bytes_at region_def load_def)
  ultimately show ?thesis using r by (simp add: cstr_def region_mono)
qed

lemma strlen_iff: "strlen m p = Some n \<longleftrightarrow> (\<exists>s. cstr m p s \<and> length s = n)"
proof
  assume "strlen m p = Some n"
  from strlen_SomeD [OF this] strlen_cstr [OF strlen_SomeD [OF this]] this
  show "\<exists>s. cstr m p s \<and> length s = n" by auto
next
  assume "\<exists>s. cstr m p s \<and> length s = n"
  then show "strlen m p = Some n" using strlen_cstr by blast
qed

section \<open>Comparison\<close>

text \<open>Reference: three-way lexicographic comparison of unsigned bytes.\<close>

fun lex3 :: "u8 list \<Rightarrow> u8 list \<Rightarrow> int" where
  "lex3 [] [] = 0"
| "lex3 [] (b # t) = -1"
| "lex3 (a # s) [] = 1"
| "lex3 (a # s) (b # t) = (if a = b then lex3 s t else if a < b then -1 else 1)"

lemma lex3_zero: "lex3 s t = 0 \<longleftrightarrow> s = t"
  by (induction s t rule: lex3.induct) auto

lemma lex3_antisym: "lex3 s t = - lex3 t s"
  by (induction s t rule: lex3.induct) auto

lemma lex3_trans: "lex3 s t = -1 \<Longrightarrow> lex3 t u = -1 \<Longrightarrow> lex3 s u = -1"
proof (induction s t arbitrary: u rule: lex3.induct)
  case (4 a s b t)
  then show ?case by (cases u) (auto split: if_splits)
next
  case (2 b t)
  then show ?case by (cases u) auto
qed auto

lemma strcmp_loop_lex3:
  assumes "cstr m p s" and "cstr m q t"
  shows "i \<le> length s \<Longrightarrow> i \<le> length t \<Longrightarrow> strcmp_loop m p q i = Some (lex3 (drop i s) (drop i t))"
proof (induction "length s - i" arbitrary: i)
  case 0
  then have i: "i = length s" by simp
  note ld = cstr_load [OF assms(1), of i] cstr_load [OF assms(2), of i]
  show ?case
  proof (cases "i = length t")
    case True
    with i ld show ?thesis by (subst strcmp_loop.simps) (simp add: nth_append)
  next
    case False
    with 0 have t: "i < length t" by simp
    with i ld cstr_char_nonzero [OF assms(2) t] show ?thesis
      by (subst strcmp_loop.simps) (simp add: Cons_nth_drop_Suc [symmetric] nth_append
          word_gt_0)
  qed
next
  case (Suc k)
  then have s: "i < length s" by simp
  note ld = cstr_load [OF assms(1), of i] cstr_load [OF assms(2), of i]
  show ?case
  proof (cases "i = length t")
    case True
    with s ld cstr_char_nonzero [OF assms(1) s] show ?thesis
      by (subst strcmp_loop.simps) (simp add: Cons_nth_drop_Suc [symmetric] nth_append)
  next
    case False
    with Suc have t: "i < length t" by simp
    with s ld Suc cstr_char_nonzero [OF assms(1) s] show ?thesis
      by (subst strcmp_loop.simps) (simp add: Cons_nth_drop_Suc [symmetric] nth_append)
  qed
qed

lemma strcmp_lex3: "cstr m p s \<Longrightarrow> cstr m q t \<Longrightarrow> strcmp m p q = Some (lex3 s t)"
  using strcmp_loop_lex3 [of m p s q t 0] by (simp add: strcmp_def)

lemma strncmp_loop_lex3:
  assumes "cstr m p s" and "cstr m q t"
  shows "i \<le> length s \<Longrightarrow> i \<le> length t \<Longrightarrow>
    strncmp_loop m p q n i = Some (lex3 (take (n - i) (drop i s)) (take (n - i) (drop i t)))"
proof (induction "n - i" arbitrary: i)
  case 0
  then show ?case by (simp add: strncmp_loop.simps [of m p q n i])
next
  case (Suc k)
  then have n: "i < n" "n - i = Suc (n - Suc i)" by simp_all
  note ld = cstr_load [OF assms(1), of i] cstr_load [OF assms(2), of i]
  consider "i = length s" "i = length t" | "i = length s" "i < length t"
    | "i < length s" "i = length t" | "i < length s" "i < length t"
    using Suc.prems by linarith
  then show ?case
  proof cases
    case 1
    with n ld show ?thesis by (subst strncmp_loop.simps) (simp add: nth_append)
  next
    case 2
    with n ld cstr_char_nonzero [OF assms(2) 2(2)] show ?thesis
      by (subst strncmp_loop.simps) (simp add: Cons_nth_drop_Suc [symmetric] nth_append
          word_gt_0)
  next
    case 3
    with n ld cstr_char_nonzero [OF assms(1) 3(1)] show ?thesis
      by (subst strncmp_loop.simps) (simp add: Cons_nth_drop_Suc [symmetric] nth_append)
  next
    case 4
    with n ld Suc cstr_char_nonzero [OF assms(1) 4(1)] show ?thesis
      by (subst strncmp_loop.simps) (simp add: Cons_nth_drop_Suc [symmetric] nth_append)
  qed
qed

lemma strncmp_lex3:
  "cstr m p s \<Longrightarrow> cstr m q t \<Longrightarrow> strncmp m p q n = Some (lex3 (take n s) (take n t))"
  using strncmp_loop_lex3 [of m p s q t 0 n] by (simp add: strncmp_def)

lemma memcmp_loop_lex3:
  assumes "region m p n" and "region m q n"
  shows "i \<le> n \<Longrightarrow> memcmp_loop m p q n i
    = Some (lex3 (drop i (bytes_at m p n)) (drop i (bytes_at m q n)))"
proof (induction "n - i" arbitrary: i)
  case 0
  with assms show ?case by (subst memcmp_loop.simps) simp
next
  case (Suc k)
  then have i: "i < n" by simp
  have d: "drop i (bytes_at m r n) = m ! (r + i) # drop (Suc i) (bytes_at m r n)"
    if "region m r n" for r
    using that i by (simp add: Cons_nth_drop_Suc [symmetric] nth_bytes_at)
  have "load m (p + i) = Some (m ! (p + i))" "load m (q + i) = Some (m ! (q + i))"
    using assms i by (auto simp: load_def region_def)
  with i Suc show ?case
    by (simp add: memcmp_loop.simps [of m p q n i] d [OF assms(1)] d [OF assms(2)])
qed

lemma memcmp_lex3:
  "region m p n \<Longrightarrow> region m q n \<Longrightarrow> memcmp m p q n = Some (lex3 (bytes_at m p n) (bytes_at m q n))"
  using memcmp_loop_lex3 [of m p n q 0] by (simp add: memcmp_def)

section \<open>String copies\<close>

lemma strcpy_loop_blit:
  assumes "cstr m src s" and "region m dest (Suc (length s))"
    and "disjnt_blocks dest (Suc (length s)) src (Suc (length s))"
  shows "i \<le> length s \<Longrightarrow>
    strcpy_loop (blit m dest (take i s)) dest src i = Some (blit m dest (s @ [0]))"
proof (induction "length s - i" arbitrary: i)
  case 0
  then have i: "i = length s" by simp
  have r: "region m dest (length s)" using assms(2) by (simp add: region_mono)
  have "cstr (blit m dest s) src s"
    using assms r by (intro cstr_blit_other) (auto simp: disjnt_blocks_def)
  note ld = cstr_load_end [OF this]
  have "store (blit m dest s) (dest + length s) 0 = Some (blit (blit m dest s) (dest + length s) [0])"
    using assms(2) r by (intro store_blit) (auto simp: region_def)
  also have "blit (blit m dest s) (dest + length s) [0] = blit m dest (s @ [0])"
    using assms(2) by (intro blit_blit_append) simp
  finally show ?case using i ld by (subst strcpy_loop.simps) simp
next
  case (Suc k)
  then have i: "i < length s" by simp
  have r: "region m dest (length (take i s))" using assms(2) i by (simp add: region_mono)
  have "cstr (blit m dest (take i s)) src s"
    using assms r i by (intro cstr_blit_other) (auto simp: disjnt_blocks_def)
  note ld = cstr_load_char [OF this i]
  have "store (blit m dest (take i s)) (dest + i) (s ! i)
      = Some (blit (blit m dest (take i s)) (dest + length (take i s)) [s ! i])"
    using assms(2) r i by (subst store_blit) (auto simp: region_def)
  also have "blit (blit m dest (take i s)) (dest + length (take i s)) [s ! i]
      = blit m dest (take i s @ [s ! i])"
    using assms(2) i by (intro blit_blit_append) (simp add: region_def)
  also have "take i s @ [s ! i] = take (Suc i) s" using i by (simp add: take_Suc_conv_app_nth)
  finally have st: "store (blit m dest (take i s)) (dest + i) (s ! i)
      = Some (blit m dest (take (Suc i) s))" .
  from Suc i ld st cstr_char_nonzero [OF assms(1) i] show ?case
    by (subst strcpy_loop.simps) simp
qed

lemma strcpy_blit:
  assumes "cstr m src s" and "region m dest (Suc (length s))"
    and "disjnt_blocks dest (Suc (length s)) src (Suc (length s))"
  shows "strcpy m dest src = Some (dest, blit m dest (s @ [0]))"
  using strcpy_loop_blit [OF assms, of 0] assms(2) by (simp add: strcpy_def region_def)

text \<open>\<open>strcat\<close> is \<open>strcpy\<close> to the end of the destination string.\<close>

lemma strcat_loop_shift:
  "strcat_loop m dest (src + i) (k + i) = strcpy_loop m (dest + k) src i"
proof (induction m "dest + k" src i rule: strcpy_loop.induct)
  case (1 m src i)
  show ?case
  proof (cases "load m (src + i)")
    case None
    then show ?thesis
      by (simp add: strcat_loop.simps [of m _ "src + i"] strcpy_loop.simps [of m _ src i])
  next
    case (Some b)
    show ?thesis
    proof (cases "b \<noteq> 0 \<and> store m (dest + k + i) b \<noteq> None")
      case True
      then obtain m' where "store m (dest + k + i) b = Some m'" by auto
      with 1 [OF Some] True Some show ?thesis
        by (simp add: strcat_loop.simps [of m _ "src + i"] strcpy_loop.simps [of m _ src i]
            add.assoc)
    next
      case False
      with Some show ?thesis
        by (auto simp: strcat_loop.simps [of m _ "src + i"] strcpy_loop.simps [of m _ src i]
            add.assoc)
    qed
  qed
qed

lemma strcat_blit:
  assumes "cstr m dest t" and "cstr m src s" and "region m dest (Suc (length t + length s))"
    and "disjnt_blocks dest (Suc (length t + length s)) src (Suc (length s))"
  shows "strcat m dest src = Some (dest, blit m (dest + length t) (s @ [0]))"
proof -
  have "strcpy_loop m (dest + length t) src 0 = Some (blit m (dest + length t) (s @ [0]))"
    using strcpy_loop_blit [OF assms(2), of "dest + length t" 0] assms(3,4)
    by (auto simp: region_def disjnt_blocks_def)
  with strcat_loop_shift [of m dest src 0 "length t"] strlen_cstr [OF assms(1)]
  show ?thesis by (simp add: strcat_def)
qed

lemma cstr_append_blit:
  assumes "cstr m p t" and "region m p (Suc (length t + length s))" and "0 \<notin> set s"
  shows "cstr (blit m (p + length t) (s @ [0])) p (t @ s)"
proof -
  have "blit m (p + length t) (s @ [0]) = blit m p (t @ s @ [0])"
  proof -
    have "bytes_at m p (length t) = t"
      using assms(1) by (auto simp: cstr_def bytes_at_def take_Suc_conv_app_nth region_def)
    then have "blit m p t = m" using assms(2)
      by (metis append_take_drop_id blit_def bytes_at_def drop_drop add.commute)
    with blit_blit_append [of m p t "s @ [0]"] assms(2) show ?thesis by simp
  qed
  with cstr_blit_same [of m p "t @ s"] assms show ?thesis by (auto simp: cstr_def)
qed

text \<open>\<open>strncat\<close> keeps writing the same byte.\<close>

lemma strncat_loop_store:
  assumes "region m dest (Suc k)" and "region m src n"
    and "disjnt_blocks (dest + k) 1 src n"
  shows "i \<le> n \<Longrightarrow> strncat_loop (m[dest + k := x]) dest src n k i = Some (m[dest + k := 0])"
proof (induction "n - i" arbitrary: i x)
  case 0
  with assms show ?case by (subst strncat_loop.simps) (simp add: store_def region_def)
next
  case (Suc j)
  then have i: "i < n" by simp
  from assms i have ld: "load (m[dest + k := x]) (src + i) = Some (m ! (src + i))"
    by (auto simp: load_def region_def disjnt_blocks_def)
  have st: "store (m[dest + k := x]) (dest + k) b = Some (m[dest + k := b])" for b
    using assms by (simp add: store_def region_def)
  show ?case
    using Suc i by (subst strncat_loop.simps) (simp add: ld st)
qed

text \<open>One character of a bounded copy: the shared step of \<open>strlcpy\<close> and \<open>strncpy\<close>.\<close>

lemma bounded_copy_char:
  assumes "cstr m src s" and "region m dest n" and "disjnt_blocks dest n src (Suc (length s))"
    and "i < n" and "i \<le> length s"
  shows "load (blit m dest (take i s)) (src + i) = Some ((s @ [0]) ! i)"
    and "store (blit m dest (take i s)) (dest + i) b = Some (blit m dest (take i s @ [b]))"
    and "load (blit m dest (take i s @ [b])) (src + i) = Some ((s @ [0]) ! i)"
proof -
  have r: "region m dest (length (take i s))" and r': "region m dest (length (take i s @ [b]))"
    using assms by (auto simp: region_def)
  have "cstr (blit m dest (take i s)) src s" "cstr (blit m dest (take i s @ [b])) src s"
    using assms r r' by (auto intro!: cstr_blit_other simp: disjnt_blocks_def)
  from this [THEN cstr_load, OF assms(5)]
  show "load (blit m dest (take i s)) (src + i) = Some ((s @ [0]) ! i)"
    "load (blit m dest (take i s @ [b])) (src + i) = Some ((s @ [0]) ! i)" by simp_all
  have "store (blit m dest (take i s)) (dest + i) b
      = Some (blit (blit m dest (take i s)) (dest + length (take i s)) [b])"
    using assms r by (subst store_blit) (auto simp: region_def)
  also have "blit (blit m dest (take i s)) (dest + length (take i s)) [b]
      = blit m dest (take i s @ [b])"
    using assms by (intro blit_blit_append) (auto simp: region_def)
  finally show "store (blit m dest (take i s)) (dest + i) b
      = Some (blit m dest (take i s @ [b]))" .
qed

lemma strlcpy_loop_blit:
  assumes "cstr m src s" and "region m dst sz" and "disjnt_blocks dst sz src (Suc (length s))"
    and "0 < sz"
  shows "i < sz \<Longrightarrow> i \<le> length s \<Longrightarrow>
    strlcpy_loop (blit m dst (take i s)) dst src sz i
      = Some (length s, blit m dst (take (sz - 1) s @ [0]))"
proof (induction "sz - i" arbitrary: i)
  case 0
  then show ?case by simp
next
  case (Suc k)
  note step = bounded_copy_char [OF assms(1-3) Suc.prems]
  have dec: "size_dec sz = sz - 1" using assms(4) by (simp add: size_dec_def)
  consider (end_of_buffer) "i = sz - 1" | (end_of_string) "i < sz - 1" "i = length s"
    | (copy) "i < sz - 1" "i < length s"
    using Suc.prems by linarith
  then show ?case
  proof cases
    case end_of_buffer
    have "cstr (blit m dst (take i s @ [0])) src s"
      using assms Suc.prems
      by (auto intro!: cstr_blit_other simp: disjnt_blocks_def region_def)
    from strlen_loop_cstr [OF this Suc.prems(2)] step(2) [of 0] end_of_buffer dec
    show ?thesis by (subst strlcpy_loop.simps) simp
  next
    case end_of_string
    with step(1) step(2) [of 0] step(3) [of 0] dec show ?thesis
      by (subst strlcpy_loop.simps) simp
  next
    case copy
    then have "take i s @ [s ! i] = take (Suc i) s" by (simp add: take_Suc_conv_app_nth)
    with Suc copy step(1) step(2) [of "s ! i"] step(3) [of "s ! i"] dec
      cstr_char_nonzero [OF assms(1) copy(2)] show ?thesis
      by (subst strlcpy_loop.simps) (simp add: nth_append)
  qed
qed

lemma strlcpy_blit:
  assumes "cstr m src s" and "region m dst sz" and "disjnt_blocks dst sz src (Suc (length s))"
    and "0 < sz"
  shows "strlcpy m dst src sz = Some (length s, blit m dst (take (sz - 1) s @ [0]))"
  using strlcpy_loop_blit [OF assms, of 0] assms(2,4) by (simp add: strlcpy_def region_def)

lemma strncpy_loop_blit:
  assumes "cstr m src s" and "region m dest n" and "disjnt_blocks dest n src (Suc (length s))"
  shows "i \<le> n \<Longrightarrow> i \<le> length s \<Longrightarrow>
    strncpy_loop (blit m dest (take i s)) dest src n i
      = Some (blit m dest (take n s @ replicate (n - length s) 0))"
proof (induction "n - i" arbitrary: i)
  case 0
  then show ?case by (subst strncpy_loop.simps) simp
next
  case (Suc k)
  then have i: "i < n" by simp
  note step = bounded_copy_char [OF assms i Suc.prems(2)]
  show ?case
  proof (cases "i = length s")
    case True
    have r: "region (blit m dest s) dest n"
      using assms(2) i True by (simp add: region_def blit_def)
    have "blit (blit m dest s) (dest + length s) (replicate (n - length s) 0)
        = blit m dest (s @ replicate (n - length s) 0)"
      using assms(2) i True by (intro blit_blit_append) (auto simp: region_def)
    with True i step(1) memset_loop_blit [OF r, of i 0] show ?thesis
      by (subst strncpy_loop.simps) simp
  next
    case False
    with Suc.prems have l: "i < length s" by simp
    then have "take i s @ [s ! i] = take (Suc i) s" by (simp add: take_Suc_conv_app_nth)
    with Suc i l step(1) step(2) [of "s ! i"] cstr_char_nonzero [OF assms(1) l] show ?thesis
      by (subst strncpy_loop.simps) (simp add: nth_append)
  qed
qed

lemma strncpy_blit:
  assumes "cstr m src s" and "region m dest n" and "disjnt_blocks dest n src (Suc (length s))"
  shows "strncpy m dest src n = Some (dest, blit m dest (take n s @ replicate (n - length s) 0))"
  using strncpy_loop_blit [OF assms, of 0] assms(2) by (simp add: strncpy_def region_def)

lemma strdup_copy:
  assumes "cstr m p s" and "malloc m (length s + 1) = (q, m')" and "cstr m' p s"
    and "region m' q (Suc (length s))" and "disjnt_blocks q (Suc (length s)) p (Suc (length s))"
  shows "strdup malloc m p = Some (q, blit m' q (s @ [0]))"
proof -
  have "memcpy m' q p (length s + 1) = Some (q, blit m' q (bytes_at m' p (length s + 1)))"
    using assms by (intro memcpy_blit) (auto simp: cstr_def disjnt_blocks_def)
  with assms strlen_cstr [OF assms(1)] show ?thesis by (simp add: strdup_def cstr_def)
qed

section \<open>Searches\<close>

lemma strchr_loop_first:
  assumes "cstr m p s"
  shows "i \<le> length s \<Longrightarrow> strchr_loop m (p + i) c =
    Some (if c \<in> set (drop i s) then p + i + length (takeWhile (\<lambda>b. b \<noteq> c) (drop i s)) else NULL)"
proof (induction "length s - i" arbitrary: i)
  case 0
  with cstr_load [OF assms, of i] show ?case by (subst strchr_loop.simps) (simp add: nth_append)
next
  case (Suc k)
  then have i: "i < length s" by simp
  then have d: "drop i s = s ! i # drop (Suc i) s" by (simp add: Cons_nth_drop_Suc)
  from Suc have "strchr_loop m (p + Suc i) c =
    Some (if c \<in> set (drop (Suc i) s)
      then p + Suc i + length (takeWhile (\<lambda>b. b \<noteq> c) (drop (Suc i) s)) else NULL)"
    by (intro Suc.hyps(1)) auto
  with i cstr_load_char [OF assms i] cstr_char_nonzero [OF assms i] show ?case
    unfolding d by (subst strchr_loop.simps) auto
qed

lemma strchr_first:
  "cstr m p s \<Longrightarrow> strchr m p c =
    Some (if ucast c \<in> set s then p + length (takeWhile (\<lambda>b. b \<noteq> ucast c) s) else NULL)"
  using strchr_loop_first [of m p s 0 "ucast c"] by (simp add: strchr_def)

lemma strrchr_loop_last:
  assumes "cstr m p s"
  shows "i \<le> length s \<Longrightarrow> strrchr_loop m (p + i) c l =
    Some (if c \<in> set (drop i s) then p + length s - 1 - length (takeWhile (\<lambda>b. b \<noteq> c) (rev s)) else l)"
proof (induction "length s - i" arbitrary: i l)
  case 0
  with cstr_load [OF assms, of i] show ?case by (subst strrchr_loop.simps) (simp add: nth_append)
next
  case (Suc k)
  then have i: "i < length s" by simp
  then have d: "drop i s = s ! i # drop (Suc i) s" by (simp add: Cons_nth_drop_Suc)
  have last: "p + length s - 1 - length (takeWhile (\<lambda>b. b \<noteq> c) (rev s)) = p + i"
    if "c \<notin> set (drop (Suc i) s)" "s ! i = c"
  proof -
    have "s = take i s @ c # drop (Suc i) s"
      using id_take_nth_drop [OF i] that(2) by simp
    then have "rev s = rev (drop (Suc i) s) @ c # rev (take i s)"
      by (metis append.assoc append_Cons append_Nil rev.simps(2) rev_append)
    moreover have "takeWhile (\<lambda>b. b \<noteq> c) (rev (drop (Suc i) s) @ c # rev (take i s))
        = rev (drop (Suc i) s)"
      using that(1) by (subst takeWhile_append2) auto
    ultimately show ?thesis using i by simp
  qed
  from Suc have "strrchr_loop m (p + Suc i) c l' =
    Some (if c \<in> set (drop (Suc i) s)
      then p + length s - 1 - length (takeWhile (\<lambda>b. b \<noteq> c) (rev s)) else l')" for l'
    by (intro Suc.hyps(1)) auto
  with i cstr_load_char [OF assms i] cstr_char_nonzero [OF assms i] last show ?case
    unfolding d by (subst strrchr_loop.simps) auto
qed

lemma strrchr_last:
  "cstr m p s \<Longrightarrow> strrchr m p c =
    Some (if ucast c \<in> set s then p + length s - 1 - length (takeWhile (\<lambda>b. b \<noteq> ucast c) (rev s))
          else NULL)"
  using strrchr_loop_last [of m p s 0 "ucast c" NULL] by (simp add: strrchr_def)

lemma memchr_loop_first:
  assumes "region m p n"
  shows "i \<le> n \<Longrightarrow> memchr_loop m p c n i =
    Some (if c \<in> set (drop i (bytes_at m p n))
      then p + i + length (takeWhile (\<lambda>b. b \<noteq> c) (drop i (bytes_at m p n))) else NULL)"
proof (induction "n - i" arbitrary: i)
  case 0
  with assms show ?case by (subst memchr_loop.simps) simp
next
  case (Suc k)
  then have i: "i < n" by simp
  with assms have d: "drop i (bytes_at m p n) = m ! (p + i) # drop (Suc i) (bytes_at m p n)"
    by (simp add: Cons_nth_drop_Suc [symmetric] nth_bytes_at)
  have "load m (p + i) = Some (m ! (p + i))"
    using assms i by (auto simp: load_def region_def)
  with i Suc show ?case unfolding d by (subst memchr_loop.simps) auto
qed

lemma memrchr_loop_found:
  assumes "region m p n" and "k < n" and "m ! (p + k) = c"
    and "\<And>j. k < j \<Longrightarrow> j < n \<Longrightarrow> m ! (p + j) \<noteq> c"
  shows "k \<le> i \<Longrightarrow> i < n \<Longrightarrow> memrchr_loop m p c i = Some (p + k)"
proof (induction "i - k" arbitrary: i)
  case 0
  then show ?case using assms by (subst memrchr_loop.simps) (simp add: load_def region_def)
next
  case (Suc j)
  then have "k < i" by simp
  with Suc assms show ?case
    by (subst memrchr_loop.simps) (auto simp: load_def region_def size_dec_def)
qed

lemma memrchr_loop_missing:
  assumes "region m p n" and "\<And>j. j < n \<Longrightarrow> m ! (p + j) \<noteq> c" and "length m \<le> SIZE_MAX"
  shows "i < n \<Longrightarrow> memrchr_loop m p c i = None"
proof (induction i)
  case 0
  have "memrchr_loop m p c SIZE_MAX = None"
    using assms(3) by (subst memrchr_loop.simps) (simp add: load_def)
  then show ?case using 0 assms(1,3) assms(2) [of 0]
    by (subst memrchr_loop.simps) (auto simp: load_def region_def size_dec_def)
next
  case (Suc i)
  then show ?case using assms(1,3) assms(2) [of "Suc i"]
    by (subst memrchr_loop.simps) (auto simp: load_def region_def size_dec_def)
qed

section \<open>Properties\<close>

text \<open>
  C10: \<open>memmove\<close> moves the \<open>n\<close> bytes at \<open>s\<close> to \<open>d\<close> whatever the overlap of the two blocks, through
  the backward byte loop, the unrolled word loops or the byte loop: the memory after it is the memory
  before it with the old source bytes at \<open>d\<close> and nothing else changed, and \<open>d\<close> is returned. The
  variant compiled for size does the same.
\<close>
theorem memmove_moves:
  assumes "region m d n" and "region m s n"
  shows "memmove m d s n = Some (d, blit m d (bytes_at m s n))
    \<and> memmove_size m d s n = Some (d, blit m d (bytes_at m s n))"
  using memmove_blit [OF assms] memmove_size_blit [OF assms] by simp

theorem memmove_moves_witness:
  "memmove [0, 1, 2, 3, 4, 5] 2 1 3 = Some (2, [0, 1, 1, 2, 3, 5])"
  using memmove_moves [of "[0, 1, 2, 3, 4, 5]" 2 3 1]
  by (simp add: region_def blit_def bytes_at_def)

text \<open>
  C20: \<open>strcmp\<close> on two stored strings returns their lexicographic order on unsigned bytes: 0 exactly for
  equal strings, and otherwise the sign of the first difference.
\<close>
theorem strcmp_orders_strings:
  assumes "cstr m p s" and "cstr m q t"
  shows "strcmp m p q = Some (lex3 s t) \<and> (strcmp m p q = Some 0 \<longleftrightarrow> s = t)
    \<and> strcmp m q p = Some (- lex3 s t)"
  using strcmp_lex3 [OF assms] strcmp_lex3 [OF assms(2,1)] lex3_zero [of s t] lex3_antisym [of t s]
  by auto

theorem strcmp_orders_strings_witness:
  "strcmp [0, 97, 200, 0, 97, 98, 0] 1 4 = Some 1 \<and> strcmp [0, 97, 200, 0, 97, 98, 0] 4 1 = Some (-1)"
proof -
  have "cstr [0, 97, 200, 0, 97, 98, 0] 1 [97, 200]" "cstr [0, 97, 200, 0, 97, 98, 0] 4 [97, 98]"
    by (simp_all add: cstr_def region_def bytes_at_def)
  from strcmp_orders_strings [OF this] show ?thesis by simp
qed

text \<open>
  C22: \<open>strcat\<close> with room in the destination and no overlap leaves the concatenation of the two strings
  at \<open>dest\<close> and touches only the bytes after the old end of \<open>dest\<close>.
\<close>
theorem strcat_appends:
  assumes "cstr m dest t" and "cstr m src s" and "region m dest (Suc (length t + length s))"
    and "disjnt_blocks dest (Suc (length t + length s)) src (Suc (length s))"
  shows "\<exists>m'. strcat m dest src = Some (dest, m') \<and> cstr m' dest (t @ s) \<and> cstr m' src s
    \<and> m' = blit m (dest + length t) (s @ [0])"
proof -
  have "cstr (blit m (dest + length t) (s @ [0])) src s"
    using assms by (intro cstr_blit_other) (auto simp: disjnt_blocks_def region_def)
  with strcat_blit [OF assms] cstr_append_blit [OF assms(1,3)] assms(2)
  show ?thesis by (auto simp: cstr_def)
qed

theorem strcat_appends_witness:
  "\<exists>m'. strcat [0, 97, 0, 7, 7, 98, 99, 0] 1 5 = Some (1, m')
    \<and> cstr m' 1 [97, 98, 99] \<and> cstr m' 5 [98, 99] \<and> m' = [0, 97, 98, 99, 0, 98, 99, 0]"
proof -
  have "cstr [0, 97, 0, 7, 7, 98, 99, 0] 1 [97]" "cstr [0, 97, 0, 7, 7, 98, 99, 0] 5 [98, 99]"
    "region [0, 97, 0, 7, 7, 98, 99, 0 :: u8] 1 (Suc (length [97 :: u8] + length [98, 99 :: u8]))"
    "disjnt_blocks 1 (Suc (length [97 :: u8] + length [98, 99 :: u8])) 5 (Suc (length [98, 99 :: u8]))"
    by (simp_all add: cstr_def region_def bytes_at_def disjnt_blocks_def)
  from strcat_appends [OF this] show ?thesis by (simp add: blit_def)
qed

text \<open>
  C21: \<open>strlcpy\<close> with a buffer of \<open>sz > 0\<close> bytes stores the longest prefix of the source that fits with
  its terminator, writes nothing outside the buffer, and returns the length of the source string.
\<close>
theorem strlcpy_truncates:
  assumes "cstr m src s" and "region m dst sz" and "disjnt_blocks dst sz src (Suc (length s))"
    and "0 < sz"
  shows "\<exists>m'. strlcpy m dst src sz = Some (length s, m') \<and> cstr m' dst (take (sz - 1) s)
    \<and> (\<forall>a. a < dst \<or> dst + sz \<le> a \<longrightarrow> load m' a = load m a)"
proof -
  let ?m = "blit m dst (take (sz - 1) s @ [0])"
  have r: "region m dst (length (take (sz - 1) s @ [0 :: u8]))"
    using assms(2,4) by (auto simp: region_def)
  have "cstr ?m dst (take (sz - 1) s)"
    using r assms(1) by (intro cstr_blit_same) (auto simp: cstr_def dest: in_set_takeD)
  moreover have "load ?m a = load m a" if "a < dst \<or> dst + sz \<le> a" for a
  proof -
    have "length (take (sz - 1) s @ [0 :: u8]) \<le> sz" using assms(4) by simp
    with that have "\<not> (dst \<le> a \<and> a < dst + length (take (sz - 1) s @ [0 :: u8]))" by linarith
    then show ?thesis using length_blit [OF r] nth_blit [OF r, of a] by (auto simp: load_def)
  qed
  ultimately show ?thesis using strlcpy_blit [OF assms] by blast
qed

theorem strlcpy_truncates_witness:
  "\<exists>m'. strlcpy [0, 9, 9, 9, 97, 98, 99, 0] 1 4 3 = Some (3, m') \<and> cstr m' 1 [97, 98]
    \<and> load m' 3 = Some 0"
proof -
  let ?m = "[0, 9, 9, 9, 97, 98, 99, 0] :: mem"
  have h: "cstr ?m 4 [97, 98, 99]" "region ?m 1 3"
    "disjnt_blocks 1 3 4 (Suc (length [97, 98, 99 :: u8]))" "0 < (3 :: nat)"
    by (simp_all add: cstr_def region_def bytes_at_def disjnt_blocks_def)
  from strlcpy_truncates [OF h] obtain m' where
    "strlcpy ?m 1 4 3 = Some (3, m')" "cstr m' 1 [97, 98]" by auto
  moreover from this(2) have "load m' 3 = Some 0" using cstr_load_end [of m' 1 "[97, 98]"]
    by (simp add: eval_nat_numeral)
  ultimately show ?thesis by blast
qed

text \<open>
  \<open>strncat\<close> appends nothing: its write position never moves, so for every source the memory after
  the call is the memory before it.
\<close>
theorem strncat_appends_nothing:
  assumes "cstr m dest t" and "region m src n" and "disjnt_blocks (dest + length t) 1 src n"
  shows "strncat m dest src n = Some (dest, m)"
proof -
  from assms(1) have r: "region m dest (Suc (length t))" by (simp add: cstr_def)
  from cstr_nth [OF assms(1), of "length t"] have z: "m[dest + length t := 0] = m"
    by (metis list_update_id le_refl nth_append_length)
  from strncat_loop_store [OF r assms(2,3), of 0 0] strlen_cstr [OF assms(1)]
  show ?thesis by (simp add: strncat_def z)
qed

theorem strncat_appends_nothing_witness:
  "strncat [0, 97, 0, 7, 98, 0] 1 4 1 = Some (1, [0, 97, 0, 7, 98, 0])"
proof -
  have "cstr [0, 97, 0, 7, 98, 0] 1 [97]" "region [0, 97, 0, 7, 98, 0 :: u8] 4 1"
    "disjnt_blocks (1 + length [97 :: u8]) 1 4 1"
    by (simp_all add: cstr_def region_def bytes_at_def disjnt_blocks_def)
  then show ?thesis by (rule strncat_appends_nothing)
qed

text \<open>
  \<open>memrchr\<close> returns the last occurrence of the byte when there is one, and when there is none it
  does not return \<open>NULL\<close>: its unsigned index wraps around and the scan leaves the memory.
\<close>
theorem memrchr_last_or_fault:
  assumes "region m p n" and "0 < n" and "length m \<le> SIZE_MAX"
  shows "if ucast c \<in> set (bytes_at m p n)
    then \<exists>k < n. memrchr m p c n = Some (p + k) \<and> m ! (p + k) = ucast c
      \<and> (\<forall>j. k < j \<and> j < n \<longrightarrow> m ! (p + j) \<noteq> ucast c)
    else memrchr m p c n = None"
proof (cases "ucast c \<in> set (bytes_at m p n)")
  case True
  let ?P = "\<lambda>k. k < n \<and> m ! (p + k) = ucast c"
  define k where "k = Max {k. ?P k}"
  have fin: "finite {k. ?P k}" by (rule finite_subset [of _ "{..<n}"]) auto
  from True assms(1) have ne: "{k. ?P k} \<noteq> {}"
    by (auto simp: in_set_conv_nth nth_bytes_at)
  have k: "?P k" using Max_in [OF fin ne] by (simp add: k_def)
  have last: "m ! (p + j) \<noteq> ucast c" if "k < j" "j < n" for j
    using Max_ge [OF fin, of j] that by (fastforce simp: k_def)
  from memrchr_loop_found [OF assms(1), of k "ucast c" "n - 1"] k last assms(2)
  have "memrchr m p c n = Some (p + k)" by (auto simp: memrchr_def size_dec_def)
  with True k last show ?thesis by auto
next
  case False
  then have "m ! (p + j) \<noteq> ucast c" if "j < n" for j
    using that assms(1) by (metis in_set_conv_nth length_bytes_at nth_bytes_at)
  from memrchr_loop_missing [OF assms(1) this assms(3), of "n - 1"] False assms(2)
  show ?thesis by (simp add: memrchr_def size_dec_def)
qed

theorem memrchr_last_or_fault_witness:
  "memrchr [0, 1, 2, 3] 1 9 3 = None"
  using memrchr_last_or_fault [of "[0, 1, 2, 3]" 1 3 9]
  by (simp add: region_def bytes_at_def SIZE_MAX_def)

end
