(* ===== verification/Libc_Stdlib.thy ===== *)
theory Libc_Stdlib
  imports Libc_String "HOL-Library.Signed_Division"
begin

text \<open>
  Numbers and characters in the C library: src/src/libc/stdlib.c, src/src/libc/math.c and
  src/src/libc/ctype.c.

  An \<open>int\<close> is a 32-bit word; where the source mixes \<open>int\<close> and \<open>unsigned int\<close> the operation is the
  unsigned one. The local array \<open>p\<close> of \<open>itoaz\<close> has \<open>MAX_DIGIT\<close> elements, and a store after its end is
  a fault (\<open>None\<close>), like a division by 0. The C library's own calls \<open>brk\<close> and \<open>fstat\<close> are parameters;
  \<open>strtoul\<close> and \<open>atol\<close> are stubs in the source.
\<close>

section \<open>Numbers\<close>

subsection \<open>pow\<close>

fun pow_loop :: "u32 \<Rightarrow> nat \<Rightarrow> u32 \<Rightarrow> u32" where
  "pow_loop n 0 val = val"
| "pow_loop n (Suc i) val = pow_loop n i (val * n)"

definition pow :: "u32 \<Rightarrow> u32 \<Rightarrow> u32" where
  "pow n m = pow_loop n (unat m) 1"

lemma pow_loop_power: "pow_loop n i val = val * n ^ i"
  by (induction n i val rule: pow_loop.induct) simp_all

lemma pow_power: "pow n m = n ^ unat m"
  by (simp add: pow_def pow_loop_power)

subsection \<open>atoi\<close>

text \<open>
  The main loop: the digit at \<open>s\<close> counts \<open>base\<close> to the power \<open>i\<close>; any other character divides what
  has been read so far by the base.
\<close>

function atoi_loop :: "mem \<Rightarrow> addr \<Rightarrow> u32 \<Rightarrow> u32 \<Rightarrow> u32 \<Rightarrow> u32 option" where
  "atoi_loop m s base i retn =
     (case load m s of None \<Rightarrow> None
      | Some c \<Rightarrow>
          if c = 0 then Some retn
          else atoi_loop m (Suc s) base (i - 1)
            (if 48 \<le> c \<and> c \<le> 57 then retn + pow base i * (ucast c - 48)
             else if 65 \<le> c \<and> c \<le> 70 then retn + pow base i * (ucast c - (65 - 10))
             else word_of_int (sint retn sdiv sint base)))"
  by pat_completeness auto
termination
  by (relation "measure (\<lambda>(m, s, base, i, retn). length m - s)") (auto dest!: load_SomeD)

definition atoi :: "mem \<Rightarrow> addr \<Rightarrow> u32 option" where
  "atoi m s = do {
     len \<leftarrow> strlen m s;
     c0 \<leftarrow> load m s;
     let (f, s) = (if c0 = 45 then (True, Suc s) else (False, s));
     let i = word_of_nat len - 1;
     c1 \<leftarrow> load m s;
     (base, s, i) \<leftarrow>
       (if c1 = 48 then do {
          let s = Suc s;
          let i = i - 1;
          c2 \<leftarrow> load m s;
          Some (if c2 = 120 then (16, Suc s, i - 1)
                else if 48 < c2 \<and> c2 \<le> 57 then (8, s, i)
                else (10, s, i)) }
        else Some (10, s, i));
     retn \<leftarrow> atoi_loop m s base i 0;
     Some (if f then - retn else retn) }"

subsection \<open>itoaz and uitoaz\<close>

definition MAX_DIGIT :: nat where
  "MAX_DIGIT = 9"

text \<open>The character stored for the remainder \<open>r\<close>; a remainder that is negative as \<open>int\<close> stores none.\<close>

definition digit_char :: "nat \<Rightarrow> u8" where
  "digit_char r =
     (if 2 ^ 31 \<le> r then 0
      else if r \<le> 9 then 48 + word_of_nat r
      else 65 + word_of_nat r - 10)"

function digits_loop :: "nat \<Rightarrow> nat \<Rightarrow> u8 list \<Rightarrow> u8 list option" where
  "digits_loop l b p =
     (if b = 0 \<or> MAX_DIGIT \<le> length p then None
      else let p' = p @ [digit_char (l mod b)]; l' = l div b in
        if l' = 0 \<or> 2 ^ 31 \<le> l' then Some p' else digits_loop l' b p')"
  by pat_completeness auto
termination by (relation "measure (\<lambda>(l, b, p). MAX_DIGIT - length p)") auto

text \<open>\<open>for (k = i, j = index; k > 0; --k, ++j) s[j] = p[k-1]\<close>, then the terminator.\<close>

fun put_digits :: "mem \<Rightarrow> addr \<Rightarrow> u8 list \<Rightarrow> nat \<Rightarrow> nat \<Rightarrow> mem option" where
  "put_digits m s p 0 j = store m (s + j) 0"
| "put_digits m s p (Suc k) j =
     (case store m (s + j) (p ! k) of None \<Rightarrow> None | Some m' \<Rightarrow> put_digits m' s p k (Suc j))"

definition itoaz :: "mem \<Rightarrow> u32 \<Rightarrow> addr \<Rightarrow> u32 \<Rightarrow> mem option" where
  "itoaz m n s b = do {
     let (l, sign) = (if sint n < 0 then (- n, True) else (n, False));
     p \<leftarrow> digits_loop (unat l) (unat b) [];
     (m, index) \<leftarrow> (if sign then map_option (\<lambda>m'. (m', 1)) (store m s 45) else Some (m, 0));
     put_digits m s p (length p) index }"

text \<open>In \<open>uitoaz\<close> the number is unsigned, so the test \<open>n < 0\<close> never holds.\<close>

definition uitoaz :: "mem \<Rightarrow> u32 \<Rightarrow> addr \<Rightarrow> u32 \<Rightarrow> mem option" where
  "uitoaz m n s b = do {
     p \<leftarrow> digits_loop (unat n) (unat b) [];
     put_digits m s p (length p) 0 }"

subsection \<open>The small functions\<close>

definition abs_c :: "u32 \<Rightarrow> u32" where
  "abs_c num = (if sint num < 0 then - num else num)"

definition labs :: "u32 \<Rightarrow> u32" where
  "labs num = (if sint num < 0 then - num else num)"

definition llabs :: "u64 \<Rightarrow> u64" where
  "llabs num = (if sint num < 0 then - num else num)"

definition atol :: "mem \<Rightarrow> addr \<Rightarrow> u32" where
  "atol m str = 0"

text \<open>\<open>brk\<close> takes the wanted end of the data segment and the state of the process.\<close>

definition sbrk :: "(u32 \<Rightarrow> 's \<Rightarrow> u32 \<times> 's) \<Rightarrow> u32 \<Rightarrow> 's \<Rightarrow> u32 \<times> 's" where
  "sbrk brk increment st =
     (let (oldProgramBreak, st1) = brk 0 st;
          (_, st2) = brk (oldProgramBreak + increment) st1
      in (oldProgramBreak, st2))"

definition S_ISCHR :: "u32 \<Rightarrow> bool" where
  "S_ISCHR mode \<longleftrightarrow> (mode AND 0xF000) = 0x2000"

text \<open>\<open>isatty\<close>: the call \<open>fstat\<close> gives its result and the mode; the result is the answer and the new errno.\<close>

definition isatty :: "(u32 \<Rightarrow> u32 \<times> u32) \<Rightarrow> u32 \<Rightarrow> u32 \<Rightarrow> u32 \<times> u32" where
  "isatty fstat err fd =
     (let (ret, st_mode) = fstat fd in
      if sint ret < 0 then (0, err)
      else if S_ISCHR st_mode then (1, err)
      else (0, - word_of_int (errno_code ENOTTY)))"

section \<open>Characters\<close>

definition isalnum :: "int \<Rightarrow> bool" where
  "isalnum ch \<longleftrightarrow> 48 \<le> ch \<and> ch \<le> 57 \<or> 65 \<le> ch \<and> ch \<le> 90 \<or> 97 \<le> ch \<and> ch \<le> 122"

definition isalpha :: "int \<Rightarrow> bool" where
  "isalpha ch \<longleftrightarrow> 65 \<le> ch \<and> ch \<le> 90 \<or> 97 \<le> ch \<and> ch \<le> 122"

definition iscntrl :: "int \<Rightarrow> bool" where
  "iscntrl ch \<longleftrightarrow> 0 \<le> ch \<and> ch \<le> 31 \<or> ch = 127"

definition isdigit :: "int \<Rightarrow> bool" where
  "isdigit ch \<longleftrightarrow> 48 \<le> ch \<and> ch \<le> 57"

definition isgraph :: "int \<Rightarrow> bool" where
  "isgraph ch \<longleftrightarrow> 33 \<le> ch \<and> ch \<le> 126"

definition islower :: "int \<Rightarrow> bool" where
  "islower ch \<longleftrightarrow> 97 \<le> ch \<and> ch \<le> 122"

definition isprint :: "int \<Rightarrow> bool" where
  "isprint ch \<longleftrightarrow> 32 \<le> ch \<and> ch \<le> 126"

definition ispunct :: "int \<Rightarrow> bool" where
  "ispunct ch \<longleftrightarrow> 33 \<le> ch \<and> ch \<le> 47 \<or> 58 \<le> ch \<and> ch \<le> 64 \<or> 91 \<le> ch \<and> ch \<le> 96
     \<or> 123 \<le> ch \<and> ch \<le> 126"

definition isspace :: "int \<Rightarrow> bool" where
  "isspace ch \<longleftrightarrow> 9 \<le> ch \<and> ch \<le> 13 \<or> ch = 32"

definition isupper :: "int \<Rightarrow> bool" where
  "isupper ch \<longleftrightarrow> 65 \<le> ch \<and> ch \<le> 90"

definition isxdigit :: "int \<Rightarrow> bool" where
  "isxdigit ch \<longleftrightarrow> 48 \<le> ch \<and> ch \<le> 57 \<or> 65 \<le> ch \<and> ch \<le> 90 \<or> 97 \<le> ch \<and> ch \<le> 122"

definition tolower :: "int \<Rightarrow> int" where
  "tolower ch = ch + (if 64 < ch \<and> ch < 91 then 32 else 0)"

definition toupper :: "int \<Rightarrow> int" where
  "toupper ch = ch - (if 96 < ch \<and> ch < 123 then 32 else 0)"

lemmas ctype_defs = isalnum_def isalpha_def iscntrl_def isdigit_def isgraph_def islower_def isprint_def
  ispunct_def isspace_def isupper_def isxdigit_def tolower_def toupper_def

declare atoi_loop.simps [simp del] digits_loop.simps [simp del]

section \<open>Digits\<close>

lemma unat_u32_less: "unat (w :: u32) < 2 ^ 32"
  using unsigned_less [of w] by simp

text \<open>The digits of a number, the least significant first, and the value of a text of digits.\<close>

function lsd :: "nat \<Rightarrow> nat \<Rightarrow> nat list" where
  "lsd b n = (if n < b \<or> b < 2 then [n] else n mod b # lsd b (n div b))"
  by pat_completeness auto
termination by (relation "measure snd") (auto simp: div_less_dividend)

declare lsd.simps [simp del]

definition numval :: "u8 list \<Rightarrow> nat" where
  "numval cs = foldl (\<lambda>a c. 10 * a + (unat c - 48)) 0 cs"

lemma numval_Cons: "numval (c # cs) = (unat c - 48) * 10 ^ length cs + numval cs"
proof -
  have "foldl (\<lambda>a c. 10 * a + (unat c - 48)) a cs = a * 10 ^ length cs + numval cs" for a and cs :: "u8 list"
  proof (induction cs arbitrary: a)
    case (Cons c cs)
    from Cons.IH [of "10 * a + (unat c - 48)"] Cons.IH [of "unat c - 48"]
    show ?case by (simp add: numval_def algebra_simps)
  qed (simp add: numval_def)
  from this [of "unat c - 48" cs] show ?thesis by (simp add: numval_def)
qed

lemma numval_snoc: "numval (cs @ [c]) = 10 * numval cs + (unat c - 48)"
  by (simp add: numval_def)

lemma lsd_bounds: "2 \<le> b \<Longrightarrow> d \<in> set (lsd b n) \<Longrightarrow> d < b"
proof (induction b n rule: lsd.induct)
  case (1 b n)
  from "1.prems"(2) have "d = n \<and> (n < b \<or> b < 2) \<or> \<not> (n < b \<or> b < 2)
      \<and> (d = n mod b \<or> d \<in> set (lsd b (n div b)))"
    by (subst (asm) lsd.simps) (auto split: if_splits)
  with 1 show ?case by auto
qed

lemma lsd_length: "2 \<le> b \<Longrightarrow> 0 < k \<Longrightarrow> length (lsd b n) \<le> k \<longleftrightarrow> n < b ^ k"
proof (induction k arbitrary: n)
  case (Suc k)
  show ?case
  proof (cases "n < b")
    case True
    moreover have "b ^ 1 \<le> b ^ Suc k" using Suc.prems by (intro power_increasing) auto
    then have "b \<le> b ^ Suc k" by simp
    ultimately have "n < b ^ Suc k" by (rule less_le_trans)
    with True show ?thesis by (subst lsd.simps) simp
  next
    case False
    then have d: "0 < n div b" using Suc.prems by (simp add: div_greater_zero_iff)
    have l: "lsd b n = n mod b # lsd b (n div b)" using False Suc.prems by (subst lsd.simps) auto
    have "length (lsd b (n div b)) \<le> k \<longleftrightarrow> n div b < b ^ k"
    proof (cases "k = 0")
      case True
      with d show ?thesis by (subst lsd.simps) simp
    next
      case False
      with Suc show ?thesis by simp
    qed
    also have "\<dots> \<longleftrightarrow> n < b ^ Suc k"
      using Suc.prems by (simp add: div_less_iff_less_mult mult.commute)
    finally show ?thesis by (simp add: l)
  qed
qed simp

lemma digit_char_decimal: "d < 10 \<Longrightarrow> unat (digit_char d) = 48 + d"
  by (simp add: digit_char_def unat_word_ariths unat_of_nat take_bit_nat_eq_self)

lemma digit_char_nonzero: "d < 36 \<Longrightarrow> digit_char d \<noteq> 0"
proof -
  assume "d < 36"
  then have "unat (digit_char d) = (if d \<le> 9 then 48 + d else 55 + d)"
    by (auto simp: digit_char_def unat_word_ariths unat_of_nat take_bit_nat_eq_self unat_sub_if')
  then show ?thesis by (metis add_is_0 unat_0 zero_neq_numeral)
qed

lemma numval_lsd: "numval (rev (map digit_char (lsd 10 n))) = n"
proof (induction "10::nat" n rule: lsd.induct)
  case (1 n)
  show ?case
  proof (cases "n < 10")
    case True
    then show ?thesis by (subst lsd.simps) (simp add: numval_def digit_char_decimal)
  next
    case False
    then have "lsd 10 n = n mod 10 # lsd 10 (n div 10)" by (subst lsd.simps) simp
    with 1 False show ?thesis by (simp add: numval_snoc digit_char_decimal)
  qed
qed

lemma lsd_last_nonzero: "2 \<le> b \<Longrightarrow> 0 < n \<Longrightarrow> last (lsd b n) \<noteq> 0"
proof (induction b n rule: lsd.induct)
  case (1 b n)
  show ?case
  proof (cases "n < b")
    case True
    with 1 show ?thesis by (subst lsd.simps) simp
  next
    case False
    with 1 have l: "lsd b n = n mod b # lsd b (n div b)" by (subst lsd.simps) auto
    have ne: "lsd b (n div b) \<noteq> []" by (subst lsd.simps) simp
    have "0 < n div b" using False 1 by (simp add: div_greater_zero_iff)
    with 1 False l ne show ?thesis by simp
  qed
qed

text \<open>The digit loop produces these digits, or runs over its array.\<close>

lemma digits_loop_lsd:
  assumes "2 \<le> b" and "n < 2 ^ 32"
  shows "digits_loop n b p
    = (if length p + length (lsd b n) \<le> MAX_DIGIT then Some (p @ map digit_char (lsd b n)) else None)"
  using assms
proof (induction b n arbitrary: p rule: lsd.induct)
  case (1 b n)
  have l1: "1 \<le> length (lsd b n)" by (subst lsd.simps) simp
  show ?case
  proof (cases "MAX_DIGIT \<le> length p")
    case True
    then have "digits_loop n b p = None" by (subst digits_loop.simps) simp
    moreover have "\<not> length p + length (lsd b n) \<le> MAX_DIGIT" using True l1 by linarith
    ultimately show ?thesis by simp
  next
    case np: False
    show ?thesis
    proof (cases "n < b")
      case True
      then have "lsd b n = [n]" by (subst lsd.simps) simp
      with True 1 np show ?thesis by (subst digits_loop.simps) (simp add: Let_def)
    next
      case False
      with 1 have l: "lsd b n = n mod b # lsd b (n div b)" by (subst lsd.simps) auto
      have pos: "0 < n div b" using False 1 by (simp add: div_greater_zero_iff)
      have "n div b \<le> n div 2" using 1(2) by (intro div_le_mono2) auto
      then have small: "n div b < 2 ^ 31" using 1(3) by simp
      have "digits_loop n b p = digits_loop (n div b) b (p @ [digit_char (n mod b)])"
        using np pos small 1(2) by (subst digits_loop.simps) (simp add: Let_def)
      also have "\<dots> = (if length p + length (lsd b n) \<le> MAX_DIGIT
          then Some (p @ map digit_char (lsd b n)) else None)"
        using 1(1) [of "p @ [digit_char (n mod b)]"] False 1(2) small by (simp add: l)
      finally show ?thesis .
    qed
  qed
qed

lemma put_digits_blit:
  assumes "region m s (j + k + 1)" and "k \<le> length p"
  shows "put_digits m s p k j = Some (blit m (s + j) (rev (take k p) @ [0]))"
  using assms
proof (induction k arbitrary: m j)
  case 0
  then show ?case by (simp add: store_blit region_def)
next
  case (Suc k)
  have r: "region m (s + j) 1" using Suc.prems(1) by (simp add: region_def)
  have st: "store m (s + j) (p ! k) = Some (blit m (s + j) [p ! k])"
    using Suc.prems(1) by (simp add: store_blit region_def)
  have "region (blit m (s + j) [p ! k]) s (Suc j + k + 1)" using Suc.prems(1) r by simp
  from Suc.IH [OF this] Suc.prems st
  have "put_digits m s p (Suc k) j
      = Some (blit (blit m (s + j) [p ! k]) (s + j + length [p ! k]) (rev (take k p) @ [0]))"
    by simp
  also have "\<dots> = Some (blit m (s + j) ([p ! k] @ rev (take k p) @ [0]))"
    using Suc.prems by (subst blit_blit_append) (auto simp: region_def)
  also have "[p ! k] @ rev (take k p) @ [0] = rev (take (Suc k) p) @ [0]"
    using Suc.prems(2) by (simp add: take_Suc_conv_app_nth)
  finally show ?case .
qed

section \<open>Reading and printing\<close>

text \<open>The text \<open>itoaz\<close> writes.\<close>

definition number_text :: "int \<Rightarrow> nat \<Rightarrow> u8 list" where
  "number_text v b = (if v < 0 then [45] else []) @ rev (map digit_char (lsd b (nat \<bar>v\<bar>)))"

lemma unat_magnitude:
  fixes n :: u32
  shows "unat (if sint n < 0 then - n else n) = nat \<bar>sint n\<bar>"
proof -
  have b: "- (2 ^ 31) \<le> sint n" "sint n < 2 ^ 31" using sint_range_size [of n] by (simp_all add: word_size)
  show ?thesis
  proof (cases "sint n < 0")
    case True
    have "uint (- n) = uint (word_of_int (- sint n) :: u32)" by simp
    also have "\<dots> = (- sint n) mod 2 ^ 32" by (subst uint_word_of_int) simp
    finally have "uint (- n) = (- sint n) mod 2 ^ 32" .
    with b True show ?thesis by (simp add: unat_eq_nat_uint)
  next
    case False
    have "uint n = uint (word_of_int (sint n) :: u32)" by simp
    also have "\<dots> = sint n mod 2 ^ 32" by (subst uint_word_of_int) simp
    finally have "uint n = sint n mod 2 ^ 32" .
    with b False show ?thesis by (simp add: unat_eq_nat_uint)
  qed
qed

lemma itoaz_text:
  fixes n b :: u32
  assumes b: "2 \<le> unat b" and small: "nat \<bar>sint n\<bar> < unat b ^ MAX_DIGIT"
    and r: "region m s (Suc (length (number_text (sint n) (unat b))))"
  shows "itoaz m n s b = Some (blit m s (number_text (sint n) (unat b) @ [0]))"
proof -
  let ?k = "nat \<bar>sint n\<bar>" and ?p = "map digit_char (lsd (unat b) (nat \<bar>sint n\<bar>))"
  have "?k < 2 ^ 32" using unat_magnitude [of n] unat_u32_less by metis
  then have p: "digits_loop ?k (unat b) [] = Some ?p"
    using digits_loop_lsd [OF b, of ?k "[]"] lsd_length [OF b, of MAX_DIGIT ?k] small
    by (simp add: MAX_DIGIT_def)
  show ?thesis
  proof (cases "sint n < 0")
    case True
    then have u: "unat (- n) = ?k" using unat_magnitude [of n] by simp
    have st: "store m s 45 = Some (blit m s [45])"
      using r by (simp add: store_blit region_def number_text_def)
    have r1: "region m s 1" using r by (simp add: region_def number_text_def True)
    then have "put_digits (blit m s [45]) s ?p (length ?p) 1
        = Some (blit (blit m s [45]) (s + 1) (rev ?p @ [0]))"
      using r True by (subst put_digits_blit) (auto simp: number_text_def region_def)
    also have "blit (blit m s [45]) (s + 1) (rev ?p @ [0]) = blit m s ([45] @ rev ?p @ [0])"
      using r True blit_blit_append [of m s "[45]" "rev ?p @ [0]"] by (simp add: number_text_def)
    finally show ?thesis using True u p st by (simp add: itoaz_def number_text_def)
  next
    case False
    then have u: "unat n = ?k" using unat_magnitude [of n] by simp
    have "put_digits m s ?p (length ?p) 0 = Some (blit m s (rev ?p @ [0]))"
      using r False by (subst put_digits_blit) (auto simp: number_text_def region_def)
    with False u p show ?thesis by (simp add: itoaz_def number_text_def)
  qed
qed

lemma itoaz_overrun:
  fixes n b :: u32
  assumes b: "2 \<le> unat b" and big: "unat b ^ MAX_DIGIT \<le> nat \<bar>sint n\<bar>"
  shows "itoaz m n s b = None"
proof -
  let ?k = "nat \<bar>sint n\<bar>"
  have "?k < 2 ^ 32" using unat_magnitude [of n] unat_u32_less by metis
  then have "digits_loop ?k (unat b) [] = None"
    using digits_loop_lsd [OF b, of ?k "[]"] lsd_length [OF b, of MAX_DIGIT ?k] big
    by (simp add: MAX_DIGIT_def)
  with unat_magnitude [of n] show ?thesis by (auto simp: itoaz_def)
qed

lemma atoi_loop_decimal:
  assumes c: "cstr m p s" and d: "\<forall>x \<in> set (drop j s). 48 \<le> x \<and> x \<le> 57"
    and b: "length s + e < 2 ^ 32" and j: "j \<le> length s"
  shows "atoi_loop m (p + j) 10 (word_of_nat (length s - j + e) - 1) r
    = Some (r + 10 ^ e * word_of_nat (numval (drop j s)))"
  using d j
proof (induction "length s - j" arbitrary: j r)
  case 0
  then have "j = length s" by simp
  then show ?case using cstr_load_end [OF c] by (subst atoi_loop.simps) (simp add: numval_def)
next
  case (Suc k)
  then have jl: "j < length s" by simp
  have dr: "drop j s = s ! j # drop (Suc j) s" using jl by (simp add: Cons_nth_drop_Suc)
  have l: "load m (p + j) = Some (s ! j)" "s ! j \<noteq> 0"
    using cstr_load_char [OF c jl] cstr_char_nonzero [OF c jl] by simp_all
  have dig: "48 \<le> s ! j" "s ! j \<le> 57" using Suc.prems(1) by (simp_all add: dr)
  have i: "word_of_nat (length s - j + e) - 1 = (word_of_nat (length s - Suc j + e) :: u32)"
  proof -
    have "length s - j + e = Suc (length s - Suc j + e)" using jl by simp
    then show ?thesis by simp
  qed
  have "length s - Suc j + e < 2 ^ 32" using b by simp
  then have u: "unat (word_of_nat (length s - Suc j + e) :: u32) = length s - Suc j + e"
    by (simp add: unat_of_nat take_bit_nat_eq_self del: of_nat_add)
  have v: "(ucast (s ! j) - 48 :: u32) = word_of_nat (unat (s ! j) - 48)"
  proof -
    have "48 \<le> unat (s ! j)" using dig(1) by (simp add: word_le_nat_alt)
    then have "(word_of_nat (unat (s ! j) - 48) :: u32) = word_of_nat (unat (s ! j)) - 48"
      by (simp add: of_nat_diff)
    then show ?thesis by (simp add: unsigned_of_nat word_of_nat_eq_iff)
  qed
  have IH: "atoi_loop m (p + Suc j) 10 (word_of_nat (length s - Suc j + e) - 1) r'
    = Some (r' + 10 ^ e * word_of_nat (numval (drop (Suc j) s)))" for r'
    using Suc.hyps(1) [of "Suc j" r'] Suc.hyps(2) Suc.prems jl by (simp add: dr)
  have "atoi_loop m (p + j) 10 (word_of_nat (length s - j + e) - 1) r
      = atoi_loop m (p + Suc j) 10 (word_of_nat (length s - Suc j + e) - 1)
          (r + pow 10 (word_of_nat (length s - Suc j + e)) * (ucast (s ! j) - 48))"
    unfolding i using l dig by (subst atoi_loop.simps) (simp del: of_nat_add)
  also have "\<dots> = Some (r + 10 ^ (length s - Suc j + e) * word_of_nat (unat (s ! j) - 48)
      + 10 ^ e * word_of_nat (numval (drop (Suc j) s)))"
    unfolding IH pow_power u v ..
  also have "\<dots> = Some (r + 10 ^ e * word_of_nat (numval (drop j s)))"
    by (simp add: dr numval_Cons power_add distrib_left mult.assoc mult.commute mult.left_commute)
  finally show ?case .
qed

lemma atoi_decimal:
  assumes c: "cstr m p s" and d: "\<forall>x \<in> set s. 48 \<le> x \<and> x \<le> 57" and s: "s \<noteq> []"
    and h: "hd s \<noteq> 48 \<or> s = [48]" and b: "length s < 2 ^ 32"
  shows "atoi m p = Some (word_of_nat (numval s))"
proof -
  have l: "load m p = Some (hd s)" using cstr_load_char [OF c, of 0] s by (simp add: hd_conv_nth)
  have h45: "hd s \<noteq> 45" using d s by (cases s) auto
  note len = strlen_cstr [OF c]
  show ?thesis
  proof (cases "s = [48]")
    case True
    with cstr_load_end [OF c] have "load m (Suc p) = Some 0" by simp
    with True l len show ?thesis
      by (simp add: atoi_def numval_def atoi_loop.simps)
  next
    case False
    have "atoi_loop m p 10 (word_of_nat (length s) - 1) 0 = Some (word_of_nat (numval s))"
      using atoi_loop_decimal [OF c, of 0 0 0] d b by simp
    with False h h45 l len show ?thesis by (simp add: atoi_def)
  qed
qed

lemma atoi_negative:
  assumes c: "cstr m p (45 # s)" and d: "\<forall>x \<in> set s. 48 \<le> x \<and> x \<le> 57" and s: "s \<noteq> []"
    and h: "hd s \<noteq> 48" and b: "Suc (Suc (length s)) < 2 ^ 32"
  shows "atoi m p = Some (- (10 * word_of_nat (numval s)))"
proof -
  have l: "load m p = Some 45" using cstr_load_char [OF c, of 0] by simp
  have l1: "load m (Suc p) = Some (hd s)"
    using cstr_load_char [OF c, of 1] s by (simp add: hd_conv_nth)
  have "atoi_loop m (Suc p) 10 (word_of_nat (length (45 # s)) - 1) 0
      = Some (10 * word_of_nat (numval s))"
    using atoi_loop_decimal [OF c, of 1 1 0] d b by simp
  with h l l1 strlen_cstr [OF c] show ?thesis by (simp add: atoi_def)
qed

lemma decimal_text:
  "\<forall>x \<in> set (rev (map digit_char (lsd 10 k))). 48 \<le> x \<and> x \<le> 57"
proof
  fix x assume "x \<in> set (rev (map digit_char (lsd 10 k)))"
  then obtain d where "x = digit_char d" "d \<in> set (lsd 10 k)" by auto
  with lsd_bounds [of 10 d k] have "unat x = 48 + d" "d < 10" by (auto simp: digit_char_decimal)
  then show "48 \<le> x \<and> x \<le> 57" by (simp add: word_le_nat_alt)
qed

lemma lsd_zero: "lsd 10 0 = [0]"
  by (subst lsd.simps) simp

lemma decimal_text_head:
  "hd (rev (map digit_char (lsd 10 k))) \<noteq> 48 \<or> k = 0"
proof (cases "k = 0")
  case False
  have ne: "lsd 10 k \<noteq> []" by (subst lsd.simps) simp
  then have "hd (rev (map digit_char (lsd 10 k))) = digit_char (last (lsd 10 k))"
    by (simp add: hd_rev last_map)
  moreover have "last (lsd 10 k) < 10" "last (lsd 10 k) \<noteq> 0"
    using lsd_bounds [of 10 "last (lsd 10 k)" k] ne lsd_last_nonzero [of 10 k] False by auto
  ultimately have "unat (hd (rev (map digit_char (lsd 10 k)))) \<noteq> unat (48 :: u8)"
    by (simp add: digit_char_decimal)
  then show ?thesis by metis
qed simp

lemma cstr_number_text:
  assumes r: "region m s (Suc (length (number_text v b)))" and b: "2 \<le> b" "b \<le> 36"
  shows "cstr (blit m s (number_text v b @ [0])) s (number_text v b)"
proof -
  have "0 \<notin> set (number_text v b)"
    using digit_char_nonzero lsd_bounds [OF b(1), of _ "nat \<bar>v\<bar>"] b(2)
    by (fastforce simp: number_text_def)
  moreover have "bytes_at (blit m s (number_text v b @ [0])) s (Suc (length (number_text v b)))
      = number_text v b @ [0]"
    using bytes_at_blit_same [of m s "number_text v b @ [0]"] r by simp
  ultimately show ?thesis using r by (simp add: cstr_def)
qed

section \<open>Properties\<close>

text \<open>
  \<open>itoaz\<close> in a base from 2 to 36 stores the sign and the digits of the number, without leading
  zeros, and the terminator, provided the number has at most nine digits in that base; with more
  digits it overruns its local array. Nothing else is written.
\<close>
theorem itoaz_prints_nine_digits:
  fixes n b :: u32
  assumes "2 \<le> unat b" and "unat b \<le> 36"
    and "region m s (Suc (length (number_text (sint n) (unat b))))"
  shows "if nat \<bar>sint n\<bar> < unat b ^ MAX_DIGIT
    then itoaz m n s b = Some (blit m s (number_text (sint n) (unat b) @ [0]))
      \<and> cstr (blit m s (number_text (sint n) (unat b) @ [0])) s (number_text (sint n) (unat b))
    else itoaz m n s b = None"
  using itoaz_text [OF assms(1) _ assms(3)] itoaz_overrun [OF assms(1)]
    cstr_number_text [OF assms(3,1,2)] by (simp add: not_less)

theorem itoaz_prints_nine_digits_witness:
  "itoaz (replicate 20 0) 1234567890 1 10 = None"
proof -
  have v: "sint (1234567890 :: u32) = 1234567890" by simp
  have u: "unat (10 :: u32) = 10" by simp
  have "length (lsd 10 1234567890) \<le> 10" using lsd_length [of 10 10 1234567890] by simp
  then have r: "region (replicate 20 (0::u8)) 1 (Suc (length (number_text (sint (1234567890 :: u32)) (unat (10 :: u32)))))"
    unfolding v u number_text_def by (simp add: region_def)
  show ?thesis
    using itoaz_prints_nine_digits [of "10 :: u32" "replicate 20 0" 1 1234567890] r
    unfolding v u by (simp add: MAX_DIGIT_def)
qed

text \<open>
  C25: What \<open>itoaz\<close> printed in decimal, \<open>atoi\<close> reads back, for a number of at most nine digits that is
  not negative. A negative number comes back multiplied by ten, because \<open>atoi\<close> skips the sign without
  lowering the power of the first digit.
\<close>
theorem itoaz_atoi_roundtrip:
  fixes n :: u32
  assumes "nat \<bar>sint n\<bar> < 10 ^ MAX_DIGIT"
    and "region m s (Suc (length (number_text (sint n) 10)))"
  shows "\<exists>m'. itoaz m n s 10 = Some m'
    \<and> atoi m' s = Some (if 0 \<le> sint n then n else 10 * n)"
proof -
  let ?k = "nat \<bar>sint n\<bar>"
  let ?t = "rev (map digit_char (lsd 10 ?k))"
  let ?m = "blit m s (number_text (sint n) 10 @ [0])"
  have i: "itoaz m n s 10 = Some ?m" using itoaz_text [of 10 n m s] assms by simp
  have c: "cstr ?m s (number_text (sint n) 10)" using cstr_number_text [OF assms(2)] by simp
  have len: "length (lsd 10 ?k) \<le> 9" using lsd_length [of 10 9 ?k] assms(1) by (simp add: MAX_DIGIT_def)
  have ne: "?t \<noteq> []" by (subst lsd.simps) simp
  have nk: "word_of_nat ?k = (if sint n < 0 then - n else n)"
    unfolding unat_magnitude [symmetric] by simp
  have "atoi ?m s = Some (if 0 \<le> sint n then n else 10 * n)"
  proof (cases "0 \<le> sint n")
    case True
    then have ct: "cstr ?m s ?t" using c by (simp add: number_text_def)
    have "?k = 0 \<Longrightarrow> ?t = [48]" by (simp only: lsd_zero) (simp add: digit_char_def)
    then have "hd ?t \<noteq> 48 \<or> ?t = [48]" using decimal_text_head [of ?k] by argo
    from atoi_decimal [OF ct decimal_text ne this] len True nk show ?thesis
      by (simp add: numval_lsd)
  next
    case False
    then have ct: "cstr ?m s (45 # ?t)" using c by (simp add: number_text_def)
    have "hd ?t \<noteq> 48" using decimal_text_head [of ?k] False by auto
    from atoi_negative [OF ct decimal_text ne this] len False nk show ?thesis
      by (simp add: numval_lsd)
  qed
  with i show ?thesis by blast
qed

theorem itoaz_atoi_roundtrip_witness:
  "\<exists>m'. itoaz (replicate 20 0) (- 5) 1 10 = Some m' \<and> atoi m' 1 = Some (- 50)"
proof -
  have v: "sint (- 5 :: u32) = - 5" by simp
  have "length (lsd 10 5) \<le> 1" using lsd_length [of 10 1 5] by simp
  then have r: "region (replicate 20 (0::u8)) 1 (Suc (length (number_text (sint (- 5 :: u32)) 10)))"
    unfolding v number_text_def by (simp add: region_def)
  show ?thesis
    using itoaz_atoi_roundtrip [of "- 5 :: u32" "replicate 20 0" 1] r unfolding v
    by (simp add: MAX_DIGIT_def)
qed

text \<open>
  The character classes fit together for every code: letters and digits are the alphanumeric ones,
  these and punctuation, which they exclude, are the graphic ones, the space makes them printable, and
  control characters are never printable; changing the case of a letter and back gives the letter.
  But \<open>isxdigit\<close> accepts every alphanumeric character, the letters after F included.
\<close>
theorem ctype_classes:
  "(isalnum ch \<longleftrightarrow> isalpha ch \<or> isdigit ch) \<and> (isalpha ch \<longleftrightarrow> isupper ch \<or> islower ch)
   \<and> \<not> (isupper ch \<and> islower ch) \<and> \<not> (isalpha ch \<and> isdigit ch)
   \<and> (isgraph ch \<longleftrightarrow> isalnum ch \<or> ispunct ch) \<and> \<not> (isalnum ch \<and> ispunct ch)
   \<and> (isprint ch \<longleftrightarrow> isgraph ch \<or> ch = 32) \<and> \<not> (isprint ch \<and> iscntrl ch)
   \<and> (if isupper ch then islower (tolower ch) \<and> toupper (tolower ch) = ch else tolower ch = ch)
   \<and> (if islower ch then isupper (toupper ch) \<and> tolower (toupper ch) = ch else toupper ch = ch)
   \<and> (isxdigit ch \<longleftrightarrow> isalnum ch)"
  unfolding ctype_defs by auto

end
