(* ===== verification/Libc_Time.thy ===== *)
theory Libc_Time
  imports Prelude "HOL-Library.Signed_Division"
begin

text \<open>
  Calendar time: \<open>gmtime_r\<close> of src/src/libc/time/gmtime_r.c with the constants of
  src/src/libc/time/local.h. \<open>time_t\<close> is an unsigned 32-bit integer that the code converts to \<open>long\<close>,
  also of 32 bits; every intermediate value is far inside that range, so the computation is written
  over the integers, with \<open>sdiv\<close> and \<open>smod\<close> for C's division of signed values.

  The specification is the Gregorian calendar: leap years, month lengths and the number of days from 1
  January 1970 to a date.
\<close>

section \<open>The function\<close>

record tm =
  tm_sec :: int
  tm_min :: int
  tm_hour :: int
  tm_mday :: int
  tm_mon :: int
  tm_year :: int
  tm_wday :: int
  tm_yday :: int
  tm_isdst :: int

definition isleap :: "int \<Rightarrow> bool" where
  "isleap y \<longleftrightarrow> y smod 4 = 0 \<and> y smod 100 \<noteq> 0 \<or> y smod 400 = 0"

text \<open>The date part, from the number of days since 1 March of the year 0: year, month, day and day of the year.\<close>

definition civil_from_days :: "int \<Rightarrow> int \<times> int \<times> int \<times> int" where
  "civil_from_days days =
     (let era = (if 0 \<le> days then days else days - (146097 - 1)) sdiv 146097;
          eraday = days - era * 146097;
          erayear = (eraday - eraday div (3 * 365 + 366 - 1) + eraday div 36524
                     - eraday div (146097 - 1)) div 365;
          yearday = eraday - (365 * erayear + erayear div 4 - erayear div 100);
          month = (5 * yearday + 2) div 153;
          day = yearday - (153 * month + 2) div 5 + 1;
          month' = (if month < 10 then month + 2 else month - 10);
          year = 0 + erayear + era * 400 + (if month' \<le> 1 then 1 else 0)
      in (year, month', day,
          if 365 - 31 - 28 \<le> yearday then yearday - (365 - 31 - 28)
          else yearday + 31 + 28 + (if isleap erayear then 1 else 0)))"

definition gmtime_r :: "u32 \<Rightarrow> tm" where
  "gmtime_r tim =
     (let lcltime = sint tim;
          days = lcltime sdiv 86400 + 719468;
          rem = lcltime smod 86400;
          (rem, days) = (if rem < 0 then (rem + 86400, days - 1) else (rem, days));
          hour = rem sdiv 3600;
          rem' = rem smod 3600;
          weekday = (3 + days) smod 7;
          (year, month, day, yday) = civil_from_days days
      in \<lparr>tm_sec = rem' smod 60, tm_min = rem' sdiv 60, tm_hour = hour, tm_mday = day, tm_mon = month,
          tm_year = year - 1900, tm_wday = (if weekday < 0 then weekday + 7 else weekday),
          tm_yday = yday, tm_isdst = 0\<rparr>)"

section \<open>The calendar\<close>

definition leap :: "int \<Rightarrow> bool" where
  "leap y \<longleftrightarrow> y mod 4 = 0 \<and> (y mod 100 \<noteq> 0 \<or> y mod 400 = 0)"

definition month_length :: "int \<Rightarrow> nat \<Rightarrow> int" where
  "month_length y mon =
     [31, if leap y then 29 else 28, 31, 30, 31, 30, 31, 31, 30, 31, 30, 31] ! mon"

text \<open>Days from 1 January 1970 to 1 January of a year, and days of a year before a month.\<close>

definition days_to_year :: "int \<Rightarrow> int" where
  "days_to_year y = 365 * (y - 1970) + ((y - 1) div 4 - (y - 1) div 100 + (y - 1) div 400) - 477"

definition days_to_month :: "int \<Rightarrow> nat \<Rightarrow> int" where
  "days_to_month y mon = (\<Sum>k < mon. month_length y k)"

definition valid_date :: "int \<Rightarrow> int \<Rightarrow> int \<Rightarrow> bool" where
  "valid_date y mon mday \<longleftrightarrow> 0 \<le> mon \<and> mon < 12 \<and> 1 \<le> mday \<and> mday \<le> month_length y (nat mon)"

lemma div_pred:
  fixes y k :: int
  assumes "0 < k"
  shows "y div k = (y - 1) div k + (if y mod k = 0 then 1 else 0)"
proof -
  define q where "q = (y - 1) div k"
  define r where "r = (y - 1) mod k"
  have y: "y = k * q + (r + 1)" by (simp add: q_def r_def)
  have r: "0 \<le> r" "r < k" using assms by (simp_all add: r_def)
  show ?thesis
  proof (cases "r + 1 = k")
    case True
    then have "y = k * (q + 1)" using y by (simp add: distrib_left)
    then have "y div k = q + 1" "y mod k = 0" using assms by simp_all
    then show ?thesis by (simp add: q_def)
  next
    case False
    with r have "r + 1 < k" by simp
    then have "y div k = q" "y mod k = r + 1" using y r
      by (auto intro: int_div_pos_eq int_mod_pos_eq)
    with r show ?thesis by (simp add: q_def)
  qed
qed

lemma mod_100_4:
  fixes y :: int
  shows "y mod 400 = 0 \<longrightarrow> y mod 100 = 0" and "y mod 100 = 0 \<longrightarrow> y mod 4 = 0"
  using mod_mod_cancel [of 100 400 y] mod_mod_cancel [of 4 100 y] by auto

lemma days_to_year_Suc: "days_to_year (y + 1) = days_to_year y + (if leap y then 366 else 365)"
proof -
  obtain A B C where q: "(y - 1) div 4 = A" "(y - 1) div 100 = B" "(y - 1) div 400 = C" by blast
  obtain a b c where r: "y mod 4 = a" "y mod 100 = b" "y mod 400 = c" by blast
  have "days_to_year (y + 1) = 365 * (y - 1969) + (y div 4 - y div 100 + y div 400) - 477"
    by (simp add: days_to_year_def)
  also have "\<dots> = 365 * (y - 1969) + ((A + (if a = 0 then 1 else 0)) - (B + (if b = 0 then 1 else 0))
      + (C + (if c = 0 then 1 else 0))) - 477"
    by (simp only: div_pred [of 4 y] div_pred [of 100 y] div_pred [of 400 y] q r)
  finally have e: "days_to_year (y + 1) = 365 * (y - 1969) + ((A + (if a = 0 then 1 else 0))
      - (B + (if b = 0 then 1 else 0)) + (C + (if c = 0 then 1 else 0))) - 477" .
  have "days_to_year y = 365 * (y - 1970) + (A - B + C) - 477"
    by (simp only: days_to_year_def q)
  moreover have "leap y \<longleftrightarrow> a = 0 \<and> (b \<noteq> 0 \<or> c = 0)" by (simp only: leap_def r)
  moreover have "c = 0 \<longrightarrow> b = 0" "b = 0 \<longrightarrow> a = 0" using mod_100_4 [of y] unfolding r .
  ultimately show ?thesis unfolding e by (cases "a = 0"; cases "b = 0"; cases "c = 0") simp_all
qed

lemma isleap_leap: "0 \<le> y \<Longrightarrow> isleap y = leap y"
proof -
  assume "0 \<le> y"
  then have "isleap y \<longleftrightarrow> y mod 4 = 0 \<and> y mod 100 \<noteq> 0 \<or> y mod 400 = 0"
    by (cases "y = 0") (simp_all add: isleap_def signed_modulo_int_def)
  then show ?thesis using mod_100_4 [of y] by (auto simp: leap_def)
qed

section \<open>The 400-year era\<close>

text \<open>
  A day of the era lies in a century, a group of four years, a year of the group and a day of that
  year, counted from March; only a last year of a group has a day 365, and in the last group of a
  century only that of the last century.
\<close>

definition era_parts :: "int \<Rightarrow> int \<Rightarrow> int \<Rightarrow> int \<Rightarrow> int \<Rightarrow> bool" where
  "era_parts n c k j d \<longleftrightarrow> n = 36524 * c + 1461 * k + 365 * j + d
     \<and> 0 \<le> c \<and> c \<le> 3 \<and> 0 \<le> k \<and> k \<le> 24 \<and> 0 \<le> j \<and> j \<le> 3 \<and> 0 \<le> d \<and> d \<le> 365
     \<and> (d = 365 \<longrightarrow> j = 3 \<and> (k = 24 \<longrightarrow> c = 3))"

lemma era_parts_exist:
  assumes "0 \<le> n" and "n < 146097"
  obtains c k j d where "era_parts n c k j d"
proof -
  define c where "c = min (n div 36524) 3"
  define s where "s = n - 36524 * c"
  have s: "0 \<le> s" "s \<le> 36524" "s = 36524 \<longrightarrow> c = 3" "0 \<le> c" "c \<le> 3"
    using assms by (auto simp: s_def c_def min_def) (presburger+)?
  define k where "k = s div 1461"
  define t where "t = s mod 1461"
  have k: "s = 1461 * k + t" "0 \<le> k" "k \<le> 24" "0 \<le> t" "t \<le> 1460"
    using s by (auto simp: k_def t_def)
  define j where "j = min (t div 365) 3"
  define d where "d = t - 365 * j"
  have d: "0 \<le> d" "d \<le> 365" "d = 365 \<longrightarrow> j = 3" "0 \<le> j" "j \<le> 3"
    using k by (auto simp: d_def j_def min_def) (presburger+)?
  have "d = 365 \<longrightarrow> k = 24 \<longrightarrow> c = 3" using d k(1) s by (auto simp: d_def)
  then have "era_parts n c k j d" using s k d by (auto simp: era_parts_def s_def d_def)
  then show ?thesis by (rule that)
qed

lemma erayear:
  assumes "era_parts n c k j d"
  shows "(n - n div 1460 + n div 36524 - n div 146096) div 365 = 100 * c + 4 * k + j"
proof -
  note p = assms [unfolded era_parts_def]
  define e where "e = (24 * c + k + 365 * j + d) div 1460"
  have e: "0 \<le> e" "e \<le> 1" "d = 0 \<longrightarrow> e = 0" "d = 365 \<longrightarrow> e = 1"
    using p by (auto simp: e_def)
  have "n = 1460 * (25 * c + k) + (24 * c + k + 365 * j + d)" using p by simp
  then have n4: "n div 1460 = 25 * c + k + e" unfolding e_def by (simp only: div_mult_self4)
  have nc: "n div 36524 - n div 146096 = c"
  proof (cases "1461 * k + 365 * j + d = 36524")
    case True
    with p have "k = 24" "j = 3" "d = 365" by auto
    with p have "n = 146096" "c = 3" by auto
    then show ?thesis by simp
  next
    case False
    with p have r: "1461 * k + 365 * j + d < 36524" "n = 36524 * c + (1461 * k + 365 * j + d)"
      by auto
    have "n div 36524 = c" unfolding r(2) using r(1) p by (intro int_div_pos_eq) auto
    moreover have "n div 146096 = 0" using r p by simp
    ultimately show ?thesis by simp
  qed
  have "n - n div 1460 + n div 36524 - n div 146096 = 365 * (100 * c + 4 * k + j) + (d - e)"
    using n4 nc p by simp
  moreover have "0 \<le> d - e" "d - e < 365" using e p by auto
  ultimately show ?thesis by (intro int_div_pos_eq) auto
qed

lemma era_quotients:
  assumes "era_parts n c k j d"
  shows "(400 * E + (100 * c + 4 * k + j)) div 4 = 100 * E + 25 * c + k"
    and "(400 * E + (100 * c + 4 * k + j)) div 100 = 4 * E + c"
    and "(400 * E + (100 * c + 4 * k + j)) div 400 = E"
proof -
  note p = assms [unfolded era_parts_def]
  show "(400 * E + (100 * c + 4 * k + j)) div 4 = 100 * E + 25 * c + k"
    using p by (intro int_div_pos_eq [where r = j]) auto
  show "(400 * E + (100 * c + 4 * k + j)) div 100 = 4 * E + c"
    using p by (intro int_div_pos_eq [where r = "4 * k + j"]) auto
  show "(400 * E + (100 * c + 4 * k + j)) div 400 = E"
    using p by (intro int_div_pos_eq [where r = "100 * c + 4 * k + j"]) auto
qed

lemma yearday:
  assumes "era_parts n c k j d" and "Y = 100 * c + 4 * k + j"
  shows "n - (365 * Y + Y div 4 - Y div 100) = d"
  using era_quotients [OF assms(1), of 0] assms by (simp add: era_parts_def)

lemma era_floor:
  "(if 0 \<le> days then days else days - (146097 - 1)) sdiv 146097 = days div (146097 :: int)"
proof (cases "0 \<le> days")
  case True
  then show ?thesis by (cases "days = 0") (simp_all add: signed_divide_int_def)
next
  case False
  define q where "q = days div 146097"
  define r where "r = days mod 146097"
  have d: "days = 146097 * q + r" "0 \<le> r" "r < 146097" by (simp_all add: q_def r_def)
  have "(146096 - days) div 146097 = - q"
    using d by (intro int_div_pos_eq [where r = "146096 - r"]) auto
  with False show ?thesis by (simp add: signed_divide_int_def q_def)
qed

section \<open>Months counted from March\<close>

lemma month_lengths:
  "month_length y 0 = 31" "month_length y 1 = (if leap y then 29 else 28)" "month_length y 2 = 31"
  "month_length y 3 = 30" "month_length y 4 = 31" "month_length y 5 = 30" "month_length y 6 = 31"
  "month_length y 7 = 31" "month_length y 8 = 30" "month_length y 9 = 31" "month_length y 10 = 30"
  "month_length y 11 = 31"
  by (simp_all add: month_length_def)

lemma days_to_months:
  "days_to_month y 0 = 0" "days_to_month y 1 = 31"
  "days_to_month y 2 = 59 + (if leap y then 1 else 0)"
  "days_to_month y 3 = 90 + (if leap y then 1 else 0)"
  "days_to_month y 4 = 120 + (if leap y then 1 else 0)"
  "days_to_month y 5 = 151 + (if leap y then 1 else 0)"
  "days_to_month y 6 = 181 + (if leap y then 1 else 0)"
  "days_to_month y 7 = 212 + (if leap y then 1 else 0)"
  "days_to_month y 8 = 243 + (if leap y then 1 else 0)"
  "days_to_month y 9 = 273 + (if leap y then 1 else 0)"
  "days_to_month y 10 = 304 + (if leap y then 1 else 0)"
  "days_to_month y 11 = 334 + (if leap y then 1 else 0)"
  by (simp_all add: days_to_month_def eval_nat_numeral lessThan_Suc month_length_def)

text \<open>
  Day \<open>d\<close> of a year from March on is day \<open>day\<close> of month \<open>mon\<close>: in the same year up to December, in the
  next one for January and February.
\<close>

lemma month_from_day:
  assumes "0 \<le> d" and "d \<le> 365" and "d = 365 \<longrightarrow> leap (y + 1)"
    and "mp = (5 * d + 2) div 153" and "day = d - (153 * mp + 2) div 5 + 1"
    and "mon = (if mp < 10 then mp + 2 else mp - 10)"
  shows "valid_date (if mon \<le> 1 then y + 1 else y) mon day
    \<and> (if mon \<le> 1 then 306 \<le> d \<and> days_to_month (y + 1) (nat mon) + day - 1 = d - 306
       else d < 306 \<and> days_to_month y (nat mon) + day - 1 = 59 + (if leap y then 1 else 0) + d)"
proof -
  have b: "153 * mp \<le> 5 * d + 2" "5 * d + 2 < 153 * mp + 153" using assms(4) by auto
  then have "0 \<le> mp" "mp \<le> 11" using assms(1,2) by auto
  then have "mp = 0 \<or> mp = 1 \<or> mp = 2 \<or> mp = 3 \<or> mp = 4 \<or> mp = 5 \<or> mp = 6 \<or> mp = 7
    \<or> mp = 8 \<or> mp = 9 \<or> mp = 10 \<or> mp = 11" by presburger
  then show ?thesis
    using b assms(1-3,5,6)
    by (elim disjE) (auto simp: valid_date_def month_lengths month_lengths(2) [unfolded One_nat_def] days_to_months
        days_to_months(2) [unfolded One_nat_def])
qed

section \<open>Dates\<close>

text \<open>Days from 1 January 1970 to a date.\<close>

definition epoch_days :: "int \<Rightarrow> int \<Rightarrow> int \<Rightarrow> int" where
  "epoch_days y mon mday = days_to_year y + days_to_month y (nat mon) + mday - 1"

lemma march_first:
  "days_to_year y + 59 + (if leap y then 1 else 0)
     = 365 * y + y div 4 - y div 100 + y div 400 - 719468"
proof -
  obtain A B C where q: "(y - 1) div 4 = A" "(y - 1) div 100 = B" "(y - 1) div 400 = C" by blast
  obtain a b c where r: "y mod 4 = a" "y mod 100 = b" "y mod 400 = c" by blast
  have e: "y div 4 = A + (if a = 0 then 1 else 0)" "y div 100 = B + (if b = 0 then 1 else 0)"
    "y div 400 = C + (if c = 0 then 1 else 0)"
    by (simp_all only: div_pred [of 4 y] div_pred [of 100 y] div_pred [of 400 y] q r)
  have "days_to_year y = 365 * (y - 1970) + (A - B + C) - 477"
    by (simp only: days_to_year_def q)
  moreover have "leap y \<longleftrightarrow> a = 0 \<and> (b \<noteq> 0 \<or> c = 0)" by (simp only: leap_def r)
  moreover have "c = 0 \<longrightarrow> b = 0" "b = 0 \<longrightarrow> a = 0" using mod_100_4 [of y] unfolding r .
  ultimately show ?thesis unfolding e by (cases "a = 0"; cases "b = 0"; cases "c = 0") simp_all
qed

lemma leap_period: "leap (400 * E + y) = leap y"
proof -
  have "(400 * E + y) mod k = y mod k" if "k dvd 400" for k
    using that by (metis dvd_mult2 mod_add_self1 mod_mult_self4 dvdE mult.assoc mult.commute)
  then show ?thesis by (simp add: leap_def)
qed

lemma leap_last_of_group:
  assumes "era_parts n c k j d" and "d = 365"
  shows "leap (400 * E + (100 * c + 4 * k + j) + 1)"
proof -
  note p = assms(1) [unfolded era_parts_def]
  with assms(2) have j: "j = 3" and k: "k = 24 \<longrightarrow> c = 3" by auto
  have "(100 * c + 4 * k + 4) mod 4 = 0"
    using mod_mult_self4 [of 4 "25 * c + k + 1" 0] by (simp add: algebra_simps)
  moreover have "(100 * c + 4 * k + 4) mod 100 = 4 * k + 4" if "k \<noteq> 24"
    using p that by (intro int_mod_pos_eq [where q = c]) auto
  ultimately have "leap (100 * c + 4 * k + 4)" using p k by (cases "k = 24") (auto simp: leap_def)
  then have "leap (400 * E + (100 * c + 4 * k + 4))" by (simp only: leap_period)
  moreover have "400 * E + (100 * c + 4 * k + j) + 1 = 400 * E + (100 * c + 4 * k + 4)"
    using j by simp
  ultimately show ?thesis by (simp only:)
qed

lemma civil_from_days_correct:
  assumes "civil_from_days days = (year, mon, mday, yday)"
  shows "valid_date year mon mday" and "epoch_days year mon mday = days - 719468"
    and "yday = days_to_month year (nat mon) + mday - 1"
proof -
  define E where "E = days div 146097"
  define n where "n = days mod 146097"
  have n: "0 \<le> n" "n < 146097" and days: "days = 146097 * E + n" by (simp_all add: E_def n_def)
  from era_parts_exist [OF n] obtain c k j d where p: "era_parts n c k j d" .
  define Y where "Y = 100 * c + 4 * k + j"
  define y where "y = 400 * E + Y"
  note b = p [unfolded era_parts_def]
  have era: "(if 0 \<le> days then days else days - (146097 - 1)) sdiv 146097 = E"
    unfolding E_def by (rule era_floor)
  have nd: "days - E * 146097 = n" using days by simp
  have ey: "(n - n div (3 * 365 + 366 - 1) + n div 36524 - n div (146097 - 1)) div 365 = Y"
    using erayear [OF p] by (simp add: Y_def)
  have yd: "n - (365 * Y + Y div 4 - Y div 100) = d" using yearday [OF p Y_def] .
  define mp where "mp = (5 * d + 2) div 153"
  have mon: "mon = (if mp < 10 then mp + 2 else mp - 10)" and mday: "mday = d - (153 * mp + 2) div 5 + 1"
    and year: "year = (if mon \<le> 1 then y + 1 else y)"
    and yday: "yday = (if 306 \<le> d then d - 306 else d + 59 + (if isleap Y then 1 else 0))"
    using assms unfolding civil_from_days_def Let_def era nd ey yd
    by (auto simp: mp_def [symmetric] y_def)
  have lp: "d = 365 \<longrightarrow> leap (y + 1)" using leap_last_of_group [OF p, of E] by (simp add: y_def Y_def)
  have m: "valid_date (if mon \<le> 1 then y + 1 else y) mon mday
    \<and> (if mon \<le> 1 then 306 \<le> d \<and> days_to_month (y + 1) (nat mon) + mday - 1 = d - 306
       else d < 306 \<and> days_to_month y (nat mon) + mday - 1 = 59 + (if leap y then 1 else 0) + d)"
    using b lp mp_def mday mon by (intro month_from_day) auto
  show "valid_date year mon mday" using m unfolding year by blast
  have Ynn: "0 \<le> Y" using b by (simp add: Y_def)
  have "isleap Y = leap y" using isleap_leap [OF Ynn] leap_period [of E Y] by (simp add: y_def)
  then show "yday = days_to_month year (nat mon) + mday - 1"
    using m yday year by (auto split: if_splits)
  have "days_to_year y + 59 + (if leap y then 1 else 0) + d = days - 719468"
    unfolding march_first using era_quotients [OF p, of E] b days by (simp add: y_def Y_def)
  then show "epoch_days year mon mday = days - 719468"
    using m days_to_year_Suc [of y] unfolding epoch_days_def year by (auto split: if_splits)
qed

text \<open>Correcting a negative remainder turns truncated division into division with floor.\<close>

lemma floor_of_truncated:
  fixes a k :: int
  assumes "0 < k"
  shows "(if a smod k < 0 then a smod k + k else a smod k) = a mod k"
    and "(if a smod k < 0 then a sdiv k - 1 else a sdiv k) = a div k"
proof -
  have e: "a = k * (a sdiv k) + a smod k" using mult_sdiv_smod_eq [of k a] by simp
  have s: "a smod k = sgn a * (\<bar>a\<bar> mod k)" using assms by (simp add: signed_modulo_int_def)
  have m: "0 \<le> \<bar>a\<bar> mod k" "\<bar>a\<bar> mod k < k" using assms by simp_all
  have r: "- k < a smod k" "a smod k < k"
  proof -
    obtain x where x: "\<bar>a\<bar> mod k = x" by blast
    have "sgn a * x = x \<or> sgn a * x = 0 \<or> sgn a * x = - x" by (simp add: sgn_if)
    with m assms show "- k < a smod k" "a smod k < k" unfolding s x by auto
  qed
  have f: "a = k * (a sdiv k - 1) + (a smod k + k)" using e by (simp add: algebra_simps)
  have neg: "a mod k = a smod k + k \<and> a div k = a sdiv k - 1" if "a smod k < 0"
  proof -
    have "0 \<le> a smod k + k" "a smod k + k < k" using r that by simp_all
    then show ?thesis using int_mod_pos_eq [OF f] int_div_pos_eq [OF f] by blast
  qed
  have pos: "a mod k = a smod k \<and> a div k = a sdiv k" if "\<not> a smod k < 0"
  proof -
    have "0 \<le> a smod k" using that by simp
    then show ?thesis using r(2) int_mod_pos_eq [OF e] int_div_pos_eq [OF e] by blast
  qed
  show "(if a smod k < 0 then a smod k + k else a smod k) = a mod k" using neg pos by argo
  show "(if a smod k < 0 then a sdiv k - 1 else a sdiv k) = a div k" using neg pos by argo
qed

lemma sdiv_smod_nonneg:
  fixes a k :: int
  assumes "0 \<le> a" and "0 < k"
  shows "a sdiv k = a div k" and "a smod k = a mod k"
  using assms by (cases "a = 0"; simp add: signed_divide_int_def signed_modulo_int_def)+

lemma gmtime_r_fields:
  assumes "t = sint tim"
  shows "\<exists>year mon mday yday. civil_from_days (t div 86400 + 719468) = (year, mon, mday, yday)
    \<and> gmtime_r tim = \<lparr>tm_sec = t mod 86400 mod 3600 mod 60, tm_min = t mod 86400 mod 3600 div 60,
         tm_hour = t mod 86400 div 3600, tm_mday = mday, tm_mon = mon, tm_year = year - 1900,
         tm_wday = (3 + (t div 86400 + 719468)) mod 7, tm_yday = yday, tm_isdst = 0\<rparr>"
proof -
  note f = floor_of_truncated [of 86400 t]
  have c: "(if t smod 86400 < 0 then (t smod 86400 + 86400, t sdiv 86400 + 719468 - 1)
      else (t smod 86400, t sdiv 86400 + 719468)) = (t mod 86400, t div 86400 + 719468)"
    using f by (auto split: if_splits)
  have r: "0 \<le> t mod 86400" "0 \<le> t mod 86400 mod 3600" by simp_all
  obtain year mon mday yday where
    cv: "civil_from_days (t div 86400 + 719468) = (year, mon, mday, yday)"
    by (cases "civil_from_days (t div 86400 + 719468)") auto
  have "gmtime_r tim = \<lparr>tm_sec = t mod 86400 mod 3600 mod 60, tm_min = t mod 86400 mod 3600 div 60,
         tm_hour = t mod 86400 div 3600, tm_mday = mday, tm_mon = mon, tm_year = year - 1900,
         tm_wday = (3 + (t div 86400 + 719468)) mod 7, tm_yday = yday, tm_isdst = 0\<rparr>"
    unfolding gmtime_r_def assms [symmetric] Let_def c prod.case cv
    using floor_of_truncated(1) [of 7 "3 + (t div 86400 + 719468)"] r
    by (simp add: sdiv_smod_nonneg)
  with cv show ?thesis by blast
qed

section \<open>Properties\<close>

text \<open>
  C17: \<open>gmtime_r\<close> is correct for every 32-bit time: the date is a date of the Gregorian calendar, the time
  of day is in range, date and time together are exactly the given number of seconds from the start
  of 1970 (as a signed number, so a \<open>time_t\<close> from \<open>2 ^ 31\<close> on is a time before 1970), and the day of the
  year and the day of the week are those of that date.
\<close>
theorem gmtime_r_is_utc:
  "valid_date (tm_year (gmtime_r tim) + 1900) (tm_mon (gmtime_r tim)) (tm_mday (gmtime_r tim))
   \<and> 0 \<le> tm_hour (gmtime_r tim) \<and> tm_hour (gmtime_r tim) < 24
   \<and> 0 \<le> tm_min (gmtime_r tim) \<and> tm_min (gmtime_r tim) < 60
   \<and> 0 \<le> tm_sec (gmtime_r tim) \<and> tm_sec (gmtime_r tim) < 60
   \<and> epoch_days (tm_year (gmtime_r tim) + 1900) (tm_mon (gmtime_r tim)) (tm_mday (gmtime_r tim)) * 86400
       + tm_hour (gmtime_r tim) * 3600 + tm_min (gmtime_r tim) * 60 + tm_sec (gmtime_r tim) = sint tim
   \<and> tm_yday (gmtime_r tim) = days_to_month (tm_year (gmtime_r tim) + 1900) (nat (tm_mon (gmtime_r tim)))
       + tm_mday (gmtime_r tim) - 1
   \<and> tm_wday (gmtime_r tim)
       = (epoch_days (tm_year (gmtime_r tim) + 1900) (tm_mon (gmtime_r tim)) (tm_mday (gmtime_r tim)) + 4) mod 7"
proof -
  define t where "t = sint tim"
  from gmtime_r_fields [OF t_def] obtain year mon mday yday where
    cv: "civil_from_days (t div 86400 + 719468) = (year, mon, mday, yday)"
    and g: "gmtime_r tim = \<lparr>tm_sec = t mod 86400 mod 3600 mod 60, tm_min = t mod 86400 mod 3600 div 60,
         tm_hour = t mod 86400 div 3600, tm_mday = mday, tm_mon = mon, tm_year = year - 1900,
         tm_wday = (3 + (t div 86400 + 719468)) mod 7, tm_yday = yday, tm_isdst = 0\<rparr>" by blast
  note c = civil_from_days_correct [OF cv]
  have e: "epoch_days year mon mday = t div 86400" using c(2) by simp
  obtain q r where qr: "t div 86400 = q" "t mod 86400 = r" by blast
  have r: "0 \<le> r" "r < 86400" "t = q * 86400 + r" using qr by auto
  have w: "(3 + (q + 719468)) mod 7 = (q + 4) mod 7"
    using mod_mult_self1 [of "q + 4" 102781 7] by (simp add: add.commute)
  obtain H R where hr: "r div 3600 = H" "r mod 3600 = R" by blast
  obtain M S where ms: "R div 60 = M" "R mod 60 = S" by blast
  have "r = H * 3600 + R" "0 \<le> R" "R < 3600" "0 \<le> H" "H < 24" using hr r by auto
  moreover have "R = M * 60 + S" "0 \<le> S" "S < 60" "0 \<le> M" "M < 60" using ms calculation by auto
  ultimately show ?thesis
    using c e r(3) w unfolding g t_def [symmetric] by (simp add: qr hr ms)
qed

end
