(* ===== verification/Syscall_Abi.thy ===== *)
theory Syscall_Abi
  imports Prelude
begin

text \<open>
  What the system call stubs of the ports share: the state a user program sees, the trap into the
  kernel, and the convention for results (macro \<open>RETURN\<close> of src/src/libc/utils.h).

  The kernel behind the trap is a parameter: it takes the registers, the memory of the process and its
  own state, and returns the result register, the memory and its state, or \<open>None\<close> when control does
  not come back.
\<close>

record 'k ustate =
  errno_var :: u32
  umem :: mem
  kern :: 'k

type_synonym ('r, 'w, 'k) trap = "'r \<Rightarrow> mem \<times> 'k \<Rightarrow> ('w \<times> mem \<times> 'k) option"

definition syscall_trap :: "('r, 'w, 'k) trap \<Rightarrow> 'r \<Rightarrow> 'k ustate \<Rightarrow> ('w \<times> 'k ustate) option" where
  "syscall_trap trap r st =
     (case trap r (umem st, kern st) of None \<Rightarrow> None
      | Some (res, m', k') \<Rightarrow> Some (res, st\<lparr>umem := m', kern := k'\<rparr>))"

definition RETURN :: "(u32 \<times> 'k ustate) option \<Rightarrow> (u32 \<times> 'k ustate) option" where
  "RETURN x =
     (case x of None \<Rightarrow> None
      | Some (res, st) \<Rightarrow>
          if 0 \<le> sint res then Some (res, st) else Some (-1, st\<lparr>errno_var := - res\<rparr>))"

text \<open>Consecutive words in memory.\<close>

fun store_words :: "mem \<Rightarrow> addr \<Rightarrow> u32 list \<Rightarrow> mem option" where
  "store_words m a [] = Some m"
| "store_words m a (w # ws) =
     (case store32 m a w of None \<Rightarrow> None | Some m' \<Rightarrow> store_words m' (a + 4) ws)"

fun load_words :: "mem \<Rightarrow> addr \<Rightarrow> nat \<Rightarrow> u32 list option" where
  "load_words m a 0 = Some []"
| "load_words m a (Suc n) =
     (case load32 m a of None \<Rightarrow> None
      | Some w \<Rightarrow> map_option (Cons w) (load_words m (a + 4) n))"

text \<open>A call on a state that has words at an address.\<close>

definition with_words :: "'k ustate \<Rightarrow> u32 \<Rightarrow> u32 list \<Rightarrow> ('k ustate \<Rightarrow> 'a option) \<Rightarrow> 'a option" where
  "with_words st p ws f =
     (case store_words (umem st) (unat p) ws of None \<Rightarrow> None | Some m' \<Rightarrow> f (st\<lparr>umem := m'\<rparr>))"

lemma store_words_outside:
  "store_words m a ws = Some m' \<Longrightarrow> region m p n \<Longrightarrow> disjnt_blocks a (4 * length ws) p n \<Longrightarrow>
     bytes_at m' p n = bytes_at m p n \<and> length m' = length m"
proof (induction ws arbitrary: m a)
  case (Cons w ws)
  then obtain m1 where m1: "store32 m a w = Some m1" and m': "store_words m1 (a + 4) ws = Some m'"
    by (auto split: option.splits)
  from m1 have r: "region m a (length (bytes_of_u32 w))" and e: "m1 = blit m a (bytes_of_u32 w)"
    by (auto simp: store32_def split: if_splits)
  from Cons.prems(3) have d: "disjnt_blocks a (length (bytes_of_u32 w)) p n"
    "disjnt_blocks (a + 4) (4 * length ws) p n"
    by (auto simp: disjnt_blocks_def)
  from Cons.IH [OF m' _ d(2)] Cons.prems(2) bytes_at_blit_other [OF r Cons.prems(2) d(1)] r
  show ?case by (simp add: e)
qed simp

lemma load_store_words:
  "store_words m a ws = Some m' \<Longrightarrow> load_words m' a (length ws) = Some ws"
proof (induction ws arbitrary: m a)
  case (Cons w ws)
  then obtain m1 where m1: "store32 m a w = Some m1" and m': "store_words m1 (a + 4) ws = Some m'"
    by (auto split: option.splits)
  from load32_store32 [OF m1] have l: "region m1 a 4" "load32 m1 a = Some w"
    by (simp_all add: load32_def split: if_splits)
  have "bytes_at m' a 4 = bytes_at m1 a 4 \<and> length m' = length m1"
    using m' l(1) by (rule store_words_outside) (simp add: disjnt_blocks_def)
  with l have "load32 m' a = Some w" by (simp add: load32_def region_def)
  with Cons.IH [OF m'] show ?case by simp
qed simp

lemma store_words_region:
  assumes "region m a (4 * length ws)"
  shows "\<exists>m'. store_words m a ws = Some m'"
  using assms
proof (induction ws arbitrary: m a)
  case (Cons w ws)
  then have r: "region m a (length (bytes_of_u32 w))" by (simp add: region_def)
  then have "store32 m a w = Some (blit m a (bytes_of_u32 w))" by (simp add: store32_def)
  moreover have "region (blit m a (bytes_of_u32 w)) (a + 4) (4 * length ws)"
    using Cons.prems r by (simp add: region_blit) (simp add: region_def)
  ultimately show ?case using Cons.IH by simp
qed simp

text \<open>The result convention, case by case.\<close>

lemma RETURN_ok: "0 \<le> sint res \<Longrightarrow> RETURN (Some (res, st)) = Some (res, st)"
  by (simp add: RETURN_def)

lemma RETURN_None [simp]: "RETURN None = None"
  by (simp add: RETURN_def)

lemma RETURN_error:
  assumes "1 \<le> e" and "e \<le> 1024"
  shows "RETURN (Some (- word_of_int e, st)) = Some (-1, st\<lparr>errno_var := word_of_int e\<rparr>)"
proof -
  have "sint (- word_of_int e :: u32) = - e"
  proof -
    have "sint (word_of_int (- e) :: u32) = - e"
      using assms by (subst signed_of_int) (simp add: signed_take_bit_int_eq_self)
    then show ?thesis by simp
  qed
  with assms show ?thesis by (simp add: RETURN_def)
qed

end
