(* ===== verification/Syscalls_Ia32.thy ===== *)
theory Syscalls_Ia32
  imports Syscall_Abi
begin

text \<open>
  The system call stubs of the C library for ia32: src/src/libc/arch/ia32/syscalls.c.

  A stub loads the call number into \<open>eax\<close> and its arguments into \<open>ebx\<close>, \<open>ecx\<close>, \<open>edx\<close>, \<open>esi\<close> and
  \<open>edi\<close>, traps with \<open>int $0x80\<close> and turns a negative result into -1 and \<open>errno\<close>. The other
  registers keep the contents \<open>r\<close> they had at the call.
\<close>

record ia32_regs =
  eax :: u32
  ebx :: u32
  ecx :: u32
  edx :: u32
  esi :: u32
  edi :: u32

type_synonym 'k ia32_stub0 =
  "(ia32_regs, u32, 'k) trap \<Rightarrow> ia32_regs \<Rightarrow> 'k ustate \<Rightarrow> (u32 \<times> 'k ustate) option"

type_synonym 'k ia32_stub1 =
  "(ia32_regs, u32, 'k) trap \<Rightarrow> ia32_regs \<Rightarrow> 'k ustate \<Rightarrow> u32 \<Rightarrow> (u32 \<times> 'k ustate) option"

type_synonym 'k ia32_stub2 =
  "(ia32_regs, u32, 'k) trap \<Rightarrow> ia32_regs \<Rightarrow> 'k ustate \<Rightarrow> u32 \<Rightarrow> u32 \<Rightarrow> (u32 \<times> 'k ustate) option"

type_synonym 'k ia32_stub3 =
  "(ia32_regs, u32, 'k) trap \<Rightarrow> ia32_regs \<Rightarrow> 'k ustate \<Rightarrow> u32 \<Rightarrow> u32 \<Rightarrow> u32 \<Rightarrow> (u32 \<times> 'k ustate) option"

type_synonym 'k ia32_stub4 =
  "(ia32_regs, u32, 'k) trap \<Rightarrow> ia32_regs \<Rightarrow> 'k ustate \<Rightarrow> u32 \<Rightarrow> u32 \<Rightarrow> u32 \<Rightarrow> u32 \<Rightarrow> (u32 \<times> 'k ustate) option"

type_synonym 'k ia32_stub5 =
  "(ia32_regs, u32, 'k) trap \<Rightarrow> ia32_regs \<Rightarrow> 'k ustate \<Rightarrow> u32 \<Rightarrow> u32 \<Rightarrow> u32 \<Rightarrow> u32 \<Rightarrow> u32 \<Rightarrow> (u32 \<times> 'k ustate) option"

type_synonym 'k ia32_stub6 =
  "(ia32_regs, u32, 'k) trap \<Rightarrow> ia32_regs \<Rightarrow> 'k ustate \<Rightarrow> u32 \<Rightarrow> u32 \<Rightarrow> u32 \<Rightarrow> u32 \<Rightarrow> u32 \<Rightarrow> u32 \<Rightarrow> (u32 \<times> 'k ustate) option"

type_synonym 'k ia32_vstub1 =
  "(ia32_regs, u32, 'k) trap \<Rightarrow> ia32_regs \<Rightarrow> 'k ustate \<Rightarrow> u32 \<Rightarrow> 'k ustate option"

section \<open>The stub macros\<close>

definition SYSCALL_1_ia32 :: "u32 \<Rightarrow> 'k ia32_stub1" where
  "SYSCALL_1_ia32 num int80 r st arg0 =
     RETURN (syscall_trap int80 (r\<lparr>eax := num, ebx := arg0\<rparr>) st)"

definition SYSCALL_2_ia32 :: "u32 \<Rightarrow> 'k ia32_stub2" where
  "SYSCALL_2_ia32 num int80 r st arg0 arg1 =
     RETURN (syscall_trap int80 (r\<lparr>eax := num, ebx := arg0, ecx := arg1\<rparr>) st)"

definition SYSCALL_3_ia32 :: "u32 \<Rightarrow> 'k ia32_stub3" where
  "SYSCALL_3_ia32 num int80 r st arg0 arg1 arg2 =
     RETURN (syscall_trap int80 (r\<lparr>eax := num, ebx := arg0, ecx := arg1, edx := arg2\<rparr>) st)"

definition SYSCALL_4_ia32 :: "u32 \<Rightarrow> 'k ia32_stub4" where
  "SYSCALL_4_ia32 num int80 r st arg0 arg1 arg2 arg3 =
     RETURN (syscall_trap int80 (r\<lparr>eax := num, ebx := arg0, ecx := arg1, edx := arg2, esi := arg3\<rparr>) st)"

definition SYSCALL_5_ia32 :: "u32 \<Rightarrow> 'k ia32_stub5" where
  "SYSCALL_5_ia32 num int80 r st arg0 arg1 arg2 arg3 arg4 =
     RETURN (syscall_trap int80 (r\<lparr>eax := num, ebx := arg0, ecx := arg1, edx := arg2, esi := arg3, edi := arg4\<rparr>) st)"

section \<open>The stubs\<close>

definition SYS_SOCKET :: u32 where "SYS_SOCKET = 1"

definition SYS_BIND :: u32 where "SYS_BIND = 2"

definition SYS_CONNECT :: u32 where "SYS_CONNECT = 3"

definition SYS_SEND :: u32 where "SYS_SEND = 9"

definition SYS_SENDTO :: u32 where "SYS_SENDTO = 11"

definition unlink_ia32 :: "'k ia32_stub1" where
  "unlink_ia32 = SYSCALL_1_ia32 10"

definition stime_ia32 :: "'k ia32_stub1" where
  "stime_ia32 = SYSCALL_1_ia32 25"

definition rmdir_ia32 :: "'k ia32_stub1" where
  "rmdir_ia32 = SYSCALL_1_ia32 40"

definition pipe_ia32 :: "'k ia32_stub1" where
  "pipe_ia32 = SYSCALL_1_ia32 42"

definition rename_ia32 :: "'k ia32_stub2" where
  "rename_ia32 = SYSCALL_2_ia32 38"

definition mkdir_ia32 :: "'k ia32_stub2" where
  "mkdir_ia32 = SYSCALL_2_ia32 39"

definition chmod_ia32 :: "'k ia32_stub2" where
  "chmod_ia32 = SYSCALL_2_ia32 15"

definition reboot_ia32 :: "'k ia32_stub4" where
  "reboot_ia32 = SYSCALL_4_ia32 88"

definition fchmod_ia32 :: "'k ia32_stub2" where
  "fchmod_ia32 = SYSCALL_2_ia32 94"

definition chown_ia32 :: "'k ia32_stub3" where
  "chown_ia32 = SYSCALL_3_ia32 182"

definition fchown_ia32 :: "'k ia32_stub3" where
  "fchown_ia32 = SYSCALL_3_ia32 95"

definition lchown_ia32 :: "'k ia32_stub3" where
  "lchown_ia32 = SYSCALL_3_ia32 16"

definition link_ia32 :: "'k ia32_stub2" where
  "link_ia32 = SYSCALL_2_ia32 9"

definition symlink_ia32 :: "'k ia32_stub2" where
  "symlink_ia32 = SYSCALL_2_ia32 83"

definition mknod_ia32 :: "'k ia32_stub3" where
  "mknod_ia32 = SYSCALL_3_ia32 14"

definition mount_ia32 :: "'k ia32_stub5" where
  "mount_ia32 = SYSCALL_5_ia32 21"

definition access_ia32 :: "'k ia32_stub2" where
  "access_ia32 = SYSCALL_2_ia32 33"

definition umount2_ia32 :: "'k ia32_stub2" where
  "umount2_ia32 = SYSCALL_2_ia32 52"

definition creat_ia32 :: "'k ia32_stub2" where
  "creat_ia32 = SYSCALL_2_ia32 8"

definition munmap_ia32 :: "'k ia32_stub2" where
  "munmap_ia32 = SYSCALL_2_ia32 91"

definition truncate_ia32 :: "'k ia32_stub2" where
  "truncate_ia32 = SYSCALL_2_ia32 92"

definition ftruncate_ia32 :: "'k ia32_stub2" where
  "ftruncate_ia32 = SYSCALL_2_ia32 93"

definition mprotect_ia32 :: "'k ia32_stub3" where
  "mprotect_ia32 = SYSCALL_3_ia32 125"

definition nanosleep_ia32 :: "'k ia32_stub2" where
  "nanosleep_ia32 = SYSCALL_2_ia32 162"

definition exit_ia32 :: "'k ia32_vstub1" where
  "exit_ia32 int80 r st status =
     map_option snd (syscall_trap int80 (r\<lparr>eax := 1, ebx := status\<rparr>) st)"

definition fork_ia32 :: "'k ia32_stub0" where
  "fork_ia32 int80 r st =
     RETURN (syscall_trap int80 (r\<lparr>eax := 2\<rparr>) st)"

definition read_ia32 :: "'k ia32_stub3" where
  "read_ia32 int80 r st fd buf count =
     RETURN (syscall_trap int80 (r\<lparr>eax := 3, ebx := fd, ecx := buf, edx := count\<rparr>) st)"

definition write_ia32 :: "'k ia32_stub3" where
  "write_ia32 int80 r st fd buf count =
     RETURN (syscall_trap int80 (r\<lparr>eax := 4, ebx := fd, ecx := buf, edx := count\<rparr>) st)"

definition open_ia32 :: "'k ia32_stub2" where
  "open_ia32 int80 r st pathname flags =
     RETURN (syscall_trap int80 (r\<lparr>eax := 5, ebx := pathname, ecx := flags, edx := 0\<rparr>) st)"

definition close_ia32 :: "'k ia32_stub1" where
  "close_ia32 int80 r st fd =
     RETURN (syscall_trap int80 (r\<lparr>eax := 6, ebx := fd\<rparr>) st)"

text \<open>After the trap the stub stores its own register variable, the pointer, through the pointer.\<close>

definition waitpid_ia32 :: "'k ia32_stub3" where
  "waitpid_ia32 int80 r st pid status options =
     RETURN (case syscall_trap int80 (r\<lparr>eax := 7, ebx := pid, ecx := status, edx := options\<rparr>) st of
       None \<Rightarrow> None
     | Some (res, st') \<Rightarrow>
         (case store32 (umem st') (unat status) status of None \<Rightarrow> None
          | Some m' \<Rightarrow> Some (res, st'\<lparr>umem := m'\<rparr>)))"

definition execve_ia32 :: "'k ia32_stub3" where
  "execve_ia32 int80 r st filename argv envp =
     RETURN (syscall_trap int80 (r\<lparr>eax := 11, ebx := filename, ecx := argv, edx := envp\<rparr>) st)"

definition lseek_ia32 :: "'k ia32_stub3" where
  "lseek_ia32 int80 r st fildes offset whence =
     RETURN (syscall_trap int80 (r\<lparr>eax := 19, ebx := fildes, ecx := offset, edx := whence\<rparr>) st)"

definition getpid_ia32 :: "'k ia32_stub0" where
  "getpid_ia32 int80 r st =
     RETURN (syscall_trap int80 (r\<lparr>eax := 20\<rparr>) st)"

definition setuid_ia32 :: "'k ia32_stub1" where
  "setuid_ia32 int80 r st uid =
     RETURN (syscall_trap int80 (r\<lparr>eax := 23, ebx := uid\<rparr>) st)"

definition getuid_ia32 :: "'k ia32_stub0" where
  "getuid_ia32 int80 r st =
     RETURN (syscall_trap int80 (r\<lparr>eax := 24\<rparr>) st)"

definition brk_ia32 :: "'k ia32_stub1" where
  "brk_ia32 int80 r st end_data_segment =
     (if end_data_segment \<noteq> 0
      then RETURN (syscall_trap int80 (r\<lparr>eax := 45, ebx := end_data_segment\<rparr>) st)
      else syscall_trap int80 (r\<lparr>eax := 45, ebx := end_data_segment\<rparr>) st)"

definition setgid_ia32 :: "'k ia32_stub1" where
  "setgid_ia32 int80 r st gid =
     RETURN (syscall_trap int80 (r\<lparr>eax := 46, ebx := gid\<rparr>) st)"

definition getgid_ia32 :: "'k ia32_stub0" where
  "getgid_ia32 int80 r st =
     RETURN (syscall_trap int80 (r\<lparr>eax := 47\<rparr>) st)"

definition getppid_ia32 :: "'k ia32_stub0" where
  "getppid_ia32 int80 r st =
     RETURN (syscall_trap int80 (r\<lparr>eax := 64\<rparr>) st)"

definition readlink_ia32 :: "'k ia32_stub3" where
  "readlink_ia32 int80 r st path buf bufsiz =
     RETURN (syscall_trap int80 (r\<lparr>eax := 85, ebx := path, ecx := buf, edx := bufsiz\<rparr>) st)"

definition getcwd_ia32 :: "'k ia32_stub2" where
  "getcwd_ia32 int80 r st buf sz =
     syscall_trap int80 (r\<lparr>eax := 183, ebx := buf, ecx := sz\<rparr>) st"

definition sethostname_ia32 :: "'k ia32_stub2" where
  "sethostname_ia32 int80 r st name len =
     RETURN (syscall_trap int80 (r\<lparr>eax := 74, ebx := name, ecx := len\<rparr>) st)"

definition setdomainname_ia32 :: "'k ia32_stub2" where
  "setdomainname_ia32 int80 r st name len =
     RETURN (syscall_trap int80 (r\<lparr>eax := 121, ebx := name, ecx := len\<rparr>) st)"

definition chdir_ia32 :: "'k ia32_stub1" where
  "chdir_ia32 int80 r st path =
     RETURN (syscall_trap int80 (r\<lparr>eax := 12, ebx := path\<rparr>) st)"

definition uname_ia32 :: "'k ia32_stub1" where
  "uname_ia32 int80 r st buf =
     RETURN (syscall_trap int80 (r\<lparr>eax := 122, ebx := buf\<rparr>) st)"

definition time_ia32 :: "'k ia32_stub1" where
  "time_ia32 int80 r st t =
     RETURN (syscall_trap int80 (r\<lparr>eax := 13, ebx := t\<rparr>) st)"

definition getdents_ia32 :: "'k ia32_stub3" where
  "getdents_ia32 int80 r st fd dirp count =
     RETURN (syscall_trap int80 (r\<lparr>eax := 141, ebx := fd, ecx := dirp, edx := count\<rparr>) st)"

definition stat_ia32 :: "'k ia32_stub2" where
  "stat_ia32 int80 r st path buf =
     RETURN (syscall_trap int80 (r\<lparr>eax := 195, ebx := path, ecx := buf\<rparr>) st)"

definition fstat_ia32 :: "'k ia32_stub2" where
  "fstat_ia32 int80 r st filedes buf =
     RETURN (syscall_trap int80 (r\<lparr>eax := 197, ebx := filedes, ecx := buf\<rparr>) st)"

definition lstat_ia32 :: "'k ia32_stub2" where
  "lstat_ia32 int80 r st path buf =
     RETURN (syscall_trap int80 (r\<lparr>eax := 196, ebx := path, ecx := buf\<rparr>) st)"

definition ioctl_ia32 :: "'k ia32_stub3" where
  "ioctl_ia32 int80 r st d request addr =
     RETURN (syscall_trap int80 (r\<lparr>eax := 54, ebx := d, ecx := request, edx := addr\<rparr>) st)"

text \<open>\<open>mmapArg\<close> is the address of the argument structure in the stub's stack frame.\<close>

definition mmap_ia32 :: "u32 \<Rightarrow> 'k ia32_stub6" where
  "mmap_ia32 mmapArg int80 r st start len prot flags fd offset =
     (case store_words (umem st) (unat mmapArg) [start, len, prot, flags, fd, offset] of None \<Rightarrow> None
      | Some m' \<Rightarrow>
          (case syscall_trap int80 (r\<lparr>eax := 90, ebx := mmapArg\<rparr>) (st\<lparr>umem := m'\<rparr>) of None \<Rightarrow> None
           | Some (res, st') \<Rightarrow>
               if res < 0xFFFFF000 then Some (res, st')
               else Some (-1, st'\<lparr>errno_var := - res\<rparr>)))"

text \<open>The socket calls pass the address of an argument array of the stack frame.\<close>

definition socket_ia32 :: "u32 \<Rightarrow> 'k ia32_stub3" where
  "socket_ia32 args int80 r st domain typ protocol =
     (case store_words (umem st) (unat args) [domain, typ, protocol] of None \<Rightarrow> None
      | Some m' \<Rightarrow> syscall_trap int80 (r\<lparr>eax := 102, ebx := SYS_SOCKET, ecx := args\<rparr>) (st\<lparr>umem := m'\<rparr>))"

definition bind_ia32 :: "u32 \<Rightarrow> 'k ia32_stub3" where
  "bind_ia32 args int80 r st sockfd sa addrlen =
     (case store_words (umem st) (unat args) [sockfd, sa, addrlen] of None \<Rightarrow> None
      | Some m' \<Rightarrow> syscall_trap int80 (r\<lparr>eax := 102, ebx := SYS_BIND, ecx := args\<rparr>) (st\<lparr>umem := m'\<rparr>))"

definition connect_ia32 :: "u32 \<Rightarrow> 'k ia32_stub3" where
  "connect_ia32 args int80 r st sockfd sa addrlen =
     (case store_words (umem st) (unat args) [sockfd, sa, addrlen] of None \<Rightarrow> None
      | Some m' \<Rightarrow> syscall_trap int80 (r\<lparr>eax := 102, ebx := SYS_CONNECT, ecx := args\<rparr>) (st\<lparr>umem := m'\<rparr>))"

definition send_ia32 :: "u32 \<Rightarrow> 'k ia32_stub4" where
  "send_ia32 args int80 r st sockfd buf len flags =
     (case store_words (umem st) (unat args) [sockfd, buf, len, flags] of None \<Rightarrow> None
      | Some m' \<Rightarrow> syscall_trap int80 (r\<lparr>eax := 102, ebx := SYS_SEND, ecx := args\<rparr>) (st\<lparr>umem := m'\<rparr>))"

definition sendto_ia32 :: "u32 \<Rightarrow> 'k ia32_stub6" where
  "sendto_ia32 args int80 r st sockfd buf len flags dest_addr addrlen =
     (case store_words (umem st) (unat args) [sockfd, buf, len, flags, dest_addr, addrlen] of None \<Rightarrow> None
      | Some m' \<Rightarrow> syscall_trap int80 (r\<lparr>eax := 102, ebx := SYS_SENDTO, ecx := args\<rparr>) (st\<lparr>umem := m'\<rparr>))"

lemmas SYS_defs = SYS_SOCKET_def SYS_BIND_def SYS_CONNECT_def SYS_SEND_def SYS_SENDTO_def

lemmas ia32_macro_defs = SYSCALL_1_ia32_def SYSCALL_2_ia32_def SYSCALL_3_ia32_def SYSCALL_4_ia32_def SYSCALL_5_ia32_def

lemmas ia32_stub_defs =
  unlink_ia32_def stime_ia32_def rmdir_ia32_def pipe_ia32_def
  rename_ia32_def mkdir_ia32_def chmod_ia32_def reboot_ia32_def
  fchmod_ia32_def chown_ia32_def fchown_ia32_def lchown_ia32_def
  link_ia32_def symlink_ia32_def mknod_ia32_def mount_ia32_def
  access_ia32_def umount2_ia32_def creat_ia32_def munmap_ia32_def
  truncate_ia32_def ftruncate_ia32_def mprotect_ia32_def nanosleep_ia32_def
  exit_ia32_def fork_ia32_def read_ia32_def write_ia32_def
  open_ia32_def close_ia32_def waitpid_ia32_def execve_ia32_def
  lseek_ia32_def getpid_ia32_def setuid_ia32_def getuid_ia32_def
  brk_ia32_def setgid_ia32_def getgid_ia32_def getppid_ia32_def
  readlink_ia32_def getcwd_ia32_def sethostname_ia32_def setdomainname_ia32_def
  chdir_ia32_def uname_ia32_def time_ia32_def getdents_ia32_def
  stat_ia32_def fstat_ia32_def lstat_ia32_def ioctl_ia32_def
  mmap_ia32_def socket_ia32_def bind_ia32_def connect_ia32_def
  send_ia32_def sendto_ia32_def

end
