(* ===== verification/Kernel_Handlers.thy ===== *)
theory Kernel_Handlers
  imports Syscall_Abi
begin

text \<open>
  The kernel functions that the system call tables of the ports refer to, grouped by the class that
  declares them (src/src/kernel/uapi and the architecture directories).
\<close>

datatype processuapi_fn =
    Proc_exit | Proc_waitpid | Proc_getpid | Proc_setuid | Proc_getuid
  | Proc_kill | Proc_setgid | Proc_getgid | Proc_getppid | Proc_nanosleep
  | Proc_getsid | Proc_geteuid | Proc_getegid | Proc_setsid | Proc_setresuid
  | Proc_setresgid | Proc_fork

datatype fsuapi_fn =
    Fs_read | Fs_write | Fs_open | Fs_close | Fs_creat
  | Fs_link | Fs_unlink | Fs_chdir | Fs_mknod | Fs_chmod
  | Fs_lchown | Fs_stat | Fs_lseek | Fs_fstat | Fs_utime
  | Fs_access | Fs_rename | Fs_mkdir | Fs_rmdir | Fs_dup
  | Fs_pipe | Fs_ioctl | Fs_fcntl | Fs_umask | Fs_dup2
  | Fs_symlink | Fs_lstat | Fs_readlink | Fs_truncate | Fs_ftruncate
  | Fs_fchmod | Fs_fchown | Fs_statfs | Fs_fstatfs | Fs_fsync
  | Fs_fchdir | Fs_getdents | Fs_fdatasync | Fs_poll | Fs_pread
  | Fs_pwrite | Fs_chown | Fs_getcwd | Fs_stat64 | Fs_lstat64
  | Fs_fstat64 | Fs_socket

datatype timeuapi_fn =
    Time_time | Time_stime

datatype memoryuapi_fn =
    Mm_brk | Mm_munmap | Mm_mprotect | Mm_msync | Mm_mlock
  | Mm_munlock | Mm_mlockall | Mm_munlockall | Mm_mremap

datatype hostuapi_fn =
    Host_sethostname | Host_setdomainname | Host_uname

datatype netuapi_fn =
    Net_bind | Net_connect | Net_send | Net_sendto

datatype handler =
    ProcessUAPI processuapi_fn
  | FSUAPI fsuapi_fn
  | TimeUAPI timeuapi_fn
  | MemoryUAPI memoryuapi_fn
  | HostUAPI hostuapi_fn
  | NetUAPI netuapi_fn
  | UserProcessImage_execve | VFS_Mount | VFS_Umount | ArchManager_reboot | Mmap_i386 | Socketcall | Mmap_mips

type_synonym 'k handlers = "handler \<Rightarrow> u32 list \<Rightarrow> mem \<times> 'k \<Rightarrow> (u32 \<times> mem \<times> 'k) option"

text \<open>A kernel function called directly on the state of the process.\<close>

definition kernel_call :: "'k handlers \<Rightarrow> handler \<Rightarrow> u32 list \<Rightarrow> 'k ustate \<Rightarrow> (u32 \<times> 'k ustate) option"
  where "kernel_call H h args st = syscall_trap (\<lambda>_. H h args) () st"

end
