(* ===== verification/Syscall_Dispatch_Ia32.thy ===== *)
theory Syscall_Dispatch_Ia32
  imports Syscalls_Ia32 Kernel_Handlers
begin

text \<open>
  The system call table and its dispatcher on ia32: src/src/kernel/arch/ia32/core/syscallsmanager.cpp.

  What a kernel function of the table does is the parameter \<open>H\<close> of the dispatcher, which gets the
  function and its register arguments. Reading an argument
  array of the process that is not mapped is a fault (\<open>None\<close>).
\<close>

type_synonym syscall_table = "nat \<rightharpoonup> handler"

definition SYSCALLTABLE_SIZE :: nat where
  "SYSCALLTABLE_SIZE = 256"

text \<open>The ia32 code does not check the index: outside the array the write is a fault.\<close>

definition registerSyscall :: "nat \<Rightarrow> handler \<Rightarrow> syscall_table \<Rightarrow> syscall_table option" where
  "registerSyscall num funcPtr tbl =
     (if num < SYSCALLTABLE_SIZE then Some (tbl(num \<mapsto> funcPtr)) else None)"

definition unregisterSyscall :: "nat \<Rightarrow> syscall_table \<Rightarrow> syscall_table option" where
  "unregisterSyscall num tbl =
     (if num < SYSCALLTABLE_SIZE then Some (tbl(num := None)) else None)"

fun register_all :: "(nat \<times> handler) list \<Rightarrow> syscall_table \<Rightarrow> syscall_table option" where
  "register_all [] tbl = Some tbl"
| "register_all ((num, h) # rest) tbl =
     (case registerSyscall num h tbl of None \<Rightarrow> None | Some tbl' \<Rightarrow> register_all rest tbl')"

definition default_syscalls :: "(nat \<times> handler) list" where
  "default_syscalls =
    [(1, ProcessUAPI Proc_exit),
     (3, FSUAPI Fs_read),
     (4, FSUAPI Fs_write),
     (5, FSUAPI Fs_open),
     (6, FSUAPI Fs_close),
     (7, ProcessUAPI Proc_waitpid),
     (8, FSUAPI Fs_creat),
     (9, FSUAPI Fs_link),
     (10, FSUAPI Fs_unlink),
     (11, UserProcessImage_execve),
     (12, FSUAPI Fs_chdir),
     (13, TimeUAPI Time_time),
     (14, FSUAPI Fs_mknod),
     (15, FSUAPI Fs_chmod),
     (16, FSUAPI Fs_lchown),
     (18, FSUAPI Fs_stat),
     (19, FSUAPI Fs_lseek),
     (20, ProcessUAPI Proc_getpid),
     (21, VFS_Mount),
     (22, VFS_Umount),
     (23, ProcessUAPI Proc_setuid),
     (24, ProcessUAPI Proc_getuid),
     (25, TimeUAPI Time_stime),
     (28, FSUAPI Fs_fstat),
     (30, FSUAPI Fs_utime),
     (33, FSUAPI Fs_access),
     (37, ProcessUAPI Proc_kill),
     (38, FSUAPI Fs_rename),
     (39, FSUAPI Fs_mkdir),
     (40, FSUAPI Fs_rmdir),
     (41, FSUAPI Fs_dup),
     (42, FSUAPI Fs_pipe),
     (45, MemoryUAPI Mm_brk),
     (46, ProcessUAPI Proc_setgid),
     (47, ProcessUAPI Proc_getgid),
     (54, FSUAPI Fs_ioctl),
     (55, FSUAPI Fs_fcntl),
     (60, FSUAPI Fs_umask),
     (32, FSUAPI Fs_dup2),
     (64, ProcessUAPI Proc_getppid),
     (74, HostUAPI Host_sethostname),
     (83, FSUAPI Fs_symlink),
     (84, FSUAPI Fs_lstat),
     (85, FSUAPI Fs_readlink),
     (88, ArchManager_reboot),
     (90, Mmap_i386),
     (91, MemoryUAPI Mm_munmap),
     (92, FSUAPI Fs_truncate),
     (93, FSUAPI Fs_ftruncate),
     (94, FSUAPI Fs_fchmod),
     (95, FSUAPI Fs_fchown),
     (99, FSUAPI Fs_statfs),
     (100, FSUAPI Fs_fstatfs),
     (102, Socketcall),
     (107, FSUAPI Fs_lstat),
     (118, FSUAPI Fs_fsync),
     (121, HostUAPI Host_setdomainname),
     (122, HostUAPI Host_uname),
     (125, MemoryUAPI Mm_mprotect),
     (133, FSUAPI Fs_fchdir),
     (141, FSUAPI Fs_getdents),
     (144, MemoryUAPI Mm_msync),
     (148, FSUAPI Fs_fdatasync),
     (150, MemoryUAPI Mm_mlock),
     (151, MemoryUAPI Mm_munlock),
     (152, MemoryUAPI Mm_mlockall),
     (153, MemoryUAPI Mm_munlockall),
     (162, ProcessUAPI Proc_nanosleep),
     (163, MemoryUAPI Mm_mremap),
     (168, FSUAPI Fs_poll),
     (180, FSUAPI Fs_pread),
     (181, FSUAPI Fs_pwrite),
     (182, FSUAPI Fs_chown),
     (183, FSUAPI Fs_getcwd),
     (195, FSUAPI Fs_stat64),
     (196, FSUAPI Fs_lstat64),
     (197, FSUAPI Fs_fstat64)]"

definition registerDefaultSyscalls :: "syscall_table \<Rightarrow> syscall_table option" where
  "registerDefaultSyscalls tbl = register_all default_syscalls tbl"

text \<open>\<open>socketcall\<close> reads its arguments from the array at \<open>ecx\<close>; \<open>call\<close> is the kernel function with
  the words it takes.\<close>

definition socketcall_call :: "'k handlers \<Rightarrow> handler \<Rightarrow> nat \<Rightarrow> u32 \<Rightarrow>
    mem \<times> 'k \<Rightarrow> (u32 \<times> mem \<times> 'k) option" where
  "socketcall_call H h n args s =
     (case load_words (fst s) (unat args) n of None \<Rightarrow> None | Some ws \<Rightarrow> H h ws s)"

definition socketcall :: "'k handlers \<Rightarrow> u32 \<Rightarrow> u32 \<Rightarrow> mem \<times> 'k \<Rightarrow> (u32 \<times> mem \<times> 'k) option" where
  "socketcall H callno args s =
     (if callno = SYS_SOCKET then socketcall_call H (FSUAPI Fs_socket) 3 args s
      else if callno = SYS_BIND then socketcall_call H (NetUAPI Net_bind) 3 args s
      else if callno = SYS_CONNECT then socketcall_call H (NetUAPI Net_connect) 3 args s
      else if callno = SYS_SEND then socketcall_call H (NetUAPI Net_send) 4 args s
      else if callno = SYS_SENDTO then socketcall_call H (NetUAPI Net_sendto) 6 args s
      else Some (word_of_int (- errno_code EINVAL), fst s, snd s))"

definition doSyscall :: "'k handlers \<Rightarrow> syscall_table \<Rightarrow> u32 \<Rightarrow> (ia32_regs, u32, 'k) trap" where
  "doSyscall H tbl esp r s =
     (if eax r = 2 then H (ProcessUAPI Proc_fork) [esp] s
      else if unat (eax r) < SYSCALLTABLE_SIZE then
        (case tbl (unat (eax r)) of
           Some h \<Rightarrow>
             if h = Socketcall then socketcall H (ebx r) (ecx r) s
             else H h [ebx r, ecx r, edx r, esi r, edi r] s
         | None \<Rightarrow> Some (word_of_int (- errno_code EFAULT), fst s, snd s))
      else Some (word_of_int (- errno_code EFAULT), fst s, snd s))"

section \<open>The default table\<close>

text \<open>A table as an association list: the last registration of a number wins.\<close>

lemma register_all_map_of:
  "\<forall>(num, h) \<in> set xs. num < SYSCALLTABLE_SIZE \<Longrightarrow> register_all xs tbl = Some (tbl ++ map_of (rev xs))"
proof (induction xs arbitrary: tbl)
  case (Cons x xs)
  obtain num h where x: "x = (num, h)" by (cases x)
  from Cons show ?case
    by (simp add: x registerSyscall_def map_add_assoc [symmetric] map_add_upd_left
        map_add_def fun_eq_iff split: option.splits)
qed simp

definition default_table :: syscall_table where
  "default_table = map_of (rev default_syscalls)"

lemma registerDefaultSyscalls_table:
  "registerDefaultSyscalls Map.empty = Some default_table"
proof -
  have "\<forall>(num, h) \<in> set default_syscalls. num < SYSCALLTABLE_SIZE"
    by (simp add: default_syscalls_def SYSCALLTABLE_SIZE_def)
  from register_all_map_of [OF this, of Map.empty] show ?thesis
    by (simp add: registerDefaultSyscalls_def default_table_def)
qed

lemma default_table_distinct: "distinct (map fst default_syscalls)"
  by (simp add: default_syscalls_def)

lemma default_table_Some: "(num, h) \<in> set default_syscalls \<Longrightarrow> default_table num = Some h"
  using default_table_distinct
  by (simp add: default_table_def rev_map [symmetric])

lemma default_table_lookups [simp]:
  "default_table 1 = Some (ProcessUAPI Proc_exit)"
  "default_table 3 = Some (FSUAPI Fs_read)"
  "default_table 4 = Some (FSUAPI Fs_write)"
  "default_table 5 = Some (FSUAPI Fs_open)"
  "default_table 6 = Some (FSUAPI Fs_close)"
  "default_table 7 = Some (ProcessUAPI Proc_waitpid)"
  "default_table 8 = Some (FSUAPI Fs_creat)"
  "default_table 9 = Some (FSUAPI Fs_link)"
  "default_table 10 = Some (FSUAPI Fs_unlink)"
  "default_table 11 = Some UserProcessImage_execve"
  "default_table 12 = Some (FSUAPI Fs_chdir)"
  "default_table 13 = Some (TimeUAPI Time_time)"
  "default_table 14 = Some (FSUAPI Fs_mknod)"
  "default_table 15 = Some (FSUAPI Fs_chmod)"
  "default_table 16 = Some (FSUAPI Fs_lchown)"
  "default_table 18 = Some (FSUAPI Fs_stat)"
  "default_table 19 = Some (FSUAPI Fs_lseek)"
  "default_table 20 = Some (ProcessUAPI Proc_getpid)"
  "default_table 21 = Some VFS_Mount"
  "default_table 22 = Some VFS_Umount"
  "default_table 23 = Some (ProcessUAPI Proc_setuid)"
  "default_table 24 = Some (ProcessUAPI Proc_getuid)"
  "default_table 25 = Some (TimeUAPI Time_stime)"
  "default_table 28 = Some (FSUAPI Fs_fstat)"
  "default_table 30 = Some (FSUAPI Fs_utime)"
  "default_table 33 = Some (FSUAPI Fs_access)"
  "default_table 37 = Some (ProcessUAPI Proc_kill)"
  "default_table 38 = Some (FSUAPI Fs_rename)"
  "default_table 39 = Some (FSUAPI Fs_mkdir)"
  "default_table 40 = Some (FSUAPI Fs_rmdir)"
  "default_table 41 = Some (FSUAPI Fs_dup)"
  "default_table 42 = Some (FSUAPI Fs_pipe)"
  "default_table 45 = Some (MemoryUAPI Mm_brk)"
  "default_table 46 = Some (ProcessUAPI Proc_setgid)"
  "default_table 47 = Some (ProcessUAPI Proc_getgid)"
  "default_table 54 = Some (FSUAPI Fs_ioctl)"
  "default_table 55 = Some (FSUAPI Fs_fcntl)"
  "default_table 60 = Some (FSUAPI Fs_umask)"
  "default_table 32 = Some (FSUAPI Fs_dup2)"
  "default_table 64 = Some (ProcessUAPI Proc_getppid)"
  "default_table 74 = Some (HostUAPI Host_sethostname)"
  "default_table 83 = Some (FSUAPI Fs_symlink)"
  "default_table 84 = Some (FSUAPI Fs_lstat)"
  "default_table 85 = Some (FSUAPI Fs_readlink)"
  "default_table 88 = Some ArchManager_reboot"
  "default_table 90 = Some Mmap_i386"
  "default_table 91 = Some (MemoryUAPI Mm_munmap)"
  "default_table 92 = Some (FSUAPI Fs_truncate)"
  "default_table 93 = Some (FSUAPI Fs_ftruncate)"
  "default_table 94 = Some (FSUAPI Fs_fchmod)"
  "default_table 95 = Some (FSUAPI Fs_fchown)"
  "default_table 99 = Some (FSUAPI Fs_statfs)"
  "default_table 100 = Some (FSUAPI Fs_fstatfs)"
  "default_table 102 = Some Socketcall"
  "default_table 107 = Some (FSUAPI Fs_lstat)"
  "default_table 118 = Some (FSUAPI Fs_fsync)"
  "default_table 121 = Some (HostUAPI Host_setdomainname)"
  "default_table 122 = Some (HostUAPI Host_uname)"
  "default_table 125 = Some (MemoryUAPI Mm_mprotect)"
  "default_table 133 = Some (FSUAPI Fs_fchdir)"
  "default_table 141 = Some (FSUAPI Fs_getdents)"
  "default_table 144 = Some (MemoryUAPI Mm_msync)"
  "default_table 148 = Some (FSUAPI Fs_fdatasync)"
  "default_table 150 = Some (MemoryUAPI Mm_mlock)"
  "default_table 151 = Some (MemoryUAPI Mm_munlock)"
  "default_table 152 = Some (MemoryUAPI Mm_mlockall)"
  "default_table 153 = Some (MemoryUAPI Mm_munlockall)"
  "default_table 162 = Some (ProcessUAPI Proc_nanosleep)"
  "default_table 163 = Some (MemoryUAPI Mm_mremap)"
  "default_table 168 = Some (FSUAPI Fs_poll)"
  "default_table 180 = Some (FSUAPI Fs_pread)"
  "default_table 181 = Some (FSUAPI Fs_pwrite)"
  "default_table 182 = Some (FSUAPI Fs_chown)"
  "default_table 183 = Some (FSUAPI Fs_getcwd)"
  "default_table 195 = Some (FSUAPI Fs_stat64)"
  "default_table 196 = Some (FSUAPI Fs_lstat64)"
  "default_table 197 = Some (FSUAPI Fs_fstat64)"
  by (rule default_table_Some, simp add: default_syscalls_def)+

lemma default_table_None: "num \<notin> fst ` set default_syscalls \<Longrightarrow> default_table num = None"
  by (simp add: default_table_def map_of_eq_None_iff)

section \<open>The stubs against the table\<close>

text \<open>How \<open>mmap\<close> and \<open>waitpid\<close> go on after the trap.\<close>

definition mmap_result :: "(u32 \<times> 'k ustate) option \<Rightarrow> (u32 \<times> 'k ustate) option" where
  "mmap_result x =
     (case x of None \<Rightarrow> None
      | Some (res, st) \<Rightarrow> if res < 0xFFFFF000 then Some (res, st) else Some (-1, st\<lparr>errno_var := - res\<rparr>))"

definition status_overwritten :: "u32 \<Rightarrow> (u32 \<times> 'k ustate) option \<Rightarrow> (u32 \<times> 'k ustate) option" where
  "status_overwritten status x =
     (case x of None \<Rightarrow> None
      | Some (res, st) \<Rightarrow>
          (case store32 (umem st) (unat status) status of None \<Rightarrow> None | Some m' \<Rightarrow> Some (res, st\<lparr>umem := m'\<rparr>)))"

lemma trap_doSyscall:
  assumes "default_table (unat (eax r)) = Some h" and "h \<noteq> Socketcall" and "eax r \<noteq> 2"
    and "unat (eax r) < SYSCALLTABLE_SIZE"
  shows "syscall_trap (doSyscall H default_table esp) r st
    = kernel_call H h [ebx r, ecx r, edx r, esi r, edi r] st"
  using assms
  by (simp add: syscall_trap_def kernel_call_def doSyscall_def)

definition ia32_abi0 :: "('k ia32_stub0 \<times> handler) list" where
  "ia32_abi0 =
    [(getpid_ia32, ProcessUAPI Proc_getpid),
     (getuid_ia32, ProcessUAPI Proc_getuid),
     (getgid_ia32, ProcessUAPI Proc_getgid),
     (getppid_ia32, ProcessUAPI Proc_getppid)]"

definition ia32_abi1 :: "('k ia32_stub1 \<times> handler) list" where
  "ia32_abi1 =
    [(unlink_ia32, FSUAPI Fs_unlink),
     (stime_ia32, TimeUAPI Time_stime),
     (rmdir_ia32, FSUAPI Fs_rmdir),
     (pipe_ia32, FSUAPI Fs_pipe),
     (close_ia32, FSUAPI Fs_close),
     (setuid_ia32, ProcessUAPI Proc_setuid),
     (setgid_ia32, ProcessUAPI Proc_setgid),
     (chdir_ia32, FSUAPI Fs_chdir),
     (uname_ia32, HostUAPI Host_uname),
     (time_ia32, TimeUAPI Time_time)]"

definition ia32_abi2 :: "('k ia32_stub2 \<times> handler) list" where
  "ia32_abi2 =
    [(rename_ia32, FSUAPI Fs_rename),
     (mkdir_ia32, FSUAPI Fs_mkdir),
     (chmod_ia32, FSUAPI Fs_chmod),
     (fchmod_ia32, FSUAPI Fs_fchmod),
     (link_ia32, FSUAPI Fs_link),
     (symlink_ia32, FSUAPI Fs_symlink),
     (access_ia32, FSUAPI Fs_access),
     (creat_ia32, FSUAPI Fs_creat),
     (munmap_ia32, MemoryUAPI Mm_munmap),
     (truncate_ia32, FSUAPI Fs_truncate),
     (ftruncate_ia32, FSUAPI Fs_ftruncate),
     (nanosleep_ia32, ProcessUAPI Proc_nanosleep),
     (sethostname_ia32, HostUAPI Host_sethostname),
     (setdomainname_ia32, HostUAPI Host_setdomainname),
     (stat_ia32, FSUAPI Fs_stat64),
     (fstat_ia32, FSUAPI Fs_fstat64),
     (lstat_ia32, FSUAPI Fs_lstat64)]"

definition ia32_abi3 :: "('k ia32_stub3 \<times> handler) list" where
  "ia32_abi3 =
    [(chown_ia32, FSUAPI Fs_chown),
     (fchown_ia32, FSUAPI Fs_fchown),
     (lchown_ia32, FSUAPI Fs_lchown),
     (mknod_ia32, FSUAPI Fs_mknod),
     (mprotect_ia32, MemoryUAPI Mm_mprotect),
     (read_ia32, FSUAPI Fs_read),
     (write_ia32, FSUAPI Fs_write),
     (execve_ia32, UserProcessImage_execve),
     (lseek_ia32, FSUAPI Fs_lseek),
     (readlink_ia32, FSUAPI Fs_readlink),
     (getdents_ia32, FSUAPI Fs_getdents),
     (ioctl_ia32, FSUAPI Fs_ioctl)]"

definition ia32_abi4 :: "('k ia32_stub4 \<times> handler) list" where
  "ia32_abi4 =
    [(reboot_ia32, ArchManager_reboot)]"

definition ia32_abi5 :: "('k ia32_stub5 \<times> handler) list" where
  "ia32_abi5 =
    [(mount_ia32, VFS_Mount)]"

lemma ia32_abi0_reaches:
  "\<forall>(stub, h) \<in> set ia32_abi0. stub (doSyscall H default_table esp) r st
     = RETURN (kernel_call H h [ebx r, ecx r, edx r, esi r, edi r] st)"
  by (simp add: ia32_abi0_def ia32_stub_defs ia32_macro_defs trap_doSyscall SYSCALLTABLE_SIZE_def)

lemma ia32_abi1_reaches:
  "\<forall>(stub, h) \<in> set ia32_abi1. stub (doSyscall H default_table esp) r st a0
     = RETURN (kernel_call H h [a0, ecx r, edx r, esi r, edi r] st)"
  by (simp add: ia32_abi1_def ia32_stub_defs ia32_macro_defs trap_doSyscall SYSCALLTABLE_SIZE_def)

lemma ia32_abi2_reaches:
  "\<forall>(stub, h) \<in> set ia32_abi2. stub (doSyscall H default_table esp) r st a0 a1
     = RETURN (kernel_call H h [a0, a1, edx r, esi r, edi r] st)"
  by (simp add: ia32_abi2_def ia32_stub_defs ia32_macro_defs trap_doSyscall SYSCALLTABLE_SIZE_def)

lemma ia32_abi3_reaches:
  "\<forall>(stub, h) \<in> set ia32_abi3. stub (doSyscall H default_table esp) r st a0 a1 a2
     = RETURN (kernel_call H h [a0, a1, a2, esi r, edi r] st)"
  by (simp add: ia32_abi3_def ia32_stub_defs ia32_macro_defs trap_doSyscall SYSCALLTABLE_SIZE_def)

lemma ia32_abi4_reaches:
  "\<forall>(stub, h) \<in> set ia32_abi4. stub (doSyscall H default_table esp) r st a0 a1 a2 a3
     = RETURN (kernel_call H h [a0, a1, a2, a3, edi r] st)"
  by (simp add: ia32_abi4_def ia32_stub_defs ia32_macro_defs trap_doSyscall SYSCALLTABLE_SIZE_def)

lemma ia32_abi5_reaches:
  "\<forall>(stub, h) \<in> set ia32_abi5. stub (doSyscall H default_table esp) r st a0 a1 a2 a3 a4
     = RETURN (kernel_call H h [a0, a1, a2, a3, a4] st)"
  by (simp add: ia32_abi5_def ia32_stub_defs ia32_macro_defs trap_doSyscall SYSCALLTABLE_SIZE_def)

lemma ia32_special_reach:
  "fork_ia32 (doSyscall H default_table esp) r st
     = RETURN (kernel_call H (ProcessUAPI Proc_fork) [esp] st)"
  "open_ia32 (doSyscall H default_table esp) r st a0 a1
     = RETURN (kernel_call H (FSUAPI Fs_open) [a0, a1, 0, esi r, edi r] st)"
  "exit_ia32 (doSyscall H default_table esp) r st a0
     = map_option snd (kernel_call H (ProcessUAPI Proc_exit) [a0, ecx r, edx r, esi r, edi r] st)"
  "getcwd_ia32 (doSyscall H default_table esp) r st a0 a1
     = kernel_call H (FSUAPI Fs_getcwd) [a0, a1, edx r, esi r, edi r] st"
  by (simp_all add: ia32_stub_defs trap_doSyscall SYSCALLTABLE_SIZE_def del: One_nat_def)
     (simp add: syscall_trap_def kernel_call_def doSyscall_def)

lemma trap_socketcall:
  assumes "store_words (umem st) (unat args) ws = Some m'"
    and "callno = SYS_SOCKET \<and> h = FSUAPI Fs_socket \<and> length ws = 3
      \<or> callno = SYS_BIND \<and> h = NetUAPI Net_bind \<and> length ws = 3
      \<or> callno = SYS_CONNECT \<and> h = NetUAPI Net_connect \<and> length ws = 3
      \<or> callno = SYS_SEND \<and> h = NetUAPI Net_send \<and> length ws = 4
      \<or> callno = SYS_SENDTO \<and> h = NetUAPI Net_sendto \<and> length ws = 6"
  shows "syscall_trap (doSyscall H default_table esp) (r\<lparr>eax := 102, ebx := callno, ecx := args\<rparr>)
      (st\<lparr>umem := m'\<rparr>) = kernel_call H h ws (st\<lparr>umem := m'\<rparr>)"
  using assms(2) load_store_words [OF assms(1)]
  by (elim disjE conjE)
     (simp_all add: syscall_trap_def kernel_call_def doSyscall_def SYSCALLTABLE_SIZE_def
       socketcall_def socketcall_call_def SYS_defs)

section \<open>Properties\<close>

text \<open>The stubs that pass their arguments in memory, treat the result in their own way or are not served.\<close>

lemma ia32_sockets_reach:
  "socket_ia32 p (doSyscall H default_table esp) r st a0 a1 a2
     = with_words st p [a0, a1, a2] (kernel_call H (FSUAPI Fs_socket) [a0, a1, a2])"
  "bind_ia32 p (doSyscall H default_table esp) r st a0 a1 a2
     = with_words st p [a0, a1, a2] (kernel_call H (NetUAPI Net_bind) [a0, a1, a2])"
  "connect_ia32 p (doSyscall H default_table esp) r st a0 a1 a2
     = with_words st p [a0, a1, a2] (kernel_call H (NetUAPI Net_connect) [a0, a1, a2])"
  "send_ia32 p (doSyscall H default_table esp) r st a0 a1 a2 a3
     = with_words st p [a0, a1, a2, a3] (kernel_call H (NetUAPI Net_send) [a0, a1, a2, a3])"
  "sendto_ia32 p (doSyscall H default_table esp) r st a0 a1 a2 a3 a4 a5
     = with_words st p [a0, a1, a2, a3, a4, a5] (kernel_call H (NetUAPI Net_sendto) [a0, a1, a2, a3, a4, a5])"
  unfolding socket_ia32_def bind_ia32_def connect_ia32_def send_ia32_def sendto_ia32_def with_words_def
  by (auto split: option.split intro: trap_socketcall)

lemma ia32_mmap_reaches:
  "mmap_ia32 p (doSyscall H default_table esp) r st a0 a1 a2 a3 a4 a5
     = with_words st p [a0, a1, a2, a3, a4, a5] (\<lambda>st'. mmap_result (kernel_call H Mmap_i386 [p, ecx r, edx r, esi r, edi r] st'))"
  unfolding mmap_ia32_def with_words_def mmap_result_def
  by (simp add: trap_doSyscall SYSCALLTABLE_SIZE_def split: option.split)

lemma ia32_umount2_fails:
  "umount2_ia32 (doSyscall H default_table esp) r st target flags
     = Some (-1, st\<lparr>errno_var := word_of_int (errno_code EFAULT)\<rparr>)"
proof -
  have "default_table 52 = None"
    by (rule default_table_None) (simp add: default_syscalls_def)
  then have "syscall_trap (doSyscall H default_table esp)
      (r\<lparr>eax := 52, ebx := target, ecx := flags\<rparr>) st = Some (- word_of_int 14, st)"
    by (simp add: syscall_trap_def doSyscall_def)
  then show ?thesis
    using RETURN_error [of 14 st] by (simp add: umount2_ia32_def SYSCALL_2_ia32_def)
qed

lemma ia32_own_results:
  "waitpid_ia32 (doSyscall H default_table esp) r st a0 a1 a2
     = RETURN (status_overwritten a1 (kernel_call H (ProcessUAPI Proc_waitpid) [a0, a1, a2, esi r, edi r] st))"
  "brk_ia32 (doSyscall H default_table esp) r st a0
     = (if a0 = 0 then kernel_call H (MemoryUAPI Mm_brk) [a0, ecx r, edx r, esi r, edi r] st
        else RETURN (kernel_call H (MemoryUAPI Mm_brk) [a0, ecx r, edx r, esi r, edi r] st))"
  by (simp_all add: waitpid_ia32_def brk_ia32_def status_overwritten_def trap_doSyscall SYSCALLTABLE_SIZE_def)

section \<open>Properties\<close>

text \<open>
  C18: All 58 stubs of the C library on ia32, run against the kernel's dispatcher with the default table. Each
  but \<open>umount2\<close> calls the kernel function of its name, \<open>stat\<close>, \<open>fstat\<close> and \<open>lstat\<close> the 64-bit variant, with its
  arguments in order, and turns the result into the return value and \<open>errno\<close>. The exceptions: \<open>exit\<close> drops the
  result; \<open>getcwd\<close>, the socket calls and \<open>brk\<close> of 0 return it as it is; \<open>waitpid\<close> stores the pointer \<open>status\<close>
  through itself; \<open>mmap\<close> and the socket calls leave their arguments in an array of words, which the dispatcher
  reads for the socket calls; \<open>mmap\<close> takes addresses below \<open>0xFFFFF000\<close> for success. \<open>umount2\<close> reaches no
  function and fails with \<open>EFAULT\<close>.
\<close>
theorem ia32_stubs_reach_handlers:
  "registerDefaultSyscalls Map.empty = Some default_table
   \<and> (\<forall>(stub, h) \<in> set ia32_abi0. stub (doSyscall H default_table esp) r st
        = RETURN (kernel_call H h [ebx r, ecx r, edx r, esi r, edi r] st))
   \<and> (\<forall>(stub, h) \<in> set ia32_abi1. stub (doSyscall H default_table esp) r st a0
        = RETURN (kernel_call H h [a0, ecx r, edx r, esi r, edi r] st))
   \<and> (\<forall>(stub, h) \<in> set ia32_abi2. stub (doSyscall H default_table esp) r st a0 a1
        = RETURN (kernel_call H h [a0, a1, edx r, esi r, edi r] st))
   \<and> (\<forall>(stub, h) \<in> set ia32_abi3. stub (doSyscall H default_table esp) r st a0 a1 a2
        = RETURN (kernel_call H h [a0, a1, a2, esi r, edi r] st))
   \<and> (\<forall>(stub, h) \<in> set ia32_abi4. stub (doSyscall H default_table esp) r st a0 a1 a2 a3
        = RETURN (kernel_call H h [a0, a1, a2, a3, edi r] st))
   \<and> (\<forall>(stub, h) \<in> set ia32_abi5. stub (doSyscall H default_table esp) r st a0 a1 a2 a3 a4
        = RETURN (kernel_call H h [a0, a1, a2, a3, a4] st))
   \<and> fork_ia32 (doSyscall H default_table esp) r st
        = RETURN (kernel_call H (ProcessUAPI Proc_fork) [esp] st)
   \<and> open_ia32 (doSyscall H default_table esp) r st a0 a1
        = RETURN (kernel_call H (FSUAPI Fs_open) [a0, a1, 0, esi r, edi r] st)
   \<and> exit_ia32 (doSyscall H default_table esp) r st a0
        = map_option snd (kernel_call H (ProcessUAPI Proc_exit) [a0, ecx r, edx r, esi r, edi r] st)
   \<and> getcwd_ia32 (doSyscall H default_table esp) r st a0 a1
        = kernel_call H (FSUAPI Fs_getcwd) [a0, a1, edx r, esi r, edi r] st
   \<and> waitpid_ia32 (doSyscall H default_table esp) r st a0 a1 a2
        = RETURN (status_overwritten a1 (kernel_call H (ProcessUAPI Proc_waitpid) [a0, a1, a2, esi r, edi r] st))
   \<and> brk_ia32 (doSyscall H default_table esp) r st a0
        = (if a0 = 0 then kernel_call H (MemoryUAPI Mm_brk) [a0, ecx r, edx r, esi r, edi r] st
           else RETURN (kernel_call H (MemoryUAPI Mm_brk) [a0, ecx r, edx r, esi r, edi r] st))
   \<and> mmap_ia32 p (doSyscall H default_table esp) r st a0 a1 a2 a3 a4 a5
        = with_words st p [a0, a1, a2, a3, a4, a5]
            (\<lambda>st'. mmap_result (kernel_call H Mmap_i386 [p, ecx r, edx r, esi r, edi r] st'))
   \<and> (\<forall>m'. store_words (umem st) (unat p) [a0, a1, a2, a3, a4, a5] = Some m'
        \<longrightarrow> load_words m' (unat p) 6 = Some [a0, a1, a2, a3, a4, a5])
   \<and> socket_ia32 p (doSyscall H default_table esp) r st a0 a1 a2
        = with_words st p [a0, a1, a2] (kernel_call H (FSUAPI Fs_socket) [a0, a1, a2])
   \<and> bind_ia32 p (doSyscall H default_table esp) r st a0 a1 a2
        = with_words st p [a0, a1, a2] (kernel_call H (NetUAPI Net_bind) [a0, a1, a2])
   \<and> connect_ia32 p (doSyscall H default_table esp) r st a0 a1 a2
        = with_words st p [a0, a1, a2] (kernel_call H (NetUAPI Net_connect) [a0, a1, a2])
   \<and> send_ia32 p (doSyscall H default_table esp) r st a0 a1 a2 a3
        = with_words st p [a0, a1, a2, a3] (kernel_call H (NetUAPI Net_send) [a0, a1, a2, a3])
   \<and> sendto_ia32 p (doSyscall H default_table esp) r st a0 a1 a2 a3 a4 a5
        = with_words st p [a0, a1, a2, a3, a4, a5] (kernel_call H (NetUAPI Net_sendto) [a0, a1, a2, a3, a4, a5])
   \<and> umount2_ia32 (doSyscall H default_table esp) r st a0 a1
        = Some (-1, st\<lparr>errno_var := word_of_int (errno_code EFAULT)\<rparr>)"
proof (intro conjI registerDefaultSyscalls_table ia32_abi0_reaches ia32_abi1_reaches
    ia32_abi2_reaches ia32_abi3_reaches ia32_abi4_reaches ia32_abi5_reaches ia32_special_reach
    ia32_own_results ia32_mmap_reaches ia32_sockets_reach ia32_umount2_fails allI impI)
  show "load_words m' (unat p) 6 = Some [a0, a1, a2, a3, a4, a5]"
    if "store_words (umem st) (unat p) [a0, a1, a2, a3, a4, a5] = Some m'" for m'
    using load_store_words [OF that] by (simp add: eval_nat_numeral)
qed

theorem ia32_stubs_reach_handlers_witness:
  "read_ia32 (doSyscall (\<lambda>h args s. if h = FSUAPI Fs_read then Some (args ! 2, s) else None)
       default_table 0) \<lparr>eax = 0, ebx = 0, ecx = 0, edx = 0, esi = 0, edi = 0\<rparr>
       \<lparr>errno_var = 0, umem = [], kern = ()\<rparr> 3 100 7
     = Some (7, \<lparr>errno_var = 0, umem = [], kern = ()\<rparr>)"
proof -
  let ?H = "\<lambda>h args s. if h = FSUAPI Fs_read then Some (args ! 2 :: u32, s) else None"
  let ?r = "\<lparr>eax = 0, ebx = 0, ecx = 0, edx = 0, esi = 0, edi = 0\<rparr> :: ia32_regs"
  let ?st = "\<lparr>errno_var = 0, umem = [], kern = ()\<rparr> :: unit ustate"
  have "\<forall>(stub, h) \<in> set ia32_abi3. stub (doSyscall ?H default_table 0) ?r ?st 3 100 7
        = RETURN (kernel_call ?H h [3, 100, 7, esi ?r, edi ?r] ?st)"
    using ia32_stubs_reach_handlers [of ?H 0 ?r ?st 3 100 7 0 0 0 0] by (elim conjE)
  then show ?thesis
    by (simp add: ia32_abi3_def kernel_call_def syscall_trap_def RETURN_def)
qed

text \<open>
  C24: Arguments that travel through memory arrive intact: a socket stub with room for its argument array
  calls the kernel function with exactly the words of the call, whatever the memory held.
\<close>
theorem ia32_socket_arguments_arrive:
  assumes "region (umem st) (unat args) 24"
  shows "\<exists>m'. sendto_ia32 args (doSyscall H default_table esp) r st fd buf len flags dest alen
      = kernel_call H (NetUAPI Net_sendto) [fd, buf, len, flags, dest, alen] (st\<lparr>umem := m'\<rparr>)
    \<and> length m' = length (umem st)
    \<and> (\<forall>p n. region (umem st) p n \<and> disjnt_blocks (unat args) 24 p n
         \<longrightarrow> bytes_at m' p n = bytes_at (umem st) p n)"
proof -
  let ?ws = "[fd, buf, len, flags, dest, alen]"
  from assms have "region (umem st) (unat args) (4 * length ?ws)" by simp
  from store_words_region [OF this] obtain m' where
    m': "store_words (umem st) (unat args) ?ws = Some m'" by blast
  have "region (umem st) (unat args) 0" using assms by (simp add: region_def)
  from store_words_outside [OF m' this] have "length m' = length (umem st)"
    by (simp add: disjnt_blocks_def)
  moreover have "bytes_at m' p n = bytes_at (umem st) p n"
    if "region (umem st) p n" "disjnt_blocks (unat args) 24 p n" for p n
    using store_words_outside [OF m' that(1)] that(2) by simp
  moreover have "sendto_ia32 args (doSyscall H default_table esp) r st fd buf len flags dest alen
      = kernel_call H (NetUAPI Net_sendto) ?ws (st\<lparr>umem := m'\<rparr>)"
    unfolding sendto_ia32_def by (simp only: m' option.case) (rule trap_socketcall [OF m'], simp)
  ultimately show ?thesis by blast
qed

theorem ia32_socket_arguments_arrive_witness:
  "\<exists>st'. sendto_ia32 4 (doSyscall (\<lambda>h args s. Some (args ! 2, s)) default_table 0)
     \<lparr>eax = 0, ebx = 0, ecx = 0, edx = 0, esi = 0, edi = 0\<rparr>
     \<lparr>errno_var = 0, umem = replicate 40 0, kern = ()\<rparr> 1 2 3 4 5 6 = Some (3, st')"
proof -
  let ?st = "\<lparr>errno_var = 0, umem = replicate 40 0, kern = ()\<rparr> :: unit ustate"
  have "region (umem ?st) (unat (4 :: u32)) 24" by (simp add: region_def)
  from ia32_socket_arguments_arrive [OF this, of "\<lambda>h args s. Some (args ! 2, s)" 0
      "\<lparr>eax = 0, ebx = 0, ecx = 0, edx = 0, esi = 0, edi = 0\<rparr>" 1 2 3 4 5 6]
  show ?thesis by (auto simp: kernel_call_def syscall_trap_def)
qed

text \<open>
  C38: The \<open>waitpid\<close> stub destroys the exit status the kernel stored: whatever the kernel does, after a
  successful return the word at \<open>status\<close> is the pointer \<open>status\<close> itself.
\<close>
theorem ia32_waitpid_overwrites_status:
  assumes "waitpid_ia32 trap r st pid status options = Some (ret, st')"
  shows "load32 (umem st') (unat status) = Some status"
  using assms load32_store32
  by (fastforce simp: waitpid_ia32_def RETURN_def split: option.splits if_splits prod.splits)

theorem ia32_waitpid_overwrites_status_witness:
  "\<exists>st'. waitpid_ia32 (\<lambda>r (m, k). Some (7, blit m 8 [3, 0, 0, 0], k))
     \<lparr>eax = 0, ebx = 0, ecx = 0, edx = 0, esi = 0, edi = 0\<rparr>
     \<lparr>errno_var = 0, umem = replicate 20 0, kern = ()\<rparr> 7 8 0 = Some (7, st')
     \<and> load32 (umem st') 8 = Some 8"
proof -
  let ?w = "waitpid_ia32 (\<lambda>r (m, k). Some (7, blit m 8 [3, 0, 0, 0], k))
     \<lparr>eax = 0, ebx = 0, ecx = 0, edx = 0, esi = 0, edi = 0\<rparr>
     \<lparr>errno_var = 0, umem = replicate 20 0, kern = ()\<rparr> 7 8 0"
  have "\<exists>st'. ?w = Some (7, st')"
    by (simp add: waitpid_ia32_def RETURN_def syscall_trap_def store32_def region_def blit_def)
  then obtain st' where st': "?w = Some (7, st')" by blast
  from ia32_waitpid_overwrites_status [OF st'] st' show ?thesis by auto
qed

text \<open>
  \<open>umount2\<close> can never succeed on ia32: number 52 is not in the default table, so the dispatcher
  answers \<open>-EFAULT\<close> without calling any kernel function, and the stub returns -1.
\<close>
theorem ia32_umount2_always_fails:
  "umount2_ia32 (doSyscall H default_table esp) r st target flags
     = Some (-1, st\<lparr>errno_var := word_of_int (errno_code EFAULT)\<rparr>)"
  by (rule ia32_umount2_fails)

end
