(* ===== verification/Syscalls_Mips.thy ===== *)
theory Syscalls_Mips
  imports Kernel_Handlers
begin

text \<open>
  The MIPS port: the stubs of src/src/libc/arch/mips/syscalls.c, the call numbers of
  src/src/kernel/include/arch/mips/mips/uapi/syscallsnr.h, and the table and dispatcher of
  src/src/kernel/arch/mips/core/syscallsmanager.cpp with the registrations of src/src/kernel/uapi.

  A stub passes its number in \<open>$2\<close> and three arguments in \<open>$4\<close>, \<open>$5\<close> and \<open>$6\<close>; further arguments
  go on the stack.
\<close>

record mips_regs =
  v0 :: u32
  a0 :: u32
  a1 :: u32
  a2 :: u32
  sp :: u32

type_synonym 'k mips_stub0 =
  "(mips_regs, u32, 'k) trap \<Rightarrow> mips_regs \<Rightarrow> 'k ustate \<Rightarrow> (u32 \<times> 'k ustate) option"

type_synonym 'k mips_stub1 =
  "(mips_regs, u32, 'k) trap \<Rightarrow> mips_regs \<Rightarrow> 'k ustate \<Rightarrow> u32 \<Rightarrow> (u32 \<times> 'k ustate) option"

type_synonym 'k mips_stub2 =
  "(mips_regs, u32, 'k) trap \<Rightarrow> mips_regs \<Rightarrow> 'k ustate \<Rightarrow> u32 \<Rightarrow> u32 \<Rightarrow> (u32 \<times> 'k ustate) option"

type_synonym 'k mips_stub3 =
  "(mips_regs, u32, 'k) trap \<Rightarrow> mips_regs \<Rightarrow> 'k ustate \<Rightarrow> u32 \<Rightarrow> u32 \<Rightarrow> u32 \<Rightarrow> (u32 \<times> 'k ustate) option"

type_synonym 'k mips_stub4 =
  "(mips_regs, u32, 'k) trap \<Rightarrow> mips_regs \<Rightarrow> 'k ustate \<Rightarrow> u32 \<Rightarrow> u32 \<Rightarrow> u32 \<Rightarrow> u32 \<Rightarrow> (u32 \<times> 'k ustate) option"

type_synonym 'k mips_stub5 =
  "(mips_regs, u32, 'k) trap \<Rightarrow> mips_regs \<Rightarrow> 'k ustate \<Rightarrow> u32 \<Rightarrow> u32 \<Rightarrow> u32 \<Rightarrow> u32 \<Rightarrow> u32 \<Rightarrow> (u32 \<times> 'k ustate) option"

type_synonym 'k mips_stub6 =
  "(mips_regs, u32, 'k) trap \<Rightarrow> mips_regs \<Rightarrow> 'k ustate \<Rightarrow> u32 \<Rightarrow> u32 \<Rightarrow> u32 \<Rightarrow> u32 \<Rightarrow> u32 \<Rightarrow> u32 \<Rightarrow> (u32 \<times> 'k ustate) option"

type_synonym 'k mips_vstub1 =
  "(mips_regs, u32, 'k) trap \<Rightarrow> mips_regs \<Rightarrow> 'k ustate \<Rightarrow> u32 \<Rightarrow> 'k ustate option"

section \<open>Call numbers\<close>

definition mips_user_numbers :: "(string \<times> nat) list" where
  "mips_user_numbers =
    [(''SYSCALLS'', 4000),
     (''EXIT'', 4001),
     (''FORK'', 4002),
     (''READ'', 4003),
     (''WRITE'', 4004),
     (''OPEN'', 4005),
     (''CLOSE'', 4006),
     (''WAITPID'', 4007),
     (''CREAT'', 4008),
     (''LINK'', 4009),
     (''UNLINK'', 4010),
     (''EXECVE'', 4011),
     (''CHDIR'', 4012),
     (''TIME'', 4013),
     (''MKNOD'', 4014),
     (''CHMOD'', 4015),
     (''LCHOWN'', 4016),
     (''BREAK'', 4017),
     (''LSEEK'', 4019),
     (''GETPID'', 4020),
     (''MOUNT'', 4021),
     (''UMOUNT'', 4022),
     (''SETUID'', 4023),
     (''GETUID'', 4024),
     (''RENAME'', 2038),
     (''MKDIR'', 4039),
     (''RMDIR'', 4040),
     (''BRK'', 4045),
     (''GETGID'', 4047),
     (''GETEUID'', 4049),
     (''GETEGID'', 4050),
     (''UMOUNT2'', 4052),
     (''IOCTL'', 4054),
     (''FCNTL'', 4055),
     (''SETGID'', 4046),
     (''GETPPID'', 4064),
     (''SETSID'', 4066),
     (''SETHOSTNAME'', 4074),
     (''SYMLINK'', 4083),
     (''READLINK'', 4085),
     (''REBOOT'', 4088),
     (''MMAP'', 4090),
     (''MUNMAP'', 4091),
     (''TRUNCATE'', 4092),
     (''FTRUNCATE'', 4093),
     (''FCHMOD'', 4094),
     (''FCHOWN'', 4095),
     (''LSTAT'', 4107),
     (''FSTAT'', 4108),
     (''FSYNC'', 4118),
     (''SETDOMAINNAME'', 4121),
     (''MPROTECT'', 4125),
     (''UNAME'', 4122),
     (''GETDENTS'', 4141),
     (''MSYNC'', 4144),
     (''GETSID'', 4151),
     (''FDATASYNC'', 4152),
     (''MLOCK'', 4154),
     (''MUNLOCK'', 4155),
     (''MLOCKALL'', 4156),
     (''MUNLOCKALL'', 4157),
     (''MREMAP'', 4167),
     (''SOCKET'', 4183),
     (''SETRESUID'', 4185),
     (''SETRESGID'', 4190),
     (''CHOWN'', 4202),
     (''GETCWD'', 4203)]"

definition mips_kernel_numbers :: "(string \<times> nat) list" where
  "mips_kernel_numbers =
    [(''SYSCALLS'', 4000),
     (''EXIT'', 4001),
     (''FORK'', 4002),
     (''READ'', 4003),
     (''WRITE'', 4004),
     (''OPEN'', 4005),
     (''CLOSE'', 4006),
     (''WAITPID'', 4007),
     (''CREAT'', 4008),
     (''LINK'', 4009),
     (''UNLINK'', 4010),
     (''EXECVE'', 4011),
     (''CHDIR'', 4012),
     (''TIME'', 4013),
     (''MKNOD'', 4014),
     (''CHMOD'', 4015),
     (''LCHOWN'', 4016),
     (''BREAK'', 4017),
     (''LSEEK'', 4019),
     (''GETPID'', 4020),
     (''MOUNT'', 4021),
     (''UMOUNT'', 4022),
     (''SETUID'', 4023),
     (''GETUID'', 4024),
     (''STIME'', 4025),
     (''KILL'', 4037),
     (''RENAME'', 2038),
     (''MKDIR'', 4039),
     (''RMDIR'', 4040),
     (''BRK'', 4045),
     (''GETGID'', 4047),
     (''GETEUID'', 4049),
     (''GETEGID'', 4050),
     (''UMOUNT2'', 4052),
     (''IOCTL'', 4054),
     (''FCNTL'', 4055),
     (''SETGID'', 4046),
     (''GETPPID'', 4064),
     (''SETSID'', 4066),
     (''SETHOSTNAME'', 4074),
     (''SYMLINK'', 4083),
     (''READLINK'', 4085),
     (''REBOOT'', 4088),
     (''MMAP'', 4090),
     (''MUNMAP'', 4091),
     (''TRUNCATE'', 4092),
     (''FTRUNCATE'', 4093),
     (''FCHMOD'', 4094),
     (''FCHOWN'', 4095),
     (''STAT'', 4106),
     (''LSTAT'', 4107),
     (''FSTAT'', 4108),
     (''FSYNC'', 4118),
     (''SETDOMAINNAME'', 4121),
     (''MPROTECT'', 4125),
     (''UNAME'', 4122),
     (''GETDENTS'', 4141),
     (''MSYNC'', 4144),
     (''GETSID'', 4151),
     (''FDATASYNC'', 4152),
     (''MLOCK'', 4154),
     (''MUNLOCK'', 4155),
     (''MLOCKALL'', 4156),
     (''MUNLOCKALL'', 4157),
     (''NANOSLEEP'', 4166),
     (''MREMAP'', 4167),
     (''SOCKET'', 4183),
     (''SETRESUID'', 4185),
     (''SETRESGID'', 4190),
     (''CHOWN'', 4202),
     (''GETCWD'', 4203)]"

section \<open>The stubs\<close>

text \<open>The macros \<open>__NR_...\<close> of the library and of the kernel.\<close>

definition user_nr :: "string \<Rightarrow> u32" where
  "user_nr name = (case map_of mips_user_numbers name of None \<Rightarrow> 0 | Some n \<Rightarrow> of_nat n)"

definition kernel_nr :: "string \<Rightarrow> nat" where
  "kernel_nr name = (case map_of mips_kernel_numbers name of None \<Rightarrow> 0 | Some n \<Rightarrow> n)"

definition SYSCALL_0_mips :: "u32 \<Rightarrow> 'k mips_stub0" where
  "SYSCALL_0_mips num trap r st =
     RETURN (syscall_trap trap (r\<lparr>v0 := num\<rparr>) st)"

definition SYSCALL_1_mips :: "u32 \<Rightarrow> 'k mips_stub1" where
  "SYSCALL_1_mips num trap r st arg0 =
     RETURN (syscall_trap trap (r\<lparr>v0 := num, a0 := arg0\<rparr>) st)"

definition SYSCALL_2_mips :: "u32 \<Rightarrow> 'k mips_stub2" where
  "SYSCALL_2_mips num trap r st arg0 arg1 =
     RETURN (syscall_trap trap (r\<lparr>v0 := num, a0 := arg0, a1 := arg1\<rparr>) st)"

definition SYSCALL_3_mips :: "u32 \<Rightarrow> 'k mips_stub3" where
  "SYSCALL_3_mips num trap r st arg0 arg1 arg2 =
     RETURN (syscall_trap trap (r\<lparr>v0 := num, a0 := arg0, a1 := arg1, a2 := arg2\<rparr>) st)"

text \<open>The last three arguments are pushed on the stack; the stack pointer is restored afterwards.\<close>

definition SYSCALL_6_mips :: "u32 \<Rightarrow> 'k mips_stub6" where
  "SYSCALL_6_mips num trap r st arg0 arg1 arg2 arg3 arg4 arg5 =
     (case store_words (umem st) (unat (sp r - 12)) [arg3, arg4, arg5] of None \<Rightarrow> None
      | Some m' \<Rightarrow>
          RETURN (syscall_trap trap (r\<lparr>v0 := num, a0 := arg0, a1 := arg1, a2 := arg2, sp := sp r - 12\<rparr>)
            (st\<lparr>umem := m'\<rparr>)))"

definition exit_mips :: "'k mips_vstub1" where
  "exit_mips trap r st status = map_option snd (syscall_trap trap (r\<lparr>v0 := user_nr ''EXIT'', a0 := status\<rparr>) st)"

definition fork_mips :: "'k mips_stub0" where
  "fork_mips = SYSCALL_0_mips (user_nr ''FORK'')"

definition read_mips :: "'k mips_stub3" where
  "read_mips = SYSCALL_3_mips (user_nr ''READ'')"

definition write_mips :: "'k mips_stub3" where
  "write_mips = SYSCALL_3_mips (user_nr ''WRITE'')"

definition open_mips :: "'k mips_stub3" where
  "open_mips = SYSCALL_3_mips (user_nr ''OPEN'')"

definition close_mips :: "'k mips_stub1" where
  "close_mips = SYSCALL_1_mips (user_nr ''CLOSE'')"

definition waitpid_mips :: "'k mips_stub3" where
  "waitpid_mips = SYSCALL_3_mips (user_nr ''WAITPID'')"

definition creat_mips :: "'k mips_stub3" where
  "creat_mips = SYSCALL_3_mips (user_nr ''CREAT'')"

definition unlink_mips :: "'k mips_stub1" where
  "unlink_mips = SYSCALL_1_mips (user_nr ''UNLINK'')"

definition execve_mips :: "'k mips_stub3" where
  "execve_mips = SYSCALL_3_mips (user_nr ''EXECVE'')"

definition chdir_mips :: "'k mips_stub1" where
  "chdir_mips = SYSCALL_1_mips (user_nr ''CHDIR'')"

definition time_mips :: "'k mips_stub1" where
  "time_mips = SYSCALL_1_mips (user_nr ''TIME'')"

definition getuid_mips :: "'k mips_stub0" where
  "getuid_mips = SYSCALL_0_mips (user_nr ''GETUID'')"

definition mkdir_mips :: "'k mips_stub2" where
  "mkdir_mips = SYSCALL_2_mips (user_nr ''MKDIR'')"

definition rmdir_mips :: "'k mips_stub1" where
  "rmdir_mips = SYSCALL_1_mips (user_nr ''RMDIR'')"

definition brk_mips :: "'k mips_stub1" where
  "brk_mips = SYSCALL_1_mips (user_nr ''BRK'')"

definition sethostname_mips :: "'k mips_stub2" where
  "sethostname_mips = SYSCALL_2_mips (user_nr ''SETHOSTNAME'')"

definition readlink_mips :: "'k mips_stub3" where
  "readlink_mips = SYSCALL_3_mips (user_nr ''READLINK'')"

definition lstat_mips :: "'k mips_stub2" where
  "lstat_mips = SYSCALL_2_mips (user_nr ''LSTAT'')"

definition fstat_mips :: "'k mips_stub2" where
  "fstat_mips = SYSCALL_2_mips (user_nr ''FSTAT'')"

definition setdomainname_mips :: "'k mips_stub2" where
  "setdomainname_mips = SYSCALL_2_mips (user_nr ''SETDOMAINNAME'')"

definition mprotect_mips :: "'k mips_stub3" where
  "mprotect_mips = SYSCALL_3_mips (user_nr ''MPROTECT'')"

definition uname_mips :: "'k mips_stub1" where
  "uname_mips = SYSCALL_1_mips (user_nr ''UNAME'')"

definition getdents_mips :: "'k mips_stub3" where
  "getdents_mips = SYSCALL_3_mips (user_nr ''GETDENTS'')"

definition msync_mips :: "'k mips_stub3" where
  "msync_mips = SYSCALL_3_mips (user_nr ''MSYNC'')"

definition mlock_mips :: "'k mips_stub2" where
  "mlock_mips = SYSCALL_2_mips (user_nr ''MLOCK'')"

definition munlock_mips :: "'k mips_stub2" where
  "munlock_mips = SYSCALL_2_mips (user_nr ''MUNLOCK'')"

definition mlockall_mips :: "'k mips_stub1" where
  "mlockall_mips = SYSCALL_1_mips (user_nr ''MLOCKALL'')"

definition munlockall_mips :: "'k mips_stub0" where
  "munlockall_mips = SYSCALL_0_mips (user_nr ''MUNLOCKALL'')"

definition rename_mips :: "'k mips_stub2" where
  "rename_mips = SYSCALL_2_mips (user_nr ''RENAME'')"

definition chmod_mips :: "'k mips_stub2" where
  "chmod_mips = SYSCALL_2_mips (user_nr ''CHMOD'')"

definition munmap_mips :: "'k mips_stub2" where
  "munmap_mips = SYSCALL_2_mips (user_nr ''MUNMAP'')"

definition fchmod_mips :: "'k mips_stub2" where
  "fchmod_mips = SYSCALL_2_mips (user_nr ''FCHMOD'')"

definition chown_mips :: "'k mips_stub3" where
  "chown_mips = SYSCALL_3_mips (user_nr ''CHOWN'')"

definition fchown_mips :: "'k mips_stub3" where
  "fchown_mips = SYSCALL_3_mips (user_nr ''FCHOWN'')"

definition lchown_mips :: "'k mips_stub3" where
  "lchown_mips = SYSCALL_3_mips (user_nr ''LCHOWN'')"

definition link_mips :: "'k mips_stub2" where
  "link_mips = SYSCALL_2_mips (user_nr ''LINK'')"

definition symlink_mips :: "'k mips_stub2" where
  "symlink_mips = SYSCALL_2_mips (user_nr ''SYMLINK'')"

definition mknod_mips :: "'k mips_stub3" where
  "mknod_mips = SYSCALL_3_mips (user_nr ''MKNOD'')"

definition umount2_mips :: "'k mips_stub2" where
  "umount2_mips = SYSCALL_2_mips (user_nr ''UMOUNT2'')"

definition socket_mips :: "'k mips_stub3" where
  "socket_mips = SYSCALL_3_mips (user_nr ''SOCKET'')"

definition ioctl_mips :: "'k mips_stub3" where
  "ioctl_mips = SYSCALL_3_mips (user_nr ''IOCTL'')"

definition getcwd_mips :: "'k mips_stub2" where
  "getcwd_mips = SYSCALL_2_mips (user_nr ''GETCWD'')"

definition mmap_mips :: "'k mips_stub6" where
  "mmap_mips = SYSCALL_6_mips (user_nr ''MMAP'')"

text \<open>Not implemented in the source: the stub loops forever.\<close>

definition mount_mips :: "'k mips_stub5" where
  "mount_mips trap r st src target fstype mountflags data = None"

definition reboot_mips :: "'k mips_stub4" where
  "reboot_mips trap r st magic magic2 cmd arg = None"

lemmas mips_stub_defs =
  exit_mips_def fork_mips_def read_mips_def write_mips_def
  open_mips_def close_mips_def waitpid_mips_def creat_mips_def
  unlink_mips_def execve_mips_def chdir_mips_def time_mips_def
  getuid_mips_def mkdir_mips_def rmdir_mips_def brk_mips_def
  sethostname_mips_def readlink_mips_def lstat_mips_def fstat_mips_def
  setdomainname_mips_def mprotect_mips_def uname_mips_def getdents_mips_def
  msync_mips_def mlock_mips_def munlock_mips_def mlockall_mips_def
  munlockall_mips_def rename_mips_def chmod_mips_def munmap_mips_def
  fchmod_mips_def chown_mips_def fchown_mips_def lchown_mips_def
  link_mips_def symlink_mips_def mknod_mips_def umount2_mips_def
  socket_mips_def ioctl_mips_def getcwd_mips_def mmap_mips_def
  mount_mips_def reboot_mips_def

lemmas mips_macro_defs = SYSCALL_0_mips_def SYSCALL_1_mips_def SYSCALL_2_mips_def SYSCALL_3_mips_def

section \<open>The table and the dispatcher\<close>

type_synonym mips_table = "nat \<rightharpoonup> handler"

definition NR_SYSCALLS :: nat where
  "NR_SYSCALLS = 4000"

definition MIPS_SYSCALLTABLE_SIZE :: nat where
  "MIPS_SYSCALLTABLE_SIZE = 256"

text \<open>A number outside the table is reported and dropped.\<close>

definition registerSyscall_mips :: "nat \<Rightarrow> handler \<Rightarrow> mips_table \<Rightarrow> mips_table" where
  "registerSyscall_mips num funcPtr tbl =
     (if NR_SYSCALLS \<le> num \<and> num < NR_SYSCALLS + MIPS_SYSCALLTABLE_SIZE
      then tbl(num - NR_SYSCALLS \<mapsto> funcPtr) else tbl)"

definition register_all_mips :: "(nat \<times> handler) list \<Rightarrow> mips_table \<Rightarrow> mips_table" where
  "register_all_mips rs tbl = fold (\<lambda>(num, h). registerSyscall_mips num h) rs tbl"

definition syscallISR :: "'k handlers \<Rightarrow> mips_table \<Rightarrow> (mips_regs, u32, 'k) trap" where
  "syscallISR H tbl r s =
     (let nr = unat (v0 r); bad = Some (word_of_int (- errno_code EINVAL), fst s, snd s) in
      if NR_SYSCALLS \<le> nr then
        (let syscallNumber = nr - NR_SYSCALLS in
         if syscallNumber < MIPS_SYSCALLTABLE_SIZE then
           (case tbl syscallNumber of Some h \<Rightarrow> H h [a0 r, a1 r, a2 r] s | None \<Rightarrow> bad)
         else bad)
      else bad)"

definition ProcessUAPI_init_mips :: "mips_table \<Rightarrow> mips_table" where
  "ProcessUAPI_init_mips = register_all_mips
    [(kernel_nr ''GETPID'', ProcessUAPI Proc_getpid),
     (kernel_nr ''GETPPID'', ProcessUAPI Proc_getppid),
     (kernel_nr ''GETSID'', ProcessUAPI Proc_getsid),
     (kernel_nr ''GETUID'', ProcessUAPI Proc_getuid),
     (kernel_nr ''GETEUID'', ProcessUAPI Proc_geteuid),
     (kernel_nr ''GETGID'', ProcessUAPI Proc_getgid),
     (kernel_nr ''GETEGID'', ProcessUAPI Proc_getegid),
     (kernel_nr ''SETSID'', ProcessUAPI Proc_setsid),
     (kernel_nr ''SETUID'', ProcessUAPI Proc_setuid),
     (kernel_nr ''SETRESUID'', ProcessUAPI Proc_setresuid),
     (kernel_nr ''SETGID'', ProcessUAPI Proc_setgid),
     (kernel_nr ''SETRESGID'', ProcessUAPI Proc_setresgid),
     (kernel_nr ''NANOSLEEP'', ProcessUAPI Proc_nanosleep),
     (kernel_nr ''WAITPID'', ProcessUAPI Proc_waitpid),
     (kernel_nr ''KILL'', ProcessUAPI Proc_kill),
     (kernel_nr ''EXIT'', ProcessUAPI Proc_exit)]"

definition MemoryUAPI_init_mips :: "mips_table \<Rightarrow> mips_table" where
  "MemoryUAPI_init_mips = register_all_mips
    [(kernel_nr ''BRK'', MemoryUAPI Mm_brk),
     (kernel_nr ''MMAP'', Mmap_mips)]"

definition FSUAPI_init_mips :: "mips_table \<Rightarrow> mips_table" where
  "FSUAPI_init_mips = register_all_mips
    [(kernel_nr ''READ'', FSUAPI Fs_read),
     (kernel_nr ''WRITE'', FSUAPI Fs_write),
     (kernel_nr ''OPEN'', FSUAPI Fs_open),
     (kernel_nr ''CLOSE'', FSUAPI Fs_close),
     (kernel_nr ''CHDIR'', FSUAPI Fs_chdir),
     (kernel_nr ''CHMOD'', FSUAPI Fs_chmod),
     (kernel_nr ''LCHOWN'', FSUAPI Fs_lchown),
     (kernel_nr ''STAT'', FSUAPI Fs_stat),
     (kernel_nr ''LSEEK'', FSUAPI Fs_lseek),
     (kernel_nr ''MOUNT'', VFS_Mount),
     (kernel_nr ''UMOUNT'', VFS_Umount),
     (kernel_nr ''FSTAT'', FSUAPI Fs_fstat),
     (kernel_nr ''IOCTL'', FSUAPI Fs_ioctl),
     (kernel_nr ''FCNTL'', FSUAPI Fs_fcntl),
     (kernel_nr ''TRUNCATE'', FSUAPI Fs_truncate),
     (kernel_nr ''FTRUNCATE'', FSUAPI Fs_ftruncate),
     (kernel_nr ''FCHMOD'', FSUAPI Fs_fchmod),
     (kernel_nr ''FCHOWN'', FSUAPI Fs_fchown),
     (kernel_nr ''LSTAT'', FSUAPI Fs_lstat),
     (kernel_nr ''READLINK'', FSUAPI Fs_readlink),
     (kernel_nr ''FSYNC'', FSUAPI Fs_fsync),
     (kernel_nr ''GETDENTS'', FSUAPI Fs_getdents),
     (kernel_nr ''FDATASYNC'', FSUAPI Fs_fdatasync),
     (kernel_nr ''SOCKET'', FSUAPI Fs_socket),
     (kernel_nr ''CHOWN'', FSUAPI Fs_chown),
     (kernel_nr ''GETCWD'', FSUAPI Fs_getcwd)]"

definition TimeUAPI_init_mips :: "mips_table \<Rightarrow> mips_table" where
  "TimeUAPI_init_mips = register_all_mips
    [(kernel_nr ''TIME'', TimeUAPI Time_time),
     (kernel_nr ''STIME'', TimeUAPI Time_stime)]"

definition HostUAPI_init_mips :: "mips_table \<Rightarrow> mips_table" where
  "HostUAPI_init_mips = register_all_mips
    [(kernel_nr ''SETHOSTNAME'', HostUAPI Host_sethostname),
     (kernel_nr ''SETDOMAINNAME'', HostUAPI Host_setdomainname),
     (kernel_nr ''UNAME'', HostUAPI Host_uname)]"

text \<open>The order of the calls in \<open>main\<close> of src/src/kernel/main.cpp.\<close>

definition mips_table_init :: mips_table where
  "mips_table_init =
     HostUAPI_init_mips (TimeUAPI_init_mips (FSUAPI_init_mips
       (MemoryUAPI_init_mips (ProcessUAPI_init_mips Map.empty))))"

definition mips_abi0 :: "('k mips_stub0 \<times> handler) list" where
  "mips_abi0 =
    [(getuid_mips, ProcessUAPI Proc_getuid)]"

definition mips_abi1 :: "('k mips_stub1 \<times> handler) list" where
  "mips_abi1 =
    [(close_mips, FSUAPI Fs_close),
     (chdir_mips, FSUAPI Fs_chdir),
     (time_mips, TimeUAPI Time_time),
     (brk_mips, MemoryUAPI Mm_brk),
     (uname_mips, HostUAPI Host_uname)]"

definition mips_abi2 :: "('k mips_stub2 \<times> handler) list" where
  "mips_abi2 =
    [(sethostname_mips, HostUAPI Host_sethostname),
     (lstat_mips, FSUAPI Fs_lstat),
     (fstat_mips, FSUAPI Fs_fstat),
     (setdomainname_mips, HostUAPI Host_setdomainname),
     (chmod_mips, FSUAPI Fs_chmod),
     (fchmod_mips, FSUAPI Fs_fchmod),
     (getcwd_mips, FSUAPI Fs_getcwd)]"

definition mips_abi3 :: "('k mips_stub3 \<times> handler) list" where
  "mips_abi3 =
    [(read_mips, FSUAPI Fs_read),
     (write_mips, FSUAPI Fs_write),
     (open_mips, FSUAPI Fs_open),
     (waitpid_mips, ProcessUAPI Proc_waitpid),
     (readlink_mips, FSUAPI Fs_readlink),
     (getdents_mips, FSUAPI Fs_getdents),
     (chown_mips, FSUAPI Fs_chown),
     (fchown_mips, FSUAPI Fs_fchown),
     (lchown_mips, FSUAPI Fs_lchown),
     (socket_mips, FSUAPI Fs_socket),
     (ioctl_mips, FSUAPI Fs_ioctl)]"

definition mips_unserved0 :: "'k mips_stub0 list" where
  "mips_unserved0 =
    [fork_mips, munlockall_mips]"

definition mips_unserved1 :: "'k mips_stub1 list" where
  "mips_unserved1 =
    [unlink_mips, rmdir_mips, mlockall_mips]"

definition mips_unserved2 :: "'k mips_stub2 list" where
  "mips_unserved2 =
    [mkdir_mips, mlock_mips, munlock_mips, rename_mips, munmap_mips, link_mips, symlink_mips, umount2_mips]"

definition mips_unserved3 :: "'k mips_stub3 list" where
  "mips_unserved3 =
    [creat_mips, execve_mips, mprotect_mips, msync_mips, mknod_mips]"

lemma numbers_distinct: "distinct (map fst mips_user_numbers)" "distinct (map fst mips_kernel_numbers)"
  by (simp_all add: mips_user_numbers_def mips_kernel_numbers_def)

lemma user_nr_all: "list_all (\<lambda>(name, n). user_nr name = of_nat n) mips_user_numbers"
  using map_of_is_SomeI [OF numbers_distinct(1)] by (auto simp: list_all_iff user_nr_def)

lemma kernel_nr_all: "list_all (\<lambda>(name, n). kernel_nr name = n) mips_kernel_numbers"
  using map_of_is_SomeI [OF numbers_distinct(2)] by (auto simp: list_all_iff kernel_nr_def)

lemmas user_nr_values = user_nr_all [unfolded mips_user_numbers_def list.pred_inject prod.case of_nat_numeral]

lemmas kernel_nr_values = kernel_nr_all [unfolded mips_kernel_numbers_def list.pred_inject prod.case]

lemmas mips_init_defs = kernel_nr_values mips_table_init_def HostUAPI_init_mips_def TimeUAPI_init_mips_def
  FSUAPI_init_mips_def MemoryUAPI_init_mips_def ProcessUAPI_init_mips_def register_all_mips_def
  registerSyscall_mips_def NR_SYSCALLS_def MIPS_SYSCALLTABLE_SIZE_def

lemma trap_syscallISR:
  assumes "NR_SYSCALLS \<le> unat (v0 r)" and "unat (v0 r) < NR_SYSCALLS + MIPS_SYSCALLTABLE_SIZE"
    and "mips_table_init (unat (v0 r) - NR_SYSCALLS) = Some h"
  shows "syscall_trap (syscallISR H mips_table_init) r st = kernel_call H h [a0 r, a1 r, a2 r] st"
  using assms by (auto simp: syscall_trap_def kernel_call_def syscallISR_def Let_def)

lemma trap_syscallISR_bad:
  assumes "unat (v0 r) < NR_SYSCALLS \<or> mips_table_init (unat (v0 r) - NR_SYSCALLS) = None"
  shows "RETURN (syscall_trap (syscallISR H mips_table_init) r st)
    = Some (-1, st\<lparr>errno_var := word_of_int (errno_code EINVAL)\<rparr>)"
proof -
  from assms have "syscall_trap (syscallISR H mips_table_init) r st = Some (- word_of_int 22, st)"
    by (auto simp: syscall_trap_def syscallISR_def Let_def)
  then show ?thesis using RETURN_error [of 22 st] by simp
qed

lemma mips_table_lookups:
  "mips_table_init 1 = Some (ProcessUAPI Proc_exit)"
  "mips_table_init 3 = Some (FSUAPI Fs_read)"
  "mips_table_init 4 = Some (FSUAPI Fs_write)"
  "mips_table_init 5 = Some (FSUAPI Fs_open)"
  "mips_table_init 6 = Some (FSUAPI Fs_close)"
  "mips_table_init 7 = Some (ProcessUAPI Proc_waitpid)"
  "mips_table_init 12 = Some (FSUAPI Fs_chdir)"
  "mips_table_init 13 = Some (TimeUAPI Time_time)"
  "mips_table_init 15 = Some (FSUAPI Fs_chmod)"
  "mips_table_init 16 = Some (FSUAPI Fs_lchown)"
  "mips_table_init 19 = Some (FSUAPI Fs_lseek)"
  "mips_table_init 20 = Some (ProcessUAPI Proc_getpid)"
  "mips_table_init 21 = Some VFS_Mount"
  "mips_table_init 22 = Some VFS_Umount"
  "mips_table_init 23 = Some (ProcessUAPI Proc_setuid)"
  "mips_table_init 24 = Some (ProcessUAPI Proc_getuid)"
  "mips_table_init 25 = Some (TimeUAPI Time_stime)"
  "mips_table_init 37 = Some (ProcessUAPI Proc_kill)"
  "mips_table_init 45 = Some (MemoryUAPI Mm_brk)"
  "mips_table_init 46 = Some (ProcessUAPI Proc_setgid)"
  "mips_table_init 47 = Some (ProcessUAPI Proc_getgid)"
  "mips_table_init 49 = Some (ProcessUAPI Proc_geteuid)"
  "mips_table_init 50 = Some (ProcessUAPI Proc_getegid)"
  "mips_table_init 54 = Some (FSUAPI Fs_ioctl)"
  "mips_table_init 55 = Some (FSUAPI Fs_fcntl)"
  "mips_table_init 64 = Some (ProcessUAPI Proc_getppid)"
  "mips_table_init 66 = Some (ProcessUAPI Proc_setsid)"
  "mips_table_init 74 = Some (HostUAPI Host_sethostname)"
  "mips_table_init 85 = Some (FSUAPI Fs_readlink)"
  "mips_table_init 90 = Some Mmap_mips"
  "mips_table_init 92 = Some (FSUAPI Fs_truncate)"
  "mips_table_init 93 = Some (FSUAPI Fs_ftruncate)"
  "mips_table_init 94 = Some (FSUAPI Fs_fchmod)"
  "mips_table_init 95 = Some (FSUAPI Fs_fchown)"
  "mips_table_init 106 = Some (FSUAPI Fs_stat)"
  "mips_table_init 107 = Some (FSUAPI Fs_lstat)"
  "mips_table_init 108 = Some (FSUAPI Fs_fstat)"
  "mips_table_init 118 = Some (FSUAPI Fs_fsync)"
  "mips_table_init 121 = Some (HostUAPI Host_setdomainname)"
  "mips_table_init 122 = Some (HostUAPI Host_uname)"
  "mips_table_init 141 = Some (FSUAPI Fs_getdents)"
  "mips_table_init 151 = Some (ProcessUAPI Proc_getsid)"
  "mips_table_init 152 = Some (FSUAPI Fs_fdatasync)"
  "mips_table_init 166 = Some (ProcessUAPI Proc_nanosleep)"
  "mips_table_init 183 = Some (FSUAPI Fs_socket)"
  "mips_table_init 185 = Some (ProcessUAPI Proc_setresuid)"
  "mips_table_init 190 = Some (ProcessUAPI Proc_setresgid)"
  "mips_table_init 202 = Some (FSUAPI Fs_chown)"
  "mips_table_init 203 = Some (FSUAPI Fs_getcwd)"
  by (simp_all add: mips_init_defs)

lemma mips_table_holes:
  "mips_table_init 2 = None"
  "mips_table_init 8 = None"
  "mips_table_init 9 = None"
  "mips_table_init 10 = None"
  "mips_table_init 11 = None"
  "mips_table_init 14 = None"
  "mips_table_init 39 = None"
  "mips_table_init 40 = None"
  "mips_table_init 52 = None"
  "mips_table_init 83 = None"
  "mips_table_init 91 = None"
  "mips_table_init 125 = None"
  "mips_table_init 144 = None"
  "mips_table_init 154 = None"
  "mips_table_init 155 = None"
  "mips_table_init 156 = None"
  "mips_table_init 157 = None"
  by (simp_all add: mips_init_defs)

lemma mips_abi0_reaches:
  "\<forall>(stub, h) \<in> set mips_abi0. stub (syscallISR H mips_table_init) r st
     = RETURN (kernel_call H h [a0 r, a1 r, a2 r] st)"
  by (simp add: mips_abi0_def mips_stub_defs mips_macro_defs user_nr_values trap_syscallISR mips_table_lookups
      NR_SYSCALLS_def MIPS_SYSCALLTABLE_SIZE_def)

lemma mips_abi1_reaches:
  "\<forall>(stub, h) \<in> set mips_abi1. stub (syscallISR H mips_table_init) r st x0
     = RETURN (kernel_call H h [x0, a1 r, a2 r] st)"
  by (simp add: mips_abi1_def mips_stub_defs mips_macro_defs user_nr_values trap_syscallISR mips_table_lookups
      NR_SYSCALLS_def MIPS_SYSCALLTABLE_SIZE_def)

lemma mips_abi2_reaches:
  "\<forall>(stub, h) \<in> set mips_abi2. stub (syscallISR H mips_table_init) r st x0 x1
     = RETURN (kernel_call H h [x0, x1, a2 r] st)"
  by (simp add: mips_abi2_def mips_stub_defs mips_macro_defs user_nr_values trap_syscallISR mips_table_lookups
      NR_SYSCALLS_def MIPS_SYSCALLTABLE_SIZE_def)

lemma mips_abi3_reaches:
  "\<forall>(stub, h) \<in> set mips_abi3. stub (syscallISR H mips_table_init) r st x0 x1 x2
     = RETURN (kernel_call H h [x0, x1, x2] st)"
  by (simp add: mips_abi3_def mips_stub_defs mips_macro_defs user_nr_values trap_syscallISR mips_table_lookups
      NR_SYSCALLS_def MIPS_SYSCALLTABLE_SIZE_def)

lemma mips_unserved0_fail:
  "\<forall>stub \<in> set mips_unserved0. stub (syscallISR H mips_table_init) r st
     = Some (-1, st\<lparr>errno_var := word_of_int (errno_code EINVAL)\<rparr>)"
  by (simp add: mips_unserved0_def mips_stub_defs mips_macro_defs user_nr_values trap_syscallISR_bad mips_table_holes
      NR_SYSCALLS_def del: errno_code.simps)

lemma mips_unserved1_fail:
  "\<forall>stub \<in> set mips_unserved1. stub (syscallISR H mips_table_init) r st x0
     = Some (-1, st\<lparr>errno_var := word_of_int (errno_code EINVAL)\<rparr>)"
  by (simp add: mips_unserved1_def mips_stub_defs mips_macro_defs user_nr_values trap_syscallISR_bad mips_table_holes
      NR_SYSCALLS_def del: errno_code.simps)

lemma mips_unserved2_fail:
  "\<forall>stub \<in> set mips_unserved2. stub (syscallISR H mips_table_init) r st x0 x1
     = Some (-1, st\<lparr>errno_var := word_of_int (errno_code EINVAL)\<rparr>)"
  by (simp add: mips_unserved2_def mips_stub_defs mips_macro_defs user_nr_values trap_syscallISR_bad mips_table_holes
      NR_SYSCALLS_def del: errno_code.simps)

lemma mips_unserved3_fail:
  "\<forall>stub \<in> set mips_unserved3. stub (syscallISR H mips_table_init) r st x0 x1 x2
     = Some (-1, st\<lparr>errno_var := word_of_int (errno_code EINVAL)\<rparr>)"
  by (simp add: mips_unserved3_def mips_stub_defs mips_macro_defs user_nr_values trap_syscallISR_bad mips_table_holes
      NR_SYSCALLS_def del: errno_code.simps)

text \<open>The two headers, name by name.\<close>

lemma mips_numbers_agree:
  "\<forall>(name, n) \<in> set mips_user_numbers. user_nr name = of_nat (kernel_nr name) \<and> kernel_nr name = n"
proof -
  have "set mips_user_numbers \<subseteq> set mips_kernel_numbers"
    by (simp add: mips_user_numbers_def mips_kernel_numbers_def)
  then show ?thesis using user_nr_all kernel_nr_all by (fastforce simp: list_all_iff)
qed

lemma mips_exit_reaches:
  "exit_mips (syscallISR H mips_table_init) r st x0
     = map_option snd (kernel_call H (ProcessUAPI Proc_exit) [x0, a1 r, a2 r] st)"
  by (simp add: exit_mips_def user_nr_values trap_syscallISR mips_table_lookups [simplified] NR_SYSCALLS_def
      MIPS_SYSCALLTABLE_SIZE_def)

lemma mips_mmap_reaches:
  "mmap_mips (syscallISR H mips_table_init) r st x0 x1 x2 x3 x4 x5
     = with_words st (sp r - 12) [x3, x4, x5] (\<lambda>st'. RETURN (kernel_call H Mmap_mips [x0, x1, x2] st'))"
  by (simp add: mmap_mips_def SYSCALL_6_mips_def with_words_def user_nr_values trap_syscallISR mips_table_lookups
      NR_SYSCALLS_def MIPS_SYSCALLTABLE_SIZE_def split: option.split)

section \<open>Properties\<close>

text \<open>
  C23: Every call number of the C library for MIPS has the same value in the kernel's header. Each stub whose
  number the kernel registers calls the kernel function of its name with its arguments; \<open>exit\<close> drops the
  result, and \<open>mmap\<close> leaves its last three arguments in the words at the stack pointer of the trap. The stubs
  whose numbers are not registered, \<open>rename\<close> (with its number 2038 below the table), \<open>mkdir\<close>, \<open>unlink\<close> and \<open>fork\<close>
  among them, return -1 with \<open>EINVAL\<close>, and \<open>mount\<close> and \<open>reboot\<close> never return.
\<close>
theorem mips_stubs_reach_handlers:
  "(\<forall>(name, n) \<in> set mips_user_numbers. user_nr name = of_nat (kernel_nr name) \<and> kernel_nr name = n)
   \<and> (\<forall>(stub, h) \<in> set mips_abi0. stub (syscallISR H mips_table_init) r st
        = RETURN (kernel_call H h [a0 r, a1 r, a2 r] st))
   \<and> (\<forall>(stub, h) \<in> set mips_abi1. stub (syscallISR H mips_table_init) r st x0
        = RETURN (kernel_call H h [x0, a1 r, a2 r] st))
   \<and> (\<forall>(stub, h) \<in> set mips_abi2. stub (syscallISR H mips_table_init) r st x0 x1
        = RETURN (kernel_call H h [x0, x1, a2 r] st))
   \<and> (\<forall>(stub, h) \<in> set mips_abi3. stub (syscallISR H mips_table_init) r st x0 x1 x2
        = RETURN (kernel_call H h [x0, x1, x2] st))
   \<and> exit_mips (syscallISR H mips_table_init) r st x0
        = map_option snd (kernel_call H (ProcessUAPI Proc_exit) [x0, a1 r, a2 r] st)
   \<and> mmap_mips (syscallISR H mips_table_init) r st x0 x1 x2 x3 x4 x5
        = with_words st (sp r - 12) [x3, x4, x5] (\<lambda>st'. RETURN (kernel_call H Mmap_mips [x0, x1, x2] st'))
   \<and> (\<forall>m'. store_words (umem st) (unat (sp r - 12)) [x3, x4, x5] = Some m'
        \<longrightarrow> load_words m' (unat (sp r - 12)) 3 = Some [x3, x4, x5])
   \<and> (\<forall>stub \<in> set mips_unserved0. stub (syscallISR H mips_table_init) r st
        = Some (-1, st\<lparr>errno_var := word_of_int (errno_code EINVAL)\<rparr>))
   \<and> (\<forall>stub \<in> set mips_unserved1. stub (syscallISR H mips_table_init) r st x0
        = Some (-1, st\<lparr>errno_var := word_of_int (errno_code EINVAL)\<rparr>))
   \<and> (\<forall>stub \<in> set mips_unserved2. stub (syscallISR H mips_table_init) r st x0 x1
        = Some (-1, st\<lparr>errno_var := word_of_int (errno_code EINVAL)\<rparr>))
   \<and> (\<forall>stub \<in> set mips_unserved3. stub (syscallISR H mips_table_init) r st x0 x1 x2
        = Some (-1, st\<lparr>errno_var := word_of_int (errno_code EINVAL)\<rparr>))
   \<and> mount_mips (syscallISR H mips_table_init) r st x0 x1 x2 x3 x4 = None
   \<and> reboot_mips (syscallISR H mips_table_init) r st x0 x1 x2 x3 = None"
proof (intro conjI mips_abi0_reaches mips_abi1_reaches mips_abi2_reaches mips_abi3_reaches mips_exit_reaches
    mips_mmap_reaches mips_unserved0_fail mips_unserved1_fail mips_unserved2_fail mips_unserved3_fail allI impI)
  show "\<forall>(name, n) \<in> set mips_user_numbers. user_nr name = of_nat (kernel_nr name) \<and> kernel_nr name = n"
    by (rule mips_numbers_agree)
  show "load_words m' (unat (sp r - 12)) 3 = Some [x3, x4, x5]"
    if "store_words (umem st) (unat (sp r - 12)) [x3, x4, x5] = Some m'" for m'
    using load_store_words [OF that] by (simp add: eval_nat_numeral)
qed (simp_all add: mount_mips_def reboot_mips_def)

theorem mips_stubs_reach_handlers_witness:
  "write_mips (syscallISR (\<lambda>h args s. if h = FSUAPI Fs_write then Some (args ! 2, s) else None)
       mips_table_init) \<lparr>v0 = 0, a0 = 0, a1 = 0, a2 = 0, sp = 0\<rparr>
       \<lparr>errno_var = 0, umem = [], kern = ()\<rparr> 1 100 9
     = Some (9, \<lparr>errno_var = 0, umem = [], kern = ()\<rparr>)"
proof -
  let ?H = "\<lambda>h args s. if h = FSUAPI Fs_write then Some (args ! 2 :: u32, s) else None"
  let ?r = "\<lparr>v0 = 0, a0 = 0, a1 = 0, a2 = 0, sp = 0\<rparr> :: mips_regs"
  let ?st = "\<lparr>errno_var = 0, umem = [], kern = ()\<rparr> :: unit ustate"
  have "\<forall>(stub, h) \<in> set mips_abi3. stub (syscallISR ?H mips_table_init) ?r ?st 1 100 9
        = RETURN (kernel_call ?H h [1, 100, 9] ?st)"
    using mips_stubs_reach_handlers [of ?H ?r ?st 1 100 9 0 0 0] by (elim conjE)
  then show ?thesis by (simp add: mips_abi3_def kernel_call_def syscall_trap_def RETURN_def)
qed

text \<open>
  The MIPS kernel serves none of the remaining stubs, \<open>rename\<close> (whose number 2038 lies below the
  table in both headers), \<open>mkdir\<close>, \<open>unlink\<close>, \<open>link\<close> and \<open>fork\<close> among them: each returns -1 with
  \<open>EINVAL\<close> and no kernel function is called.
\<close>
theorem mips_unserved_stubs_fail:
  "(\<forall>stub \<in> set mips_unserved0. stub (syscallISR H mips_table_init) r st
        = Some (-1, st\<lparr>errno_var := word_of_int (errno_code EINVAL)\<rparr>))
   \<and> (\<forall>stub \<in> set mips_unserved1. stub (syscallISR H mips_table_init) r st x0
        = Some (-1, st\<lparr>errno_var := word_of_int (errno_code EINVAL)\<rparr>))
   \<and> (\<forall>stub \<in> set mips_unserved2. stub (syscallISR H mips_table_init) r st x0 x1
        = Some (-1, st\<lparr>errno_var := word_of_int (errno_code EINVAL)\<rparr>))
   \<and> (\<forall>stub \<in> set mips_unserved3. stub (syscallISR H mips_table_init) r st x0 x1 x2
        = Some (-1, st\<lparr>errno_var := word_of_int (errno_code EINVAL)\<rparr>))"
  by (intro conjI mips_unserved0_fail mips_unserved1_fail mips_unserved2_fail mips_unserved3_fail)

theorem mips_unserved_stubs_fail_witness:
  "rename_mips (syscallISR (\<lambda>h args s. Some (0, s)) mips_table_init)
     \<lparr>v0 = 0, a0 = 0, a1 = 0, a2 = 0, sp = 0\<rparr> \<lparr>errno_var = 0, umem = [], kern = ()\<rparr> 100 200
   = Some (-1, \<lparr>errno_var = 22, umem = [], kern = ()\<rparr>)"
proof -
  let ?st = "\<lparr>errno_var = 0, umem = [], kern = ()\<rparr> :: unit ustate"
  have "\<forall>stub \<in> set mips_unserved2. stub (syscallISR (\<lambda>h args s. Some (0, s)) mips_table_init)
      \<lparr>v0 = 0, a0 = 0, a1 = 0, a2 = 0, sp = 0\<rparr> ?st 100 200
      = Some (-1, ?st\<lparr>errno_var := word_of_int (errno_code EINVAL)\<rparr>)"
    using mips_unserved_stubs_fail by blast
  then show ?thesis by (simp add: mips_unserved2_def)
qed

end
