(* ===== verification/Syscalls_X86_64.thy ===== *)
theory Syscalls_X86_64
  imports Syscall_Abi
begin

text \<open>
  The system call stubs of the C library for x86_64: src/src/libc/arch/x86_64/syscalls.c.

  Arguments are given as the \<open>long\<close> values the stubs convert them to. A stub of type \<open>int\<close> returns the
  low 32 bits of the result register. \<open>trap\<close> is the \<open>syscall\<close> instruction; \<open>time\<close> uses
  \<open>int $0x80\<close> instead.
\<close>

record x86_64_regs =
  rax :: u64
  rbx :: u64
  rcx :: u64
  rdx :: u64
  rsi :: u64
  rdi :: u64
  r8 :: u64
  r10 :: u64

type_synonym ('k, 'w) x86_64_stub0 =
  "(x86_64_regs, u64, 'k) trap \<Rightarrow> x86_64_regs \<Rightarrow> 'k ustate \<Rightarrow> ('w \<times> 'k ustate) option"

type_synonym ('k, 'w) x86_64_stub1 =
  "(x86_64_regs, u64, 'k) trap \<Rightarrow> x86_64_regs \<Rightarrow> 'k ustate \<Rightarrow> u64 \<Rightarrow> ('w \<times> 'k ustate) option"

type_synonym ('k, 'w) x86_64_stub2 =
  "(x86_64_regs, u64, 'k) trap \<Rightarrow> x86_64_regs \<Rightarrow> 'k ustate \<Rightarrow> u64 \<Rightarrow> u64 \<Rightarrow> ('w \<times> 'k ustate) option"

type_synonym ('k, 'w) x86_64_stub3 =
  "(x86_64_regs, u64, 'k) trap \<Rightarrow> x86_64_regs \<Rightarrow> 'k ustate \<Rightarrow> u64 \<Rightarrow> u64 \<Rightarrow> u64 \<Rightarrow> ('w \<times> 'k ustate) option"

type_synonym ('k, 'w) x86_64_stub4 =
  "(x86_64_regs, u64, 'k) trap \<Rightarrow> x86_64_regs \<Rightarrow> 'k ustate \<Rightarrow> u64 \<Rightarrow> u64 \<Rightarrow> u64 \<Rightarrow> u64 \<Rightarrow> ('w \<times> 'k ustate) option"

type_synonym ('k, 'w) x86_64_stub5 =
  "(x86_64_regs, u64, 'k) trap \<Rightarrow> x86_64_regs \<Rightarrow> 'k ustate \<Rightarrow> u64 \<Rightarrow> u64 \<Rightarrow> u64 \<Rightarrow> u64 \<Rightarrow> u64 \<Rightarrow> ('w \<times> 'k ustate) option"

type_synonym ('k, 'w) x86_64_stub6 =
  "(x86_64_regs, u64, 'k) trap \<Rightarrow> x86_64_regs \<Rightarrow> 'k ustate \<Rightarrow> u64 \<Rightarrow> u64 \<Rightarrow> u64 \<Rightarrow> u64 \<Rightarrow> u64 \<Rightarrow> u64 \<Rightarrow> ('w \<times> 'k ustate) option"

type_synonym 'k x86_64_vstub1 =
  "(x86_64_regs, u64, 'k) trap \<Rightarrow> x86_64_regs \<Rightarrow> 'k ustate \<Rightarrow> u64 \<Rightarrow> 'k ustate option"

definition RETURN_int :: "(u64 \<times> 'k ustate) option \<Rightarrow> (u32 \<times> 'k ustate) option" where
  "RETURN_int x =
     (case x of None \<Rightarrow> None
      | Some (res, st) \<Rightarrow>
          if 0 \<le> sint (ucast res :: u32) then Some (ucast res, st)
          else Some (-1, st\<lparr>errno_var := ucast (- res)\<rparr>))"

definition RETURN_long :: "(u64 \<times> 'k ustate) option \<Rightarrow> (u64 \<times> 'k ustate) option" where
  "RETURN_long x =
     (case x of None \<Rightarrow> None
      | Some (res, st) \<Rightarrow>
          if 0 \<le> sint (ucast res :: u32) then Some (res, st)
          else Some (-1, st\<lparr>errno_var := ucast (- res)\<rparr>))"

text \<open>A 64-bit value is stored as its two halves, the low one first.\<close>

fun store_longs :: "mem \<Rightarrow> addr \<Rightarrow> u64 list \<Rightarrow> mem option" where
  "store_longs m a [] = Some m"
| "store_longs m a (w # ws) =
     (case store_words m a [ucast w, ucast (drop_bit 32 w)] of None \<Rightarrow> None
      | Some m' \<Rightarrow> store_longs m' (a + 8) ws)"

section \<open>The stub macros\<close>

definition SYSCALL_2_x86_64 :: "u64 \<Rightarrow> ('k, u32) x86_64_stub2" where
  "SYSCALL_2_x86_64 num trap r st arg0 arg1 =
     RETURN_int (syscall_trap trap (r\<lparr>rax := num, rdi := arg0, rsi := arg1\<rparr>) st)"

definition SYSCALL_3_x86_64 :: "u64 \<Rightarrow> ('k, u32) x86_64_stub3" where
  "SYSCALL_3_x86_64 num trap r st arg0 arg1 arg2 =
     RETURN_int (syscall_trap trap (r\<lparr>rax := num, rdi := arg0, rsi := arg1, rdx := arg2\<rparr>) st)"

definition SYSCALL_4_x86_64 :: "u64 \<Rightarrow> ('k, u32) x86_64_stub4" where
  "SYSCALL_4_x86_64 num trap r st arg0 arg1 arg2 arg3 =
     RETURN_int (syscall_trap trap (r\<lparr>rax := num, rdi := arg0, rsi := arg1, rdx := arg2, r10 := arg3\<rparr>) st)"

definition SYSCALL_5_x86_64 :: "u64 \<Rightarrow> ('k, u32) x86_64_stub5" where
  "SYSCALL_5_x86_64 num trap r st arg0 arg1 arg2 arg3 arg4 =
     RETURN_int (syscall_trap trap (r\<lparr>rax := num, rdi := arg0, rsi := arg1, rdx := arg2, r10 := arg3, r8 := arg4\<rparr>) st)"

section \<open>The stubs\<close>

definition rename_x86_64 :: "('k, u32) x86_64_stub2" where
  "rename_x86_64 = SYSCALL_2_x86_64 82"

definition chmod_x86_64 :: "('k, u32) x86_64_stub2" where
  "chmod_x86_64 = SYSCALL_2_x86_64 90"

definition fchmod_x86_64 :: "('k, u32) x86_64_stub2" where
  "fchmod_x86_64 = SYSCALL_2_x86_64 91"

definition chown_x86_64 :: "('k, u32) x86_64_stub3" where
  "chown_x86_64 = SYSCALL_3_x86_64 92"

definition fchown_x86_64 :: "('k, u32) x86_64_stub3" where
  "fchown_x86_64 = SYSCALL_3_x86_64 93"

definition lchown_x86_64 :: "('k, u32) x86_64_stub3" where
  "lchown_x86_64 = SYSCALL_3_x86_64 94"

definition link_x86_64 :: "('k, u32) x86_64_stub2" where
  "link_x86_64 = SYSCALL_2_x86_64 86"

definition symlink_x86_64 :: "('k, u32) x86_64_stub2" where
  "symlink_x86_64 = SYSCALL_2_x86_64 88"

definition mknod_x86_64 :: "('k, u32) x86_64_stub3" where
  "mknod_x86_64 = SYSCALL_3_x86_64 133"

definition mount_x86_64 :: "('k, u32) x86_64_stub5" where
  "mount_x86_64 = SYSCALL_5_x86_64 165"

definition umount2_x86_64 :: "('k, u32) x86_64_stub2" where
  "umount2_x86_64 = SYSCALL_2_x86_64 166"

definition reboot_x86_64 :: "('k, u32) x86_64_stub4" where
  "reboot_x86_64 = SYSCALL_4_x86_64 169"

definition exit_x86_64 :: "'k x86_64_vstub1" where
  "exit_x86_64 trap r st status =
     map_option snd (syscall_trap trap (r\<lparr>rax := 60, rbx := status\<rparr>) st)"

definition fork_x86_64 :: "('k, u64) x86_64_stub0" where
  "fork_x86_64 trap r st =
     RETURN_long (syscall_trap trap (r\<lparr>rax := 57\<rparr>) st)"

definition CreateProcess_x86_64 :: "('k, u64) x86_64_stub2" where
  "CreateProcess_x86_64 trap r st name params =
     RETURN_long (syscall_trap trap (r\<lparr>rax := 220, rdi := name, rsi := params\<rparr>) st)"

definition read_x86_64 :: "('k, u64) x86_64_stub3" where
  "read_x86_64 trap r st fd buf count =
     RETURN_long (syscall_trap trap (r\<lparr>rax := 0, rdi := fd, rsi := buf, rdx := count\<rparr>) st)"

definition write_x86_64 :: "('k, u32) x86_64_stub3" where
  "write_x86_64 trap r st fd buf count =
     RETURN_int (syscall_trap trap (r\<lparr>rax := 1, rdi := fd, rsi := buf, rdx := count\<rparr>) st)"

definition open_x86_64 :: "('k, u32) x86_64_stub2" where
  "open_x86_64 trap r st pathname flags =
     RETURN_int (syscall_trap trap (r\<lparr>rax := 2, rbx := pathname, rcx := flags, rdx := 0\<rparr>) st)"

definition creat_x86_64 :: "('k, u32) x86_64_stub2" where
  "creat_x86_64 trap r st pathname mode =
     RETURN_int (syscall_trap trap (r\<lparr>rax := 85, rdi := pathname, rsi := mode\<rparr>) st)"

definition close_x86_64 :: "('k, u32) x86_64_stub1" where
  "close_x86_64 trap r st fd =
     RETURN_int (syscall_trap trap (r\<lparr>rax := 3, rbx := fd\<rparr>) st)"

definition waitpid_x86_64 :: "('k, u32) x86_64_stub3" where
  "waitpid_x86_64 trap r st pid status options =
     RETURN_int (case syscall_trap trap (r\<lparr>rax := 61, rdi := pid, rsi := status, rdx := options\<rparr>) st of
       None \<Rightarrow> None
     | Some (res, st') \<Rightarrow>
         (case store32 (umem st') (unat status) (ucast status) of None \<Rightarrow> None
          | Some m' \<Rightarrow> Some (res, st'\<lparr>umem := m'\<rparr>)))"

definition execve_x86_64 :: "('k, u32) x86_64_stub3" where
  "execve_x86_64 trap r st filename argv envp =
     RETURN_int (syscall_trap trap (r\<lparr>rax := 59, rbx := filename, rcx := argv, rdx := envp\<rparr>) st)"

definition lseek_x86_64 :: "('k, u32) x86_64_stub3" where
  "lseek_x86_64 trap r st fildes offset whence =
     RETURN_int (syscall_trap trap (r\<lparr>rax := 8, rbx := fildes, rcx := offset, rdx := whence\<rparr>) st)"

definition getpid_x86_64 :: "('k, u64) x86_64_stub0" where
  "getpid_x86_64 trap r st =
     RETURN_long (syscall_trap trap (r\<lparr>rax := 39\<rparr>) st)"

definition setuid_x86_64 :: "('k, u32) x86_64_stub1" where
  "setuid_x86_64 trap r st uid =
     RETURN_int (syscall_trap trap (r\<lparr>rax := 105, rbx := uid\<rparr>) st)"

definition getuid_x86_64 :: "('k, u64) x86_64_stub0" where
  "getuid_x86_64 trap r st =
     RETURN_long (syscall_trap trap (r\<lparr>rax := 102\<rparr>) st)"

definition brk_x86_64 :: "('k, u32) x86_64_stub1" where
  "brk_x86_64 trap r st end_data_segment =
     RETURN_int (syscall_trap trap (r\<lparr>rax := 12, rbx := end_data_segment\<rparr>) st)"

definition setgid_x86_64 :: "('k, u32) x86_64_stub1" where
  "setgid_x86_64 trap r st gid =
     RETURN_int (syscall_trap trap (r\<lparr>rax := 106, rbx := gid\<rparr>) st)"

definition getgid_x86_64 :: "('k, u64) x86_64_stub0" where
  "getgid_x86_64 trap r st =
     RETURN_long (syscall_trap trap (r\<lparr>rax := 104\<rparr>) st)"

definition getppid_x86_64 :: "('k, u64) x86_64_stub0" where
  "getppid_x86_64 trap r st =
     RETURN_long (syscall_trap trap (r\<lparr>rax := 110\<rparr>) st)"

definition readlink_x86_64 :: "('k, u64) x86_64_stub3" where
  "readlink_x86_64 trap r st path buf bufsiz =
     RETURN_long (syscall_trap trap (r\<lparr>rax := 89, rbx := path, rcx := buf, rdx := bufsiz\<rparr>) st)"

definition getcwd_x86_64 :: "('k, u64) x86_64_stub2" where
  "getcwd_x86_64 trap r st buf sz =
     syscall_trap trap (r\<lparr>rax := 79, rbx := buf, rcx := sz\<rparr>) st"

definition sethostname_x86_64 :: "('k, u32) x86_64_stub2" where
  "sethostname_x86_64 trap r st name len =
     RETURN_int (syscall_trap trap (r\<lparr>rax := 170, rbx := name, rcx := len\<rparr>) st)"

definition setdomainname_x86_64 :: "('k, u32) x86_64_stub2" where
  "setdomainname_x86_64 trap r st name len =
     RETURN_int (syscall_trap trap (r\<lparr>rax := 171, rbx := name, rcx := len\<rparr>) st)"

definition chdir_x86_64 :: "('k, u32) x86_64_stub1" where
  "chdir_x86_64 trap r st path =
     RETURN_int (syscall_trap trap (r\<lparr>rax := 80, rbx := path\<rparr>) st)"

definition uname_x86_64 :: "('k, u32) x86_64_stub1" where
  "uname_x86_64 trap r st buf =
     RETURN_int (syscall_trap trap (r\<lparr>rax := 63, rdi := buf\<rparr>) st)"

definition time_x86_64 :: "('k, u64) x86_64_stub1" where
  "time_x86_64 int80 r st t =
     RETURN_long (syscall_trap int80 (r\<lparr>rax := 13, rbx := t\<rparr>) st)"

definition getdents_x86_64 :: "('k, u32) x86_64_stub3" where
  "getdents_x86_64 trap r st fd dirp count =
     RETURN_int (syscall_trap trap (r\<lparr>rax := 78, rbx := fd, rcx := dirp, rdx := count\<rparr>) st)"

definition stat_x86_64 :: "('k, u32) x86_64_stub2" where
  "stat_x86_64 trap r st path buf =
     RETURN_int (syscall_trap trap (r\<lparr>rax := 4, rdi := path, rsi := buf\<rparr>) st)"

definition fstat_x86_64 :: "('k, u32) x86_64_stub2" where
  "fstat_x86_64 trap r st filedes buf =
     RETURN_int (syscall_trap trap (r\<lparr>rax := 5, rdi := filedes, rsi := buf\<rparr>) st)"

definition lstat_x86_64 :: "('k, u32) x86_64_stub2" where
  "lstat_x86_64 trap r st path buf =
     RETURN_int (syscall_trap trap (r\<lparr>rax := 6, rdi := path, rsi := buf\<rparr>) st)"

definition ioctl_x86_64 :: "('k, u32) x86_64_stub3" where
  "ioctl_x86_64 trap r st d request addr =
     RETURN_int (syscall_trap trap (r\<lparr>rax := 16, rbx := d, rcx := request, rdx := addr\<rparr>) st)"

text \<open>\<open>mmapArg\<close> is the address of the argument structure in the stub's stack frame.\<close>

definition mmap_x86_64 :: "u64 \<Rightarrow> ('k, u64) x86_64_stub6" where
  "mmap_x86_64 mmapArg trap r st start len prot flags fd offset =
     (case store_longs (umem st) (unat mmapArg) [start, len, prot, flags, fd, offset] of None \<Rightarrow> None
      | Some m' \<Rightarrow> syscall_trap trap (r\<lparr>rax := 9, rbx := mmapArg\<rparr>) (st\<lparr>umem := m'\<rparr>))"

definition rmdir_x86_64 :: "('k, u32) x86_64_stub1" where
  "rmdir_x86_64 trap r st path =
     RETURN_int (syscall_trap trap (r\<lparr>rax := 84, rbx := path\<rparr>) st)"

definition unlink_x86_64 :: "('k, u32) x86_64_stub1" where
  "unlink_x86_64 trap r st path =
     RETURN_int (syscall_trap trap (r\<lparr>rax := 87, rbx := path\<rparr>) st)"

definition mkdir_x86_64 :: "('k, u32) x86_64_stub2" where
  "mkdir_x86_64 trap r st path mode =
     RETURN_int (syscall_trap trap (r\<lparr>rax := 83, rdi := path, rsi := mode\<rparr>) st)"

lemmas x86_64_stub_defs =
  rename_x86_64_def chmod_x86_64_def fchmod_x86_64_def chown_x86_64_def
  fchown_x86_64_def lchown_x86_64_def link_x86_64_def symlink_x86_64_def
  mknod_x86_64_def mount_x86_64_def umount2_x86_64_def reboot_x86_64_def
  exit_x86_64_def fork_x86_64_def CreateProcess_x86_64_def read_x86_64_def
  write_x86_64_def open_x86_64_def creat_x86_64_def close_x86_64_def
  waitpid_x86_64_def execve_x86_64_def lseek_x86_64_def getpid_x86_64_def
  setuid_x86_64_def getuid_x86_64_def brk_x86_64_def setgid_x86_64_def
  getgid_x86_64_def getppid_x86_64_def readlink_x86_64_def getcwd_x86_64_def
  sethostname_x86_64_def setdomainname_x86_64_def chdir_x86_64_def uname_x86_64_def
  time_x86_64_def getdents_x86_64_def stat_x86_64_def fstat_x86_64_def
  lstat_x86_64_def ioctl_x86_64_def mmap_x86_64_def rmdir_x86_64_def
  unlink_x86_64_def mkdir_x86_64_def

section \<open>Argument registers\<close>

text \<open>Stubs that put their first argument in \<open>rbx\<close>, the ia32 register, instead of \<open>rdi\<close>.\<close>

definition x86_64_misplaced1 :: "('k, u32) x86_64_stub1 list" where
  "x86_64_misplaced1 = [close_x86_64, setuid_x86_64, brk_x86_64, setgid_x86_64, chdir_x86_64, rmdir_x86_64, unlink_x86_64]"

definition x86_64_misplaced2 :: "('k, u32) x86_64_stub2 list" where
  "x86_64_misplaced2 = [open_x86_64, sethostname_x86_64, setdomainname_x86_64]"

definition x86_64_misplaced3 :: "('k, u32) x86_64_stub3 list" where
  "x86_64_misplaced3 = [execve_x86_64, lseek_x86_64, getdents_x86_64, ioctl_x86_64]"

text \<open>A kernel that follows the calling convention of the \<open>syscall\<close> instruction looks at the number and
  at \<open>rdi\<close>, \<open>rsi\<close>, \<open>rdx\<close>, \<open>r10\<close>, \<open>r8\<close> only.\<close>

definition syscall_abi :: "(u64 \<Rightarrow> u64 list \<Rightarrow> mem \<times> 'k \<Rightarrow> (u64 \<times> mem \<times> 'k) option) \<Rightarrow>
    (x86_64_regs, u64, 'k) trap" where
  "syscall_abi K r = K (rax r) [rdi r, rsi r, rdx r, r10 r, r8 r]"

text \<open>
  Against a kernel that follows the x86_64 convention, \<open>open\<close>, \<open>close\<close>, \<open>chdir\<close>, \<open>unlink\<close>,
  \<open>lseek\<close> and the other stubs written with the ia32 registers do not transmit their first two
  arguments: the call gives the same outcome for every value of them.
\<close>
theorem x86_64_arguments_lost:
  "(\<forall>stub \<in> set x86_64_misplaced1. stub (syscall_abi K) r st x = stub (syscall_abi K) r st x')
   \<and> (\<forall>stub \<in> set x86_64_misplaced2. stub (syscall_abi K) r st x y = stub (syscall_abi K) r st x' y')
   \<and> (\<forall>stub \<in> set x86_64_misplaced3. stub (syscall_abi K) r st x y z = stub (syscall_abi K) r st x' y' z)"
proof (intro conjI)
  show "\<forall>stub \<in> set x86_64_misplaced1. stub (syscall_abi K) r st x = stub (syscall_abi K) r st x'"
    by (simp add: x86_64_misplaced1_def x86_64_stub_defs syscall_trap_def syscall_abi_def)
  show "\<forall>stub \<in> set x86_64_misplaced2. stub (syscall_abi K) r st x y = stub (syscall_abi K) r st x' y'"
    by (simp add: x86_64_misplaced2_def x86_64_stub_defs syscall_trap_def syscall_abi_def)
  show "\<forall>stub \<in> set x86_64_misplaced3.
      stub (syscall_abi K) r st x y z = stub (syscall_abi K) r st x' y' z"
    by (simp add: x86_64_misplaced3_def x86_64_stub_defs syscall_trap_def syscall_abi_def)
qed

theorem x86_64_arguments_lost_witness:
  "close_x86_64 (syscall_abi (\<lambda>nr args s. Some (args ! 0, s)))
     \<lparr>rax = 0, rbx = 0, rcx = 0, rdx = 0, rsi = 0, rdi = 5, r8 = 0, r10 = 0\<rparr>
     \<lparr>errno_var = 0, umem = [], kern = ()\<rparr> 3
   = Some (5, \<lparr>errno_var = 0, umem = [], kern = ()\<rparr>)"
proof -
  let ?K = "\<lambda>nr args s. Some (args ! 0 :: u64, s)"
  let ?r = "\<lparr>rax = 0, rbx = 0, rcx = 0, rdx = 0, rsi = 0, rdi = 5, r8 = 0, r10 = 0\<rparr> :: x86_64_regs"
  let ?st = "\<lparr>errno_var = 0, umem = [], kern = ()\<rparr> :: unit ustate"
  have "\<forall>stub \<in> set x86_64_misplaced1.
      stub (syscall_abi ?K) ?r ?st 3 = stub (syscall_abi ?K) ?r ?st 0"
    using x86_64_arguments_lost [of ?K ?r ?st 3 0] by blast
  then have "close_x86_64 (syscall_abi ?K) ?r ?st 3 = close_x86_64 (syscall_abi ?K) ?r ?st 0"
    by (simp add: x86_64_misplaced1_def)
  also have "\<dots> = Some (5, ?st)"
    by (simp add: close_x86_64_def syscall_trap_def syscall_abi_def RETURN_int_def)
  finally show ?thesis .
qed

end
