(* ===== verification/Syscalls_Arm.thy ===== *)
theory Syscalls_Arm
  imports Syscall_Abi
begin

text \<open>
  The ARM port: the stubs of src/src/libc/arch/arm/syscalls.c and the table and dispatcher of
  src/src/kernel/arch/arm/core/syscallsmanager.cpp. A stub passes its number in \<open>r7\<close> and its
  arguments from \<open>r0\<close> upwards, and reads the result from \<open>r0\<close>. The dispatcher is the assembly routine
  \<open>swiHandler\<close>. The stub \<open>getcwd\<close> has an empty body in the source and returns no defined value.
\<close>

record arm_regs =
  r0 :: u32
  r1 :: u32
  r2 :: u32
  r3 :: u32
  r4 :: u32
  r5 :: u32
  r7 :: u32

type_synonym 'k arm_stub0 =
  "(arm_regs, u32, 'k) trap \<Rightarrow> arm_regs \<Rightarrow> 'k ustate \<Rightarrow> (u32 \<times> 'k ustate) option"

type_synonym 'k arm_stub1 =
  "(arm_regs, u32, 'k) trap \<Rightarrow> arm_regs \<Rightarrow> 'k ustate \<Rightarrow> u32 \<Rightarrow> (u32 \<times> 'k ustate) option"

type_synonym 'k arm_stub2 =
  "(arm_regs, u32, 'k) trap \<Rightarrow> arm_regs \<Rightarrow> 'k ustate \<Rightarrow> u32 \<Rightarrow> u32 \<Rightarrow> (u32 \<times> 'k ustate) option"

type_synonym 'k arm_stub3 =
  "(arm_regs, u32, 'k) trap \<Rightarrow> arm_regs \<Rightarrow> 'k ustate \<Rightarrow> u32 \<Rightarrow> u32 \<Rightarrow> u32 \<Rightarrow> (u32 \<times> 'k ustate) option"

type_synonym 'k arm_stub4 =
  "(arm_regs, u32, 'k) trap \<Rightarrow> arm_regs \<Rightarrow> 'k ustate \<Rightarrow> u32 \<Rightarrow> u32 \<Rightarrow> u32 \<Rightarrow> u32 \<Rightarrow> (u32 \<times> 'k ustate) option"

type_synonym 'k arm_stub5 =
  "(arm_regs, u32, 'k) trap \<Rightarrow> arm_regs \<Rightarrow> 'k ustate \<Rightarrow> u32 \<Rightarrow> u32 \<Rightarrow> u32 \<Rightarrow> u32 \<Rightarrow> u32 \<Rightarrow> (u32 \<times> 'k ustate) option"

section \<open>Stubs\<close>

definition SYSCALL_0_arm :: "u32 \<Rightarrow> 'k arm_stub0" where
  "SYSCALL_0_arm num trap r st =
     RETURN (syscall_trap trap (r\<lparr>r7 := num\<rparr>) st)"

definition SYSCALL_1_arm :: "u32 \<Rightarrow> 'k arm_stub1" where
  "SYSCALL_1_arm num trap r st arg0 =
     RETURN (syscall_trap trap (r\<lparr>r0 := arg0, r7 := num\<rparr>) st)"

definition SYSCALL_2_arm :: "u32 \<Rightarrow> 'k arm_stub2" where
  "SYSCALL_2_arm num trap r st arg0 arg1 =
     RETURN (syscall_trap trap (r\<lparr>r0 := arg0, r1 := arg1, r7 := num\<rparr>) st)"

definition SYSCALL_3_arm :: "u32 \<Rightarrow> 'k arm_stub3" where
  "SYSCALL_3_arm num trap r st arg0 arg1 arg2 =
     RETURN (syscall_trap trap (r\<lparr>r0 := arg0, r1 := arg1, r2 := arg2, r7 := num\<rparr>) st)"

definition SYSCALL_4_arm :: "u32 \<Rightarrow> 'k arm_stub4" where
  "SYSCALL_4_arm num trap r st arg0 arg1 arg2 arg3 =
     RETURN (syscall_trap trap (r\<lparr>r0 := arg0, r1 := arg1, r2 := arg2, r3 := arg3, r7 := num\<rparr>) st)"

definition SYSCALL_5_arm :: "u32 \<Rightarrow> 'k arm_stub5" where
  "SYSCALL_5_arm num trap r st arg0 arg1 arg2 arg3 arg4 =
     RETURN (syscall_trap trap (r\<lparr>r0 := arg0, r1 := arg1, r2 := arg2, r3 := arg3, r4 := arg4, r7 := num\<rparr>) st)"

definition exit_arm :: "(arm_regs, u32, 'k) trap \<Rightarrow> arm_regs \<Rightarrow> 'k ustate \<Rightarrow> u32 \<Rightarrow> 'k ustate option" where
  "exit_arm trap r st arg0 = map_option snd (SYSCALL_1_arm 1 trap r st arg0)"

definition fork_arm :: "'k arm_stub0" where
  "fork_arm = SYSCALL_0_arm 2"

definition read_arm :: "'k arm_stub3" where
  "read_arm = SYSCALL_3_arm 3"

definition write_arm :: "'k arm_stub3" where
  "write_arm = SYSCALL_3_arm 4"

definition open_arm :: "'k arm_stub3" where
  "open_arm = SYSCALL_3_arm 5"

definition creat_arm :: "'k arm_stub3" where
  "creat_arm = SYSCALL_3_arm 8"

definition close_arm :: "'k arm_stub1" where
  "close_arm = SYSCALL_1_arm 6"

definition unlink_arm :: "'k arm_stub1" where
  "unlink_arm = SYSCALL_1_arm 10"

definition execve_arm :: "'k arm_stub3" where
  "execve_arm = SYSCALL_3_arm 11"

definition chdir_arm :: "'k arm_stub1" where
  "chdir_arm = SYSCALL_1_arm 12"

definition time_arm :: "'k arm_stub1" where
  "time_arm = SYSCALL_1_arm 13"

definition getuid_arm :: "'k arm_stub0" where
  "getuid_arm = SYSCALL_0_arm 24"

definition mkdir_arm :: "'k arm_stub2" where
  "mkdir_arm = SYSCALL_2_arm 39"

definition rmdir_arm :: "'k arm_stub1" where
  "rmdir_arm = SYSCALL_1_arm 40"

definition brk_arm :: "'k arm_stub1" where
  "brk_arm = SYSCALL_1_arm 45"

definition sethostname_arm :: "'k arm_stub2" where
  "sethostname_arm = SYSCALL_2_arm 74"

definition readlink_arm :: "'k arm_stub3" where
  "readlink_arm = SYSCALL_3_arm 85"

definition lstat_arm :: "'k arm_stub2" where
  "lstat_arm = SYSCALL_2_arm 107"

definition waitpid_arm :: "'k arm_stub3" where
  "waitpid_arm = SYSCALL_3_arm 114"

definition setdomainname_arm :: "'k arm_stub2" where
  "setdomainname_arm = SYSCALL_2_arm 121"

definition uname_arm :: "'k arm_stub1" where
  "uname_arm = SYSCALL_1_arm 122"

definition CreateProcess_arm :: "'k arm_stub2" where
  "CreateProcess_arm = SYSCALL_2_arm 220"

definition getdents_arm :: "'k arm_stub3" where
  "getdents_arm = SYSCALL_3_arm 141"

definition rename_arm :: "'k arm_stub2" where
  "rename_arm = SYSCALL_2_arm 82"

definition reboot_arm :: "'k arm_stub4" where
  "reboot_arm = SYSCALL_4_arm 88"

definition chmod_arm :: "'k arm_stub2" where
  "chmod_arm = SYSCALL_2_arm 90"

definition fchmod_arm :: "'k arm_stub2" where
  "fchmod_arm = SYSCALL_2_arm 91"

definition chown_arm :: "'k arm_stub3" where
  "chown_arm = SYSCALL_3_arm 92"

definition fchown_arm :: "'k arm_stub3" where
  "fchown_arm = SYSCALL_3_arm 93"

definition lchown_arm :: "'k arm_stub3" where
  "lchown_arm = SYSCALL_3_arm 94"

definition link_arm :: "'k arm_stub2" where
  "link_arm = SYSCALL_2_arm 86"

definition symlink_arm :: "'k arm_stub2" where
  "symlink_arm = SYSCALL_2_arm 88"

definition mknod_arm :: "'k arm_stub3" where
  "mknod_arm = SYSCALL_3_arm 133"

definition mount_arm :: "'k arm_stub5" where
  "mount_arm = SYSCALL_5_arm 165"

definition umount2_arm :: "'k arm_stub2" where
  "umount2_arm = SYSCALL_2_arm 166"

section \<open>The kernel table\<close>

text \<open>An entry is the null handler or one of the kernel functions, which are named as in the source.\<close>

datatype arm_handler = NullSysCallHandler | Kernel_function string

type_synonym arm_table = "arm_handler list"

definition ARM_SYSCALL_MAXNUM :: nat where
  "ARM_SYSCALL_MAXNUM = 256"

definition registerSyscall_arm :: "nat \<Rightarrow> arm_handler \<Rightarrow> arm_table \<Rightarrow> arm_table option" where
  "registerSyscall_arm num func tbl =
     (if num < length tbl then Some (tbl[num := func]) else None)"

definition unregisterSyscall_arm :: "nat \<Rightarrow> arm_table \<Rightarrow> arm_table option" where
  "unregisterSyscall_arm num tbl =
     (if num < length tbl then Some (tbl[num := NullSysCallHandler]) else None)"

definition arm_default_syscalls :: "(nat \<times> string) list" where
  "arm_default_syscalls =
    [(3, ''read''),
     (4, ''write''),
     (5, ''open''),
     (6, ''close''),
     (12, ''chdir''),
     (15, ''chmod''),
     (16, ''lchown''),
     (18, ''stat''),
     (19, ''lseek''),
     (28, ''fstat''),
     (54, ''ioctl''),
     (55, ''fcntl''),
     (92, ''truncate''),
     (93, ''ftruncate''),
     (94, ''fchmod''),
     (95, ''fchown''),
     (107, ''lstat''),
     (85, ''readlink''),
     (118, ''fsync''),
     (122, ''Uname''),
     (141, ''getdents''),
     (148, ''fdatasync''),
     (180, ''pread''),
     (181, ''pwrite''),
     (182, ''chown''),
     (183, ''getcwd'')]"

fun registerDefaultSyscalls_arm :: "(nat \<times> string) list \<Rightarrow> arm_table \<Rightarrow> arm_table option" where
  "registerDefaultSyscalls_arm [] tbl = Some tbl"
| "registerDefaultSyscalls_arm ((num, f) # rest) tbl =
     (case registerSyscall_arm num (Kernel_function f) tbl of None \<Rightarrow> None
      | Some tbl' \<Rightarrow> registerDefaultSyscalls_arm rest tbl')"

text \<open>\<open>init\<close> fills the whole array with the null handler before the default entries.\<close>

definition arm_init :: "arm_table option" where
  "arm_init = registerDefaultSyscalls_arm arm_default_syscalls
                (replicate ARM_SYSCALL_MAXNUM NullSysCallHandler)"

section \<open>The dispatcher\<close>

text \<open>A kernel function takes the six argument words, the memory and its state.\<close>

type_synonym 'k arm_kernel = "string \<Rightarrow> u32 list \<Rightarrow> mem \<times> 'k \<Rightarrow> (u32 \<times> mem \<times> 'k) option"

definition nullSysCallHandler :: "u32 list \<Rightarrow> mem \<times> 'k \<Rightarrow> (u32 \<times> mem \<times> 'k) option" where
  "nullSysCallHandler args s = Some (- word_of_int (errno_code EFAULT), s)"

text \<open>
  \<open>swiHandler\<close> saves \<open>r0\<close> to \<open>r12\<close>, indexes the table with \<open>r7\<close> (without a range check: outside the
  table the word it jumps to is arbitrary), calls the entry with \<open>r0\<close> to \<open>r3\<close> in registers and \<open>r4\<close>,
  \<open>r5\<close> on the stack, and then reloads \<open>r0\<close> to \<open>r12\<close>.
\<close>

definition swiHandler :: "'k arm_kernel \<Rightarrow> arm_table \<Rightarrow> (arm_regs, u32, 'k) trap" where
  "swiHandler K tbl r s =
     (let num = unat (r7 r); args = [r0 r, r1 r, r2 r, r3 r, r4 r, r5 r] in
      if length tbl \<le> num then None
      else case (case tbl ! num of NullSysCallHandler \<Rightarrow> nullSysCallHandler args s
                 | Kernel_function f \<Rightarrow> K f args s) of None \<Rightarrow> None
        | Some (result, m', k') \<Rightarrow> Some (r0 r, m', k'))"

section \<open>Properties\<close>

lemma registerDefaultSyscalls_arm_total:
  "\<forall>(num, f) \<in> set rs. num < length tbl \<Longrightarrow>
     registerDefaultSyscalls_arm rs tbl
       = Some (fold (\<lambda>(num, f) t. t[num := Kernel_function f]) rs tbl)"
  by (induction rs arbitrary: tbl) (auto simp: registerSyscall_arm_def)

lemma arm_init_total:
  "arm_init = Some (fold (\<lambda>(num, f) t. t[num := Kernel_function f]) arm_default_syscalls
                      (replicate ARM_SYSCALL_MAXNUM NullSysCallHandler))"
  unfolding arm_init_def
  by (rule registerDefaultSyscalls_arm_total)
    (simp add: arm_default_syscalls_def ARM_SYSCALL_MAXNUM_def)

lemma arm_init_entry:
  assumes "arm_init = Some tbl"
  shows "length tbl = 256" and "tbl ! 6 = Kernel_function ''close''"
    and "tbl ! 3 = Kernel_function ''read''" and "tbl ! 2 = NullSysCallHandler"
  using assms by (auto simp: arm_init_total arm_default_syscalls_def ARM_SYSCALL_MAXNUM_def)

text \<open>
  On ARM the result of a kernel function never reaches the program. After initialisation a call of
  \<open>close\<close> or \<open>read\<close> does run the kernel function of that name, with the stub's arguments, and keeps its
  effects on memory and on the kernel; but the stub sees as result its own first argument, whatever the
  function returned. \<open>fork\<close>, whose number has the null handler, reports no error either: it returns
  what \<open>r0\<close> held before the call.
\<close>
theorem arm_result_discarded:
  shows "\<exists>tbl. arm_init = Some tbl
   \<and> close_arm (swiHandler K tbl) r st fd
       = (case K ''close'' [fd, r1 r, r2 r, r3 r, r4 r, r5 r] (umem st, kern st) of None \<Rightarrow> None
          | Some (result, m', k') \<Rightarrow> RETURN (Some (fd, st\<lparr>umem := m', kern := k'\<rparr>)))
   \<and> read_arm (swiHandler K tbl) r st fd buf count
       = (case K ''read'' [fd, buf, count, r3 r, r4 r, r5 r] (umem st, kern st) of None \<Rightarrow> None
          | Some (result, m', k') \<Rightarrow> RETURN (Some (fd, st\<lparr>umem := m', kern := k'\<rparr>)))
   \<and> fork_arm (swiHandler K tbl) r st = RETURN (Some (r0 r, st))"
proof -
  obtain tbl where t: "arm_init = Some tbl" using arm_init_total by blast
  note e = arm_init_entry [OF t]
  have "close_arm (swiHandler K tbl) r st fd
       = (case K ''close'' [fd, r1 r, r2 r, r3 r, r4 r, r5 r] (umem st, kern st) of None \<Rightarrow> None
          | Some (result, m', k') \<Rightarrow> RETURN (Some (fd, st\<lparr>umem := m', kern := k'\<rparr>)))"
    by (simp add: close_arm_def SYSCALL_1_arm_def syscall_trap_def swiHandler_def e split: option.splits)
  moreover have "read_arm (swiHandler K tbl) r st fd buf count
       = (case K ''read'' [fd, buf, count, r3 r, r4 r, r5 r] (umem st, kern st) of None \<Rightarrow> None
          | Some (result, m', k') \<Rightarrow> RETURN (Some (fd, st\<lparr>umem := m', kern := k'\<rparr>)))"
    by (simp add: read_arm_def SYSCALL_3_arm_def syscall_trap_def swiHandler_def e split: option.splits)
  moreover have "fork_arm (swiHandler K tbl) r st = RETURN (Some (r0 r, st))"
    by (simp add: fork_arm_def SYSCALL_0_arm_def syscall_trap_def swiHandler_def nullSysCallHandler_def
        e del: errno_code.simps)
  ultimately show ?thesis using t by blast
qed

end
