(* ===== verification/Pipe.thy ===== *)
theory Pipe
  imports Libc_String
begin

text \<open>
  The kernel pipe: src/src/kernel/filesystem/pipe.cpp. A pipe is a ring buffer of \<open>PIPE_SIZE\<close> bytes with a
  read position, a write position and a byte count. Both operations copy at most two contiguous
  pieces with \<open>memcpy\<close>, the first up to the end of the ring and the second from its start.

  The fields and sizes are 32-bit unsigned integers, so sums and differences are taken modulo
  \<open>2 ^ 32\<close> (\<open>add32\<close>, \<open>sub32\<close>).

  The locale \<open>byte_channel\<close> is the contract of a byte stream between a writer and a reader: what is
  read is what was written, in order. The pipe is an interpretation of it.
\<close>

section \<open>Data and operations\<close>

definition PIPE_SIZE :: nat where
  "PIPE_SIZE = 8192"

record PipeDesc =
  rpos :: nat
  wpos :: nat
  count :: nat
  pbuf :: addr

text \<open>The descriptor of a new pipe over the block \<open>malloc\<close> returned.\<close>

definition newPipeDesc :: "addr \<Rightarrow> PipeDesc" where
  "newPipeDesc b = \<lparr>rpos = 0, wpos = 0, count = 0, pbuf = b\<rparr>"

definition Pipe_Read :: "mem \<Rightarrow> PipeDesc \<Rightarrow> addr \<Rightarrow> nat \<Rightarrow> (nat \<times> mem \<times> PipeDesc) option" where
  "Pipe_Read m pd buf sz =
     (if count pd = 0 then Some (0, m, pd)
      else do {
        (m1, pd1, buf1, sz1, readBytes) \<leftarrow>
          (if wpos pd \<le> rpos pd then
             let rs = (if PIPE_SIZE < add32 sz (rpos pd) then sub32 PIPE_SIZE (rpos pd) else sz) in
             case memcpy m buf (pbuf pd + rpos pd) rs of None \<Rightarrow> None
             | Some (_, m') \<Rightarrow>
                 Some (m', pd\<lparr>rpos := add32 (rpos pd) rs mod PIPE_SIZE\<rparr>, add32 buf rs, sub32 sz rs, rs)
           else Some (m, pd, buf, sz, 0));
        (m2, pd2, readBytes2) \<leftarrow>
          (if rpos pd1 < wpos pd1 then
             let rs = (if wpos pd1 < add32 sz1 (rpos pd1) then sub32 (wpos pd1) (rpos pd1) else sz1) in
             case memcpy m1 buf1 (pbuf pd1 + rpos pd1) rs of None \<Rightarrow> None
             | Some (_, m') \<Rightarrow>
                 Some (m', pd1\<lparr>rpos := add32 (rpos pd1) rs mod PIPE_SIZE\<rparr>, add32 readBytes rs)
           else Some (m1, pd1, readBytes));
        Some (readBytes2, m2, pd2\<lparr>count := sub32 (count pd2) readBytes2\<rparr>) })"

definition Pipe_write :: "mem \<Rightarrow> PipeDesc \<Rightarrow> addr \<Rightarrow> nat \<Rightarrow> (nat \<times> mem \<times> PipeDesc) option" where
  "Pipe_write m pd buf sz =
     (if count pd = PIPE_SIZE then Some (0, m, pd)
      else do {
        (m1, pd1, buf1, sz1, wBytes) \<leftarrow>
          (if rpos pd \<le> wpos pd then
             let ws = (if PIPE_SIZE < add32 sz (wpos pd) then sub32 PIPE_SIZE (wpos pd) else sz) in
             case memcpy m (pbuf pd + wpos pd) buf ws of None \<Rightarrow> None
             | Some (_, m') \<Rightarrow>
                 Some (m', pd\<lparr>wpos := add32 (wpos pd) ws mod PIPE_SIZE\<rparr>, add32 buf ws, sub32 sz ws, ws)
           else Some (m, pd, buf, sz, 0));
        (m2, pd2, wBytes2) \<leftarrow>
          (if wpos pd1 < rpos pd1 then
             let ws = (if rpos pd1 < add32 sz1 (wpos pd1) then sub32 (rpos pd1) (wpos pd1) else sz1) in
             case memcpy m1 (pbuf pd1 + wpos pd1) buf1 ws of None \<Rightarrow> None
             | Some (_, m') \<Rightarrow>
                 Some (m', pd1\<lparr>wpos := add32 (wpos pd1) ws mod PIPE_SIZE\<rparr>, add32 wBytes ws)
           else Some (m1, pd1, wBytes));
        Some (wBytes2, m2, pd2\<lparr>count := add32 (count pd2) wBytes2\<rparr>) })"

text \<open>The remaining entries of the operation table of a pipe, as their results.\<close>

datatype pipe_request =
    Umount | OpenFD | CloseFD | DupFD | Lookup | Readlink | GetDEnts | Stat | Size | Access | Name
  | Chmod | Chown | Link | Symlink | Rename | Mknod | Mkdir | Truncate | FSync | FDataSync | Unlink
  | Rmdir | Creat | StatFS | Utime | Fcntl | Ioctl | Mmap

fun pipe_other :: "pipe_request \<Rightarrow> int" where
  "pipe_other OpenFD = 0"
| "pipe_other CloseFD = 0"
| "pipe_other DupFD = 0"
| "pipe_other Ioctl = - errno_code EIOCTLNOTSUPPORTED"
| "pipe_other _ = - errno_code EINVAL"

definition S_IFIFO :: nat where
  "S_IFIFO = 4096"

definition Pipe_Type :: "int \<times> nat" where
  "Pipe_Type = (0, S_IFIFO)"

section \<open>The ring\<close>

text \<open>
  \<open>ring m b r n\<close> are the \<open>n\<close> bytes of the ring at \<open>b\<close> from position \<open>r\<close> on. \<open>pipe_ok\<close> is the invariant of
  a pipe, \<open>user_buffer\<close> the condition on the buffer of a request.
\<close>

definition ring :: "mem \<Rightarrow> addr \<Rightarrow> nat \<Rightarrow> nat \<Rightarrow> u8 list" where
  "ring m b r n = map (\<lambda>i. m ! (b + (r + i) mod PIPE_SIZE)) [0..<n]"

definition contents :: "mem \<Rightarrow> PipeDesc \<Rightarrow> u8 list" where
  "contents m pd = ring m (pbuf pd) (rpos pd) (count pd)"

definition pipe_ok :: "mem \<Rightarrow> PipeDesc \<Rightarrow> bool" where
  "pipe_ok m pd \<longleftrightarrow> length m < 2 ^ 32 \<and> region m (pbuf pd) PIPE_SIZE
     \<and> rpos pd < PIPE_SIZE \<and> wpos pd < PIPE_SIZE \<and> count pd \<le> PIPE_SIZE
     \<and> wpos pd = (rpos pd + count pd) mod PIPE_SIZE"

definition user_buffer :: "mem \<Rightarrow> PipeDesc \<Rightarrow> addr \<Rightarrow> nat \<Rightarrow> bool" where
  "user_buffer m pd buf sz \<longleftrightarrow> region m buf sz \<and> disjnt_blocks buf sz (pbuf pd) PIPE_SIZE
     \<and> sz + PIPE_SIZE < 2 ^ 32"

lemma PIPE_SIZE_pos [simp]: "0 < PIPE_SIZE"
  by (simp add: PIPE_SIZE_def)

lemma length_ring [simp]: "length (ring m b r n) = n"
  by (simp add: ring_def)

lemma ring_add: "ring m b r (k + n) = ring m b r k @ ring m b ((r + k) mod PIPE_SIZE) n"
  by (rule nth_equalityI) (auto simp: ring_def nth_append mod_simps add.assoc)

lemma ring_0 [simp]: "ring m b r 0 = []"
  by (simp add: ring_def)

lemma ring_contiguous:
  assumes "region m b PIPE_SIZE" and "r + k \<le> PIPE_SIZE"
  shows "ring m b r k = bytes_at m (b + r) k"
proof -
  have "region m (b + r) k" using assms by (auto simp: region_def)
  with assms show ?thesis
    by (intro nth_equalityI) (auto simp: ring_def nth_bytes_at add.assoc)
qed

lemma ring_blit_outside:
  assumes "region m b PIPE_SIZE" and "region m p (length xs)"
    and "disjnt_blocks p (length xs) b PIPE_SIZE"
  shows "ring (blit m p xs) b r n = ring m b r n"
proof -
  have "blit m p xs ! (b + j) = m ! (b + j)" if "j < PIPE_SIZE" for j
    using assms that by (subst nth_blit) (auto simp: region_def disjnt_blocks_def)
  then show ?thesis by (simp add: ring_def)
qed

text \<open>Writing a contiguous piece at the write position appends it to the contents.\<close>

lemma ring_append:
  assumes "region m b PIPE_SIZE" and w: "w = (r + n) mod PIPE_SIZE" and "r < PIPE_SIZE"
    and "w + length xs \<le> PIPE_SIZE" and "n + length xs \<le> PIPE_SIZE"
  shows "ring (blit m (b + w) xs) b r (n + length xs) = ring m b r n @ xs"
proof (rule nth_equalityI)
  fix i assume i: "i < length (ring (blit m (b + w) xs) b r (n + length xs))"
  have reg: "region m (b + w) (length xs)" using assms by (auto simp: region_def)
  let ?j = "(r + i) mod PIPE_SIZE"
  have j: "?j < PIPE_SIZE" by simp
  have "b + ?j < length m" using assms(1) j by (simp add: region_def del: mod_less_divisor)
  then have nth: "blit m (b + w) xs ! (b + ?j)
      = (if w \<le> ?j \<and> ?j < w + length xs then xs ! (?j - w) else m ! (b + ?j))"
    using reg by (subst nth_blit) auto
  have pos: "w \<le> ?j \<and> ?j < w + length xs \<longleftrightarrow> n \<le> i" and off: "n \<le> i \<Longrightarrow> ?j - w = i - n"
    using i assms by (auto simp: PIPE_SIZE_def mod_if split: if_splits)
  show "ring (blit m (b + w) xs) b r (n + length xs) ! i = (ring m b r n @ xs) ! i"
    using i nth pos off by (auto simp: ring_def nth_append)
qed simp

text \<open>The two copies of the source: out of the ring and into the ring.\<close>

lemma copy_from_ring:
  assumes "region m b PIPE_SIZE" and "region m buf sz" and "disjnt_blocks buf sz b PIPE_SIZE"
    and "r + k \<le> PIPE_SIZE" and "off + k \<le> sz"
  shows "memcpy m (buf + off) (b + r) k = Some (buf + off, blit m (buf + off) (ring m b r k))"
proof -
  have "region m (buf + off) k" "region m (b + r) k" using assms by (auto simp: region_def)
  moreover have "buf + off \<le> b + r \<or> b + r + k \<le> buf + off"
    using assms by (auto simp: disjnt_blocks_def)
  ultimately show ?thesis using assms by (simp add: memcpy_blit ring_contiguous)
qed

lemma copy_to_ring:
  assumes "region m b PIPE_SIZE" and "region m buf sz" and "disjnt_blocks buf sz b PIPE_SIZE"
    and "w + k \<le> PIPE_SIZE" and "off + k \<le> sz"
  shows "memcpy m (b + w) (buf + off) k = Some (b + w, blit m (b + w) (bytes_at m (buf + off) k))"
proof -
  have "region m (buf + off) k" "region m (b + w) k" using assms by (auto simp: region_def)
  moreover have "b + w \<le> buf + off \<or> buf + off + k \<le> b + w"
    using assms by (auto simp: disjnt_blocks_def)
  ultimately show ?thesis using assms by (simp add: memcpy_blit)
qed

lemma pipe_position_cases:
  assumes "pipe_ok m pd"
  obtains (straight) "rpos pd + count pd < PIPE_SIZE" "wpos pd = rpos pd + count pd"
  | (wrapped) "PIPE_SIZE \<le> rpos pd + count pd" "wpos pd = rpos pd + count pd - PIPE_SIZE"
      "wpos pd \<le> rpos pd"
proof (cases "rpos pd + count pd < PIPE_SIZE")
  case True
  with assms show ?thesis by (intro straight) (auto simp: pipe_ok_def)
next
  case False
  with assms have "wpos pd = rpos pd + count pd - PIPE_SIZE"
    by (auto simp: pipe_ok_def PIPE_SIZE_def mod_if split: if_splits)
  with False assms show ?thesis by (intro wrapped) (auto simp: pipe_ok_def)
qed

lemma pipe_arith:
  assumes "pipe_ok m pd" and "user_buffer m pd buf sz"
  shows "region m (pbuf pd) PIPE_SIZE" and "region m buf sz"
    and "disjnt_blocks buf sz (pbuf pd) PIPE_SIZE"
    and "k \<le> sz \<Longrightarrow> add32 buf k = buf + k" and "k \<le> sz \<Longrightarrow> sub32 sz k = sz - k"
    and "j \<le> sz \<Longrightarrow> k \<le> PIPE_SIZE \<Longrightarrow> add32 j k = j + k"
    and "i \<le> PIPE_SIZE \<Longrightarrow> k \<le> PIPE_SIZE \<Longrightarrow> add32 i k = i + k"
    and "i \<le> PIPE_SIZE \<Longrightarrow> k \<le> i \<Longrightarrow> sub32 i k = i - k"
  using assms
  by (auto simp: pipe_ok_def user_buffer_def PIPE_SIZE_def region_def intro!: add32_small sub32_small)

lemma Pipe_Read_straight:
  assumes "pipe_ok m pd" and "user_buffer m pd buf sz"
    and "rpos pd + count pd < PIPE_SIZE" and "wpos pd = rpos pd + count pd" and "0 < count pd"
    and n: "n = min sz (count pd)"
  shows "Pipe_Read m pd buf sz = Some (n, blit m buf (ring m (pbuf pd) (rpos pd) n),
           pd\<lparr>rpos := (rpos pd + n) mod PIPE_SIZE, count := count pd - n\<rparr>)"
proof -
  note a = pipe_arith [OF assms(1,2)]
  have c: "memcpy m buf (pbuf pd + rpos pd) n
      = Some (buf, blit m buf (ring m (pbuf pd) (rpos pd) n))"
    using copy_from_ring [OF a(1-3), of "rpos pd" n 0] assms by simp
  have "(if wpos pd < add32 sz (rpos pd) then sub32 (wpos pd) (rpos pd) else sz) = n"
    using assms by (simp add: a min_def)
  moreover have "add32 (rpos pd) n = rpos pd + n" "add32 0 n = n" "sub32 (count pd) n = count pd - n"
    using assms by (simp_all add: a)
  ultimately show ?thesis using c assms(3-5) by (simp add: Pipe_Read_def Let_def)
qed

lemma Pipe_Read_wrapped:
  assumes "pipe_ok m pd" and "user_buffer m pd buf sz"
    and "PIPE_SIZE \<le> rpos pd + count pd" and "wpos pd = rpos pd + count pd - PIPE_SIZE"
    and "wpos pd \<le> rpos pd" and n: "n = min sz (count pd)"
  shows "Pipe_Read m pd buf sz = Some (n, blit m buf (ring m (pbuf pd) (rpos pd) n),
           pd\<lparr>rpos := (rpos pd + n) mod PIPE_SIZE, count := count pd - n\<rparr>)"
proof -
  note a = pipe_arith [OF assms(1,2)]
  from assms(1) have r: "rpos pd < PIPE_SIZE" "count pd \<le> PIPE_SIZE" by (simp_all add: pipe_ok_def)
  with assms have cnt: "0 < count pd" by simp
  define k where "k = min sz (PIPE_SIZE - rpos pd)"
  have k: "k \<le> sz" "rpos pd + k \<le> PIPE_SIZE" using r by (auto simp: k_def)
  have c: "memcpy m buf (pbuf pd + rpos pd) k
      = Some (buf, blit m buf (ring m (pbuf pd) (rpos pd) k))" (is "_ = Some (_, ?m1)")
    using copy_from_ring [OF a(1-3) k(2), of 0] k by simp
  have rs: "(if PIPE_SIZE < add32 sz (rpos pd) then sub32 PIPE_SIZE (rpos pd) else sz) = k"
    using r by (auto simp: a k_def min_def)
  show ?thesis
  proof (cases "sz + rpos pd < PIPE_SIZE")
    case True
    then have "k = sz" "n = sz" using assms n by (auto simp: k_def)
    with True c rs cnt r assms(3-5) show ?thesis by (simp add: Pipe_Read_def Let_def a)
  next
    case False
    then have k': "k = PIPE_SIZE - rpos pd" "rpos pd + k = PIPE_SIZE" using r by (auto simp: k_def)
    have first: "add32 (rpos pd) k mod PIPE_SIZE = 0" "sub32 sz k = sz - k" "add32 buf k = buf + k"
      using r k k' by (simp_all add: a)
    define l where "l = min (sz - k) (wpos pd)"
    have w: "wpos pd < PIPE_SIZE" using assms(1) by (simp add: pipe_ok_def)
    have nl: "n = k + l" using assms(3,4) k' False r n by (auto simp: l_def min_def)
    have l: "l \<le> wpos pd" "k + l \<le> sz" "n \<le> count pd" using n k by (auto simp: l_def)
    have u: "region m buf (length (ring m (pbuf pd) (rpos pd) k))"
      using a(2) k by (auto simp: region_def)
    have m1: "region ?m1 (pbuf pd) PIPE_SIZE" "region ?m1 buf sz"
      using u a(1,2) by simp_all
    have same: "ring ?m1 (pbuf pd) 0 l = ring m (pbuf pd) 0 l"
      using a(1,3) u k by (intro ring_blit_outside) (auto simp: disjnt_blocks_def)
    have c2: "memcpy ?m1 (buf + k) (pbuf pd) l
        = Some (buf + k, blit ?m1 (buf + k) (ring m (pbuf pd) 0 l))"
      using copy_from_ring [OF m1 a(3), of 0 l k] w l same by simp
    have mm: "blit ?m1 (buf + k) (ring m (pbuf pd) 0 l) = blit m buf (ring m (pbuf pd) (rpos pd) n)"
    proof -
      have "region m buf (k + l)" using a(2) l(2) by (auto simp: region_def)
      then show ?thesis
        using blit_blit_append [of m buf "ring m (pbuf pd) (rpos pd) k" "ring m (pbuf pd) 0 l"]
        by (simp add: nl ring_add k'(2))
    qed
    have rs2: "(if wpos pd < add32 (sz - k) 0 then sub32 (wpos pd) 0 else sz - k) = l"
      using w by (auto simp: a add32_small min_def l_def)
    have ll: "l < PIPE_SIZE" "k \<le> PIPE_SIZE" using l(1) w k'(2) by simp_all
    have fin: "sub32 (count pd) n = count pd - n" "add32 k l = n" "add32 0 l mod PIPE_SIZE = l"
      using l(3) r ll nl by (simp_all add: a)
    have fin': "(rpos pd + n) mod PIPE_SIZE = l"
      using ll(1) k'(2) by (simp add: nl add.assoc [symmetric])
    show ?thesis
    proof (cases "0 < wpos pd")
      case True
      with c rs cnt first c2 mm rs2 fin fin' r assms(5) show ?thesis
        by (cases "wpos pd < add32 (sz - k) 0") (simp_all add: Pipe_Read_def Let_def)
    next
      case False
      with nl mm l have "n = k" "blit ?m1 (buf + k) [] = blit m buf (ring m (pbuf pd) (rpos pd) n)"
        by simp_all
      with False c rs cnt first fin fin' l assms(5) show ?thesis by (simp add: Pipe_Read_def Let_def)
    qed
  qed
qed

lemma bytes_at_add:
  "region m p (k + l) \<Longrightarrow> bytes_at m p (k + l) = bytes_at m p k @ bytes_at m (p + k) l"
  by (simp add: bytes_at_def take_add add.commute)

text \<open>
  \<open>appended m b r c xs m'\<close>: \<open>m'\<close> is \<open>m\<close> with \<open>xs\<close> after the \<open>c\<close> bytes of the ring and nothing else
  changed outside the ring.
\<close>

definition appended :: "mem \<Rightarrow> addr \<Rightarrow> nat \<Rightarrow> nat \<Rightarrow> u8 list \<Rightarrow> mem \<Rightarrow> bool" where
  "appended m b r c xs m' \<longleftrightarrow> ring m' b r (c + length xs) = ring m b r c @ xs
     \<and> length m' = length m
     \<and> (\<forall>p k. region m p k \<longrightarrow> disjnt_blocks p k b PIPE_SIZE \<longrightarrow> bytes_at m' p k = bytes_at m p k)"

lemma appended_blit:
  assumes "region m b PIPE_SIZE" and "w = (r + c) mod PIPE_SIZE" and "r < PIPE_SIZE"
    and "w + length xs \<le> PIPE_SIZE" and "c + length xs \<le> PIPE_SIZE"
  shows "appended m b r c xs (blit m (b + w) xs)"
proof -
  have reg: "region m (b + w) (length xs)" using assms by (auto simp: region_def)
  have "bytes_at (blit m (b + w) xs) p k = bytes_at m p k"
    if "region m p k" "disjnt_blocks p k b PIPE_SIZE" for p k
    using that reg assms(4) by (intro bytes_at_blit_other) (auto simp: disjnt_blocks_def)
  with ring_append [OF assms] reg show ?thesis by (simp add: appended_def)
qed

lemma appended_trans:
  assumes "appended m b r c xs m1" and "appended m1 b r (c + length xs) ys m2"
  shows "appended m b r c (xs @ ys) m2"
  using assms by (simp add: appended_def region_def add.assoc)

lemma Pipe_write_wrapped:
  assumes "pipe_ok m pd" and "user_buffer m pd buf sz" and "count pd < PIPE_SIZE"
    and "PIPE_SIZE \<le> rpos pd + count pd" and "wpos pd = rpos pd + count pd - PIPE_SIZE"
    and n: "n = min sz (PIPE_SIZE - count pd)"
  shows "\<exists>m'. Pipe_write m pd buf sz = Some (n, m',
           pd\<lparr>wpos := (wpos pd + n) mod PIPE_SIZE, count := count pd + n\<rparr>)
         \<and> appended m (pbuf pd) (rpos pd) (count pd) (bytes_at m buf n) m'"
proof -
  note a = pipe_arith [OF assms(1,2)]
  from assms(1) have r: "rpos pd < PIPE_SIZE" "wpos pd < PIPE_SIZE"
    "wpos pd = (rpos pd + count pd) mod PIPE_SIZE" by (simp_all add: pipe_ok_def)
  with assms(3-5) have lt: "wpos pd < rpos pd" by simp
  with assms(5) r have nn: "n \<le> sz" "wpos pd + n \<le> PIPE_SIZE" "count pd + n \<le> PIPE_SIZE"
    using n assms(3,4) by auto
  have c: "memcpy m (pbuf pd + wpos pd) buf n
      = Some (pbuf pd + wpos pd, blit m (pbuf pd + wpos pd) (bytes_at m buf n))"
    using copy_to_ring [OF a(1-3) nn(2), of 0] nn(1) by simp
  have l: "length (bytes_at m buf n) = n" using a(2) nn(1) by (simp add: region_mono)
  have rs: "(if rpos pd < add32 sz (wpos pd) then sub32 (rpos pd) (wpos pd) else sz) = n"
    using r assms(3-5) n by (auto simp: a min_def)
  have "add32 (wpos pd) n = wpos pd + n" "add32 0 n = n" "add32 (count pd) n = count pd + n"
    using nn r assms(3) by (simp_all add: a)
  with c rs lt assms(3) have
    "Pipe_write m pd buf sz = Some (n, blit m (pbuf pd + wpos pd) (bytes_at m buf n),
       pd\<lparr>wpos := (wpos pd + n) mod PIPE_SIZE, count := count pd + n\<rparr>)"
    by (cases "rpos pd < add32 sz (wpos pd)") (simp_all add: Pipe_write_def Let_def)
  moreover have "appended m (pbuf pd) (rpos pd) (count pd) (bytes_at m buf n)
      (blit m (pbuf pd + wpos pd) (bytes_at m buf n))"
    using a(1) r nn l by (intro appended_blit) auto
  ultimately show ?thesis by blast
qed

lemma Pipe_write_straight:
  assumes "pipe_ok m pd" and "user_buffer m pd buf sz" and cnt: "count pd < PIPE_SIZE"
    and "rpos pd + count pd < PIPE_SIZE" and "wpos pd = rpos pd + count pd"
    and n: "n = min sz (PIPE_SIZE - count pd)"
  shows "\<exists>m'. Pipe_write m pd buf sz = Some (n, m',
           pd\<lparr>wpos := (wpos pd + n) mod PIPE_SIZE, count := count pd + n\<rparr>)
         \<and> appended m (pbuf pd) (rpos pd) (count pd) (bytes_at m buf n) m'"
proof -
  note a = pipe_arith [OF assms(1,2)]
  from assms(1) have r: "rpos pd < PIPE_SIZE" "wpos pd < PIPE_SIZE"
    "wpos pd = (rpos pd + count pd) mod PIPE_SIZE" by (simp_all add: pipe_ok_def)
  have ne: "count pd \<noteq> PIPE_SIZE" "rpos pd \<le> wpos pd" using assms(3,5) by simp_all
  define k where "k = min sz (PIPE_SIZE - wpos pd)"
  have k: "k \<le> sz" "wpos pd + k \<le> PIPE_SIZE" "count pd + k \<le> PIPE_SIZE"
    using assms(4,5) by (auto simp: k_def min_def)
  let ?m1 = "blit m (pbuf pd + wpos pd) (bytes_at m buf k)"
  have c: "memcpy m (pbuf pd + wpos pd) buf k = Some (pbuf pd + wpos pd, ?m1)"
    using copy_to_ring [OF a(1-3) k(2), of 0] k(1) by simp
  have lk: "length (bytes_at m buf k) = k" using a(2) k(1) by (simp add: region_mono)
  have app: "appended m (pbuf pd) (rpos pd) (count pd) (bytes_at m buf k) ?m1"
    using a(1) r k lk by (intro appended_blit) auto
  have rs: "(if PIPE_SIZE < add32 sz (wpos pd) then sub32 PIPE_SIZE (wpos pd) else sz) = k"
    using r by (auto simp: a k_def min_def)
  show ?thesis
  proof (cases "sz + wpos pd < PIPE_SIZE")
    case True
    then have "k = sz" "n = sz" using assms n by (auto simp: k_def)
    with True c rs cnt r assms(4,5) app show ?thesis
      by (intro exI [of _ ?m1]) (simp add: Pipe_write_def Let_def a)
  next
    case False
    then have k': "wpos pd + k = PIPE_SIZE" using r by (auto simp: k_def)
    have first: "add32 (wpos pd) k mod PIPE_SIZE = 0" "sub32 sz k = sz - k" "add32 buf k = buf + k"
      using r k k' by (simp_all add: a)
    define l where "l = min (sz - k) (rpos pd)"
    have nl: "n = k + l" using assms(4,5) k' False r n by (auto simp: l_def min_def)
    have l: "l \<le> rpos pd" "k + l \<le> sz" "count pd + k + l \<le> PIPE_SIZE"
      using n nl k cnt by (auto simp: l_def)
    have ll: "l < PIPE_SIZE" "k \<le> PIPE_SIZE" using l(1) r k'(1) by simp_all
    have reg: "region m (pbuf pd + wpos pd) (length (bytes_at m buf k))"
      using a(1) k lk by (auto simp: region_def)
    have m1: "region ?m1 (pbuf pd) PIPE_SIZE" "region ?m1 buf sz" using reg a(1,2) by simp_all
    have rl: "region m (buf + k) l" "region m buf (k + l)" using a(2) l(2) by (auto simp: region_def)
    have dl: "disjnt_blocks (buf + k) l (pbuf pd) PIPE_SIZE"
      using a(3) l(2) by (auto simp: disjnt_blocks_def)
    have same: "bytes_at ?m1 (buf + k) l = bytes_at m (buf + k) l"
      using app rl(1) dl by (simp add: appended_def)
    let ?m2 = "blit ?m1 (pbuf pd) (bytes_at m (buf + k) l)"
    have c2: "memcpy ?m1 (pbuf pd) (buf + k) l = Some (pbuf pd, ?m2)"
      using copy_to_ring [OF m1 a(3), of 0 l k] ll l same by simp
    have w0: "(rpos pd + (count pd + k)) mod PIPE_SIZE = 0"
      using k' assms(5) by (simp add: add.assoc [symmetric])
    have "appended ?m1 (pbuf pd) (rpos pd) (count pd + k) (bytes_at m (buf + k) l) ?m2"
      using appended_blit [OF m1(1) w0 [symmetric] r(1), of "bytes_at m (buf + k) l"] rl(1) ll l
      by simp
    with app have app2: "appended m (pbuf pd) (rpos pd) (count pd) (bytes_at m buf n) ?m2"
      using appended_trans [of m "pbuf pd" "rpos pd" "count pd" "bytes_at m buf k" ?m1] rl lk nl
      by (simp add: bytes_at_add)
    have rs2: "(if rpos pd < add32 (sz - k) 0 then sub32 (rpos pd) 0 else sz - k) = l"
      using r by (auto simp: a add32_small min_def l_def)
    have fin: "add32 (count pd) n = count pd + n" "add32 k l = n" "add32 0 l mod PIPE_SIZE = l"
      using l(3) ll nl cnt by (simp_all add: a)
    have fin': "(wpos pd + n) mod PIPE_SIZE = l"
      using ll(1) k'(1) by (simp add: nl add.assoc [symmetric])
    show ?thesis
    proof (cases "0 < rpos pd")
      case True
      with c rs ne first c2 rs2 fin fin' have
        "Pipe_write m pd buf sz = Some (n, ?m2,
           pd\<lparr>wpos := (wpos pd + n) mod PIPE_SIZE, count := count pd + n\<rparr>)"
        by (cases "rpos pd < add32 (sz - k) 0") (simp_all add: Pipe_write_def Let_def)
      with app2 show ?thesis by blast
    next
      case False
      with nl l have "n = k" "l = 0" by simp_all
      with False c rs ne first fin fin' app show ?thesis
        by (intro exI [of _ ?m1]) (simp add: Pipe_write_def Let_def)
    qed
  qed
qed

section \<open>The contract of a byte channel\<close>

text \<open>
  A history of a channel: the writer's and the reader's requests and the stores of the processes into
  their own buffers, in any interleaving, with the bytes accepted so far and the bytes delivered so far.
\<close>

type_synonym 'p channel_op = "mem \<Rightarrow> 'p \<Rightarrow> addr \<Rightarrow> nat \<Rightarrow> (nat \<times> mem \<times> 'p) option"

inductive channel_history ::
  "'p channel_op \<Rightarrow> 'p channel_op \<Rightarrow> (mem \<Rightarrow> 'p \<Rightarrow> addr \<Rightarrow> nat \<Rightarrow> bool) \<Rightarrow> mem \<Rightarrow> 'p
     \<Rightarrow> u8 list \<Rightarrow> u8 list \<Rightarrow> mem \<Rightarrow> 'p \<Rightarrow> bool"
  for put get buffer m0 p0 where
  start: "channel_history put get buffer m0 p0 [] [] m0 p0"
| put_step: "channel_history put get buffer m0 p0 ws rs m p \<Longrightarrow> buffer m p a n \<Longrightarrow>
    put m p a n = Some (k, m', p') \<Longrightarrow>
    channel_history put get buffer m0 p0 (ws @ take k (bytes_at m a n)) rs m' p'"
| get_step: "channel_history put get buffer m0 p0 ws rs m p \<Longrightarrow> buffer m p a n \<Longrightarrow>
    get m p a n = Some (k, m', p') \<Longrightarrow>
    channel_history put get buffer m0 p0 ws (rs @ bytes_at m' a k) m' p'"
| user_step: "channel_history put get buffer m0 p0 ws rs m p \<Longrightarrow> buffer m p a (length bs) \<Longrightarrow>
    channel_history put get buffer m0 p0 ws rs (blit m a bs) p"

locale byte_channel =
  fixes ok :: "mem \<Rightarrow> 'p \<Rightarrow> bool"
    and buffer :: "mem \<Rightarrow> 'p \<Rightarrow> addr \<Rightarrow> nat \<Rightarrow> bool"
    and queue :: "mem \<Rightarrow> 'p \<Rightarrow> u8 list"
    and put :: "'p channel_op"
    and get :: "'p channel_op"
    and capacity :: nat
  assumes put_appends: "ok m p \<Longrightarrow> buffer m p a n \<Longrightarrow>
      \<exists>m' p'. put m p a n = Some (min n (capacity - length (queue m p)), m', p') \<and> ok m' p'
        \<and> queue m' p' = queue m p @ take (capacity - length (queue m p)) (bytes_at m a n)"
    and get_removes: "ok m p \<Longrightarrow> buffer m p a n \<Longrightarrow>
      \<exists>m' p'. get m p a n = Some (min n (length (queue m p)), m', p') \<and> ok m' p'
        \<and> queue m' p' = drop n (queue m p)
        \<and> bytes_at m' a (min n (length (queue m p))) = take n (queue m p)"
    and user_store: "ok m p \<Longrightarrow> buffer m p a (length bs) \<Longrightarrow>
      ok (blit m a bs) p \<and> queue (blit m a bs) p = queue m p"
    and bounded: "ok m p \<Longrightarrow> length (queue m p) \<le> capacity"
    and buffer_length: "buffer m p a n \<Longrightarrow> length (bytes_at m a n) = n"
begin

lemma history_in_order:
  assumes "channel_history put get buffer m0 p0 ws rs m p" and "ok m0 p0" and "queue m0 p0 = []"
  shows "ok m p \<and> ws = rs @ queue m p"
  using assms
proof (induction rule: channel_history.induct)
  case (put_step ws rs m p a n k m' p')
  then have ok: "ok m p" and ws: "ws = rs @ queue m p" by simp_all
  from put_appends [OF ok put_step.hyps(2)] put_step.hyps(3) buffer_length [OF put_step.hyps(2)]
  show ?case by (auto simp: ws min_def)
next
  case (get_step ws rs m p a n k m' p')
  then have ok: "ok m p" and ws: "ws = rs @ queue m p" by simp_all
  from get_removes [OF ok get_step.hyps(2)] get_step.hyps(3)
  show ?case by (auto simp: ws)
next
  case (user_step ws rs m p a bs)
  then show ?case using user_store by auto
qed simp

lemma history_bounds:
  assumes "channel_history put get buffer m0 p0 ws rs m p" and "ok m0 p0" and "queue m0 p0 = []"
  shows "length rs \<le> length ws \<and> length ws \<le> length rs + capacity"
  using history_in_order [OF assms] bounded by auto

text \<open>A waiting byte is delivered by the next request, and free room is filled by the next one.\<close>

lemma reader_progress:
  assumes "ok m p" and "buffer m p a n" and "0 < n" and "queue m p \<noteq> []"
  shows "\<exists>k m' p'. get m p a n = Some (k, m', p') \<and> 0 < k"
  using get_removes [OF assms(1,2)] assms(3,4) by auto

lemma writer_progress:
  assumes "ok m p" and "buffer m p a n" and "0 < n" and "length (queue m p) < capacity"
  shows "\<exists>k m' p'. put m p a n = Some (k, m', p') \<and> 0 < k"
  using put_appends [OF assms(1,2)] assms(3,4) by auto

end

section \<open>The pipe keeps the contract\<close>

lemma Pipe_Read_result:
  assumes ok: "pipe_ok m pd" and u: "user_buffer m pd buf sz" and n: "n = min sz (count pd)"
  shows "Pipe_Read m pd buf sz = Some (n, blit m buf (ring m (pbuf pd) (rpos pd) n),
           pd\<lparr>rpos := (rpos pd + n) mod PIPE_SIZE, count := count pd - n\<rparr>)"
proof (cases "count pd = 0")
  case True
  moreover from u have "buf \<le> length m" by (simp add: user_buffer_def region_def)
  moreover from ok have "rpos pd < PIPE_SIZE" by (simp add: pipe_ok_def)
  ultimately show ?thesis by (cases pd) (simp add: Pipe_Read_def n)
next
  case False
  then have c: "0 < count pd" by simp
  from ok show ?thesis
  proof (cases rule: pipe_position_cases)
    case straight
    then show ?thesis using Pipe_Read_straight [OF ok u _ _ c n] by blast
  next
    case wrapped
    then show ?thesis using Pipe_Read_wrapped [OF ok u _ _ _ n] by blast
  qed
qed

lemma Pipe_write_result:
  assumes ok: "pipe_ok m pd" and u: "user_buffer m pd buf sz"
    and n: "n = min sz (PIPE_SIZE - count pd)"
  shows "\<exists>m'. Pipe_write m pd buf sz = Some (n, m',
           pd\<lparr>wpos := (wpos pd + n) mod PIPE_SIZE, count := count pd + n\<rparr>)
         \<and> appended m (pbuf pd) (rpos pd) (count pd) (bytes_at m buf n) m'"
proof (cases "count pd = PIPE_SIZE")
  case True
  moreover from ok have "wpos pd < PIPE_SIZE" by (simp add: pipe_ok_def)
  ultimately show ?thesis by (cases pd) (simp add: Pipe_write_def appended_def n)
next
  case False
  with ok have c: "count pd < PIPE_SIZE" by (simp add: pipe_ok_def)
  from ok show ?thesis
  proof (cases rule: pipe_position_cases)
    case straight
    then show ?thesis using Pipe_write_straight [OF ok u c _ _ n] by blast
  next
    case wrapped
    then show ?thesis using Pipe_write_wrapped [OF ok u c _ _ n] by blast
  qed
qed

lemma contents_length [simp]: "length (contents m pd) = count pd"
  by (simp add: contents_def)

lemma take_contents:
  "n \<le> count pd \<Longrightarrow> take n (contents m pd) = ring m (pbuf pd) (rpos pd) n"
  using ring_add [of m "pbuf pd" "rpos pd" n "count pd - n"] by (simp add: contents_def)

lemma drop_contents:
  "n \<le> count pd \<Longrightarrow> drop n (contents m pd)
     = ring m (pbuf pd) ((rpos pd + n) mod PIPE_SIZE) (count pd - n)"
  using ring_add [of m "pbuf pd" "rpos pd" n "count pd - n"] by (simp add: contents_def)

lemma user_buffer_prefix:
  "user_buffer m pd buf sz \<Longrightarrow> n \<le> sz \<Longrightarrow>
     region m buf n \<and> disjnt_blocks buf n (pbuf pd) PIPE_SIZE"
  by (auto simp: user_buffer_def region_def disjnt_blocks_def)

lemma pipe_user_store:
  assumes "pipe_ok m pd" and "region m a (length bs)"
    and "disjnt_blocks a (length bs) (pbuf pd) PIPE_SIZE"
  shows "pipe_ok (blit m a bs) pd" and "ring (blit m a bs) (pbuf pd) r n = ring m (pbuf pd) r n"
  using assms by (auto simp: pipe_ok_def intro: ring_blit_outside)

lemma Pipe_Read_removes:
  assumes ok: "pipe_ok m pd" and u: "user_buffer m pd buf sz"
  shows "\<exists>m' pd'. Pipe_Read m pd buf sz = Some (min sz (count pd), m', pd') \<and> pipe_ok m' pd'
    \<and> contents m' pd' = drop sz (contents m pd)
    \<and> bytes_at m' buf (min sz (count pd)) = take sz (contents m pd)"
proof -
  define n where "n = min sz (count pd)"
  let ?xs = "ring m (pbuf pd) (rpos pd) n"
  let ?pd = "pd\<lparr>rpos := (rpos pd + n) mod PIPE_SIZE, count := count pd - n\<rparr>"
  have n: "n \<le> count pd" "n \<le> sz" by (simp_all add: n_def)
  have e: "take sz (contents m pd) = take n (contents m pd)"
    "drop sz (contents m pd) = drop n (contents m pd)"
    by (auto simp: n_def min_def)
  note r = user_buffer_prefix [OF u n(2)]
  then have st: "pipe_ok (blit m buf ?xs) pd"
      "ring (blit m buf ?xs) (pbuf pd) q k = ring m (pbuf pd) q k" for q k
    using pipe_user_store [OF ok, of buf ?xs] by simp_all
  have "(rpos pd + count pd) mod PIPE_SIZE
      = ((rpos pd + n) mod PIPE_SIZE + (count pd - n)) mod PIPE_SIZE"
    using n(1) by (simp only: mod_add_left_eq) simp
  then have "pipe_ok (blit m buf ?xs) ?pd" using st(1) n(1) by (auto simp: pipe_ok_def)
  moreover have "contents (blit m buf ?xs) ?pd = drop sz (contents m pd)"
    using n(1) st(2) by (simp add: e(2) drop_contents) (simp add: contents_def)
  moreover have "bytes_at (blit m buf ?xs) buf n = take sz (contents m pd)"
    using r n bytes_at_blit_same [of m buf ?xs] by (simp add: e(1) take_contents)
  ultimately show ?thesis
    using Pipe_Read_result [OF ok u n_def] by (simp add: n_def [symmetric])
qed

lemma Pipe_write_appends:
  assumes ok: "pipe_ok m pd" and u: "user_buffer m pd buf sz"
  shows "\<exists>m' pd'. Pipe_write m pd buf sz = Some (min sz (PIPE_SIZE - count pd), m', pd')
    \<and> pipe_ok m' pd'
    \<and> contents m' pd' = contents m pd @ take (PIPE_SIZE - count pd) (bytes_at m buf sz)"
proof -
  define n where "n = min sz (PIPE_SIZE - count pd)"
  have l: "length (bytes_at m buf sz) = sz" using u by (simp add: user_buffer_def)
  have bn: "bytes_at m buf n = take (PIPE_SIZE - count pd) (bytes_at m buf sz)"
    by (simp add: bytes_at_def n_def min.commute)
  have ln: "length (bytes_at m buf n) = n" unfolding bn using l by (simp add: n_def min.commute)
  from Pipe_write_result [OF ok u n_def] obtain m' where w: "Pipe_write m pd buf sz = Some (n, m',
           pd\<lparr>wpos := (wpos pd + n) mod PIPE_SIZE, count := count pd + n\<rparr>)"
    and a: "appended m (pbuf pd) (rpos pd) (count pd) (bytes_at m buf n) m'" by blast
  have "count pd + n \<le> PIPE_SIZE" using ok by (auto simp: n_def pipe_ok_def)
  moreover have "((rpos pd + count pd) mod PIPE_SIZE + n) mod PIPE_SIZE
      = (rpos pd + (count pd + n)) mod PIPE_SIZE" by (simp add: mod_simps add.assoc)
  ultimately have "pipe_ok m' (pd\<lparr>wpos := (wpos pd + n) mod PIPE_SIZE, count := count pd + n\<rparr>)"
    using ok a by (auto simp: pipe_ok_def appended_def region_def)
  moreover have "contents m' (pd\<lparr>wpos := (wpos pd + n) mod PIPE_SIZE, count := count pd + n\<rparr>)
      = contents m pd @ bytes_at m buf n"
    using a ln by (simp add: contents_def appended_def)
  ultimately show ?thesis using w by (simp add: n_def [symmetric] bn)
qed

interpretation pipe: byte_channel pipe_ok user_buffer contents Pipe_write Pipe_Read PIPE_SIZE
proof
  fix m pd a n and bs :: "u8 list"
  assume ok: "pipe_ok m pd"
  then show "length (contents m pd) \<le> PIPE_SIZE" by (simp add: pipe_ok_def)
  { assume u: "user_buffer m pd a n"
    show "\<exists>m' p'. Pipe_write m pd a n = Some (min n (PIPE_SIZE - length (contents m pd)), m', p')
        \<and> pipe_ok m' p' \<and> contents m' p'
          = contents m pd @ take (PIPE_SIZE - length (contents m pd)) (bytes_at m a n)"
      using Pipe_write_appends [OF ok u] by simp
    show "\<exists>m' p'. Pipe_Read m pd a n = Some (min n (length (contents m pd)), m', p')
        \<and> pipe_ok m' p' \<and> contents m' p' = drop n (contents m pd)
        \<and> bytes_at m' a (min n (length (contents m pd))) = take n (contents m pd)"
      using Pipe_Read_removes [OF ok u] by simp }
  assume "user_buffer m pd a (length bs)"
  then show "pipe_ok (blit m a bs) pd \<and> contents (blit m a bs) pd = contents m pd"
    using pipe_user_store [OF ok, of a bs] by (simp add: user_buffer_def contents_def)
next
  fix m pd a n
  assume "user_buffer m pd a n"
  then show "length (bytes_at m a n) = n" by (simp add: user_buffer_def)
qed

lemma memcpy_loop_in_bounds:
  "memcpy_loop m d s n i = Some m' \<Longrightarrow> i < n \<Longrightarrow> d + n \<le> length m"
proof (induction m d s n i rule: memcpy_loop.induct)
  case (1 m d s n i)
  from 1(2,3) obtain b m1 where l: "load m (s + i) = Some b" "store m (d + i) b = Some m1"
    and r: "memcpy_loop m1 d s n (Suc i) = Some m'"
    by (subst (asm) memcpy_loop.simps) (auto split: option.splits)
  show ?case
  proof (cases "Suc i < n")
    case True
    with 1(1) [OF 1(3) l r] l show ?thesis by (auto dest: store_SomeD)
  next
    case False
    with 1(3) l show ?thesis by (auto dest: store_SomeD)
  qed
qed

section \<open>Properties\<close>

text \<open>A small memory with a pipe at 100 and a buffer at 8500, for the examples.\<close>

lemma example_pipe:
  "pipe_ok (replicate 9000 7) (newPipeDesc 100)"
  "user_buffer (replicate 9000 7) (newPipeDesc 100) 8500 20"
  "bytes_at (replicate 9000 7) 8500 20 = replicate 20 7"
  by (simp_all add: pipe_ok_def user_buffer_def newPipeDesc_def region_def PIPE_SIZE_def
      disjnt_blocks_def bytes_at_def)

text \<open>
  C1: A pipe is a bounded queue of bytes. A write accepts as many bytes as fit, returns their number and
  appends exactly those, in order; a read delivers as many bytes as there are, up to the size asked
  for, at the start of the buffer, and removes exactly those. Both keep the invariant of the ring, for
  every position of its two ends. The buffer must lie outside the ring and its size below
  \<open>2 ^ 32 - PIPE_SIZE\<close>.
\<close>
theorem pipe_refines_bounded_queue:
  assumes "pipe_ok m pd" and "user_buffer m pd buf sz"
  shows "(\<exists>m' pd'. Pipe_write m pd buf sz = Some (min sz (PIPE_SIZE - count pd), m', pd')
      \<and> pipe_ok m' pd'
      \<and> contents m' pd' = contents m pd @ take (PIPE_SIZE - count pd) (bytes_at m buf sz))
    \<and> (\<exists>m' pd'. Pipe_Read m pd buf sz = Some (min sz (count pd), m', pd')
      \<and> pipe_ok m' pd' \<and> contents m' pd' = drop sz (contents m pd)
      \<and> bytes_at m' buf (min sz (count pd)) = take sz (contents m pd))"
  using pipe.put_appends [OF assms] pipe.get_removes [OF assms] by simp_all

theorem pipe_refines_bounded_queue_witness:
  "\<exists>m' pd'. Pipe_write (replicate 9000 7) (newPipeDesc 100) 8500 20 = Some (20, m', pd')
      \<and> contents m' pd' = replicate 20 7"
  using pipe_refines_bounded_queue [OF example_pipe(1,2)] example_pipe(3)
  by (auto simp: newPipeDesc_def PIPE_SIZE_def contents_def)

text \<open>
  C16: Whatever the interleaving of writes, reads and stores of the processes into their buffers, and
  whatever the sizes, the bytes delivered by a new pipe are a prefix of the bytes it accepted, the rest
  is in the ring, and at most \<open>PIPE_SIZE\<close> bytes are on the way. A non-empty request is never refused
  while there is room to write, or a byte to read.
\<close>
theorem pipe_delivers_in_order:
  assumes "pipe_ok m0 (newPipeDesc b)"
    and "channel_history Pipe_write Pipe_Read user_buffer m0 (newPipeDesc b) ws rs m pd"
  shows "ws = rs @ contents m pd \<and> length ws \<le> length rs + PIPE_SIZE
    \<and> (\<forall>a n. user_buffer m pd a n \<longrightarrow> 0 < n \<longrightarrow>
        (length ws < length rs + PIPE_SIZE
           \<longrightarrow> (\<exists>k m' pd'. Pipe_write m pd a n = Some (k, m', pd') \<and> 0 < k))
      \<and> (length rs < length ws \<longrightarrow> (\<exists>k m' pd'. Pipe_Read m pd a n = Some (k, m', pd') \<and> 0 < k)))"
proof -
  have e: "contents m0 (newPipeDesc b) = []" by (simp add: contents_def newPipeDesc_def)
  note h = pipe.history_in_order [OF assms(2,1) e]
  then have ok: "pipe_ok m pd" and ws: "ws = rs @ contents m pd" by simp_all
  have "contents m pd \<noteq> []" if "0 < count pd" using that contents_length [of m pd] by fastforce
  then show ?thesis
    using pipe.history_bounds [OF assms(2,1) e] ws
      pipe.writer_progress [OF ok] pipe.reader_progress [OF ok] by auto
qed

theorem pipe_delivers_in_order_witness:
  "\<exists>m pd. channel_history Pipe_write Pipe_Read user_buffer (replicate 9000 7) (newPipeDesc 100)
     (replicate 20 7) [] m pd \<and> replicate 20 7 = [] @ contents m pd"
proof -
  from Pipe_write_appends [OF example_pipe(1,2)] obtain m pd where
    w: "Pipe_write (replicate 9000 7) (newPipeDesc 100) 8500 20 = Some (20, m, pd)"
    by (auto simp: newPipeDesc_def PIPE_SIZE_def)
  from channel_history.put_step [where put = Pipe_write and get = Pipe_Read and buffer = user_buffer,
      OF channel_history.start example_pipe(2) w] example_pipe(3)
  have h: "channel_history Pipe_write Pipe_Read user_buffer (replicate 9000 7) (newPipeDesc 100)
     (replicate 20 7) [] m pd" by simp
  then show ?thesis using pipe_delivers_in_order [OF example_pipe(1) h] by blast
qed

text \<open>
  A request whose size wraps around when the position is added to it is not cut at the end of the
  ring: a write of at least \<open>2 ^ 32 - wpos\<close> bytes to a pipe with room whose write position is not
  below its read position copies the whole request and runs out of the memory.
\<close>
theorem pipe_huge_write_faults:
  assumes "pipe_ok m pd" and "count pd < PIPE_SIZE" and "rpos pd \<le> wpos pd"
    and "sz < 2 ^ 32" and "2 ^ 32 \<le> sz + wpos pd"
  shows "Pipe_write m pd buf sz = None"
proof -
  from assms(1) have ok: "length m < 2 ^ 32" "wpos pd < PIPE_SIZE" "0 < pbuf pd"
    by (simp_all add: pipe_ok_def region_def)
  have "add32 sz (wpos pd) = sz + wpos pd - 2 ^ 32"
    using assms(4,5) ok(2) by (simp add: add32_def PIPE_SIZE_def mod_if)
  with assms(4) ok(2) have cut: "\<not> PIPE_SIZE < add32 sz (wpos pd)" by simp
  have "memcpy m (pbuf pd + wpos pd) buf sz = None"
  proof (rule ccontr)
    assume "memcpy m (pbuf pd + wpos pd) buf sz \<noteq> None"
    then obtain m' where "memcpy_loop m (pbuf pd + wpos pd) buf sz 0 = Some m'"
      by (auto simp: memcpy_def)
    from memcpy_loop_in_bounds [OF this] assms(4,5) ok show False by (simp add: PIPE_SIZE_def)
  qed
  with cut assms(2,3) show ?thesis by (simp add: Pipe_write_def Let_def)
qed

theorem pipe_huge_write_faults_witness:
  "Pipe_write (replicate 9000 7) (\<lparr>rpos = 0, wpos = 5, count = 5, pbuf = 100\<rparr>) 8500 4294967295 = None"
  by (rule pipe_huge_write_faults) (simp_all add: pipe_ok_def region_def PIPE_SIZE_def)

end
