(* ===== verification/QHash.thy ===== *)
theory QHash
  imports Prelude
begin

text \<open>
  The hash table of the kernel: src/src/kernel/include/lib/koof/QHash. The buckets are chains of nodes,
  each reached from one bucket only, so a chain is a list of key and body pairs. The overloaded
  \<open>qHash\<close> of the key type is a parameter: an integer, which for the overloads with a signed result may be
  negative. C's remainder truncates, so a negative hash gives a negative index, which is a fault
  (\<open>None\<close>); so does a capacity of 0. Node allocation may fail in \<open>insert\<close>; the allocation of the bucket
  array is taken to succeed. The qHash overloads of the kernel return int, and the 32-bit keys of the ARP cache
  (src/src/kernel/net/arp.cpp) can have a negative hash; sizes and capacities, ints in the code, are unbounded
  numbers here, which differ only beyond any table that fits in the memory. Iterators and the flags they set in the nodes are not modelled.

  The locale \<open>map_store\<close> is the contract of a finite map with a sequence of updates; \<open>QHash\<close> is an
  interpretation of it for the keys whose hash is not negative.
\<close>

section \<open>The contract of a finite map\<close>

text \<open>
  An update is an insertion, with whether the allocation of a node for it succeeds, or a removal. Its result is
  1 or 0: whether the key has its new value, or how many entries were removed. An insertion without memory
  succeeds when the key has a node already.
\<close>

datatype ('k, 'v) map_update = Insert_key bool 'k 'v | Remove_key 'k

fun update_key :: "('k, 'v) map_update \<Rightarrow> 'k" where
  "update_key (Insert_key a k v) = k"
| "update_key (Remove_key k) = k"

fun update_map :: "('k \<rightharpoonup> 'v) \<Rightarrow> ('k, 'v) map_update \<Rightarrow> int \<times> ('k \<rightharpoonup> 'v)" where
  "update_map M (Insert_key a k v) = (if a \<or> k \<in> dom M then (1, M(k \<mapsto> v)) else (0, M))"
| "update_map M (Remove_key k) = (if k \<in> dom M then 1 else 0, M(k := None))"

text \<open>A store keeps its promises for the keys that are \<open>good\<close>.\<close>

locale map_store =
  fixes good :: "'k \<Rightarrow> bool"
    and valid :: "'s \<Rightarrow> bool"
    and lookup :: "'s \<Rightarrow> 'k \<Rightarrow> 'v option"
    and upd :: "'s \<Rightarrow> ('k, 'v) map_update \<Rightarrow> (int \<times> 's) option"
  assumes upd_law: "valid s \<Longrightarrow> good (update_key u) \<Longrightarrow>
      \<exists>r s'. upd s u = Some (r, s') \<and> valid s' \<and> update_map (lookup s) u = (r, lookup s')"
begin

lemma updates_map:
  "valid s \<Longrightarrow> \<forall>u \<in> set us. good (update_key u) \<Longrightarrow>
     \<exists>rs s'. crun upd s us = Some (rs, s') \<and> valid s' \<and> arun update_map (lookup s) us = (rs, lookup s')"
proof (induction us arbitrary: s)
  case (Cons u us)
  from upd_law [OF Cons.prems(1), of u] Cons.prems(2) obtain r s1 where
    s1: "upd s u = Some (r, s1)" "valid s1" "update_map (lookup s) u = (r, lookup s1)" by auto
  with Cons.IH [OF s1(2)] Cons.prems(2) show ?case by auto
qed simp

text \<open>The last update of a key decides.\<close>

lemma insert_then_lookup:
  assumes "valid s" and "good k"
  shows "\<exists>s'. upd s (Insert_key True k v) = Some (1, s') \<and> valid s' \<and> lookup s' = (lookup s)(k \<mapsto> v)"
  using upd_law [OF assms(1), of "Insert_key True k v"] assms(2) by auto

lemma insert_without_memory:
  assumes "valid s" and "good k" and "lookup s k = None"
  shows "\<exists>s'. upd s (Insert_key False k v) = Some (0, s') \<and> valid s' \<and> lookup s' = lookup s"
  using upd_law [OF assms(1), of "Insert_key False k v"] assms(2,3) by (auto simp: domIff)

lemma remove_then_lookup:
  assumes "valid s" and "good k"
  shows "\<exists>r s'. upd s (Remove_key k) = Some (r, s') \<and> valid s' \<and> lookup s' = (lookup s)(k := None)"
  using upd_law [OF assms(1), of "Remove_key k"] assms(2) by auto

end

section \<open>Data and operations\<close>

definition QHASH_DEFAULT_CAPACITY :: nat where
  "QHASH_DEFAULT_CAPACITY = 2"

record ('k, 'v) QHash =
  m_size :: nat
  m_capacity :: nat
  m_array :: "('k \<times> 'v) list list"

definition QHash_init :: "nat \<Rightarrow> ('k, 'v) QHash" where
  "QHash_init capacity =
     \<lparr>m_size = 0, m_capacity = capacity, m_array = replicate capacity []\<rparr>"

definition toArrayIndex :: "('k \<Rightarrow> int) \<Rightarrow> 'k \<Rightarrow> nat \<Rightarrow> nat option" where
  "toArrayIndex h key capacity =
     (if capacity = 0 then None
      else let r = (if h key < 0 then - ((- h key) mod int capacity) else h key mod int capacity) in
        if r < 0 then None else Some (nat r))"

fun chain_find :: "'k \<Rightarrow> ('k \<times> 'v) list \<Rightarrow> 'v option" where
  "chain_find key [] = None"
| "chain_find key ((k, v) # rest) = (if k = key then Some v else chain_find key rest)"

definition QHash_node :: "('k \<Rightarrow> int) \<Rightarrow> ('k, 'v) QHash \<Rightarrow> 'k \<Rightarrow> 'v option option" where
  "QHash_node h q key =
     (case toArrayIndex h key (m_capacity q) of None \<Rightarrow> None
      | Some i \<Rightarrow> Some (chain_find key (m_array q ! i)))"

definition QHash_value :: "('k \<Rightarrow> int) \<Rightarrow> ('k, 'v) QHash \<Rightarrow> 'k \<Rightarrow> 'v \<Rightarrow> 'v option" where
  "QHash_value h q key defaultValue =
     (case QHash_node h q key of None \<Rightarrow> None
      | Some None \<Rightarrow> Some defaultValue
      | Some (Some v) \<Rightarrow> Some v)"

fun rehash_chain ::
  "('k \<Rightarrow> int) \<Rightarrow> ('k \<times> 'v) list list \<Rightarrow> nat \<Rightarrow> ('k \<times> 'v) list \<Rightarrow> ('k \<times> 'v) list list option" where
  "rehash_chain h array capacity [] = Some array"
| "rehash_chain h array capacity ((k, v) # nextNode) =
     (case toArrayIndex h k capacity of None \<Rightarrow> None
      | Some newIndex \<Rightarrow>
          rehash_chain h (array[newIndex := array ! newIndex @ [(k, v)]]) capacity nextNode)"

fun rehash ::
  "('k \<Rightarrow> int) \<Rightarrow> ('k \<times> 'v) list list \<Rightarrow> nat \<Rightarrow> ('k \<times> 'v) list list \<Rightarrow> ('k \<times> 'v) list list option" where
  "rehash h array capacity [] = Some array"
| "rehash h array capacity (c # cs) =
     (case rehash_chain h array capacity c of None \<Rightarrow> None
      | Some array' \<Rightarrow> rehash h array' capacity cs)"

definition QHash_reserve :: "('k \<Rightarrow> int) \<Rightarrow> ('k, 'v) QHash \<Rightarrow> nat \<Rightarrow> ('k, 'v) QHash option" where
  "QHash_reserve h q newCapacity =
     (case rehash h (replicate newCapacity []) newCapacity (m_array q) of None \<Rightarrow> None
      | Some tmpArray \<Rightarrow> Some (q\<lparr>m_capacity := newCapacity, m_array := tmpArray\<rparr>))"

definition QHash_squeeze :: "('k \<Rightarrow> int) \<Rightarrow> ('k, 'v) QHash \<Rightarrow> ('k, 'v) QHash option" where
  "QHash_squeeze h q = QHash_reserve h q (m_size q)"

text \<open>
  The search for the key along the chain, with the new node at its end when there is none: the new
  chain and whether a node was added. \<open>None\<close> is a failed allocation.
\<close>

fun chain_insert ::
  "bool \<Rightarrow> 'k \<Rightarrow> 'v \<Rightarrow> ('k \<times> 'v) list \<Rightarrow> (('k \<times> 'v) list \<times> bool) option" where
  "chain_insert alloc_ok key v [] = (if alloc_ok then Some ([(key, v)], True) else None)"
| "chain_insert alloc_ok key v ((k, w) # rest) =
     (if k = key then Some ((k, v) # rest, False)
      else map_option (\<lambda>(c, added). ((k, w) # c, added)) (chain_insert alloc_ok key v rest))"

definition QHash_insert ::
  "('k \<Rightarrow> int) \<Rightarrow> bool \<Rightarrow> ('k, 'v) QHash \<Rightarrow> 'k \<Rightarrow> 'v \<Rightarrow> (bool \<times> ('k, 'v) QHash) option" where
  "QHash_insert h alloc_ok q key v =
     (case (if m_size q = m_capacity q then QHash_reserve h q (m_capacity q * 2) else Some q) of
        None \<Rightarrow> None
      | Some q1 \<Rightarrow>
          (case toArrayIndex h key (m_capacity q1) of None \<Rightarrow> None
           | Some i \<Rightarrow>
               (case chain_insert alloc_ok key v (m_array q1 ! i) of
                  None \<Rightarrow> Some (False, q1)
                | Some (c, added) \<Rightarrow>
                    Some (True, q1\<lparr>m_array := (m_array q1)[i := c],
                                  m_size := m_size q1 + (if added then 1 else 0)\<rparr>))))"

fun chain_remove :: "'k \<Rightarrow> ('k \<times> 'v) list \<Rightarrow> ('k \<times> 'v) list" where
  "chain_remove key [] = []"
| "chain_remove key ((k, v) # rest) = (if k = key then rest else (k, v) # chain_remove key rest)"

text \<open>The removed body, if any. The size is not changed.\<close>

definition removeFromTable ::
  "('k \<Rightarrow> int) \<Rightarrow> ('k, 'v) QHash \<Rightarrow> 'k \<Rightarrow> ('v option \<times> ('k, 'v) QHash) option" where
  "removeFromTable h q key =
     (case toArrayIndex h key (m_capacity q) of None \<Rightarrow> None
      | Some i \<Rightarrow> Some (chain_find key (m_array q ! i),
                        q\<lparr>m_array := (m_array q)[i := chain_remove key (m_array q ! i)]\<rparr>))"

definition QHash_take ::
  "('k \<Rightarrow> int) \<Rightarrow> 'v \<Rightarrow> ('k, 'v) QHash \<Rightarrow> 'k \<Rightarrow> ('v \<times> ('k, 'v) QHash) option" where
  "QHash_take h T_default q key =
     (case removeFromTable h q key of None \<Rightarrow> None
      | Some (Some body, q') \<Rightarrow> Some (body, q')
      | Some (None, q') \<Rightarrow> Some (T_default, q'))"

definition QHash_remove ::
  "('k \<Rightarrow> int) \<Rightarrow> ('k, 'v) QHash \<Rightarrow> 'k \<Rightarrow> (int \<times> ('k, 'v) QHash) option" where
  "QHash_remove h q key =
     map_option (\<lambda>(node, q'). (if node \<noteq> None then 1 else 0, q')) (removeFromTable h q key)"

definition eraseArrayAndRemoveNodes :: "('k, 'v) QHash \<Rightarrow> ('k, 'v) QHash" where
  "eraseArrayAndRemoveNodes q = q\<lparr>m_array := replicate (m_capacity q) []\<rparr>"

definition QHash_clear :: "('k, 'v) QHash \<Rightarrow> nat \<Rightarrow> ('k, 'v) QHash" where
  "QHash_clear q newCapacity =
     (let q' = eraseArrayAndRemoveNodes q in
      if m_capacity q' \<noteq> newCapacity then QHash_init newCapacity else q')"

definition QHash_isEmpty :: "('k, 'v) QHash \<Rightarrow> bool" where
  "QHash_isEmpty q \<longleftrightarrow> m_size q = 0"

text \<open>The copy constructor and the assignment. \<open>init\<close> sets the size of the copy to 0.\<close>

definition initFromHash :: "('k, 'v) QHash \<Rightarrow> ('k, 'v) QHash" where
  "initFromHash q =
     (if QHash_isEmpty q then QHash_init (m_capacity q)
      else (QHash_init (m_capacity q))\<lparr>m_array := m_array q\<rparr>)"

section \<open>The invariant and the map a table stands for\<close>

definition bucket :: "('k \<Rightarrow> int) \<Rightarrow> nat \<Rightarrow> 'k \<Rightarrow> nat" where
  "bucket h c k = nat (h k) mod c"

definition qhash_ok :: "('k \<Rightarrow> int) \<Rightarrow> ('k, 'v) QHash \<Rightarrow> bool" where
  "qhash_ok h q \<longleftrightarrow> 0 < m_capacity q \<and> length (m_array q) = m_capacity q
     \<and> (\<forall>i < m_capacity q. distinct (map fst (m_array q ! i))
          \<and> (\<forall>(k, v) \<in> set (m_array q ! i). bucket h (m_capacity q) k = i))"

definition qmap :: "('k \<Rightarrow> int) \<Rightarrow> ('k, 'v) QHash \<Rightarrow> 'k \<rightharpoonup> 'v" where
  "qmap h q k = map_of (m_array q ! bucket h (m_capacity q) k) k"

lemma toArrayIndex_nonneg:
  "0 \<le> h k \<Longrightarrow> 0 < c \<Longrightarrow> toArrayIndex h k c = Some (bucket h c k)"
  by (simp add: toArrayIndex_def bucket_def nat_mod_distrib Let_def not_less)

lemma toArrayIndex_negative:
  "h k < 0 \<Longrightarrow> (- h k) mod int c \<noteq> 0 \<Longrightarrow> toArrayIndex h k c = None"
proof -
  assume a: "h k < 0" "(- h k) mod int c \<noteq> 0"
  show ?thesis
  proof (cases "c = 0")
    case False
    then have "0 \<le> (- h k) mod int c" by simp
    with a have "0 < (- h k) mod int c" by linarith
    with a False show ?thesis by (simp add: toArrayIndex_def Let_def)
  qed (simp add: toArrayIndex_def)
qed

lemma bucket_less [simp]: "0 < c \<Longrightarrow> bucket h c k < c"
  by (simp add: bucket_def)

lemma chain_find_map_of: "chain_find k c = map_of c k"
  by (induction k c rule: chain_find.induct) auto

lemma chain_insert_map_of:
  "\<exists>c' added. chain_insert True k v c = Some (c', added) \<and> map_of c' = (map_of c)(k \<mapsto> v)
     \<and> set c' \<subseteq> insert (k, v) (set c) \<and> fst ` set c' = insert k (fst ` set c)
     \<and> (distinct (map fst c) \<longrightarrow> distinct (map fst c'))"
proof (induction c)
  case (Cons x c)
  obtain a w where x: "x = (a, w)" by (cases x)
  show ?case
  proof (cases "a = k")
    case True
    with x show ?thesis by auto
  next
    case False
    with Cons obtain c' added where c: "chain_insert True k v c = Some (c', added)"
      "map_of c' = (map_of c)(k \<mapsto> v)" "set c' \<subseteq> insert (k, v) (set c)"
      "fst ` set c' = insert k (fst ` set c)" "distinct (map fst c) \<longrightarrow> distinct (map fst c')"
      by blast
    with False x show ?thesis by (auto simp: fun_upd_twist)
  qed
qed auto

lemma chain_remove_map_of:
  "distinct (map fst c) \<Longrightarrow> map_of (chain_remove k c) = (map_of c)(k := None)
     \<and> set (chain_remove k c) \<subseteq> set c \<and> distinct (map fst (chain_remove k c))"
proof (induction k c rule: chain_remove.induct)
  case (2 key k v rest)
  have "map_of rest k = None" using "2.prems" by (simp add: map_of_eq_None_iff)
  moreover have "key \<noteq> k \<Longrightarrow> k \<notin> fst ` set (chain_remove key rest)"
    using 2 by (auto dest: subsetD)
  ultimately show ?case using 2 by (auto simp: fun_upd_twist fun_upd_idem)
qed simp

text \<open>Rehashing distributes all nodes over the new buckets, in their order.\<close>

lemma rehash_chain_buckets:
  assumes "\<forall>(k, v) \<in> set ns. 0 \<le> h k" and "0 < c" and "length A = c"
  shows "\<exists>A'. rehash_chain h A c ns = Some A' \<and> length A' = c
    \<and> (\<forall>j < c. A' ! j = A ! j @ filter (\<lambda>(k, v). bucket h c k = j) ns)"
  using assms
proof (induction ns arbitrary: A)
  case (Cons n ns)
  obtain k v where n: "n = (k, v)" by (cases n)
  let ?A = "A[bucket h c k := A ! bucket h c k @ [(k, v)]]"
  from Cons.prems n have t: "toArrayIndex h k c = Some (bucket h c k)"
    by (simp add: toArrayIndex_nonneg)
  from Cons.IH [of ?A] Cons.prems obtain A' where
    "rehash_chain h ?A c ns = Some A'" "length A' = c"
    "\<forall>j < c. A' ! j = ?A ! j @ filter (\<lambda>(k, v). bucket h c k = j) ns" by auto
  with t n Cons.prems(2,3) show ?case by (auto simp: nth_list_update)
qed simp

lemma rehash_buckets:
  assumes "\<forall>(k, v) \<in> set (concat cs). 0 \<le> h k" and "0 < c" and "length A = c"
  shows "\<exists>A'. rehash h A c cs = Some A' \<and> length A' = c
    \<and> (\<forall>j < c. A' ! j = A ! j @ filter (\<lambda>(k, v). bucket h c k = j) (concat cs))"
  using assms
proof (induction cs arbitrary: A)
  case (Cons ns cs)
  from rehash_chain_buckets [of ns h c A] Cons.prems obtain A1 where
    A1: "rehash_chain h A c ns = Some A1" "length A1 = c"
    "\<forall>j < c. A1 ! j = A ! j @ filter (\<lambda>(k, v). bucket h c k = j) ns" by auto
  from Cons.IH [of A1] Cons.prems A1 obtain A' where
    "rehash h A1 c cs = Some A'" "length A' = c"
    "\<forall>j < c. A' ! j = A1 ! j @ filter (\<lambda>(k, v). bucket h c k = j) (concat cs)" by auto
  with A1 show ?case by auto
qed simp

lemma set_concat_nth: "x \<in> set (concat cs) \<longleftrightarrow> (\<exists>i < length cs. x \<in> set (cs ! i))"
  by (simp add: set_concat) (metis in_set_conv_nth nth_mem)

lemma distinct_concat_keys:
  assumes "qhash_ok h q"
  shows "distinct (map fst (concat (m_array q)))"
proof -
  have "distinct (map fst (concat cs))"
    if "\<forall>i < length cs. distinct (map fst (cs ! i)) \<and> (\<forall>(k, v) \<in> set (cs ! i). f k = i + b)"
    for cs :: "('a \<times> 'b) list list" and f b
    using that
  proof (induction cs arbitrary: b)
    case (Cons c cs)
    have "\<forall>i < length cs. distinct (map fst (cs ! i)) \<and> (\<forall>(k, v) \<in> set (cs ! i). f k = i + Suc b)"
      using Cons.prems by fastforce
    from Cons.IH [OF this] have d: "distinct (map fst (concat cs))" .
    have "f k = b" if "(k, v) \<in> set c" for k v using Cons.prems that by fastforce
    moreover have "f k > b" if "(k, v) \<in> set (concat cs)" for k v
    proof -
      from that obtain i where "i < length cs" "(k, v) \<in> set (cs ! i)"
        unfolding set_concat_nth by blast
      with Cons.prems have "f k = Suc i + b" by fastforce
      then show ?thesis by simp
    qed
    ultimately have "fst ` set c \<inter> fst ` set (concat cs) = {}" by fastforce
    with d Cons.prems show ?case by force
  qed simp
  from this [of "m_array q" "bucket h (m_capacity q)" 0] assms show ?thesis
    by (simp add: qhash_ok_def)
qed

lemma map_of_same_entries:
  assumes "distinct (map fst xs)" and "distinct (map fst ys)"
    and "\<And>v. (k, v) \<in> set xs \<longleftrightarrow> (k, v) \<in> set ys"
  shows "map_of xs k = map_of ys k"
proof -
  have "map_of xs k = Some v \<longleftrightarrow> map_of ys k = Some v" for v
    using assms by (simp add: map_of_eq_Some_iff)
  then show ?thesis by (metis not_Some_eq)
qed

lemma qmap_concat:
  assumes "qhash_ok h q"
  shows "map_of (concat (m_array q)) k = qmap h q k"
proof -
  let ?b = "bucket h (m_capacity q) k"
  from assms have c: "0 < m_capacity q" "length (m_array q) = m_capacity q"
    by (simp_all add: qhash_ok_def)
  have "(k, v) \<in> set (concat (m_array q)) \<longleftrightarrow> (k, v) \<in> set (m_array q ! ?b)" for v
  proof
    assume "(k, v) \<in> set (concat (m_array q))"
    then obtain i where "i < m_capacity q" "(k, v) \<in> set (m_array q ! i)"
      using c unfolding set_concat_nth by auto
    with assms show "(k, v) \<in> set (m_array q ! ?b)" by (fastforce simp: qhash_ok_def)
  next
    assume "(k, v) \<in> set (m_array q ! ?b)"
    then show "(k, v) \<in> set (concat (m_array q))"
      using c bucket_less [OF c(1), of h k] unfolding set_concat_nth c(2) by blast
  qed
  moreover have "distinct (map fst (m_array q ! ?b))" using assms c by (simp add: qhash_ok_def)
  ultimately show ?thesis
    using map_of_same_entries [OF distinct_concat_keys [OF assms]] by (simp add: qmap_def)
qed

lemma map_of_filter_key:
  "map_of (filter (\<lambda>(k, v). P k) xs) k = (if P k then map_of xs k else None)"
  by (induction xs) auto

lemma entries_dom:
  assumes "qhash_ok h q" and "(k, v) \<in> set (concat (m_array q))"
  shows "k \<in> dom (qmap h q)"
  using assms(2) qmap_concat [OF assms(1), of k] weak_map_of_SomeI [OF assms(2)] by auto

lemma QHash_reserve_ok:
  assumes "qhash_ok h q" and h: "\<forall>k \<in> dom (qmap h q). 0 \<le> h k" and "0 < c"
  shows "\<exists>q'. QHash_reserve h q c = Some q' \<and> qhash_ok h q' \<and> qmap h q' = qmap h q
    \<and> m_capacity q' = c \<and> m_size q' = m_size q"
proof -
  have "\<forall>(k, v) \<in> set (concat (m_array q)). 0 \<le> h k" using h entries_dom [OF assms(1)] by blast
  from rehash_buckets [OF this assms(3), of "replicate c []"] obtain A where
    A: "rehash h (replicate c []) c (m_array q) = Some A" "length A = c"
    "\<forall>j < c. A ! j = filter (\<lambda>(k, v). bucket h c k = j) (concat (m_array q))"
    by auto
  let ?q = "q\<lparr>m_capacity := c, m_array := A\<rparr>"
  have "distinct (map fst (filter P (concat (m_array q))))" for P
    using distinct_concat_keys [OF assms(1)] by (rule distinct_map_filter)
  with A assms(3) have "qhash_ok h ?q" by (simp add: qhash_ok_def)
  moreover have "qmap h ?q k = qmap h q k" for k
  proof -
    have "qmap h ?q k = map_of (filter (\<lambda>(k', v). bucket h c k' = bucket h c k) (concat (m_array q))) k"
      using A(3) assms(3) by (simp add: qmap_def)
    then show ?thesis
      using map_of_filter_key [of "\<lambda>k'. bucket h c k' = bucket h c k" "concat (m_array q)" k]
      by (simp add: qmap_concat [OF assms(1)])
  qed
  ultimately show ?thesis using A(1) by (auto simp: QHash_reserve_def)
qed

lemma QHash_value_ok:
  assumes "qhash_ok h q" and "0 \<le> h k"
  shows "QHash_value h q k d = Some (case qmap h q k of None \<Rightarrow> d | Some v \<Rightarrow> v)"
  using assms by (simp add: QHash_value_def QHash_node_def toArrayIndex_nonneg qhash_ok_def
      chain_find_map_of qmap_def split: option.splits)

lemma qmap_update_bucket:
  assumes "qhash_ok h q" and i: "i = bucket h (m_capacity q) k"
    and "map_of c = (map_of (m_array q ! i))(k := x)"
  shows "qmap h (q\<lparr>m_array := (m_array q)[i := c], m_size := s\<rparr>) = (qmap h q)(k := x)"
  using assms by (intro ext) (auto simp: qmap_def nth_list_update qhash_ok_def)

lemma qhash_ok_update_bucket:
  assumes "qhash_ok h q" and "i < m_capacity q" and "distinct (map fst c)"
    and "\<forall>(k, v) \<in> set c. bucket h (m_capacity q) k = i"
  shows "qhash_ok h (q\<lparr>m_array := (m_array q)[i := c], m_size := s\<rparr>)"
  using assms by (auto simp: qhash_ok_def nth_list_update)

lemma QHash_insert_ok:
  assumes ok: "qhash_ok h q" and h: "\<forall>k' \<in> insert k (dom (qmap h q)). 0 \<le> h k'"
  shows "\<exists>q'. QHash_insert h True q k v = Some (True, q') \<and> qhash_ok h q'
    \<and> qmap h q' = (qmap h q)(k \<mapsto> v)"
proof -
  have cap: "0 < m_capacity q" using ok by (simp add: qhash_ok_def)
  have "\<exists>q1. (if m_size q = m_capacity q then QHash_reserve h q (m_capacity q * 2) else Some q)
      = Some q1 \<and> qhash_ok h q1 \<and> qmap h q1 = qmap h q"
    using QHash_reserve_ok [OF ok _, of "m_capacity q * 2"] h ok cap by auto
  then obtain q1 where q1: "(if m_size q = m_capacity q then QHash_reserve h q (m_capacity q * 2)
      else Some q) = Some q1" "qhash_ok h q1" "qmap h q1 = qmap h q" by blast
  from q1(2) have c1: "0 < m_capacity q1" by (simp add: qhash_ok_def)
  define i where i: "i = bucket h (m_capacity q1) k"
  have il: "i < m_capacity q1" using c1 by (simp add: i)
  have idx: "toArrayIndex h k (m_capacity q1) = Some i"
    using h c1 by (simp add: toArrayIndex_nonneg i)
  obtain c added where c: "chain_insert True k v (m_array q1 ! i) = Some (c, added)"
    "map_of c = (map_of (m_array q1 ! i))(k \<mapsto> v)" "set c \<subseteq> insert (k, v) (set (m_array q1 ! i))"
    "distinct (map fst (m_array q1 ! i)) \<longrightarrow> distinct (map fst c)"
    using chain_insert_map_of [of k v "m_array q1 ! i"] by blast
  have d: "distinct (map fst c)" using c(4) q1(2) il by (simp add: qhash_ok_def)
  have b: "\<forall>(k', v') \<in> set c. bucket h (m_capacity q1) k' = i"
    using c(3) q1(2) il by (fastforce simp: qhash_ok_def i)
  show ?thesis
    using qmap_update_bucket [OF q1(2) i c(2)] qhash_ok_update_bucket [OF q1(2) il d b]
    by (simp add: QHash_insert_def q1(1,3) idx c(1))
qed

text \<open>Without memory only a key that has a node can be given a value; the table may have grown.\<close>

lemma chain_insert_no_memory:
  "chain_insert False k v c = (if k \<in> fst ` set c then chain_insert True k v c else None)"
proof (induction c)
  case (Cons e c)
  then show ?case by (cases e; cases "k \<in> fst ` set c") (force+)
qed simp

lemma QHash_insert_no_memory:
  assumes ok: "qhash_ok h q" and h: "\<forall>k' \<in> insert k (dom (qmap h q)). 0 \<le> h k'"
  shows "\<exists>q'. QHash_insert h False q k v = Some (k \<in> dom (qmap h q), q') \<and> qhash_ok h q'
    \<and> qmap h q' = (if k \<in> dom (qmap h q) then (qmap h q)(k \<mapsto> v) else qmap h q)"
proof -
  have cap: "0 < m_capacity q" using ok by (simp add: qhash_ok_def)
  have "\<exists>q1. (if m_size q = m_capacity q then QHash_reserve h q (m_capacity q * 2) else Some q)
      = Some q1 \<and> qhash_ok h q1 \<and> qmap h q1 = qmap h q"
    using QHash_reserve_ok [OF ok _, of "m_capacity q * 2"] h ok cap by auto
  then obtain q1 where q1: "(if m_size q = m_capacity q then QHash_reserve h q (m_capacity q * 2)
      else Some q) = Some q1" "qhash_ok h q1" "qmap h q1 = qmap h q" by blast
  have idx: "toArrayIndex h k (m_capacity q1) = Some (bucket h (m_capacity q1) k)"
    using h q1(2) by (simp add: toArrayIndex_nonneg qhash_ok_def)
  have here: "k \<in> fst ` set (m_array q1 ! bucket h (m_capacity q1) k) \<longleftrightarrow> k \<in> dom (qmap h q)"
    unfolding q1(3) [symmetric] by (auto simp: qmap_def domIff map_of_eq_None_iff)
  show ?thesis
  proof (cases "k \<in> dom (qmap h q)")
    case True
    then have "QHash_insert h False q k v = QHash_insert h True q k v"
      using q1(1) idx here by (simp add: QHash_insert_def chain_insert_no_memory)
    with True QHash_insert_ok [OF ok h, of v] show ?thesis by auto
  next
    case False
    then have "QHash_insert h False q k v = Some (False, q1)"
      using q1(1) idx here by (simp add: QHash_insert_def chain_insert_no_memory)
    with False q1(2,3) show ?thesis by auto
  qed
qed

lemma removeFromTable_ok:
  assumes ok: "qhash_ok h q" and h: "0 \<le> h k"
  shows "\<exists>q'. removeFromTable h q k = Some (qmap h q k, q') \<and> qhash_ok h q'
    \<and> qmap h q' = (qmap h q)(k := None) \<and> m_size q' = m_size q"
proof -
  from ok have c: "0 < m_capacity q" by (simp add: qhash_ok_def)
  define i where i: "i = bucket h (m_capacity q) k"
  have il: "i < m_capacity q" using c by (simp add: i)
  let ?c = "chain_remove k (m_array q ! i)"
  have d: "distinct (map fst (m_array q ! i))" using ok il by (simp add: qhash_ok_def)
  note r = chain_remove_map_of [OF d, of k]
  have b: "\<forall>(k', v') \<in> set ?c. bucket h (m_capacity q) k' = i"
    using r ok il by (fastforce simp: qhash_ok_def)
  have e: "q\<lparr>m_array := (m_array q)[i := ?c], m_size := m_size q\<rparr> = q\<lparr>m_array := (m_array q)[i := ?c]\<rparr>"
    by simp
  have "toArrayIndex h k (m_capacity q) = Some i" using h c by (simp add: toArrayIndex_nonneg i)
  then have "removeFromTable h q k = Some (qmap h q k, q\<lparr>m_array := (m_array q)[i := ?c]\<rparr>)"
    by (simp add: removeFromTable_def chain_find_map_of qmap_def i)
  moreover have "qmap h (q\<lparr>m_array := (m_array q)[i := ?c]\<rparr>) = (qmap h q)(k := None)"
    using qmap_update_bucket [OF ok i, of ?c None "m_size q"] r by (simp add: e)
  moreover have "qhash_ok h (q\<lparr>m_array := (m_array q)[i := ?c]\<rparr>)"
    using qhash_ok_update_bucket [OF ok il _ b, of "m_size q"] r by (simp add: e)
  ultimately show ?thesis by simp
qed

lemma QHash_init_ok: "0 < c \<Longrightarrow> qhash_ok h (QHash_init c) \<and> qmap h (QHash_init c) = Map.empty"
  by (auto simp: qhash_ok_def QHash_init_def qmap_def)

lemma initFromHash_ok:
  assumes "qhash_ok h q"
  shows "qhash_ok h (initFromHash q)"
    and "qmap h (initFromHash q) = (if m_size q = 0 then Map.empty else qmap h q)"
  using assms QHash_init_ok [of "m_capacity q" h]
  by (auto simp: initFromHash_def QHash_isEmpty_def qhash_ok_def)
    (auto simp: QHash_init_def qmap_def)

lemma rehash_empty: "rehash h A c (replicate n []) = Some A"
  by (induction n arbitrary: A) simp_all

section \<open>The table is a finite map\<close>

text \<open>A hash with an unsigned result.\<close>

abbreviation uhash :: "('k \<Rightarrow> nat) \<Rightarrow> 'k \<Rightarrow> int" where
  "uhash h \<equiv> \<lambda>k. int (h k)"

text \<open>The updates of the contract, as the table does them.\<close>

fun hash_update :: "('k \<Rightarrow> int) \<Rightarrow> ('k, 'v) QHash \<Rightarrow> ('k, 'v) map_update \<Rightarrow> (int \<times> ('k, 'v) QHash) option" where
  "hash_update h q (Insert_key alloc_ok k v) = map_option (\<lambda>(b, q). (of_bool b, q)) (QHash_insert h alloc_ok q k v)"
| "hash_update h q (Remove_key k) = QHash_remove h q k"

text \<open>A table whose keys can be found.\<close>

definition table_ok :: "('k \<Rightarrow> int) \<Rightarrow> ('k, 'v) QHash \<Rightarrow> bool" where
  "table_ok h q \<longleftrightarrow> qhash_ok h q \<and> (\<forall>k \<in> dom (qmap h q). 0 \<le> h k)"

interpretation qhash: map_store "\<lambda>k. 0 \<le> h k" "table_ok h" "qmap h" "hash_update h"
  for h
proof
  fix q :: "('a, 'b) QHash" and u :: "('a, 'b) map_update"
  assume q: "table_ok h q" and u: "0 \<le> h (update_key u)"
  have ok: "qhash_ok h q" using q by (simp add: table_ok_def)
  show "\<exists>r q'. hash_update h q u = Some (r, q') \<and> table_ok h q' \<and> update_map (qmap h q) u = (r, qmap h q')"
  proof (cases u)
    case (Insert_key a k v)
    have nn: "\<forall>k' \<in> insert k (dom (qmap h q)). 0 \<le> h k'" using q u Insert_key by (simp add: table_ok_def)
    from QHash_insert_ok [OF ok nn, of v] QHash_insert_no_memory [OF ok nn, of v] obtain q' where
      "QHash_insert h a q k v = Some (a \<or> k \<in> dom (qmap h q), q')" "qhash_ok h q'"
      "qmap h q' = (if a \<or> k \<in> dom (qmap h q) then (qmap h q)(k \<mapsto> v) else qmap h q)"
      by (cases a) auto
    then show ?thesis using Insert_key nn by (simp add: table_ok_def)
  next
    case (Remove_key k)
    then obtain q' where r: "removeFromTable h q k = Some (qmap h q k, q')" "qhash_ok h q'"
      "qmap h q' = (qmap h q)(k := None)" using removeFromTable_ok [OF ok, of k] u by auto
    then have "hash_update h q u = Some (if qmap h q k = None then 0 else 1, q')"
      using Remove_key by (simp add: QHash_remove_def split: option.split)
    then show ?thesis using r(2,3) q Remove_key by (auto simp: table_ok_def domIff)
  qed
qed

section \<open>Properties\<close>

text \<open>
  C2: On a new table, any sequence of insertions and removals of keys whose hash is not negative, with all the
  rehashing it causes, returns what the same updates of a finite map return and leaves the table as that map:
  a search finds for every key with a hash that is not negative its value in the map, or the default. An
  insertion whose allocation fails returns false and changes no entry, unless the key has a node. A key with a
  negative hash that is not a multiple of the capacity cannot be searched for: its index lies below the array.
\<close>
theorem QHash_is_finite_map:
  fixes us :: "('k, 'v) map_update list"
  assumes "\<forall>u \<in> set us. 0 \<le> h (update_key u)"
  shows "\<exists>rs q M. crun (hash_update h) (QHash_init QHASH_DEFAULT_CAPACITY) us = Some (rs, q)
     \<and> arun update_map Map.empty us = (rs, M)
     \<and> (\<forall>k d. 0 \<le> h k \<longrightarrow> QHash_value h q k d = Some (case M k of None \<Rightarrow> d | Some v \<Rightarrow> v))
     \<and> (\<forall>k d. h k < 0 \<and> \<not> int (m_capacity q) dvd h k \<longrightarrow> QHash_value h q k d = None)"
proof -
  let ?q = "QHash_init QHASH_DEFAULT_CAPACITY :: ('k, 'v) QHash"
  have e: "qhash_ok h ?q" "qmap h ?q = Map.empty"
    by (simp_all add: QHash_init_ok QHASH_DEFAULT_CAPACITY_def)
  then have i: "table_ok h ?q" by (simp add: table_ok_def)
  from qhash.updates_map [OF i assms] obtain rs q where
    q: "crun (hash_update h) (QHash_init QHASH_DEFAULT_CAPACITY) us = Some (rs, q)" "table_ok h q"
    "arun update_map Map.empty us = (rs, qmap h q)" by (auto simp: e(2))
  have "QHash_value h q k d = None" if "h k < 0" "\<not> int (m_capacity q) dvd h k" for k d
  proof -
    have "toArrayIndex h k (m_capacity q) = None"
      using that by (intro toArrayIndex_negative) (auto simp: dvd_eq_mod_eq_0 [symmetric])
    then show ?thesis by (simp add: QHash_value_def QHash_node_def)
  qed
  then show ?thesis using q by (intro exI [of _ rs] exI [of _ q] exI [of _ "qmap h q"]) (simp add: table_ok_def QHash_value_ok)
qed

theorem QHash_is_finite_map_witness:
  "\<exists>q. crun (hash_update (\<lambda>k. k)) (QHash_init QHASH_DEFAULT_CAPACITY)
      [Insert_key True (3 :: int) (10 :: nat), Insert_key False 5 20, Insert_key False 3 30, Insert_key True 8 40, Remove_key 8]
     = Some ([1, 0, 1, 1, 1], q) \<and> QHash_value (\<lambda>k. k) q 3 0 = Some 30 \<and> QHash_value (\<lambda>k. k) q 5 0 = Some 0"
proof -
  let ?us = "[Insert_key True (3 :: int) (10 :: nat), Insert_key False 5 20, Insert_key False 3 30, Insert_key True 8 40, Remove_key 8]"
  have "arun update_map Map.empty ?us = ([1, 0, 1, 1, 1], [3 \<mapsto> 30])" by (auto simp: fun_eq_iff)
  with QHash_is_finite_map [of ?us "\<lambda>k. k"] show ?thesis by auto
qed

text \<open>
  Copying a table keeps its entries but sets the size of the copy to 0, so the copy reports itself
  empty, and a copy of the copy has no entries at all.
\<close>
theorem QHash_copy_of_copy_is_empty:
  assumes "qhash_ok h q" and "m_size q \<noteq> 0"
  shows "qmap h (initFromHash q) = qmap h q \<and> QHash_isEmpty (initFromHash q)
    \<and> qmap h (initFromHash (initFromHash q)) = Map.empty"
proof -
  have z: "m_size (initFromHash q) = 0" by (simp add: initFromHash_def QHash_init_def)
  then show ?thesis
    using initFromHash_ok [OF assms(1)] initFromHash_ok(2) [OF initFromHash_ok(1) [OF assms(1)]] assms(2)
    by (simp add: QHash_isEmpty_def)
qed

theorem QHash_copy_of_copy_is_empty_witness:
  "qmap (\<lambda>k. k) (initFromHash (initFromHash
     \<lparr>m_size = 1, m_capacity = 2, m_array = [[(4, True)], []]\<rparr>)) = Map.empty"
proof -
  have "qhash_ok (\<lambda>k. k) \<lparr>m_size = 1, m_capacity = 2, m_array = [[(4, True)], []]\<rparr>"
    by (auto simp: qhash_ok_def bucket_def less_2_cases_iff)
  from QHash_copy_of_copy_is_empty [OF this] show ?thesis by simp
qed

text \<open>
  Three ways to break a table. Removal does not decrease the size; \<open>squeeze\<close> on a table of size 0
  leaves a capacity of 0, after which every search divides by 0; and a key with a negative hash that is
  not a multiple of the capacity indexes below the array.
\<close>
theorem QHash_faults:
  shows "(qhash_ok h q \<longrightarrow> 0 \<le> h k \<longrightarrow>
      (\<exists>r q'. QHash_remove h q k = Some (r, q') \<and> m_size q' = m_size q))
    \<and> (\<exists>q'. QHash_squeeze h (QHash_init c) = Some q' \<and> QHash_value h q' k d = None)
    \<and> (h k < 0 \<longrightarrow> \<not> int (m_capacity q) dvd h k \<longrightarrow>
      QHash_value h q k d = None \<and> QHash_remove h q k = None)"
proof (intro conjI impI)
  assume "qhash_ok h q" "0 \<le> h k"
  from removeFromTable_ok [OF this] obtain q' where
    "removeFromTable h q k = Some (qmap h q k, q')" "m_size q' = m_size q" by blast
  then show "\<exists>r q'. QHash_remove h q k = Some (r, q') \<and> m_size q' = m_size q"
    by (simp add: QHash_remove_def)
next
  have "QHash_squeeze h (QHash_init c) = Some (QHash_init 0)"
    by (simp add: QHash_squeeze_def QHash_reserve_def QHash_init_def rehash_empty)
  moreover have "QHash_value h (QHash_init 0) k d = None"
    by (simp add: QHash_init_def QHash_value_def QHash_node_def toArrayIndex_def)
  ultimately show "\<exists>q'. QHash_squeeze h (QHash_init c) = Some q' \<and> QHash_value h q' k d = None"
    by blast
next
  assume "h k < 0" "\<not> int (m_capacity q) dvd h k"
  then have "toArrayIndex h k (m_capacity q) = None"
    by (intro toArrayIndex_negative) (auto simp: dvd_eq_mod_eq_0 [symmetric])
  then show "QHash_value h q k d = None" "QHash_remove h q k = None"
    by (simp_all add: QHash_value_def QHash_node_def QHash_remove_def removeFromTable_def)
qed

theorem QHash_faults_witness:
  "QHash_value (\<lambda>k. k) (QHash_init 2) (- 3) (0::int) = None"
  using QHash_faults [of "\<lambda>k. k" "QHash_init 2 :: (int, int) QHash" "- 3" 2 0]
  by (simp add: QHash_init_def)

end
