(* ===== verification/Vnode_Manager.thy ===== *)
theory Vnode_Manager
  imports QHash Pipe
begin

text \<open>
  The table of active vnodes, src/src/kernel/filesystem/vnodemanager.cpp with
  src/src/kernel/include/filesystem/vnode.h, and the creation and destruction of pipes of
  src/src/kernel/filesystem/pipe.cpp, which go through it.

  The heap maps the address of a vnode to its fields; an access to a deleted vnode is a fault (\<open>None\<close>).
  What \<open>new\<close> returns is an argument of the operations: \<open>NULL\<close> or an address not in use. The calls of
  the file system's \<open>closevnode\<close> are recorded in order. Reference counts are unsigned 32-bit. The
  mutex around the table serialises the operations, so a history is a sequence of steps.
\<close>

section \<open>Data\<close>

record VNodeId =
  vid :: u64
  mountId :: u32

text \<open>The hash of an identifier; \<open>mountId + 1\<close> is 0 for the mount \<open>0xFFFFFFFF\<close>, which is not allowed.\<close>

definition qHash_VNodeId :: "VNodeId \<Rightarrow> nat" where
  "qHash_VNodeId i = (unat (vid i) mod (unat (mountId i) + 1)) mod 2 ^ 32"

record VNode =
  vnid :: VNodeId
  refCount :: nat
  mount :: addr
  coveredBy :: addr
  privdata :: addr
  dirty :: bool

record vnode_state =
  VNodes :: "(VNodeId, addr) QHash"
  vheap :: "addr \<rightharpoonup> VNode"
  closed :: "addr list"

section \<open>Operations\<close>

definition VNodeManager_Init :: "vnode_state \<Rightarrow> vnode_state" where
  "VNodeManager_Init s = s\<lparr>VNodes := initFromHash (QHash_init QHASH_DEFAULT_CAPACITY)\<rparr>"

definition LookupVnode :: "vnode_state \<Rightarrow> u32 \<Rightarrow> u64 \<Rightarrow> addr option" where
  "LookupVnode s m i =
     (if m = -1 then None
      else QHash_value (uhash qHash_VNodeId) (VNodes s) \<lparr>vid = i, mountId = m\<rparr> NULL)"

definition NewVnode :: "bool \<Rightarrow> addr \<Rightarrow> vnode_state \<Rightarrow> u32 \<Rightarrow> u64 \<Rightarrow> (addr \<times> vnode_state) option" where
  "NewVnode alloc_ok newnode s m i =
     (if newnode = NULL then Some (NULL, s)
      else let n = \<lparr>vnid = \<lparr>vid = i, mountId = m\<rparr>, refCount = 0, mount = NULL, coveredBy = NULL,
                    privdata = NULL, dirty = False\<rparr> in
        case QHash_insert (uhash qHash_VNodeId) alloc_ok (VNodes s) (vnid n) newnode of None \<Rightarrow> None
        | Some (_, q) \<Rightarrow> Some (newnode, s\<lparr>VNodes := q, vheap := (vheap s)(newnode \<mapsto> n)\<rparr>))"

definition ReferenceVnode :: "vnode_state \<Rightarrow> addr \<Rightarrow> vnode_state option" where
  "ReferenceVnode s p =
     (case vheap s p of None \<Rightarrow> None
      | Some n \<Rightarrow>
          Some (s\<lparr>vheap := (vheap s)(p \<mapsto> n\<lparr>refCount := (refCount n + 1) mod 2 ^ 32\<rparr>)\<rparr>))"

definition GetVnode :: "bool \<Rightarrow> addr \<Rightarrow> vnode_state \<Rightarrow> u32 \<Rightarrow> u64 \<Rightarrow> (addr \<times> vnode_state) option" where
  "GetVnode alloc_ok newnode s m i =
     (case LookupVnode s m i of None \<Rightarrow> None
      | Some p \<Rightarrow>
          (case (if p = NULL then NewVnode alloc_ok newnode s m i else Some (p, s)) of None \<Rightarrow> None
           | Some (p', s') \<Rightarrow>
               if p' = NULL then Some (NULL, s')
               else map_option (Pair p') (ReferenceVnode s' p')))"

text \<open>
  \<open>PutVnode\<close> takes the last reference away: the vnode leaves the table, its file system is told if it
  has one (\<open>fs_of\<close> reads the \<open>fs\<close> field of a mount), and it is deleted.
\<close>

definition PutVnode :: "(addr \<Rightarrow> addr) \<Rightarrow> vnode_state \<Rightarrow> addr \<Rightarrow> vnode_state option" where
  "PutVnode fs_of s p =
     (case vheap s p of None \<Rightarrow> None
      | Some n \<Rightarrow>
          let n' = n\<lparr>refCount := (refCount n + (2 ^ 32 - 1)) mod 2 ^ 32\<rparr> in
          if refCount n' = 0 then
            if mountId (vnid n') = -1 then None
            else case QHash_remove (uhash qHash_VNodeId) (VNodes s) (vnid n') of None \<Rightarrow> None
            | Some (_, q) \<Rightarrow>
                Some (s\<lparr>VNodes := q, vheap := (vheap s)(p := None),
                       closed := (if mount n' \<noteq> NULL \<and> fs_of (mount n') \<noteq> NULL
                                  then closed s @ [p] else closed s)\<rparr>)
          else Some (s\<lparr>vheap := (vheap s)(p \<mapsto> n')\<rparr>))"

section \<open>Pipes as vnodes\<close>

definition PIPE_MOUNTID :: u32 where
  "PIPE_MOUNTID = 0xFFFFFFF1"

record pipe_state =
  vnodes :: vnode_state
  pipesCounter :: u64
  pipes :: "addr \<rightharpoonup> PipeDesc"

text \<open>
  \<open>newPipe\<close>: the results of the three allocations are the arguments \<open>newnode\<close>, \<open>pd\<close> and \<open>buf\<close>, and
  \<open>pipeFakeMount\<close> is the mount all pipes share.
\<close>

definition newPipe ::
  "(addr \<Rightarrow> addr) \<Rightarrow> addr \<Rightarrow> bool \<Rightarrow> addr \<Rightarrow> addr \<Rightarrow> addr \<Rightarrow> pipe_state \<Rightarrow> (addr \<times> pipe_state) option" where
  "newPipe fs_of pipeFakeMount alloc_ok newnode pd buf s =
     (case GetVnode alloc_ok newnode (vnodes s) PIPE_MOUNTID (pipesCounter s) of None \<Rightarrow> None
      | Some (vnd, vs) \<Rightarrow>
          if vnd = NULL then Some (NULL, s\<lparr>vnodes := vs\<rparr>)
          else
            (case vheap vs vnd of None \<Rightarrow> None
             | Some n \<Rightarrow>
                 let vs1 = vs\<lparr>vheap := (vheap vs)(vnd \<mapsto> n\<lparr>mount := pipeFakeMount\<rparr>)\<rparr> in
                 if pd = NULL \<or> buf = NULL then
                   map_option (\<lambda>vs2. (NULL, s\<lparr>vnodes := vs2\<rparr>)) (PutVnode fs_of vs1 vnd)
                 else
                   Some (vnd, s\<lparr>vnodes := vs1\<lparr>vheap := (vheap vs1)
                                  (vnd \<mapsto> n\<lparr>mount := pipeFakeMount, privdata := pd\<rparr>)\<rparr>,
                               pipesCounter := pipesCounter s + 1,
                               pipes := (pipes s)(pd \<mapsto> newPipeDesc buf)\<rparr>)))"

text \<open>\<open>CloseVNode\<close> frees the buffer and the descriptor; freeing a null pointer does nothing.\<close>

definition Pipe_CloseVNode :: "VNode \<Rightarrow> (addr \<rightharpoonup> PipeDesc) \<Rightarrow> int \<times> (addr \<rightharpoonup> PipeDesc)" where
  "Pipe_CloseVNode node ps = (0, if privdata node \<noteq> NULL then ps(privdata node := None) else ps)"

section \<open>Histories\<close>

text \<open>
  The holders of references, as a count per vnode: \<open>get\<close> hands out a reference, \<open>dup\<close> copies one, \<open>put\<close>
  gives one back. A step is allowed only to a holder, the allocator returns an address not in use, and
  no vnode reaches \<open>2 ^ 32 - 1\<close> references.
\<close>

inductive vnode_history :: "(addr \<Rightarrow> addr) \<Rightarrow> vnode_state \<Rightarrow> vnode_state \<Rightarrow> (addr \<Rightarrow> nat) \<Rightarrow> bool"
  for fs_of s0 where
  start: "vnode_history fs_of s0 s0 (\<lambda>p. 0)"
| get: "vnode_history fs_of s0 s r \<Longrightarrow> m \<noteq> -1 \<Longrightarrow> newnode \<noteq> NULL \<Longrightarrow> vheap s newnode = None \<Longrightarrow>
    \<forall>p. r p + 1 < 2 ^ 32 \<Longrightarrow> GetVnode True newnode s m i = Some (p, s') \<Longrightarrow>
    vnode_history fs_of s0 s' (r(p := r p + 1))"
| dup: "vnode_history fs_of s0 s r \<Longrightarrow> 0 < r p \<Longrightarrow> \<forall>p. r p + 1 < 2 ^ 32 \<Longrightarrow>
    ReferenceVnode s p = Some s' \<Longrightarrow> vnode_history fs_of s0 s' (r(p := r p + 1))"
| put: "vnode_history fs_of s0 s r \<Longrightarrow> 0 < r p \<Longrightarrow> PutVnode fs_of s p = Some s' \<Longrightarrow>
    vnode_history fs_of s0 s' (r(p := r p - 1))"

section \<open>The invariant\<close>

abbreviation vnode_map :: "vnode_state \<Rightarrow> VNodeId \<rightharpoonup> addr" where
  "vnode_map s \<equiv> qmap (uhash qHash_VNodeId) (VNodes s)"

text \<open>
  The table and the heap describe the same vnodes, each under its own identifier, and the count of a
  vnode is the number of references held.
\<close>

definition vnodes_ok :: "vnode_state \<Rightarrow> (addr \<Rightarrow> nat) \<Rightarrow> bool" where
  "vnodes_ok s r \<longleftrightarrow> qhash_ok (uhash qHash_VNodeId) (VNodes s)
     \<and> (\<forall>p n. vheap s p = Some n \<longrightarrow> p \<noteq> NULL \<and> mountId (vnid n) \<noteq> -1 \<and> vnode_map s (vnid n) = Some p
          \<and> refCount n = r p \<and> 0 < r p \<and> r p < 2 ^ 32)
     \<and> (\<forall>i p. vnode_map s i = Some p \<longrightarrow> (\<exists>n. vheap s p = Some n \<and> vnid n = i))
     \<and> (\<forall>p. vheap s p = None \<longrightarrow> r p = 0)"

lemma vnodes_okD:
  assumes "vnodes_ok s r"
  shows "qhash_ok (uhash qHash_VNodeId) (VNodes s)"
    and "vheap s p = Some n \<Longrightarrow> p \<noteq> NULL \<and> mountId (vnid n) \<noteq> -1 \<and> vnode_map s (vnid n) = Some p
          \<and> refCount n = r p \<and> 0 < r p \<and> r p < 2 ^ 32"
    and "vnode_map s i = Some p \<Longrightarrow> \<exists>n. vheap s p = Some n \<and> vnid n = i"
    and "vheap s p = None \<Longrightarrow> r p = 0"
  using assms by (auto simp: vnodes_ok_def)

lemma held_vnode:
  assumes "vnodes_ok s r" and "0 < r p"
  obtains n where "vheap s p = Some n"
  using assms vnodes_okD(4) [OF assms(1), of p] by (cases "vheap s p") auto

lemma LookupVnode_ok:
  assumes "vnodes_ok s r" and "m \<noteq> -1"
  shows "LookupVnode s m i = Some (case vnode_map s \<lparr>vid = i, mountId = m\<rparr> of None \<Rightarrow> NULL | Some p \<Rightarrow> p)"
  using assms by (simp add: LookupVnode_def QHash_value_ok vnodes_okD(1))

lemma vnodes_ok_update:
  assumes ok: "vnodes_ok s r" and n: "vheap s p = Some n" and k: "0 < k" "k < 2 ^ 32"
    and n': "vnid n' = vnid n" "refCount n' = k"
  shows "vnodes_ok (s\<lparr>vheap := (vheap s)(p \<mapsto> n')\<rparr>) (r(p := k))"
  unfolding vnodes_ok_def
proof (intro conjI allI impI)
  fix j p' assume "vnode_map (s\<lparr>vheap := (vheap s)(p \<mapsto> n')\<rparr>) j = Some p'"
  then show "\<exists>x. vheap (s\<lparr>vheap := (vheap s)(p \<mapsto> n')\<rparr>) p' = Some x \<and> vnid x = j"
    using vnodes_okD(3) [OF ok, of j p'] n n' by auto
qed (use vnodes_okD [OF ok] n k n' in \<open>auto split: if_splits\<close>)

lemma ReferenceVnode_ok:
  assumes ok: "vnodes_ok s r" and n: "vheap s p = Some n" and b: "r p + 1 < 2 ^ 32"
  shows "\<exists>s'. ReferenceVnode s p = Some s' \<and> vnodes_ok s' (r(p := r p + 1))"
proof -
  have "refCount n = r p" using vnodes_okD(2) [OF ok n] by simp
  with b n have "ReferenceVnode s p
      = Some (s\<lparr>vheap := (vheap s)(p \<mapsto> n\<lparr>refCount := r p + 1\<rparr>)\<rparr>)"
    by (simp add: ReferenceVnode_def)
  moreover have "vnodes_ok (s\<lparr>vheap := (vheap s)(p \<mapsto> n\<lparr>refCount := r p + 1\<rparr>)\<rparr>) (r(p := r p + 1))"
    using vnodes_ok_update [OF ok n] b by simp
  ultimately show ?thesis by blast
qed

text \<open>The laws of the table used here, for the operations of the code.\<close>

lemma table_insert:
  assumes "qhash_ok (uhash qHash_VNodeId) q"
  shows "\<exists>b q'. QHash_insert (uhash qHash_VNodeId) True q i p = Some (b, q')
    \<and> qhash_ok (uhash qHash_VNodeId) q'
    \<and> qmap (uhash qHash_VNodeId) q' = (qmap (uhash qHash_VNodeId) q)(i \<mapsto> p)"
  using qhash.insert_then_lookup [of "uhash qHash_VNodeId" q i p] assms by (auto simp: table_ok_def)

lemma table_insert_no_memory:
  assumes "qhash_ok (uhash qHash_VNodeId) q" and "qmap (uhash qHash_VNodeId) q i = None"
  shows "\<exists>q'. QHash_insert (uhash qHash_VNodeId) False q i p = Some (False, q')
    \<and> qhash_ok (uhash qHash_VNodeId) q' \<and> qmap (uhash qHash_VNodeId) q' = qmap (uhash qHash_VNodeId) q"
  using qhash.insert_without_memory [of "uhash qHash_VNodeId" q i p] assms by (auto simp: table_ok_def)

lemma table_remove:
  assumes "qhash_ok (uhash qHash_VNodeId) q"
  shows "\<exists>b q'. QHash_remove (uhash qHash_VNodeId) q i = Some (b, q')
    \<and> qhash_ok (uhash qHash_VNodeId) q'
    \<and> qmap (uhash qHash_VNodeId) q' = (qmap (uhash qHash_VNodeId) q)(i := None)"
  using qhash.remove_then_lookup [of "uhash qHash_VNodeId" q i] assms by (auto simp: table_ok_def)

lemma GetVnode_new:
  assumes ok: "vnodes_ok s r" and m: "m \<noteq> -1" and new: "newnode \<noteq> NULL" "vheap s newnode = None"
    and none: "vnode_map s \<lparr>vid = i, mountId = m\<rparr> = None"
  shows "\<exists>s'. GetVnode True newnode s m i = Some (newnode, s')
    \<and> vnodes_ok s' (r(newnode := r newnode + 1))
    \<and> vheap s' = (vheap s)(newnode \<mapsto> \<lparr>vnid = \<lparr>vid = i, mountId = m\<rparr>, refCount = 1, mount = NULL,
         coveredBy = NULL, privdata = NULL, dirty = False\<rparr>)
    \<and> vnode_map s' = (vnode_map s)(\<lparr>vid = i, mountId = m\<rparr> \<mapsto> newnode) \<and> closed s' = closed s"
proof -
  let ?i = "\<lparr>vid = i, mountId = m\<rparr>"
  let ?n = "\<lparr>vnid = ?i, refCount = 1, mount = NULL, coveredBy = NULL, privdata = NULL, dirty = False\<rparr>"
  from table_insert [OF vnodes_okD(1) [OF ok], of ?i newnode] obtain b q where
    q: "QHash_insert (uhash qHash_VNodeId) True (VNodes s) ?i newnode = Some (b, q)"
    "qhash_ok (uhash qHash_VNodeId) q"
    "qmap (uhash qHash_VNodeId) q = (vnode_map s)(?i \<mapsto> newnode)" by blast
  let ?s = "s\<lparr>VNodes := q, vheap := (vheap s)(newnode \<mapsto> ?n)\<rparr>"
  have "GetVnode True newnode s m i = Some (newnode, ?s)"
    using LookupVnode_ok [OF ok m, of i] none new q(1)
    by (simp add: GetVnode_def NewVnode_def ReferenceVnode_def)
  moreover have "vnodes_ok ?s (r(newnode := r newnode + 1))"
    unfolding vnodes_ok_def
  proof (intro conjI allI impI)
    fix p n assume h: "vheap ?s p = Some n"
    show "p \<noteq> NULL" "mountId (vnid n) \<noteq> -1" "refCount n = (r(newnode := r newnode + 1)) p"
      "0 < (r(newnode := r newnode + 1)) p" "(r(newnode := r newnode + 1)) p < 2 ^ 32"
      using h new m vnodes_okD(2) [OF ok, of p n] vnodes_okD(4) [OF ok new(2)]
      by (auto split: if_splits)
    show "vnode_map ?s (vnid n) = Some p"
      using h none vnodes_okD(2) [OF ok, of p n] by (auto simp: q(3) split: if_splits)
  next
    fix j p assume "vnode_map ?s j = Some p"
    then show "\<exists>n. vheap ?s p = Some n \<and> vnid n = j"
      using vnodes_okD(3) [OF ok, of j p] new(2) by (auto simp: q(3) split: if_splits)
  next
    fix p assume "vheap ?s p = None"
    then show "(r(newnode := r newnode + 1)) p = 0"
      using vnodes_okD(4) [OF ok, of p] by (auto split: if_splits)
  qed (simp add: q(2))
  ultimately show ?thesis using q(3) by simp
qed

text \<open>When the node for the table cannot be allocated the vnode is created all the same, outside the table.\<close>

lemma GetVnode_unlisted:
  assumes ok: "vnodes_ok s r" and m: "m \<noteq> -1" and new: "newnode \<noteq> NULL"
    and none: "vnode_map s \<lparr>vid = i, mountId = m\<rparr> = None"
  shows "\<exists>s'. GetVnode False newnode s m i = Some (newnode, s') \<and> qhash_ok (uhash qHash_VNodeId) (VNodes s')
    \<and> vheap s' = (vheap s)(newnode \<mapsto> \<lparr>vnid = \<lparr>vid = i, mountId = m\<rparr>, refCount = 1, mount = NULL,
         coveredBy = NULL, privdata = NULL, dirty = False\<rparr>)
    \<and> vnode_map s' = vnode_map s"
proof -
  let ?i = "\<lparr>vid = i, mountId = m\<rparr>"
  from table_insert_no_memory [OF vnodes_okD(1) [OF ok] none, of newnode] obtain q where
    "QHash_insert (uhash qHash_VNodeId) False (VNodes s) ?i newnode = Some (False, q)"
    "qhash_ok (uhash qHash_VNodeId) q" "qmap (uhash qHash_VNodeId) q = vnode_map s" by blast
  then show ?thesis
    using LookupVnode_ok [OF ok m, of i] none new by (simp add: GetVnode_def NewVnode_def ReferenceVnode_def)
qed

text \<open>The last reference to a vnode, in the table or not.\<close>

lemma PutVnode_last:
  assumes "qhash_ok (uhash qHash_VNodeId) (VNodes s)" and "vheap s p = Some n" and "refCount n = 1"
    and "mountId (vnid n) \<noteq> -1"
  shows "\<exists>s'. PutVnode fs_of s p = Some s' \<and> vheap s' = (vheap s)(p := None)
    \<and> vnode_map s' = (vnode_map s)(vnid n := None)"
  using table_remove [OF assms(1), of "vnid n"] assms(2-) by (auto simp: PutVnode_def Let_def)

lemma GetVnode_known:
  assumes ok: "vnodes_ok s r" and m: "m \<noteq> -1" and p: "vnode_map s \<lparr>vid = i, mountId = m\<rparr> = Some p"
    and b: "r p + 1 < 2 ^ 32"
  shows "\<exists>s'. GetVnode True newnode s m i = Some (p, s') \<and> vnodes_ok s' (r(p := r p + 1))"
proof -
  from vnodes_okD(3) [OF ok p] obtain n where n: "vheap s p = Some n" by blast
  with vnodes_okD(2) [OF ok n] ReferenceVnode_ok [OF ok n b] LookupVnode_ok [OF ok m, of i] p
  show ?thesis by (auto simp: GetVnode_def)
qed

lemma PutVnode_ok:
  assumes ok: "vnodes_ok s r" and n: "vheap s p = Some n"
  shows "\<exists>s'. PutVnode fs_of s p = Some s' \<and> vnodes_ok s' (r(p := r p - 1))
    \<and> (r p = 1 \<longrightarrow> vheap s' = (vheap s)(p := None) \<and> vnode_map s' = (vnode_map s)(vnid n := None))"
proof -
  note d = vnodes_okD(2) [OF ok n]
  then have rc: "(refCount n + (2 ^ 32 - 1)) mod 2 ^ 32 = r p - 1"
  proof -
    from d have "refCount n + (2 ^ 32 - 1) = (r p - 1) + 2 ^ 32" by simp
    moreover from d have "r p - 1 < 2 ^ 32" by auto
    ultimately show ?thesis by (simp only: mod_add_self2 mod_less)
  qed
  show ?thesis
  proof (cases "r p = 1")
    case True
    from table_remove [OF vnodes_okD(1) [OF ok], of "vnid n"] obtain b q where
      q: "QHash_remove (uhash qHash_VNodeId) (VNodes s) (vnid n) = Some (b, q)"
      "qhash_ok (uhash qHash_VNodeId) q"
      "qmap (uhash qHash_VNodeId) q = (vnode_map s)(vnid n := None)" by blast
    have ok': "vnodes_ok (s\<lparr>VNodes := q, vheap := (vheap s)(p := None), closed := c\<rparr>) (r(p := r p - 1))"
      for c
      using ok q n d True
      by (auto simp: vnodes_ok_def split: if_splits) (metis option.inject)+
    with True n d rc q show ?thesis by (simp add: PutVnode_def Let_def)
  next
    case False
    then have "vnodes_ok (s\<lparr>vheap := (vheap s)(p \<mapsto> n\<lparr>refCount := r p - 1\<rparr>)\<rparr>) (r(p := r p - 1))"
      using vnodes_ok_update [OF ok n] d by auto
    with False n d rc show ?thesis by (simp add: PutVnode_def Let_def)
  qed
qed

lemma GetVnode_ok:
  assumes ok: "vnodes_ok s r" and "m \<noteq> -1" and "newnode \<noteq> NULL" and "vheap s newnode = None"
    and b: "\<forall>p. r p + 1 < 2 ^ 32"
  shows "\<exists>p s'. GetVnode True newnode s m i = Some (p, s') \<and> vnodes_ok s' (r(p := r p + 1))
    \<and> p = (case vnode_map s \<lparr>vid = i, mountId = m\<rparr> of None \<Rightarrow> newnode | Some p \<Rightarrow> p)"
  using GetVnode_new [OF assms(1-4), of i] GetVnode_known [OF assms(1,2), of i _ newnode] b
  by (cases "vnode_map s \<lparr>vid = i, mountId = m\<rparr>") auto

definition vnode_start :: vnode_state where
  "vnode_start = VNodeManager_Init
     \<lparr>VNodes = QHash_init QHASH_DEFAULT_CAPACITY, vheap = Map.empty, closed = []\<rparr>"

lemma vnode_start_fields:
  "VNodes vnode_start = QHash_init 2" "vheap vnode_start = Map.empty"
  by (simp_all add: vnode_start_def VNodeManager_Init_def QHASH_DEFAULT_CAPACITY_def initFromHash_def
      QHash_isEmpty_def QHash_init_def)

lemma empty_table:
  fixes q :: "(VNodeId, addr) QHash"
  assumes "q = QHash_init 2"
  shows "qhash_ok (uhash qHash_VNodeId) q" and "qmap (uhash qHash_VNodeId) q = Map.empty"
  using QHash_init_ok [of 2 "uhash qHash_VNodeId"] by (auto simp: assms)

lemma vnode_start_ok: "vnodes_ok vnode_start (\<lambda>p. 0)"
  using empty_table by (auto simp: vnodes_ok_def vnode_start_fields)

lemma vnode_history_ok:
  assumes "vnode_history fs_of s0 s r" and "vnodes_ok s0 (\<lambda>p. 0)"
  shows "vnodes_ok s r"
  using assms
proof (induction rule: vnode_history.induct)
  case (get s r m newnode i p s')
  then have "vnodes_ok s r" by simp
  from GetVnode_ok [OF this get.hyps(2-5), of i] obtain p1 s1 where
    "GetVnode True newnode s m i = Some (p1, s1)" "vnodes_ok s1 (r(p1 := r p1 + 1))" by blast
  with get.hyps(6) show ?case by (simp add: fun_upd_def)
next
  case (dup s r p s')
  then have ok: "vnodes_ok s r" by simp
  from held_vnode [OF ok dup.hyps(2)] obtain n where "vheap s p = Some n" .
  from ReferenceVnode_ok [OF ok this] dup.hyps(3,4) show ?case by (auto simp: fun_upd_def)
next
  case (put s r p s')
  then have ok: "vnodes_ok s r" by simp
  from held_vnode [OF ok put.hyps(2)] obtain n where "vheap s p = Some n" .
  from PutVnode_ok [OF ok this, of fs_of] put.hyps(3) show ?case by (auto simp: fun_upd_def)
qed

section \<open>Properties\<close>



text \<open>
  C26: \<open>newPipe\<close>, when its number is not in use, with every result of its allocations. When there is memory
  for the vnode, the descriptor and the buffer, it returns the new vnode with one reference, the pipe mount and
  an empty pipe, and the next pipe gets another number; the vnode is in the table if there was memory for the
  table's node as well, and otherwise lives outside the table, which nobody notices. When the vnode, the
  descriptor or the buffer cannot be allocated it returns \<open>NULL\<close> with the counter, the vnodes, the entries of
  the table and the pipes as they were.
\<close>
theorem newPipe_creates_or_undoes:
  assumes "vnodes_ok (vnodes s) r" and "newnode \<noteq> NULL \<longrightarrow> vheap (vnodes s) newnode = None"
    and "vnode_map (vnodes s) \<lparr>vid = pipesCounter s, mountId = PIPE_MOUNTID\<rparr> = None"
  shows "\<exists>p s'. newPipe fs_of fake alloc_ok newnode pd buf s = Some (p, s') \<and>
    (if newnode \<noteq> NULL \<and> pd \<noteq> NULL \<and> buf \<noteq> NULL then
       p = newnode \<and> pipesCounter s' = pipesCounter s + 1
       \<and> (\<exists>n. vheap (vnodes s') = (vheap (vnodes s))(newnode \<mapsto> n) \<and> refCount n = 1
             \<and> mount n = fake \<and> privdata n = pd)
       \<and> vnode_map (vnodes s') = (if alloc_ok
            then (vnode_map (vnodes s))(\<lparr>vid = pipesCounter s, mountId = PIPE_MOUNTID\<rparr> \<mapsto> newnode)
            else vnode_map (vnodes s))
       \<and> pipes s' = (pipes s)(pd \<mapsto> newPipeDesc buf)
     else
       p = NULL \<and> pipesCounter s' = pipesCounter s \<and> vheap (vnodes s') = vheap (vnodes s)
       \<and> vnode_map (vnodes s') = vnode_map (vnodes s) \<and> pipes s' = pipes s)"
proof (cases "newnode = NULL")
  case True
  then show ?thesis
    using LookupVnode_ok [OF assms(1), of PIPE_MOUNTID "pipesCounter s"] assms(3)
    by (simp add: newPipe_def GetVnode_def NewVnode_def PIPE_MOUNTID_def)
next
  case new: False
  let ?id = "\<lparr>vid = pipesCounter s, mountId = PIPE_MOUNTID\<rparr>"
  have m: "PIPE_MOUNTID \<noteq> -1" by (simp add: PIPE_MOUNTID_def)
  have fresh: "vheap (vnodes s) newnode = None" using assms(2) new by simp
  let ?n = "\<lparr>vnid = ?id, refCount = 1, mount = NULL, coveredBy = NULL, privdata = NULL, dirty = False\<rparr>"
  from GetVnode_new [OF assms(1) m new fresh assms(3)] GetVnode_unlisted [OF assms(1) m new assms(3)]
  obtain vs where g: "GetVnode alloc_ok newnode (vnodes s) PIPE_MOUNTID (pipesCounter s) = Some (newnode, vs)"
    "qhash_ok (uhash qHash_VNodeId) (VNodes vs)" "vheap vs = (vheap (vnodes s))(newnode \<mapsto> ?n)"
    "vnode_map vs = (if alloc_ok then (vnode_map (vnodes s))(?id \<mapsto> newnode) else vnode_map (vnodes s))"
    by (cases alloc_ok) (auto dest: vnodes_okD(1))
  let ?vs = "vs\<lparr>vheap := (vheap vs)(newnode \<mapsto> ?n\<lparr>mount := fake\<rparr>)\<rparr>"
  have h: "vheap ?vs newnode = Some (?n\<lparr>mount := fake\<rparr>)" and hn: "vheap vs newnode = Some ?n" using g(3) by simp_all
  from PutVnode_last [OF _ h, of fs_of] g(2) m obtain vs2 where
    p: "PutVnode fs_of ?vs newnode = Some vs2" "vheap vs2 = (vheap ?vs)(newnode := None)"
    "vnode_map vs2 = (vnode_map ?vs)(?id := None)" by auto
  have old: "vheap vs2 = vheap (vnodes s)" "vnode_map vs2 = vnode_map (vnodes s)"
    using p(2,3) g(3,4) fresh assms(3) by (auto simp: fun_upd_idem)
  show ?thesis using g hn new p(1) old by (auto simp: newPipe_def Let_def)
qed

theorem newPipe_creates_or_undoes_witness:
  "\<exists>p s' q s''. newPipe (\<lambda>p. NULL) 4 True 8 NULL 16
      \<lparr>vnodes = vnode_start, pipesCounter = 0, pipes = Map.empty\<rparr> = Some (p, s')
    \<and> p = NULL \<and> vheap (vnodes s') = Map.empty
    \<and> newPipe (\<lambda>p. NULL) 4 False 8 24 16 \<lparr>vnodes = vnode_start, pipesCounter = 0, pipes = Map.empty\<rparr> = Some (q, s'')
    \<and> q = 8 \<and> vnode_map (vnodes s'') = Map.empty"
proof -
  let ?s = "\<lparr>vnodes = vnode_start, pipesCounter = 0, pipes = Map.empty\<rparr>"
  have h: "vheap (vnodes ?s) = Map.empty" by (simp add: vnode_start_fields)
  have t: "vnode_map (vnodes ?s) = Map.empty"
    using empty_table by (simp add: vnode_start_fields)
  have ok: "vnodes_ok (vnodes ?s) (\<lambda>p. 0)" using vnode_start_ok by simp
  show ?thesis
    using newPipe_creates_or_undoes [OF ok, of 8 "\<lambda>p. NULL" 4 True NULL 16]
      newPipe_creates_or_undoes [OF ok, of 8 "\<lambda>p. NULL" 4 False 24 16] h t by (auto simp: NULL_def)
qed

end
