(* ===== verification/Buddy_Allocator.thy ===== *)
theory Buddy_Allocator
  imports Prelude
begin

text \<open>
  The allocator of virtual address space: src/src/kernel/lib/koof/BuddyAllocator.cpp. For every order \<open>i\<close>
  there is a list of free chunks of \<open>2 ^ i\<close> blocks, given by their first block. The doubly linked lists
  are lists here: a node is in one list only, is added at the front, and is freed when it is removed.

  The shifts \<open>1 << i\<close> with \<open>i\<close> up to 32 are those of the ia32 port, which uses the lower five bits of
  the count. The loop that collects the chunks after the first one need not end, so it is a partial
  function: \<open>None\<close> is a fault (an index outside \<open>m_lists\<close>) or a loop that never returns.
\<close>

section \<open>Data\<close>

record BuddyAllocator =
  m_orders :: nat
  m_lists :: "int list list"

definition shl1 :: "nat \<Rightarrow> int" where
  "shl1 i = 2 ^ (i mod 32)"

text \<open>\<open>n & (1 << i)\<close> for a number that is not negative.\<close>

definition has_bit :: "int \<Rightarrow> nat \<Rightarrow> bool" where
  "has_bit n i \<longleftrightarrow> bit n (i mod 32)"

fun log2i :: "int \<Rightarrow> nat \<Rightarrow> int" where
  "log2i n 0 = (if has_bit n 0 then 0 else -1)"
| "log2i n (Suc i) = (if has_bit n (Suc i) then int (Suc i) else log2i n i)"

definition Buddy_init :: "int \<Rightarrow> BuddyAllocator option" where
  "Buddy_init blocks =
     (let orders = nat (log2i blocks 32 + 1) in
      if orders = 0 then None
      else Some \<lparr>m_orders = orders, m_lists = (replicate orders [])[orders - 1 := [0]]\<rparr>)"

definition prependNewNode :: "int list list \<Rightarrow> nat \<Rightarrow> int \<Rightarrow> int list list option" where
  "prependNewNode ls index blockIndex =
     (if index < length ls then Some (ls[index := blockIndex # ls ! index]) else None)"

text \<open>Removing the node at position \<open>k\<close> of a list.\<close>

definition removeNode :: "int list list \<Rightarrow> nat \<Rightarrow> nat \<Rightarrow> int list list" where
  "removeNode ls index k = ls[index := take k (ls ! index) @ drop (Suc k) (ls ! index)]"

section \<open>Allocation anywhere\<close>

text \<open>
  \<open>for (j = i - 1; j >= 0; j--)\<close>: the remaining blocks from \<open>base\<close> on are returned as chunks, the largest
  at the end.
\<close>

fun split_top :: "nat \<Rightarrow> int \<Rightarrow> int \<Rightarrow> int list list \<Rightarrow> int list list option" where
  "split_top 0 base remainingFreeBlocks ls = Some ls"
| "split_top (Suc j) base remainingFreeBlocks ls =
     (if has_bit remainingFreeBlocks j then
        case prependNewNode ls j (base + remainingFreeBlocks - shl1 j) of None \<Rightarrow> None
        | Some ls' \<Rightarrow> split_top j base (remainingFreeBlocks - shl1 j) ls'
      else split_top j base remainingFreeBlocks ls)"

function allocate_from :: "BuddyAllocator \<Rightarrow> int \<Rightarrow> nat \<Rightarrow> (int \<times> BuddyAllocator) option" where
  "allocate_from b sizeInBlocks i =
     (if i < m_orders b then
        if m_lists b ! i \<noteq> [] then
          let foundBlockIndex = hd (m_lists b ! i);
              ls = removeNode (m_lists b) i 0 in
          (case split_top i (foundBlockIndex + sizeInBlocks) (shl1 i - sizeInBlocks) ls of
             None \<Rightarrow> None
           | Some ls' \<Rightarrow> Some (foundBlockIndex, b\<lparr>m_lists := ls'\<rparr>))
        else allocate_from b sizeInBlocks (Suc i)
      else Some (-1, b))"
  by pat_completeness auto
termination by (relation "measure (\<lambda>(b, s, i). m_orders b - i)") auto

definition allocateBlocks :: "BuddyAllocator \<Rightarrow> int \<Rightarrow> (int \<times> BuddyAllocator) option" where
  "allocateBlocks b sizeInBlocks =
     (let l = log2i sizeInBlocks (m_orders b) in
      if l < 0 then None
      else allocate_from b sizeInBlocks
             (nat l + (if unset_bit (nat l mod 32) sizeInBlocks \<noteq> 0 then 1 else 0)))"

section \<open>Allocation at a given block\<close>

text \<open>The position of the first element of a list with a property.\<close>

fun position :: "(int \<Rightarrow> bool) \<Rightarrow> int list \<Rightarrow> nat option" where
  "position P [] = None"
| "position P (x # xs) = (if P x then Some 0 else map_option Suc (position P xs))"

text \<open>
  \<open>allocateAlignedBlocks\<close>: the free chunk that starts at the block, from the largest order down; its
  size, or 0.
\<close>

fun allocateAlignedBlocks :: "nat \<Rightarrow> int list list \<Rightarrow> int \<Rightarrow> int \<times> int list list" where
  "allocateAlignedBlocks 0 ls blockIndex = (0, ls)"
| "allocateAlignedBlocks (Suc i) ls blockIndex =
     (case position (\<lambda>x. x = blockIndex) (ls ! i) of
        Some k \<Rightarrow> (shl1 i, removeNode ls i k)
      | None \<Rightarrow> allocateAlignedBlocks i ls blockIndex)"

text \<open>The first split: the blocks before the wanted one, the largest chunk first.\<close>

fun split_bottom :: "nat \<Rightarrow> int \<Rightarrow> int \<Rightarrow> int list list \<Rightarrow> (int \<times> int list list) option" where
  "split_bottom 0 newBlockIndex remainingFreeBlocks ls = Some (newBlockIndex, ls)"
| "split_bottom (Suc j) newBlockIndex remainingFreeBlocks ls =
     (if has_bit remainingFreeBlocks j then
        case prependNewNode ls j newBlockIndex of None \<Rightarrow> None
        | Some ls' \<Rightarrow> split_bottom j (newBlockIndex + shl1 j) remainingFreeBlocks ls'
      else split_bottom j newBlockIndex remainingFreeBlocks ls)"

text \<open>\<open>do ... while (blocksToRead > 0)\<close>: ls, next block, blocks to read and size of the last chunk.\<close>

partial_function (option) read_chunks ::
  "nat \<Rightarrow> int list list \<Rightarrow> int \<Rightarrow> int \<Rightarrow> (int list list \<times> int \<times> int \<times> int) option" where
  "read_chunks orders ls newBlockIndex blocksToRead =
     (case allocateAlignedBlocks orders ls newBlockIndex of (lastReadChunkSize, ls') \<Rightarrow>
        if 0 < blocksToRead - lastReadChunkSize
        then read_chunks orders ls' (newBlockIndex + lastReadChunkSize) (blocksToRead - lastReadChunkSize)
        else Some (ls', newBlockIndex + lastReadChunkSize, blocksToRead - lastReadChunkSize,
                   lastReadChunkSize))"

text \<open>The body for the chunk at position \<open>k\<close> of order \<open>i\<close>.\<close>

definition allocate_in_chunk ::
  "BuddyAllocator \<Rightarrow> nat \<Rightarrow> nat \<Rightarrow> int \<Rightarrow> int \<Rightarrow> (int \<times> BuddyAllocator) option" where
  "allocate_in_chunk b i k blockIndex sizeInBlocks = do {
     let fc = m_lists b ! i ! k;
     let chunkSizeInBlocks = shl1 i;
     let ls = removeNode (m_lists b) i k;
     let remainingFreeBlocks = blockIndex - fc;
     (newBlockIndex, ls) \<leftarrow> split_bottom i (blockIndex - remainingFreeBlocks) remainingFreeBlocks ls;
     let blocksToRead = - (chunkSizeInBlocks - sizeInBlocks - (blockIndex - fc));
     (ls, newBlockIndex, blocksToRead, remainingSize) \<leftarrow>
       (if 0 < blocksToRead then do {
          (ls, newBlockIndex, blocksToRead, lastReadChunkSize) \<leftarrow>
            read_chunks (m_orders b) ls (newBlockIndex + (fc + chunkSizeInBlocks - blockIndex)) blocksToRead;
          let newBlockIndex = newBlockIndex - lastReadChunkSize;
          Some (ls, newBlockIndex, blocksToRead, blockIndex + sizeInBlocks - newBlockIndex) }
        else Some (ls, newBlockIndex + sizeInBlocks, blocksToRead, 0));
     ls \<leftarrow> (if blocksToRead < 0 then split_top i (newBlockIndex + remainingSize) (- blocksToRead) ls
              else Some ls);
     Some (blockIndex, b\<lparr>m_lists := ls\<rparr>) }"

fun allocate_at_from :: "nat \<Rightarrow> BuddyAllocator \<Rightarrow> int \<Rightarrow> int \<Rightarrow> (int \<times> BuddyAllocator) option" where
  "allocate_at_from 0 b blockIndex sizeInBlocks = Some (-1, b)"
| "allocate_at_from (Suc i) b blockIndex sizeInBlocks =
     (case position (\<lambda>fc. fc \<le> blockIndex \<and> blockIndex \<le> fc + shl1 i) (m_lists b ! i) of
        Some k \<Rightarrow> allocate_in_chunk b i k blockIndex sizeInBlocks
      | None \<Rightarrow> allocate_at_from i b blockIndex sizeInBlocks)"

definition allocateBlocks_at :: "BuddyAllocator \<Rightarrow> int \<Rightarrow> int \<Rightarrow> (int \<times> BuddyAllocator) option" where
  "allocateBlocks_at b blockIndex sizeInBlocks = allocate_at_from (m_orders b) b blockIndex sizeInBlocks"

section \<open>Release\<close>

definition freeAlignedBlock :: "int list list \<Rightarrow> int \<Rightarrow> int \<Rightarrow> int list list option" where
  "freeAlignedBlock ls blockIndex order = prependNewNode ls (nat order) blockIndex"

text \<open>The first loop, for the bits \<open>i\<close> to 31 of the position.\<close>

function free_up :: "nat \<Rightarrow> int \<Rightarrow> int \<Rightarrow> int list list \<Rightarrow> (int \<times> int list list) option" where
  "free_up i pos endBlock ls =
     (if i < 32 then
        if has_bit pos i \<and> pos + shl1 i \<le> endBlock then
          case freeAlignedBlock ls pos (shl1 i) of None \<Rightarrow> None
          | Some ls' \<Rightarrow> free_up (Suc i) (pos + shl1 i) endBlock ls'
        else free_up (Suc i) pos endBlock ls
      else Some (pos, ls))"
  by pat_completeness auto
termination by (relation "measure (\<lambda>(i, pos, e, l). 32 - i)") auto

text \<open>The second loop, for the bits 32 down to 0 of what remains.\<close>

fun free_down :: "nat \<Rightarrow> int \<Rightarrow> int \<Rightarrow> int list list \<Rightarrow> int list list option" where
  "free_down 0 pos remaining ls = Some ls"
| "free_down (Suc i) pos remaining ls =
     (if has_bit remaining i then
        case freeAlignedBlock ls pos (shl1 i) of None \<Rightarrow> None
        | Some ls' \<Rightarrow> free_down i (pos + shl1 i) remaining ls'
      else free_down i pos remaining ls)"

definition freeBlocks :: "BuddyAllocator \<Rightarrow> int \<Rightarrow> int \<Rightarrow> BuddyAllocator option" where
  "freeBlocks b firstBlockNumber sizeInBlocks = do {
     (pos, ls) \<leftarrow> free_up 0 firstBlockNumber (firstBlockNumber + sizeInBlocks) (m_lists b);
     ls \<leftarrow> free_down 33 pos (firstBlockNumber + sizeInBlocks - pos) ls;
     Some (b\<lparr>m_lists := ls\<rparr>) }"

declare allocate_from.simps [simp del] free_up.simps [simp del]

section \<open>Who owns a block\<close>

text \<open>
  \<open>owners\<close> counts the free chunks that contain a block. The invariant says that it is at most one,
  that is, free chunks are disjoint and no chunk is listed twice.
\<close>

definition covers :: "int \<Rightarrow> nat \<Rightarrow> int \<Rightarrow> bool" where
  "covers x i n \<longleftrightarrow> x \<le> n \<and> n < x + 2 ^ i"

definition owners :: "int list list \<Rightarrow> int \<Rightarrow> nat" where
  "owners ls n = (\<Sum>i < length ls. length (filter (\<lambda>x. covers x i n) (ls ! i)))"

definition within :: "int \<Rightarrow> int \<Rightarrow> int \<Rightarrow> nat" where
  "within a s n = (if a \<le> n \<and> n < a + s then 1 else 0)"

definition chunks_nonneg :: "int list list \<Rightarrow> bool" where
  "chunks_nonneg ls \<longleftrightarrow> (\<forall>l \<in> set ls. \<forall>x \<in> set l. 0 \<le> x)"

definition buddy_ok :: "BuddyAllocator \<Rightarrow> bool" where
  "buddy_ok b \<longleftrightarrow> length (m_lists b) = m_orders b \<and> m_orders b \<le> 31
     \<and> chunks_nonneg (m_lists b) \<and> (\<forall>n. owners (m_lists b) n \<le> 1)"

lemma owners_update:
  assumes "i < length ls"
  shows "owners (ls[i := xs]) n + length (filter (\<lambda>x. covers x i n) (ls ! i))
    = owners ls n + length (filter (\<lambda>x. covers x i n) xs)"
proof -
  let ?f = "\<lambda>ls j. length (filter (\<lambda>x. covers x j n) (ls ! j))"
  have "owners ls n = ?f ls i + (\<Sum>j \<in> {..<length ls} - {i}. ?f ls j)" if "i < length ls"
    for ls :: "int list list"
    unfolding owners_def using that by (intro sum.remove) auto
  from this [of ls] this [of "ls[i := xs]"] assms
  have "owners ls n = ?f ls i + (\<Sum>j \<in> {..<length ls} - {i}. ?f ls j)"
    and "owners (ls[i := xs]) n = length (filter (\<lambda>x. covers x i n) xs)
      + (\<Sum>j \<in> {..<length ls} - {i}. ?f (ls[i := xs]) j)" by simp_all
  moreover have "(\<Sum>j \<in> {..<length ls} - {i}. ?f (ls[i := xs]) j)
      = (\<Sum>j \<in> {..<length ls} - {i}. ?f ls j)" by (intro sum.cong) auto
  ultimately show ?thesis by simp
qed

lemma owners_prepend:
  assumes "prependNewNode ls i x = Some ls'"
  shows "owners ls' n = owners ls n + within x (2 ^ i) n" and "length ls' = length ls"
    and "chunks_nonneg ls \<Longrightarrow> 0 \<le> x \<Longrightarrow> chunks_nonneg ls'"
proof -
  from assms have i: "i < length ls" and e: "ls' = ls[i := x # ls ! i]"
    by (auto simp: prependNewNode_def split: if_splits)
  show "owners ls' n = owners ls n + within x (2 ^ i) n"
    using owners_update [OF i, of "x # ls ! i" n] by (auto simp: e within_def covers_def)
  show "length ls' = length ls" by (simp add: e)
  assume "chunks_nonneg ls" "0 \<le> x"
  with i show "chunks_nonneg ls'"
    by (auto simp: e chunks_nonneg_def dest!: set_update_subset_insert [THEN subsetD]) (metis nth_mem)
qed

lemma owners_remove:
  assumes i: "i < length ls" and k: "k < length (ls ! i)"
  shows "owners ls n = owners (removeNode ls i k) n + within (ls ! i ! k) (2 ^ i) n"
    and "chunks_nonneg ls \<Longrightarrow> chunks_nonneg (removeNode ls i k)"
    and "length (removeNode ls i k) = length ls"
proof -
  have "length (filter (\<lambda>x. covers x i n) (ls ! i))
      = length (filter (\<lambda>x. covers x i n) (take k (ls ! i) @ drop (Suc k) (ls ! i)))
        + within (ls ! i ! k) (2 ^ i) n"
    using arg_cong [OF id_take_nth_drop [OF k], of "\<lambda>l. length (filter (\<lambda>x. covers x i n) l)"]
    by (simp add: within_def covers_def)
  then show "owners ls n = owners (removeNode ls i k) n + within (ls ! i ! k) (2 ^ i) n"
    using owners_update [OF i, of "take k (ls ! i) @ drop (Suc k) (ls ! i)" n] by (simp add: removeNode_def)
  show "chunks_nonneg ls \<Longrightarrow> chunks_nonneg (removeNode ls i k)"
    using i by (fastforce simp: chunks_nonneg_def removeNode_def
        dest!: set_update_subset_insert [THEN subsetD] dest: in_set_takeD in_set_dropD)
  show "length (removeNode ls i k) = length ls" by (simp add: removeNode_def)
qed

lemma top_bit:
  fixes r :: int
  assumes "0 \<le> r" and "r < 2 ^ Suc j" and "j < 32"
  shows "has_bit r j \<longleftrightarrow> 2 ^ j \<le> r"
proof -
  have "r div 2 ^ j < 2"
  proof (rule ccontr)
    assume "\<not> r div 2 ^ j < 2"
    then have "2 ^ j * 2 \<le> 2 ^ j * (r div 2 ^ j)" by (intro mult_left_mono) auto
    moreover have "2 ^ j * (r div 2 ^ j) + r mod 2 ^ j = r" by simp
    moreover have "0 \<le> r mod 2 ^ j" by simp
    ultimately show False using assms(2) unfolding power_Suc by linarith
  qed
  moreover have "0 \<le> r div 2 ^ j" using assms(1) by (simp add: div_int_pos_iff)
  ultimately have "r div 2 ^ j = 0 \<or> r div 2 ^ j = 1" by linarith
  moreover have "r div 2 ^ j = 0 \<longleftrightarrow> r < 2 ^ j" using assms(1) by (auto simp: zdiv_eq_0_iff)
  ultimately show ?thesis using assms(3) by (auto simp: has_bit_def bit_iff_odd)
qed

lemma split_top_owners:
  assumes "0 \<le> r" and "r < 2 ^ j" and "j \<le> length ls" and "j \<le> 32"
  shows "\<exists>ls'. split_top j base r ls = Some ls' \<and> length ls' = length ls
    \<and> (\<forall>n. owners ls' n = owners ls n + within base r n)
    \<and> (chunks_nonneg ls \<longrightarrow> 0 \<le> base \<longrightarrow> chunks_nonneg ls')"
  using assms
proof (induction j arbitrary: r ls)
  case 0
  then show ?case by (simp add: within_def)
next
  case (Suc j)
  have sh: "shl1 j = 2 ^ j" using Suc.prems(4) by (simp add: shl1_def)
  show ?case
  proof (cases "2 ^ j \<le> r")
    case True
    then have hb: "has_bit r j" using top_bit [of r j] Suc.prems by simp
    obtain l1 where l1: "prependNewNode ls j (base + r - 2 ^ j) = Some l1"
      using Suc.prems(3) by (simp add: prependNewNode_def)
    note o = owners_prepend [OF l1]
    from Suc.IH [of "r - 2 ^ j" l1] True Suc.prems o(2) obtain ls' where
      ls': "split_top j base (r - 2 ^ j) l1 = Some ls'" "length ls' = length l1"
      "\<forall>n. owners ls' n = owners l1 n + within base (r - 2 ^ j) n"
      "chunks_nonneg l1 \<longrightarrow> 0 \<le> base \<longrightarrow> chunks_nonneg ls'" by auto
    have "within (base + r - 2 ^ j) (2 ^ j) n + within base (r - 2 ^ j) n = within base r n" for n
    proof -
      obtain P where P: "(2 :: int) ^ j = P" "0 < P" by simp
      show ?thesis using True P(2) unfolding P(1) within_def by auto
    qed
    with ls' l1 o hb sh True show ?thesis by (simp add: add.assoc)
  next
    case False
    then have "\<not> has_bit r j" using top_bit [of r j] Suc.prems by simp
    with Suc.IH [of r ls] False Suc.prems show ?thesis by simp
  qed
qed

lemma log2i_bounds:
  assumes "0 < n" and "n < 2 ^ Suc k" and "k \<le> 31"
  shows "\<exists>l. log2i n k = int l \<and> l \<le> k \<and> 2 ^ l \<le> n \<and> n < 2 ^ Suc l"
  using assms
proof (induction k)
  case 0
  then show ?case using top_bit [of n 0] by (intro exI [of _ 0]) simp
next
  case (Suc k)
  show ?case
  proof (cases "2 ^ Suc k \<le> n")
    case True
    then have "has_bit n (Suc k)" using top_bit [of n "Suc k"] Suc.prems by simp
    with True Suc.prems show ?thesis by (intro exI [of _ "Suc k"]) simp
  next
    case False
    then have "\<not> has_bit n (Suc k)" using top_bit [of n "Suc k"] Suc.prems by simp
    with Suc.IH False Suc.prems obtain l where "log2i n k = int l" "l \<le> k" "2 ^ l \<le> n" "n < 2 ^ Suc l"
      by auto
    with \<open>\<not> has_bit n (Suc k)\<close> show ?thesis by (intro exI [of _ l]) simp
  qed
qed

lemma unset_top_bit:
  fixes n :: int
  assumes "2 ^ l \<le> n" and "n < 2 ^ Suc l" and "l < 32"
  shows "unset_bit l n = n - 2 ^ l"
proof -
  have "bit n l" using top_bit [of n l] assms order_trans [of 0 "2 ^ l" n] by (simp add: has_bit_def)
  then show ?thesis by (simp add: unset_bit_eq)
qed

lemma allocate_from_ok:
  assumes ok: "buddy_ok b" and s: "0 < sz" "sz \<le> 2 ^ i"
  shows "\<exists>r b'. allocate_from b sz i = Some (r, b') \<and>
    (r = -1 \<and> b' = b \<and> (\<forall>j. i \<le> j \<longrightarrow> j < m_orders b \<longrightarrow> m_lists b ! j = [])
     \<or> 0 \<le> r \<and> buddy_ok b' \<and> (\<forall>n. owners (m_lists b) n = owners (m_lists b') n + within r sz n))"
  using s
proof (induction "m_orders b - i" arbitrary: i)
  case 0
  then show ?case by (subst allocate_from.simps) simp
next
  case (Suc d)
  from ok have len: "length (m_lists b) = m_orders b" "m_orders b \<le> 31" "chunks_nonneg (m_lists b)"
    by (simp_all add: buddy_ok_def)
  from Suc.hyps(2) have i: "i < m_orders b" by simp
  have sh: "shl1 i = 2 ^ i" using i len by (simp add: shl1_def)
  show ?case
  proof (cases "m_lists b ! i = []")
    case True
    have "(2 :: int) ^ i \<le> 2 ^ Suc i" by (intro power_increasing) auto
    with Suc.prems(2) have "sz \<le> 2 ^ Suc i" by (rule order_trans)
    then have "\<exists>r b'. allocate_from b sz (Suc i) = Some (r, b') \<and>
      (r = -1 \<and> b' = b \<and> (\<forall>j. Suc i \<le> j \<longrightarrow> j < m_orders b \<longrightarrow> m_lists b ! j = [])
       \<or> 0 \<le> r \<and> buddy_ok b' \<and> (\<forall>n. owners (m_lists b) n = owners (m_lists b') n + within r sz n))"
      using Suc.hyps(1) [of "Suc i"] Suc.hyps(2) Suc.prems(1) by simp
    moreover have "allocate_from b sz i = allocate_from b sz (Suc i)"
      using i True by (subst allocate_from.simps) simp
    moreover have "(\<forall>j. Suc i \<le> j \<longrightarrow> j < m_orders b \<longrightarrow> m_lists b ! j = [])
        \<longleftrightarrow> (\<forall>j. i \<le> j \<longrightarrow> j < m_orders b \<longrightarrow> m_lists b ! j = [])"
      using True by (metis le_neq_implies_less Suc_leI Suc_leD)
    ultimately show ?thesis by simp
  next
    case False
    let ?x = "hd (m_lists b ! i)" and ?l = "removeNode (m_lists b) i 0"
    have il: "i < length (m_lists b)" "0 < length (m_lists b ! i)" using i len False by simp_all
    note rm = owners_remove [OF il]
    have x: "m_lists b ! i ! 0 = ?x" using False by (simp add: hd_conv_nth)
    have nn: "0 \<le> ?x" using len(3) nth_mem [OF il(1)] False by (auto simp: chunks_nonneg_def)
    have "\<exists>ls'. split_top i (?x + sz) (2 ^ i - sz) ?l = Some ls' \<and> length ls' = length ?l
      \<and> (\<forall>n. owners ls' n = owners ?l n + within (?x + sz) (2 ^ i - sz) n)
      \<and> (chunks_nonneg ?l \<longrightarrow> 0 \<le> ?x + sz \<longrightarrow> chunks_nonneg ls')"
      using Suc.prems i len rm(3) by (intro split_top_owners) auto
    then obtain ls' where ls': "split_top i (?x + sz) (2 ^ i - sz) ?l = Some ls'"
      "length ls' = length ?l" "\<And>n. owners ls' n = owners ?l n + within (?x + sz) (2 ^ i - sz) n"
      "chunks_nonneg ls'" using rm(2) len(3) nn Suc.prems by auto
    have w: "within ?x (2 ^ i) n = within ?x sz n + within (?x + sz) (2 ^ i - sz) n" for n
      using Suc.prems by (auto simp: within_def)
    have o: "owners (m_lists b) n = owners ls' n + within ?x sz n" for n
      using rm(1) [of n] ls'(3) [of n] w [of n] by (simp add: x)
    have "owners ls' n \<le> 1" for n using o [of n] ok by (simp add: buddy_ok_def) (metis add_leD1)
    then have "buddy_ok (b\<lparr>m_lists := ls'\<rparr>)" using ls' rm(3) len by (simp add: buddy_ok_def)
    with o nn False i ls'(1) sh show ?thesis
      by (subst allocate_from.simps) (simp add: Let_def)
  qed
qed

section \<open>Allocation at a given block, and release\<close>

lemma split_bottom_owners:
  assumes "0 \<le> nb" and "j \<le> length ls" and "j \<le> 32"
  shows "\<exists>ls'. split_bottom j nb r ls = Some (nb + take_bit j r, ls') \<and> length ls' = length ls
    \<and> (\<forall>n. owners ls' n = owners ls n + within nb (take_bit j r) n)
    \<and> (chunks_nonneg ls \<longrightarrow> chunks_nonneg ls')"
  using assms
proof (induction j arbitrary: nb ls)
  case 0
  then show ?case by (simp add: within_def)
next
  case (Suc j)
  have sh: "shl1 j = 2 ^ j" "has_bit r j = bit r j" using Suc.prems(3) by (simp_all add: shl1_def has_bit_def)
  have tb: "take_bit (Suc j) r = (if bit r j then 2 ^ j else 0) + take_bit j r"
    by (simp add: take_bit_Suc_from_most)
  show ?case
  proof (cases "bit r j")
    case True
    obtain l1 where l1: "prependNewNode ls j nb = Some l1"
      using Suc.prems(2) by (simp add: prependNewNode_def)
    note o = owners_prepend [OF l1]
    have "0 \<le> nb + 2 ^ j" using Suc.prems(1) by simp
    from Suc.IH [OF this, of l1] Suc.prems o(2) obtain ls' where
      ls': "split_bottom j (nb + 2 ^ j) r l1 = Some (nb + 2 ^ j + take_bit j r, ls')" "length ls' = length l1"
      "\<forall>n. owners ls' n = owners l1 n + within (nb + 2 ^ j) (take_bit j r) n"
      "chunks_nonneg l1 \<longrightarrow> chunks_nonneg ls'" by auto
    have "within nb (2 ^ j) n + within (nb + 2 ^ j) (take_bit j r) n = within nb (2 ^ j + take_bit j r) n" for n
    proof -
      obtain P T where P: "(2 :: int) ^ j = P" "0 < P" "take_bit j r = T" "0 \<le> T" by simp
      show ?thesis using P(2,4) unfolding P(1,3) within_def by auto
    qed
    with ls' l1 o Suc.prems(1) True sh tb show ?thesis by (simp add: add.assoc)
  next
    case False
    with Suc.IH [of nb ls] Suc.prems sh tb show ?thesis by simp
  qed
qed

lemma position_SomeD: "position P xs = Some k \<Longrightarrow> k < length xs \<and> P (xs ! k)"
  by (induction xs arbitrary: k) (auto split: if_splits)

lemma position_None: "position P xs = None \<longleftrightarrow> (\<forall>x \<in> set xs. \<not> P x)"
  by (induction xs) auto

lemma owners_unique:
  assumes o: "owners ls n \<le> 1" and i: "i < length ls" "x \<in> set (ls ! i)" "covers x i n"
    and j: "j < length ls" "y \<in> set (ls ! j)" "covers y j n"
  shows "i = j" and "x = y"
proof -
  let ?f = "\<lambda>i. length (filter (\<lambda>x. covers x i n) (ls ! i))"
  have pos: "0 < ?f i" "0 < ?f j" using i j by (auto simp: length_greater_0_conv filter_empty_conv)
  have rm: "owners ls n = ?f i + (\<Sum>k \<in> {..<length ls} - {i}. ?f k)"
    unfolding owners_def using i(1) by (intro sum.remove) auto
  show ij: "i = j"
  proof (rule ccontr)
    assume "i \<noteq> j"
    then have "?f j \<le> (\<Sum>k \<in> {..<length ls} - {i}. ?f k)" using j(1) by (intro member_le_sum) auto
    with pos rm o show False by linarith
  qed
  have "?f i \<le> 1" using rm o by linarith
  then obtain z where "filter (\<lambda>x. covers x i n) (ls ! i) = [z]"
    using pos(1) by (cases "filter (\<lambda>x. covers x i n) (ls ! i)") auto
  then have e: "{x \<in> set (ls ! i). covers x i n} = {z}" by (metis set_filter list.set(1) list.set(2))
  have "x \<in> {z}" unfolding e [symmetric] using i by simp
  moreover have "y \<in> {z}" unfolding e [symmetric] using j ij by simp
  ultimately show "x = y" by simp
qed

lemma no_owner_no_chunk:
  assumes "owners ls n = 0" and "k \<le> length ls"
  shows "allocateAlignedBlocks k ls n = (0, ls)"
  using assms(2)
proof (induction k)
  case (Suc k)
  have "length (filter (\<lambda>x. covers x k n) (ls ! k)) = 0"
    using assms(1) Suc.prems by (auto simp: owners_def)
  then have "\<forall>x \<in> set (ls ! k). x \<noteq> n" by (auto simp: filter_empty_conv covers_def)
  then have "position (\<lambda>x. x = n) (ls ! k) = None" by (simp add: position_None)
  with Suc show ?case by simp
qed simp

lemma read_chunks_stuck:
  assumes "read_chunks k ls nb blocks = Some y" and "allocateAlignedBlocks k ls nb = (0, ls)" and "0 < blocks"
  shows False
proof -
  have "read_chunks k ls nb blocks = Some y \<Longrightarrow>
      allocateAlignedBlocks k ls nb = (0, ls) \<and> 0 < blocks \<longrightarrow> False" for k ls nb blocks y
    by (erule read_chunks.raw_induct [where P = "\<lambda>k ls nb blocks y.
          allocateAlignedBlocks k ls nb = (0, ls) \<and> 0 < blocks \<longrightarrow> False", rotated])
      (auto split: prod.splits if_splits)
  with assms show False by blast
qed

lemma allocate_in_chunk_inside:
  assumes ok: "buddy_ok b" and i: "i < m_orders b" and k: "k < length (m_lists b ! i)"
    and x: "x = m_lists b ! i ! k" and r: "x \<le> idx" "0 < sz" "idx + sz \<le> x + 2 ^ i"
  shows "\<exists>b'. allocate_in_chunk b i k idx sz = Some (idx, b') \<and> buddy_ok b'
    \<and> (\<forall>n. owners (m_lists b) n = owners (m_lists b') n + within idx sz n)"
proof -
  from ok have len: "length (m_lists b) = m_orders b" "m_orders b \<le> 31" "chunks_nonneg (m_lists b)"
    by (simp_all add: buddy_ok_def)
  have il: "i < length (m_lists b)" using i len by simp
  have sh: "shl1 i = 2 ^ i" using i len by (simp add: shl1_def)
  have nn: "0 \<le> x" using len(3) nth_mem [OF il] nth_mem [OF k] x by (auto simp: chunks_nonneg_def)
  note rm = owners_remove [OF il k]
  let ?l = "removeNode (m_lists b) i k"
  have tb: "take_bit i (idx - x) = idx - x" using r by (simp add: take_bit_int_eq_self)
  have "\<exists>ls'. split_bottom i x (idx - x) ?l = Some (x + take_bit i (idx - x), ls') \<and> length ls' = length ?l
    \<and> (\<forall>n. owners ls' n = owners ?l n + within x (take_bit i (idx - x)) n)
    \<and> (chunks_nonneg ?l \<longrightarrow> chunks_nonneg ls')"
    using nn i len rm(3) by (intro split_bottom_owners) auto
  then obtain l1 where l1: "split_bottom i x (idx - x) ?l = Some (idx, l1)" "length l1 = m_orders b"
    "\<And>n. owners l1 n = owners ?l n + within x (idx - x) n" "chunks_nonneg l1"
    using rm(2,3) len by (auto simp: tb)
  let ?r = "x + 2 ^ i - (idx + sz)"
  have "\<exists>ls'. split_top i (idx + sz) ?r l1 = Some ls' \<and> length ls' = length l1
    \<and> (\<forall>n. owners ls' n = owners l1 n + within (idx + sz) ?r n)
    \<and> (chunks_nonneg l1 \<longrightarrow> 0 \<le> idx + sz \<longrightarrow> chunks_nonneg ls')"
    using r i len l1(2) by (intro split_top_owners) auto
  then obtain l2 where l2: "split_top i (idx + sz) ?r l1 = Some l2" "length l2 = m_orders b"
    "\<And>n. owners l2 n = owners l1 n + within (idx + sz) ?r n" "chunks_nonneg l2"
    using l1 nn r by auto
  let ?b = "b\<lparr>m_lists := if ?r = 0 then l1 else l2\<rparr>"
  have w: "within x (2 ^ i) n = within x (idx - x) n + within idx sz n + within (idx + sz) ?r n" for n
    using r by (auto simp: within_def)
  have o: "owners (m_lists b) n = owners (m_lists ?b) n + within idx sz n" for n
    using rm(1) [of n] l1(3) [of n] l2(3) [of n] w [of n] x [symmetric]
    by (auto simp: within_def)
  have "owners (m_lists ?b) n \<le> 1" for n
    using o [of n] ok unfolding buddy_ok_def by (metis add_leD1)
  then have "buddy_ok ?b" using l1 l2 len by (auto simp: buddy_ok_def)
  moreover have "allocate_in_chunk b i k idx sz = Some (idx, ?b)"
    using l1(1) l2(1) r
    by (cases "?r = 0") (simp_all add: allocate_in_chunk_def Let_def sh x [symmetric] algebra_simps)
  ultimately show ?thesis using o by blast
qed

text \<open>The search for a chunk, when exactly one chunk is accepted.\<close>

lemma allocate_at_from_unique:
  assumes i: "i < k" and x: "x \<in> set (m_lists b ! i)" "x \<le> idx" "idx \<le> x + shl1 i"
    and u: "\<And>j y. j < k \<Longrightarrow> y \<in> set (m_lists b ! j) \<Longrightarrow> y \<le> idx \<Longrightarrow> idx \<le> y + shl1 j \<Longrightarrow> j = i \<and> y = x"
  shows "\<exists>p. p < length (m_lists b ! i) \<and> m_lists b ! i ! p = x
    \<and> allocate_at_from k b idx sz = allocate_in_chunk b i p idx sz"
  using i u
proof (induction k)
  case (Suc k)
  let ?P = "\<lambda>j fc. fc \<le> idx \<and> idx \<le> fc + shl1 j"
  show ?case
  proof (cases "k = i")
    case True
    obtain p where p: "position (?P i) (m_lists b ! i) = Some p"
      using x position_None [of "?P i" "m_lists b ! i"] by (cases "position (?P i) (m_lists b ! i)") auto
    from position_SomeD [OF p] Suc.prems(2) [of i "m_lists b ! i ! p"] True
    have "p < length (m_lists b ! i)" "m_lists b ! i ! p = x" by auto
    with p True show ?thesis by auto
  next
    case False
    then have "position (?P k) (m_lists b ! k) = None"
      using Suc.prems(2) [of k] by (auto simp: position_None)
    moreover have "\<exists>p. p < length (m_lists b ! i) \<and> m_lists b ! i ! p = x
        \<and> allocate_at_from k b idx sz = allocate_in_chunk b i p idx sz"
    proof (rule Suc.IH)
      show "i < k" using Suc.prems(1) False by simp
      show "j = i \<and> y = x"
        if "j < k" "y \<in> set (m_lists b ! j)" "y \<le> idx" "idx \<le> y + shl1 j" for j y
        using Suc.prems(2) [of j y] that by simp
    qed
    ultimately show ?thesis by simp
  qed
qed simp

lemma allocate_in_chunk_adjacent:
  assumes ok: "buddy_ok b" and i: "i < m_orders b" and k: "k < length (m_lists b ! i)"
    and x: "x = m_lists b ! i ! k" "idx = x + 2 ^ i" and sz: "0 < sz"
  shows "allocate_in_chunk b i k idx sz = None"
proof -
  from ok have len: "length (m_lists b) = m_orders b" "m_orders b \<le> 31" "chunks_nonneg (m_lists b)"
    by (simp_all add: buddy_ok_def)
  have il: "i < length (m_lists b)" using i len by simp
  have sh: "shl1 i = 2 ^ i" using i len by (simp add: shl1_def)
  have nn: "0 \<le> x" using len(3) nth_mem [OF il] nth_mem [OF k] x by (auto simp: chunks_nonneg_def)
  note rm = owners_remove [OF il k]
  let ?l = "removeNode (m_lists b) i k"
  have d: "idx - x = 2 ^ i" using x by simp
  have "take_bit i (2 ^ i :: int) = 0" by (simp add: take_bit_eq_mod)
  then obtain l1 where l1: "split_bottom i x (2 ^ i) ?l = Some (x, l1)" "length l1 = m_orders b"
    "owners l1 x = owners ?l x"
    using split_bottom_owners [of x i ?l "2 ^ i"] nn i len rm(3) by (auto simp: within_def)
  have "owners (m_lists b) x \<le> 1" using ok by (simp add: buddy_ok_def)
  then have "owners l1 x = 0" using rm(1) [of x] l1(3) x by (auto simp: within_def)
  from no_owner_no_chunk [OF this, of "m_orders b"] l1(2)
  have "read_chunks (m_orders b) l1 x sz = None"
    using read_chunks_stuck [of "m_orders b" l1 x sz] sz by (cases "read_chunks (m_orders b) l1 x sz") auto
  with l1(1) d sz show ?thesis
    by (simp add: allocate_in_chunk_def Let_def sh x(1) [symmetric] x(2))
qed

text \<open>The two loops of the release.\<close>

lemma free_up_idle:
  assumes "\<And>j. j < 32 \<Longrightarrow> has_bit pos j \<Longrightarrow> endBlock < pos + shl1 j"
  shows "free_up i pos endBlock ls = Some (pos, ls)"
proof (induction "32 - i" arbitrary: i)
  case 0
  then show ?case by (subst free_up.simps) simp
next
  case (Suc d)
  then have "free_up (Suc i) pos endBlock ls = Some (pos, ls)" by simp
  with assms [of i] show ?case by (subst free_up.simps) auto
qed

lemma free_down_one:
  assumes "0 < k" and "k \<le> 32"
  shows "free_down k pos 1 ls = freeAlignedBlock ls pos 1"
  using assms
proof (induction k)
  case (Suc k)
  then show ?case by (cases k) (auto simp: has_bit_def shl1_def bit_1_iff split: option.splits)
qed simp

text \<open>Allocation anywhere.\<close>

lemma allocateBlocks_ok:
  assumes "buddy_ok b" and "0 < sz" and "sz < 2 ^ Suc (m_orders b)"
  shows "\<exists>r b'. allocateBlocks b sz = Some (r, b') \<and>
    (r = -1 \<and> b' = b \<and> (\<forall>j < m_orders b. sz \<le> 2 ^ j \<longrightarrow> m_lists b ! j = [])
     \<or> 0 \<le> r \<and> buddy_ok b' \<and> (\<forall>n. owners (m_lists b) n = owners (m_lists b') n + within r sz n))"
proof -
  have o: "m_orders b \<le> 31" using assms(1) by (simp add: buddy_ok_def)
  from log2i_bounds [OF assms(2,3) o] obtain l where
    l: "log2i sz (m_orders b) = int l" "l \<le> m_orders b" "2 ^ l \<le> sz" "sz < 2 ^ Suc l" by blast
  define i where "i = l + (if unset_bit (l mod 32) sz \<noteq> 0 then 1 else 0)"
  have u: "unset_bit (l mod 32) sz = sz - 2 ^ l" using unset_top_bit [OF l(3,4)] l(2) o by simp
  have si: "sz \<le> 2 ^ i" using u l(4) by (auto simp: i_def)
  have small: "i \<le> j" if "sz \<le> 2 ^ j" for j
  proof (rule ccontr)
    assume "\<not> i \<le> j"
    then have "j \<le> l" "unset_bit (l mod 32) sz \<noteq> 0 \<or> j < l" by (auto simp: i_def split: if_splits)
    moreover have "(2 :: int) ^ j \<le> 2 ^ l" using \<open>j \<le> l\<close> by (intro power_increasing) auto
    moreover have "j < l \<Longrightarrow> (2 :: int) ^ j < 2 ^ l" by (rule power_strict_increasing) auto
    ultimately show False using that l(3) unfolding u by linarith
  qed
  have "allocateBlocks b sz = allocate_from b sz i"
    unfolding allocateBlocks_def Let_def l(1) by (simp add: i_def)
  with allocate_from_ok [OF assms(1,2) si] small show ?thesis by auto
qed

section \<open>Properties\<close>

text \<open>
  C11: An allocation of a positive number of blocks, less than \<open>2 ^ (m_orders + 1)\<close>, either returns -1,
  changes nothing and there is no free chunk of a sufficient order, or returns the start of a run of
  blocks all of which were free. Exactly these blocks stop being free, whatever the splitting of the
  chunk, and the free chunks stay disjoint.
\<close>
theorem buddy_allocate_safe:
  assumes "buddy_ok b" and "0 < sz" and "sz < 2 ^ Suc (m_orders b)"
  shows "\<exists>r b'. allocateBlocks b sz = Some (r, b') \<and>
    (r = -1 \<and> b' = b \<and> (\<forall>j < m_orders b. sz \<le> 2 ^ j \<longrightarrow> m_lists b ! j = [])
     \<or> 0 \<le> r \<and> buddy_ok b' \<and> (\<forall>n. owners (m_lists b) n = owners (m_lists b') n + within r sz n))"
  using assms by (rule allocateBlocks_ok)

theorem buddy_allocate_safe_witness:
  "\<exists>r b'. allocateBlocks \<lparr>m_orders = 3, m_lists = [[], [], [0]]\<rparr> 3 = Some (r, b') \<and> 0 \<le> r \<and> buddy_ok b'"
proof -
  let ?b = "\<lparr>m_orders = 3, m_lists = [[], [], [0]]\<rparr>"
  have ok: "buddy_ok ?b"
    by (simp add: buddy_ok_def chunks_nonneg_def owners_def lessThan_Suc numeral_eq_Suc covers_def)
  show ?thesis using buddy_allocate_safe [OF ok, of 3] by (auto simp: numeral_eq_Suc)
qed

text \<open>
  C27: An allocation at a given block returns that block when a free chunk contains all the blocks asked
  for and no free chunk ends just before the first of them: exactly these blocks stop being free and
  the free chunks stay disjoint. But when the only chunk that the search accepts ends just before the
  block, because the test \<open>blockIndex <= fc->blockIndex + chunkSizeInBlocks\<close> includes the end, the
  allocation never returns.
\<close>
theorem buddy_allocate_at_block:
  assumes "buddy_ok b" and "i < m_orders b" and "x \<in> set (m_lists b ! i)" and "x \<le> idx" and "0 < sz"
  shows "(idx + sz \<le> x + 2 ^ i \<longrightarrow> (\<forall>j < m_orders b. \<forall>y \<in> set (m_lists b ! j). y + 2 ^ j \<noteq> idx) \<longrightarrow>
      (\<exists>b'. allocateBlocks_at b idx sz = Some (idx, b') \<and> buddy_ok b'
        \<and> (\<forall>n. owners (m_lists b) n = owners (m_lists b') n + within idx sz n)))
    \<and> (idx = x + 2 ^ i \<longrightarrow>
        (\<forall>j < m_orders b. \<forall>y \<in> set (m_lists b ! j). y \<le> idx \<longrightarrow> idx \<le> y + 2 ^ j \<longrightarrow> j = i \<and> y = x) \<longrightarrow>
        allocateBlocks_at b idx sz = None)"
proof (intro conjI impI)
  from assms(1) have len: "length (m_lists b) = m_orders b" "m_orders b \<le> 31"
    and one: "owners (m_lists b) n \<le> 1" for n by (simp_all add: buddy_ok_def)
  have sh: "shl1 j = 2 ^ j" if "j < m_orders b" for j using that len by (simp add: shl1_def)
  { assume inside: "idx + sz \<le> x + 2 ^ i"
      and gap: "\<forall>j < m_orders b. \<forall>y \<in> set (m_lists b ! j). y + 2 ^ j \<noteq> idx"
    have cx: "covers x i idx" using inside assms(4,5) by (simp add: covers_def)
    have u: "j = i \<and> y = x"
      if j: "j < m_orders b" "y \<in> set (m_lists b ! j)" "y \<le> idx" "idx \<le> y + shl1 j" for j y
    proof -
      have "idx \<noteq> y + 2 ^ j" using gap j by auto
      then have "covers y j idx" using j sh by (auto simp: covers_def)
      with owners_unique [OF one [of idx], of j y i x] j assms(2,3) cx len show ?thesis by auto
    qed
    have "idx \<le> x + shl1 i" using inside assms(5) sh [OF assms(2)] by simp
    from allocate_at_from_unique [OF assms(2,3,4) this u] obtain p where
      "p < length (m_lists b ! i)" "m_lists b ! i ! p = x"
      "allocateBlocks_at b idx sz = allocate_in_chunk b i p idx sz"
      unfolding allocateBlocks_at_def by blast
    with allocate_in_chunk_inside [OF assms(1,2), of p x idx sz] assms(4,5) inside
    show "\<exists>b'. allocateBlocks_at b idx sz = Some (idx, b') \<and> buddy_ok b'
        \<and> (\<forall>n. owners (m_lists b) n = owners (m_lists b') n + within idx sz n)" by simp }
  assume adj: "idx = x + 2 ^ i"
    and only: "\<forall>j < m_orders b. \<forall>y \<in> set (m_lists b ! j). y \<le> idx \<longrightarrow> idx \<le> y + 2 ^ j \<longrightarrow> j = i \<and> y = x"
  have "idx \<le> x + shl1 i" using adj sh [OF assms(2)] by simp
  moreover have "j = i \<and> y = x"
    if "j < m_orders b" "y \<in> set (m_lists b ! j)" "y \<le> idx" "idx \<le> y + shl1 j" for j y
    using only that sh [of j] by simp
  ultimately obtain p where "p < length (m_lists b ! i)" "m_lists b ! i ! p = x"
      "allocateBlocks_at b idx sz = allocate_in_chunk b i p idx sz"
    unfolding allocateBlocks_at_def using allocate_at_from_unique [OF assms(2,3,4)]
    by blast
  with allocate_in_chunk_adjacent [OF assms(1,2) _ _ adj assms(5)] show "allocateBlocks_at b idx sz = None"
    by simp
qed

theorem buddy_allocate_at_block_witness:
  "allocateBlocks_at \<lparr>m_orders = 3, m_lists = [[], [0], []]\<rparr> 2 1 = None
    \<and> (\<exists>b'. allocateBlocks_at \<lparr>m_orders = 3, m_lists = [[], [0], []]\<rparr> 1 1 = Some (1, b'))"
proof -
  let ?b = "\<lparr>m_orders = 3, m_lists = [[], [0], []]\<rparr>"
  have ok: "buddy_ok ?b"
    by (simp add: buddy_ok_def chunks_nonneg_def owners_def lessThan_Suc numeral_eq_Suc covers_def)
  show ?thesis using buddy_allocate_at_block [OF ok, of 1 0 2 1] buddy_allocate_at_block [OF ok, of 1 0 1 1]
    by (auto simp: numeral_eq_Suc less_Suc_eq)
qed

text \<open>
  Releasing a single block at an even position does not return that block: \<open>freeBlocks\<close> passes the
  size of a chunk where its order is expected, and its last loop meets the lowest bit twice. Two
  overlapping chunks of two blocks each are added, so the free chunks are disjoint no more. With at
  most one order the release stores outside the array.
\<close>
theorem buddy_free_corrupts:
  assumes "even p" and "0 \<le> p" and "p < 2 ^ 31"
  shows "freeBlocks b p 1 =
    (if 2 \<le> length (m_lists b) then Some (b\<lparr>m_lists := (m_lists b)[1 := (p + 1) # p # m_lists b ! 1]\<rparr>)
     else None)"
proof -
  have "free_up 0 p (p + 1) (m_lists b) = Some (p, m_lists b)"
  proof (rule free_up_idle)
    fix j assume j: "j < 32" "has_bit p j"
    then have "j \<noteq> 0" using assms(1) by (cases j) (auto simp: has_bit_def bit_0)
    then have "(2 :: int) ^ 1 \<le> 2 ^ j" by (intro power_increasing) auto
    then show "p + 1 < p + shl1 j" using j by (simp add: shl1_def)
  qed
  moreover have "free_down 33 p 1 ls = (case freeAlignedBlock ls p 1 of None \<Rightarrow> None
      | Some ls' \<Rightarrow> freeAlignedBlock ls' (p + 1) 1)" for ls
    using free_down.simps(2) [of 32 p 1 ls] free_down_one [of 32]
    by (simp add: has_bit_def shl1_def split: option.splits)
  ultimately show ?thesis
    by (auto simp: freeBlocks_def freeAlignedBlock_def prependNewNode_def)
qed

theorem buddy_free_corrupts_witness:
  "freeBlocks \<lparr>m_orders = 2, m_lists = [[], []]\<rparr> 4 1 = Some \<lparr>m_orders = 2, m_lists = [[], [5, 4]]\<rparr>"
  using buddy_free_corrupts [of 4 "\<lparr>m_orders = 2, m_lists = [[], []]\<rparr>"] by simp

end
