(* ===== verification/Memory_Context.thy ===== *)
theory Memory_Context
  imports Buddy_Allocator Vnode_Manager
begin

text \<open>
  The memory of a process: src/src/kernel/mm/memorycontext.cpp and the system calls of
  src/src/kernel/uapi/memoryuapi.cpp. A context has a list of descriptors, each a pointer with the
  fields it points to, and takes address space from the buddy allocator. The constants are those of the
  ia32 port. Addresses and lengths are numbers below \<open>2 ^ 32\<close> and the arithmetic on them wraps around.

  What is outside is a parameter: the pointers that \<open>new\<close> returns, the answers of the file system. The
  calls of the page tables are recorded as actions.
\<close>

section \<open>Data\<close>

definition USERSPACE_LOW_ADDR :: nat where
  "USERSPACE_LOW_ADDR = 0x08000000"

definition USERSPACE_HI_ADDR :: nat where
  "USERSPACE_HI_ADDR = 0xFFFFEFFF"

datatype md_kind =
    AnonymousMemory
  | MemoryMappedFile addr nat
  | DelayedLoadFile addr nat nat nat

record MemoryDescriptor =
  baseAddress :: nat
  md_length :: nat
  permissions :: u32
  kind :: md_kind

definition ReadPermission :: u32 where "ReadPermission = 1"

definition WritePermission :: u32 where "WritePermission = 2"

definition ExecutePermission :: u32 where "ExecutePermission = 4"

record MemoryContext =
  m_descriptors :: "(addr \<times> MemoryDescriptor) list"
  m_vmemAlloc :: BuddyAllocator
  removedPages :: "(nat \<times> nat) list"

definition roundToPageMultiples :: "nat \<Rightarrow> nat" where
  "roundToPageMultiples l = (l div 4096 * 4096 + (if l mod 4096 \<noteq> 0 then 4096 else 0)) mod 2 ^ 32"

definition md_end :: "MemoryDescriptor \<Rightarrow> nat" where
  "md_end d = add32 (baseAddress d) (roundToPageMultiples (md_length d))"

definition MemoryContext_init :: "MemoryContext option" where
  "MemoryContext_init = do {
     b \<leftarrow> Buddy_init (int ((USERSPACE_HI_ADDR - USERSPACE_LOW_ADDR) div 4096));
     Some \<lparr>m_descriptors = [], m_vmemAlloc = b, removedPages = []\<rparr> }"

section \<open>Address space\<close>

text \<open>\<open>allocVirtualMemory(size)\<close>: a failed allocation is the block number -1 and is not looked at.\<close>

definition allocVirtualMemory :: "MemoryContext \<Rightarrow> nat \<Rightarrow> (nat \<times> MemoryContext) option" where
  "allocVirtualMemory c sz = do {
     (pageIndex, b) \<leftarrow> allocateBlocks (m_vmemAlloc c) (int (sz div 4096));
     Some (nat ((pageIndex * 4096 + int USERSPACE_LOW_ADDR) mod 2 ^ 32), c\<lparr>m_vmemAlloc := b\<rparr>) }"

definition allocVirtualMemory_at :: "MemoryContext \<Rightarrow> nat \<Rightarrow> nat \<Rightarrow> MemoryContext option" where
  "allocVirtualMemory_at c address sz = do {
     let relativeAddress = sub32 address USERSPACE_LOW_ADDR;
     (_, b) \<leftarrow> allocateBlocks_at (m_vmemAlloc c) (int (relativeAddress div 4096)) (int (sz div 4096));
     Some (c\<lparr>m_vmemAlloc := b\<rparr>) }"

definition freeVirtualMemory :: "MemoryContext \<Rightarrow> nat \<Rightarrow> nat \<Rightarrow> MemoryContext option" where
  "freeVirtualMemory c address sz = do {
     let relativeAddress = sub32 address USERSPACE_LOW_ADDR;
     b \<leftarrow> freeBlocks (m_vmemAlloc c) (int relativeAddress) (int (sz div 4096));
     Some (c\<lparr>m_vmemAlloc := b\<rparr>) }"

section \<open>Descriptors\<close>

definition findMemoryDescriptor :: "MemoryContext \<Rightarrow> nat \<Rightarrow> (addr \<times> MemoryDescriptor) option" where
  "findMemoryDescriptor c address =
     find (\<lambda>(p, d). baseAddress d \<le> address \<and> address < md_end d) (m_descriptors c)"

definition findMemoryDescriptorsByRange ::
  "MemoryContext \<Rightarrow> nat \<Rightarrow> nat \<Rightarrow> (addr \<times> MemoryDescriptor) list" where
  "findMemoryDescriptorsByRange c low hi =
     filter (\<lambda>(p, d). low < md_end d \<and> md_end d \<le> hi) (m_descriptors c)"

definition countDescriptorsByRange :: "MemoryContext \<Rightarrow> nat \<Rightarrow> nat \<Rightarrow> nat" where
  "countDescriptorsByRange c low hi =
     length (filter (\<lambda>(p, d). low \<le> md_end d \<and> md_end d \<le> hi) (m_descriptors c))"

definition insertMemoryDescriptor :: "MemoryContext \<Rightarrow> addr \<Rightarrow> MemoryDescriptor \<Rightarrow> MemoryContext" where
  "insertMemoryDescriptor c p d = c\<lparr>m_descriptors := m_descriptors c @ [(p, d)]\<rparr>"

text \<open>The address found, or \<open>NULL\<close>.\<close>

definition findEmptyMemoryExtent ::
  "MemoryContext \<Rightarrow> nat \<Rightarrow> nat \<Rightarrow> bool \<Rightarrow> (nat \<times> MemoryContext) option" where
  "findEmptyMemoryExtent c base len fixedHint =
     (if base \<noteq> 0 then
        let descriptors = findMemoryDescriptorsByRange c base (add32 base len) in
        if descriptors \<noteq> [] \<and> fixedHint then Some (0, c)
        else if descriptors = [] then
          map_option (Pair base) (allocVirtualMemory_at c base (roundToPageMultiples len))
        else Some (base, c)
      else allocVirtualMemory c (roundToPageMultiples len))"

text \<open>
  \<open>allocateAnonymousMemory(void **, ...)\<close>: the result, the address stored through the pointer and the
  context. \<open>newdesc\<close> is what \<open>new\<close> returns.
\<close>

definition allocateAnonymousMemory_ref ::
  "addr \<Rightarrow> MemoryContext \<Rightarrow> nat \<Rightarrow> nat \<Rightarrow> u32 \<Rightarrow> bool \<Rightarrow> (int \<times> nat \<times> MemoryContext) option" where
  "allocateAnonymousMemory_ref newdesc c base len perms fixedHint = do {
     (foundBaseAddr, c) \<leftarrow> findEmptyMemoryExtent c base len fixedHint;
     if foundBaseAddr = 0 then Some (- errno_code ENOMEM, base, c)
     else if newdesc = NULL then Some (- errno_code ENOMEM, base, c)
     else Some (0, foundBaseAddr, insertMemoryDescriptor c newdesc
            \<lparr>baseAddress = foundBaseAddr, md_length = len, permissions = perms, kind = AnonymousMemory\<rparr>) }"

definition allocateAnonymousMemory ::
  "addr \<Rightarrow> MemoryContext \<Rightarrow> nat \<Rightarrow> nat \<Rightarrow> u32 \<Rightarrow> bool \<Rightarrow> (int \<times> MemoryContext) option" where
  "allocateAnonymousMemory newdesc c base len perms fixedHint = do {
     (foundBaseAddr, c) \<leftarrow> findEmptyMemoryExtent c base len fixedHint;
     if foundBaseAddr = 0 then Some (- errno_code ENOMEM, c)
     else if newdesc = NULL then Some (- errno_code ENOMEM, c)
     else Some (0, insertMemoryDescriptor c newdesc
            \<lparr>baseAddress = base, md_length = len, permissions = perms, kind = AnonymousMemory\<rparr>) }"

definition allocateDelayedLoadedFile ::
  "addr \<Rightarrow> MemoryContext \<Rightarrow> nat \<Rightarrow> nat \<Rightarrow> addr \<Rightarrow> nat \<Rightarrow> nat \<Rightarrow> nat \<Rightarrow> u32 \<Rightarrow> bool
     \<Rightarrow> (int \<times> MemoryContext) option" where
  "allocateDelayedLoadedFile newdesc c base len node fOffset pageOffset fLen perms fixedHint = do {
     (foundBaseAddr, c) \<leftarrow> findEmptyMemoryExtent c base len fixedHint;
     if foundBaseAddr = 0 then Some (- errno_code ENOMEM, c)
     else if newdesc = NULL then Some (- errno_code ENOMEM, c)
     else Some (0, insertMemoryDescriptor c newdesc
            \<lparr>baseAddress = base, md_length = len, permissions = perms,
             kind = DelayedLoadFile node fOffset pageOffset fLen\<rparr>) }"

text \<open>\<open>resizeExtent\<close> changes the descriptor through its pointer.\<close>

definition set_length :: "addr \<Rightarrow> (nat \<Rightarrow> nat) \<Rightarrow> MemoryContext \<Rightarrow> MemoryContext" where
  "set_length p f c = c\<lparr>m_descriptors :=
     map (\<lambda>(q, d). (q, if q = p then d\<lparr>md_length := f (md_length d)\<rparr> else d)) (m_descriptors c)\<rparr>"

definition resizeExtent ::
  "MemoryContext \<Rightarrow> addr \<times> MemoryDescriptor \<Rightarrow> int \<Rightarrow> (int \<times> MemoryContext) option" where
  "resizeExtent c desc increment = (case desc of (p, d) \<Rightarrow> do {
     let endOfDescriptor = roundToPageMultiples (add32 (baseAddress d) (md_length d));
     c \<leftarrow> (if 0 < increment then
              allocVirtualMemory_at c endOfDescriptor (roundToPageMultiples (nat increment))
            else if increment < 0 then do {
              let delta = nat (- increment) div 4096 * 4096;
              c \<leftarrow> freeVirtualMemory c (sub32 endOfDescriptor delta) delta;
              Some (c\<lparr>removedPages := removedPages c @ [(sub32 endOfDescriptor delta, delta)]\<rparr>) }
            else Some c);
     Some (increment, set_length p (\<lambda>l. nat ((int l + increment) mod 2 ^ 32)) c) })"

text \<open>The address, or the error number as an unsigned word.\<close>

definition minus_errno :: "errno \<Rightarrow> nat" where
  "minus_errno e = nat (2 ^ 32 - errno_code e)"

definition mapFileSegmentToMemory ::
  "addr \<Rightarrow> MemoryContext \<Rightarrow> vnode_state \<Rightarrow> addr \<Rightarrow> nat \<Rightarrow> nat \<Rightarrow> nat \<Rightarrow> u32
     \<Rightarrow> (nat \<times> MemoryContext \<times> vnode_state) option" where
  "mapFileSegmentToMemory newdesc c vs node virtualAddress len fileOffset perms = do {
     (foundBaseAddr, c) \<leftarrow> findEmptyMemoryExtent c virtualAddress len True;
     if foundBaseAddr = 0 then Some (minus_errno ENOMEM, c, vs)
     else if newdesc = NULL then Some (minus_errno ENOMEM, c, vs)
     else do {
       vs \<leftarrow> ReferenceVnode vs node;
       Some (foundBaseAddr, insertMemoryDescriptor c newdesc
         \<lparr>baseAddress = foundBaseAddr, md_length = len, permissions = perms,
          kind = MemoryMappedFile node fileOffset\<rparr>, vs) } }"

definition releaseDescriptor ::
  "(addr \<Rightarrow> addr) \<Rightarrow> MemoryContext \<Rightarrow> vnode_state \<Rightarrow> addr \<times> MemoryDescriptor
     \<Rightarrow> (MemoryContext \<times> vnode_state) option" where
  "releaseDescriptor fs_of c vs desc = (case desc of (p, d) \<Rightarrow> do {
     let c = c\<lparr>m_descriptors := filter (\<lambda>(q, _). q \<noteq> p) (m_descriptors c)\<rparr>;
     case kind d of
       MemoryMappedFile node _ \<Rightarrow> map_option (Pair c) (PutVnode fs_of vs node)
     | _ \<Rightarrow> Some (c\<lparr>removedPages := removedPages c
                @ [(baseAddress d, roundToPageMultiples (md_length d))]\<rparr>, vs) })"

definition updatePermissions :: "MemoryContext \<Rightarrow> addr \<Rightarrow> u32 \<Rightarrow> MemoryContext" where
  "updatePermissions c p perms = c\<lparr>m_descriptors :=
     map (\<lambda>(q, d). (q, if q = p then d\<lparr>permissions := perms\<rparr> else d)) (m_descriptors c)\<rparr>"

section \<open>Page faults\<close>

datatype MemoryOperation = ReadOperation | WriteOperation | ExecuteOperation

datatype fault_action =
    SegmentationFault
  | NewPage nat bool
  | MapPage nat nat bool
  | ReadFile addr nat nat nat

fun operation_permission :: "MemoryOperation \<Rightarrow> u32" where
  "operation_permission WriteOperation = WritePermission"
| "operation_permission ReadOperation = ReadPermission"
| "operation_permission ExecuteOperation = ExecutePermission"

text \<open>
  \<open>fs_mmap node offset\<close> and \<open>fs_read node offset\<close> are the answers of the file system; \<open>missing\<close> is the flag
  \<open>MissingPageFault\<close>.
\<close>

definition handlePageFault ::
  "(addr \<Rightarrow> nat \<Rightarrow> nat) \<Rightarrow> (addr \<Rightarrow> nat \<Rightarrow> int) \<Rightarrow> MemoryContext \<Rightarrow> nat \<Rightarrow> MemoryOperation \<Rightarrow> bool
     \<Rightarrow> fault_action list" where
  "handlePageFault fs_mmap fs_read c faultAddress op missing =
     (case findMemoryDescriptor c faultAddress of
        None \<Rightarrow> [SegmentationFault]
      | Some (_, d) \<Rightarrow>
          if permissions d AND operation_permission op = 0 then [SegmentationFault]
          else
            let npFlags = (permissions d AND WritePermission \<noteq> 0);
                page = faultAddress div 4096 * 4096 in
            if \<not> missing then [SegmentationFault]
            else case kind d of
              AnonymousMemory \<Rightarrow> [NewPage faultAddress npFlags]
            | MemoryMappedFile node off \<Rightarrow>
                let offset = add32 (sub32 page (baseAddress d)) off;
                    ret = fs_mmap node offset in
                if ret \<noteq> 0 then [MapPage ret faultAddress npFlags]
                else [NewPage faultAddress npFlags, ReadFile node offset page 4096]
                     @ (if fs_read node offset < 0 then [SegmentationFault] else [])
            | DelayedLoadFile node fileOffset pageOffset fileLen \<Rightarrow>
                [NewPage faultAddress npFlags, ReadFile node fileOffset (add32 page pageOffset) fileLen]
                @ (if fs_read node fileOffset < 0 then [SegmentationFault] else []))"

section \<open>System calls\<close>

definition protFlagsToPermissions :: "u32 \<Rightarrow> u32" where
  "protFlagsToPermissions prot =
     (if prot AND 1 \<noteq> 0 then ReadPermission else 0)
     OR (if prot AND 2 \<noteq> 0 then WritePermission else 0)
     OR (if prot AND 4 \<noteq> 0 then ExecutePermission else 0)"

definition MAP_SHARED :: u32 where "MAP_SHARED = 0x01"

definition MAP_PRIVATE :: u32 where "MAP_PRIVATE = 0x02"

definition MAP_FIXED :: u32 where "MAP_FIXED = 0x10"

definition MAP_ANONYMOUS :: u32 where "MAP_ANONYMOUS = 0x20"

text \<open>\<open>openFiles\<close> gives the vnode of every open file, \<open>None\<close> for a hole.\<close>

definition mmap ::
  "addr \<Rightarrow> MemoryContext \<Rightarrow> vnode_state \<Rightarrow> addr option list \<Rightarrow> nat \<Rightarrow> nat \<Rightarrow> u32 \<Rightarrow> u32 \<Rightarrow> int \<Rightarrow> nat
     \<Rightarrow> (nat \<times> MemoryContext \<times> vnode_state) option" where
  "mmap newdesc c vs openFiles address len prot flags fd offset =
     (if flags AND (MAP_PRIVATE OR MAP_SHARED) = MAP_PRIVATE OR MAP_SHARED
         \<or> flags AND (MAP_PRIVATE OR MAP_SHARED) = 0 then Some (minus_errno EINVAL, c, vs)
      else if len = 0 then Some (minus_errno EINVAL, c, vs)
      else
        let fixedHint = (flags AND MAP_FIXED \<noteq> 0);
            perms = protFlagsToPermissions prot in
        if flags AND MAP_ANONYMOUS \<noteq> 0 then do {
          (_, newAddr, c) \<leftarrow> allocateAnonymousMemory_ref newdesc c address len perms fixedHint;
          Some (newAddr, c, vs) }
        else if \<not> (0 \<le> fd \<and> fd < int (length openFiles)) then Some (minus_errno EBADF, c, vs)
        else case openFiles ! nat fd of
          None \<Rightarrow> Some (minus_errno EBADF, c, vs)
        | Some node \<Rightarrow> mapFileSegmentToMemory newdesc c vs node address len offset perms)"

fun release_all ::
  "(addr \<Rightarrow> addr) \<Rightarrow> MemoryContext \<Rightarrow> vnode_state \<Rightarrow> (addr \<times> MemoryDescriptor) list
     \<Rightarrow> (MemoryContext \<times> vnode_state) option" where
  "release_all fs_of c vs [] = Some (c, vs)"
| "release_all fs_of c vs (d # ds) = do {
     (c, vs) \<leftarrow> releaseDescriptor fs_of c vs d;
     release_all fs_of c vs ds }"

definition munmap ::
  "(addr \<Rightarrow> addr) \<Rightarrow> MemoryContext \<Rightarrow> vnode_state \<Rightarrow> nat \<Rightarrow> nat \<Rightarrow> (nat \<times> MemoryContext \<times> vnode_state) option" where
  "munmap fs_of c vs address len =
     map_option (Pair 0) (release_all fs_of c vs (findMemoryDescriptorsByRange c address (add32 address len)))"

definition mprotect :: "MemoryContext \<Rightarrow> nat \<Rightarrow> nat \<Rightarrow> u32 \<Rightarrow> int \<times> MemoryContext" where
  "mprotect c address len prot =
     (if address = 0 then (- errno_code EINVAL, c)
      else if \<not> (address < USERSPACE_LOW_ADDR \<and> USERSPACE_HI_ADDR < add32 address len) then
        (- errno_code ENOMEM, c)
      else if address mod 4096 \<noteq> 0 then (- errno_code EINVAL, c)
      else (0, fold (\<lambda>(p, _) c. updatePermissions c p (protFlagsToPermissions prot))
                 (findMemoryDescriptorsByRange c address (add32 address len)) c))"

text \<open>\<open>brk\<close>: the new end of the data segment and the context.\<close>

definition brk ::
  "MemoryContext \<Rightarrow> nat \<Rightarrow> nat \<Rightarrow> nat \<Rightarrow> (nat \<times> nat \<times> MemoryContext) option" where
  "brk c dataSegmentStart dataSegmentEnd ptr =
     (if ptr = 0 then Some (dataSegmentEnd, dataSegmentEnd, c)
      else case findMemoryDescriptor c dataSegmentStart of
        None \<Rightarrow> Some (0, dataSegmentEnd, c)
      | Some desc \<Rightarrow>
          if dataSegmentEnd < ptr \<and> countDescriptorsByRange c dataSegmentEnd ptr \<noteq> 0 then
            Some (dataSegmentEnd, dataSegmentEnd, c)
          else if ptr < dataSegmentEnd \<and> ptr < dataSegmentStart then
            Some (dataSegmentEnd, dataSegmentEnd, c)
          else if ptr \<noteq> dataSegmentEnd then do {
            (inc, c) \<leftarrow> resizeExtent c desc (as_int (sub32 ptr dataSegmentEnd));
            let e = nat ((int dataSegmentEnd + inc) mod 2 ^ 32);
            Some (e, e, c) }
          else Some (dataSegmentEnd, dataSegmentEnd, c))"

text \<open>The calls that only return an error.\<close>

definition memory_stub :: int where
  "memory_stub = - errno_code ENOMEM"

section \<open>The invariant\<close>

definition extent :: "MemoryDescriptor \<Rightarrow> nat set" where
  "extent d = {baseAddress d ..< baseAddress d + roundToPageMultiples (md_length d)}"

text \<open>A descriptor lies in the address space the allocator manages, and none of its pages is free.\<close>

definition desc_ok :: "BuddyAllocator \<Rightarrow> MemoryDescriptor \<Rightarrow> bool" where
  "desc_ok b d \<longleftrightarrow> (\<exists>r sz. 0 < sz \<and> r + sz \<le> 2 ^ 19 \<and> baseAddress d = USERSPACE_LOW_ADDR + 4096 * r
     \<and> roundToPageMultiples (md_length d) = 4096 * sz \<and> (\<forall>n. r \<le> n \<longrightarrow> n < r + sz \<longrightarrow> owners (m_lists b) (int n) = 0))"

definition free_below :: "BuddyAllocator \<Rightarrow> bool" where
  "free_below b \<longleftrightarrow> (\<forall>n. 0 < owners (m_lists b) n \<longrightarrow> 0 \<le> n \<and> n < 2 ^ 19)"

definition ctx_ok :: "MemoryContext \<Rightarrow> bool" where
  "ctx_ok c \<longleftrightarrow> buddy_ok (m_vmemAlloc c) \<and> m_orders (m_vmemAlloc c) = 20 \<and> free_below (m_vmemAlloc c)
     \<and> distinct (map fst (m_descriptors c))
     \<and> (\<forall>p d. (p, d) \<in> set (m_descriptors c) \<longrightarrow> desc_ok (m_vmemAlloc c) d)
     \<and> (\<forall>p d q e. (p, d) \<in> set (m_descriptors c) \<longrightarrow> (q, e) \<in> set (m_descriptors c) \<longrightarrow>
          p \<noteq> q \<longrightarrow> extent d \<inter> extent e = {})"

lemma roundToPageMultiples_bounds:
  assumes "0 < l" and "l \<le> 0xFFFFF000"
  shows "\<exists>sz. roundToPageMultiples l = 4096 * sz \<and> 0 < sz \<and> sz < 2 ^ 20 \<and> l \<le> 4096 * sz \<and> 4096 * sz < l + 4096"
proof -
  define q where "q = l div 4096"
  define m where "m = l mod 4096"
  have l: "l = 4096 * q + m" "m < 4096" by (simp_all add: q_def m_def)
  define sz where "sz = q + (if m \<noteq> 0 then 1 else 0)"
  have sz: "4096 * sz = l div 4096 * 4096 + (if l mod 4096 \<noteq> 0 then 4096 else 0)"
    by (simp add: sz_def q_def m_def)
  have b: "0 < sz" "sz < 2 ^ 20" "l \<le> 4096 * sz" "4096 * sz < l + 4096"
    using l assms by (auto simp: sz_def split: if_splits)
  then have "4096 * sz < 2 ^ 32" by simp
  then have "roundToPageMultiples l = 4096 * sz" unfolding roundToPageMultiples_def sz [symmetric] by simp
  with b show ?thesis by blast
qed

lemma log2i_skip:
  "k \<le> m \<Longrightarrow> (\<And>j. k < j \<Longrightarrow> j \<le> m \<Longrightarrow> \<not> has_bit n j) \<Longrightarrow> log2i n m = log2i n k"
proof (induction m)
  case (Suc m)
  show ?case
  proof (cases "k = Suc m")
    case False
    with Suc show ?thesis by simp
  qed simp
qed simp

lemma MemoryContext_init_ok: "\<exists>c. MemoryContext_init = Some c \<and> ctx_ok c \<and> m_descriptors c = []"
proof -
  have bits: "\<not> has_bit 0xF7FFE n" if "n \<in> {20..31}" for n
  proof -
    have "(0xF7FFE :: int) < 2 ^ n" using that by (intro less_le_trans [OF _ power_increasing [of 20 n "2 :: int"]]) auto
    then have "take_bit n (0xF7FFE :: int) = 0xF7FFE" by (intro take_bit_int_eq_self) auto
    then have "\<not> bit (0xF7FFE :: int) n" by (metis bit_take_bit_iff less_irrefl)
    moreover have "n mod 32 = n" using that by simp
    ultimately show ?thesis by (simp add: has_bit_def)
  qed
  have "\<not> has_bit 0xF7FFE 32" by (simp add: has_bit_def bit_0)
  with bits have "\<not> has_bit 0xF7FFE j" if "19 < j" "j \<le> 32" for j
    using that by (cases "j = 32") auto
  then have "log2i 0xF7FFE 32 = log2i 0xF7FFE 19" by (intro log2i_skip) auto
  moreover have "has_bit 0xF7FFE 19"
  proof -
    have "odd ((0xF7FFE :: int) div 2 ^ 19)" by simp
    then show ?thesis by (simp add: has_bit_def bit_iff_odd)
  qed
  then have "log2i 0xF7FFE 19 = 19" by (simp add: eval_nat_numeral)
  ultimately have l: "log2i 0xF7FFE 32 = 19" by simp
  let ?b = "\<lparr>m_orders = 20, m_lists = (replicate 20 [])[19 := [0]]\<rparr>"
  have i: "MemoryContext_init = Some \<lparr>m_descriptors = [], m_vmemAlloc = ?b, removedPages = []\<rparr>"
    by (simp add: MemoryContext_init_def USERSPACE_HI_ADDR_def USERSPACE_LOW_ADDR_def Buddy_init_def l)
  have "owners (replicate 20 []) n = 0" for n by (simp add: owners_def)
  with owners_update [of 19 "replicate 20 []" "[0]"]
  have o: "owners (m_lists ?b) n = (if covers 0 19 n then 1 else 0)" for n by simp
  have "chunks_nonneg (m_lists ?b)"
    by (auto simp: chunks_nonneg_def dest!: set_update_subset_insert [THEN subsetD])
  then have "buddy_ok ?b" unfolding buddy_ok_def o by simp
  moreover have "free_below ?b" unfolding free_below_def o by (simp add: covers_def)
  ultimately show ?thesis unfolding i by (simp add: ctx_ok_def)
qed

text \<open>Two descriptors whose pages are disjoint have disjoint extents.\<close>

lemma extent_pages:
  assumes "baseAddress d = L + 4096 * r" and "roundToPageMultiples (md_length d) = 4096 * sz"
  shows "a \<in> extent d \<longleftrightarrow> L \<le> a \<and> r \<le> (a - L) div 4096 \<and> (a - L) div 4096 < r + sz"
proof -
  have "a \<in> extent d \<longleftrightarrow> L + 4096 * r \<le> a \<and> a < L + 4096 * (r + sz)"
    using assms by (auto simp: extent_def)
  also have "\<dots> \<longleftrightarrow> L \<le> a \<and> r \<le> (a - L) div 4096 \<and> (a - L) div 4096 < r + sz"
    by (auto simp: less_eq_div_iff_mult_less_eq div_less_iff_less_mult)
  finally show ?thesis .
qed

lemma ctx_ok_subset:
  assumes "ctx_ok c" and "m_vmemAlloc c' = m_vmemAlloc c" and "m_descriptors c' = filter P (m_descriptors c)"
  shows "ctx_ok c'"
  using assms unfolding ctx_ok_def by (auto simp: distinct_map_filter; blast)

lemma releaseDescriptor_ok:
  assumes "ctx_ok c" and "releaseDescriptor fs_of c vs d = Some (c', vs')"
  shows "ctx_ok c'"
proof -
  obtain p e where d: "d = (p, e)" by (cases d)
  from assms(2) have "m_vmemAlloc c' = m_vmemAlloc c"
    and "m_descriptors c' = filter (\<lambda>(q, _). q \<noteq> p) (m_descriptors c)"
    by (auto simp: d releaseDescriptor_def Let_def split: md_kind.splits)
  with assms(1) show ?thesis by (rule ctx_ok_subset)
qed

lemma release_all_ok:
  "ctx_ok c \<Longrightarrow> release_all fs_of c vs ds = Some (c', vs') \<Longrightarrow> ctx_ok c'"
proof (induction ds arbitrary: c vs)
  case (Cons d ds)
  from Cons.prems(2) obtain c1 vs1 where
    c1: "releaseDescriptor fs_of c vs d = Some (c1, vs1)" "release_all fs_of c1 vs1 ds = Some (c', vs')"
    by (auto split: bind_splits)
  from Cons.IH [OF releaseDescriptor_ok [OF Cons.prems(1) c1(1)] c1(2)] show ?case .
qed simp

lemma allocate_from_orders: "allocate_from b sz i = Some (r, b') \<Longrightarrow> m_orders b' = m_orders b"
  by (induction b sz i rule: allocate_from.induct)
    (subst (asm) (2) allocate_from.simps, auto simp: Let_def split: if_splits option.splits)

lemma allocateBlocks_orders: "allocateBlocks b sz = Some (r, b') \<Longrightarrow> m_orders b' = m_orders b"
  by (auto simp: allocateBlocks_def Let_def split: if_splits dest: allocate_from_orders)

text \<open>A region from the allocator, and a descriptor for it.\<close>

definition no_chunk :: nat where
  "no_chunk = 0x07FFF000"

text \<open>No free chunk has the pages for a mapping.\<close>

definition exhausted :: "MemoryContext \<Rightarrow> nat \<Rightarrow> bool" where
  "exhausted c len \<longleftrightarrow> (\<forall>j < m_orders (m_vmemAlloc c).
     int (roundToPageMultiples len div 4096) \<le> 2 ^ j \<longrightarrow> m_lists (m_vmemAlloc c) ! j = [])"

lemma allocVirtualMemory_ok:
  assumes ok: "ctx_ok c" and len: "0 < len" "len \<le> 0xFFFFF000"
  shows "\<exists>a c'. allocVirtualMemory c (roundToPageMultiples len) = Some (a, c')
    \<and> m_descriptors c' = m_descriptors c
    \<and> (a = no_chunk \<and> c' = c \<and> exhausted c len
       \<or> USERSPACE_LOW_ADDR \<le> a \<and> ctx_ok c' \<and> (\<forall>e. baseAddress e = a \<longrightarrow> md_length e = len \<longrightarrow>
            desc_ok (m_vmemAlloc c') e \<and> (\<forall>p d. (p, d) \<in> set (m_descriptors c) \<longrightarrow> extent d \<inter> extent e = {})))"
proof -
  let ?b = "m_vmemAlloc c"
  from ok have bok: "buddy_ok ?b" and ord: "m_orders ?b = 20" and fb: "free_below ?b"
    by (simp_all add: ctx_ok_def)
  from roundToPageMultiples_bounds [OF len] obtain sz where
    sz: "roundToPageMultiples len = 4096 * sz" "0 < sz" "sz < 2 ^ 20" by blast
  have "int sz < 2 ^ Suc (m_orders ?b)" using sz(3) ord by simp
  from allocateBlocks_ok [OF bok _ this] sz(2) obtain r b' where
    r: "allocateBlocks ?b (int sz) = Some (r, b')"
    "r = -1 \<and> b' = ?b \<and> (\<forall>j < m_orders ?b. int sz \<le> 2 ^ j \<longrightarrow> m_lists ?b ! j = []) \<or> 0 \<le> r \<and> buddy_ok b'
       \<and> (\<forall>n. owners (m_lists ?b) n = owners (m_lists b') n + within r (int sz) n)" by auto
  let ?a = "nat ((r * 4096 + int USERSPACE_LOW_ADDR) mod 2 ^ 32)"
  have al: "allocVirtualMemory c (roundToPageMultiples len) = Some (?a, c\<lparr>m_vmemAlloc := b'\<rparr>)"
    using r(1) sz by (simp add: allocVirtualMemory_def)
  from r(2) show ?thesis
  proof (elim disjE conjE)
    assume "r = -1" "b' = ?b" "\<forall>j < m_orders ?b. int sz \<le> 2 ^ j \<longrightarrow> m_lists ?b ! j = []"
    then show ?thesis using al sz(1) by (auto simp: no_chunk_def USERSPACE_LOW_ADDR_def exhausted_def)
  next
    assume nn: "0 \<le> r" and b': "buddy_ok b'"
      and own: "\<forall>n. owners (m_lists ?b) n = owners (m_lists b') n + within r (int sz) n"
    define R where "R = nat r"
    have R: "r = int R" using nn by (simp add: R_def)
    have free: "0 < owners (m_lists ?b) (int n)" if "R \<le> n" "n < R + sz" for n
      using own that by (simp add: within_def R)
    obtain z where z: "sz = Suc z" using sz(2) by (cases sz) auto
    have "int (R + z) < 2 ^ 19" using free [of "R + z"] fb z by (simp add: free_below_def)
    then have top: "R + sz \<le> 2 ^ 19" using z by simp
    have a: "?a = USERSPACE_LOW_ADDR + 4096 * R"
      using top by (simp add: R USERSPACE_LOW_ADDR_def nat_mod_distrib nat_add_distrib)
    have le: "owners (m_lists b') n \<le> owners (m_lists ?b) n" for n using own by simp
    have taken: "owners (m_lists b') (int n) = 0" if "R \<le> n" "n < R + sz" for n
    proof -
      have "owners (m_lists ?b) (int n) \<le> 1" using bok by (simp add: buddy_ok_def)
      moreover have "within r (int sz) (int n) = 1" using that by (simp add: within_def R)
      ultimately show ?thesis using own [rule_format, of "int n"] by simp
    qed
    have ord': "m_orders b' = 20" using allocateBlocks_orders [OF r(1)] ord by simp
    have keep: "desc_ok b' d" if "desc_ok ?b d" for d
      using that le unfolding desc_ok_def by (metis le_zero_eq)
    have "free_below b'" using fb le unfolding free_below_def by (metis less_le_trans)
    then have ok': "ctx_ok (c\<lparr>m_vmemAlloc := b'\<rparr>)" using ok b' ord' keep unfolding ctx_ok_def by simp
    have "desc_ok b' e \<and> (\<forall>p d. (p, d) \<in> set (m_descriptors c) \<longrightarrow> extent d \<inter> extent e = {})"
      if e: "baseAddress e = ?a" "md_length e = len" for e
    proof (intro conjI allI impI)
      show "desc_ok b' e" unfolding desc_ok_def
        using e a sz top taken by (intro exI [of _ R] exI [of _ sz]) auto
      fix p d assume d: "(p, d) \<in> set (m_descriptors c)"
      then have "desc_ok ?b d" using ok by (auto simp: ctx_ok_def)
      then obtain q k where q: "baseAddress d = USERSPACE_LOW_ADDR + 4096 * q"
        "roundToPageMultiples (md_length d) = 4096 * k"
        "\<forall>n. q \<le> n \<longrightarrow> n < q + k \<longrightarrow> owners (m_lists ?b) (int n) = 0" unfolding desc_ok_def by blast
      have "roundToPageMultiples (md_length e) = 4096 * sz" using e sz by simp
      note ee = extent_pages [OF trans [OF e(1) a] this]
      show "extent d \<inter> extent e = {}"
        using extent_pages [OF q(1,2)] ee q(3) free by fastforce
    qed
    with ok' a al show ?thesis by auto
  qed
qed

lemma insertMemoryDescriptor_ok:
  assumes "ctx_ok c" and "p \<notin> fst ` set (m_descriptors c)" and "desc_ok (m_vmemAlloc c) e"
    and "\<And>q d. (q, d) \<in> set (m_descriptors c) \<Longrightarrow> extent d \<inter> extent e = {}"
  shows "ctx_ok (insertMemoryDescriptor c p e)"
  using assms unfolding ctx_ok_def insertMemoryDescriptor_def by (auto; blast)

lemma desc_ok_end:
  assumes "desc_ok b d"
  shows "md_end d = baseAddress d + roundToPageMultiples (md_length d)"
  using assms by (auto simp: desc_ok_def md_end_def USERSPACE_LOW_ADDR_def intro!: add32_small)

text \<open>In a good context the search finds the one descriptor whose extent contains the address.\<close>

lemma findMemoryDescriptor_ok:
  assumes "ctx_ok c"
  shows "findMemoryDescriptor c a = Some (p, d) \<longleftrightarrow> (p, d) \<in> set (m_descriptors c) \<and> a \<in> extent d"
proof -
  let ?P = "\<lambda>(p, d). baseAddress d \<le> a \<and> a < md_end d"
  have P: "?P (q, e) \<longleftrightarrow> a \<in> extent e" if "(q, e) \<in> set (m_descriptors c)" for q e
    using that assms desc_ok_end [of "m_vmemAlloc c" e] by (auto simp: ctx_ok_def extent_def)
  have uniq: "q = p \<and> e = d" if "(q, e) \<in> set (m_descriptors c)" "(p, d) \<in> set (m_descriptors c)"
    "a \<in> extent e" "a \<in> extent d" for q e
  proof -
    from assms that have "q = p" unfolding ctx_ok_def by blast
    moreover from assms have "distinct (map fst (m_descriptors c))" by (simp add: ctx_ok_def)
    ultimately show ?thesis using that(1,2) by (meson eq_key_imp_eq_value)
  qed
  show ?thesis
  proof
    assume "findMemoryDescriptor c a = Some (p, d)"
    then have "(p, d) \<in> set (m_descriptors c)" "?P (p, d)"
      unfolding findMemoryDescriptor_def by (auto simp: find_Some_iff in_set_conv_nth)
    with P show "(p, d) \<in> set (m_descriptors c) \<and> a \<in> extent d" by blast
  next
    assume pd: "(p, d) \<in> set (m_descriptors c) \<and> a \<in> extent d"
    then have "find ?P (m_descriptors c) \<noteq> None" using P [of p d] by (auto simp: find_None_iff)
    then obtain q e where f: "find ?P (m_descriptors c) = Some (q, e)" by auto
    then have "(q, e) \<in> set (m_descriptors c)" "?P (q, e)" by (auto simp: find_Some_iff in_set_conv_nth)
    with P uniq pd f show "findMemoryDescriptor c a = Some (p, d)"
      unfolding findMemoryDescriptor_def by auto
  qed
qed

section \<open>Histories of mappings\<close>

text \<open>
  The mappings a process can have: it starts with an empty context and calls \<open>mmap\<close> without an address and
  \<open>munmap\<close> in any order. Every descriptor is new, and no allocation has run out of address space.
\<close>

inductive mapped :: "(addr \<Rightarrow> addr) \<Rightarrow> MemoryContext \<Rightarrow> vnode_state \<Rightarrow> bool" for fs_of where
  Start: "MemoryContext_init = Some c \<Longrightarrow> mapped fs_of c vs"
| Map: "mapped fs_of c vs \<Longrightarrow> newdesc \<noteq> NULL \<Longrightarrow> newdesc \<notin> fst ` set (m_descriptors c) \<Longrightarrow> len \<le> 0xFFFFF000 \<Longrightarrow>
    mmap newdesc c vs files 0 len prot flags fd off = Some (a, c', vs') \<Longrightarrow> a \<noteq> no_chunk \<Longrightarrow>
    mapped fs_of c' vs'"
| Unmap: "mapped fs_of c vs \<Longrightarrow> munmap fs_of c vs a len = Some (r, c', vs') \<Longrightarrow> mapped fs_of c' vs'"

lemma mmap_cases:
  assumes "mmap newdesc c vs files 0 len prot flags fd off = Some (a, c', vs')" and "newdesc \<noteq> NULL"
  shows "c' = c \<or> len \<noteq> 0 \<and> (\<exists>c1 k. allocVirtualMemory c (roundToPageMultiples len) = Some (a, c1)
    \<and> (c' = insertMemoryDescriptor c1 newdesc \<lparr>baseAddress = a, md_length = len,
          permissions = protFlagsToPermissions prot, kind = k\<rparr>)) 
    \<or> (\<exists>c1. allocVirtualMemory c (roundToPageMultiples len) = Some (0, c1))"
  using assms
  by (auto simp: mmap_def allocateAnonymousMemory_ref_def mapFileSegmentToMemory_def
      findEmptyMemoryExtent_def Let_def split: if_splits option.splits bind_splits prod.splits)

lemma mapped_ctx_ok: "mapped fs_of c vs \<Longrightarrow> ctx_ok c"
proof (induction rule: mapped.induct)
  case (Start c vs)
  from MemoryContext_init_ok obtain c0 where c0: "MemoryContext_init = Some c0" "ctx_ok c0" by blast
  with Start have "c = c0" by (metis option.inject)
  with c0 show ?case by simp
next
  case (Unmap c vs a len r c' vs')
  then show ?case by (auto simp: munmap_def dest: release_all_ok)
next
  case (Map c vs newdesc len files prot flags fd off a c' vs')
  show ?case
  proof (cases "len = 0")
    case True
    then have "c' = c" using Map.hyps(5) by (auto simp: mmap_def split: if_splits)
    with Map.IH show ?thesis by simp
  next
    case False
    then have len: "0 < len" by simp
    from allocVirtualMemory_ok [OF Map.IH len Map.hyps(4)] obtain x c1 where
      x: "allocVirtualMemory c (roundToPageMultiples len) = Some (x, c1)" "m_descriptors c1 = m_descriptors c"
      "x = no_chunk \<and> c1 = c \<and> exhausted c len \<or> USERSPACE_LOW_ADDR \<le> x \<and> ctx_ok c1 \<and> (\<forall>e. baseAddress e = x \<longrightarrow> md_length e = len \<longrightarrow>
          desc_ok (m_vmemAlloc c1) e \<and> (\<forall>p d. (p, d) \<in> set (m_descriptors c) \<longrightarrow> extent d \<inter> extent e = {}))"
      by blast
    then have "x \<noteq> 0" by (auto simp: no_chunk_def USERSPACE_LOW_ADDR_def)
    with mmap_cases [OF Map.hyps(5,2)] x(1) consider "c' = c" | k where "x = a"
      "c' = insertMemoryDescriptor c1 newdesc \<lparr>baseAddress = a, md_length = len,
          permissions = protFlagsToPermissions prot, kind = k\<rparr>" by auto
    then show ?thesis
    proof cases
      case 1
      with Map.IH show ?thesis by simp
    next
      case 2
      with x(3) Map.hyps(6) have ok1: "ctx_ok c1" by auto
      have "desc_ok (m_vmemAlloc c1) \<lparr>baseAddress = a, md_length = len,
          permissions = protFlagsToPermissions prot, kind = k\<rparr>"
        "\<And>p d. (p, d) \<in> set (m_descriptors c1) \<Longrightarrow> extent d \<inter> extent \<lparr>baseAddress = a, md_length = len,
          permissions = protFlagsToPermissions prot, kind = k\<rparr> = {}"
        using x(2,3) 2(1) Map.hyps(6) by auto
      from insertMemoryDescriptor_ok [OF ok1 _ this] Map.hyps(3) x(2) 2(2) show ?thesis by simp
    qed
  qed
qed

lemma anonymous_flags:
  "(MAP_ANONYMOUS OR MAP_PRIVATE) AND (MAP_PRIVATE OR MAP_SHARED) = MAP_PRIVATE"
  "(MAP_ANONYMOUS OR MAP_PRIVATE) AND MAP_ANONYMOUS \<noteq> 0"
  "MAP_PRIVATE \<noteq> MAP_PRIVATE OR MAP_SHARED" "MAP_PRIVATE \<noteq> 0" "MAP_ANONYMOUS \<noteq> 0"
  by (simp_all add: MAP_ANONYMOUS_def MAP_PRIVATE_def MAP_SHARED_def)

text \<open>What an anonymous mapping without an address does, given what the allocator does.\<close>

lemma mmap_anonymous:
  assumes "0 < len" and "newdesc \<noteq> NULL" and "allocVirtualMemory c (roundToPageMultiples len) = Some (a, c1)"
    and "a \<noteq> 0"
  shows "mmap newdesc c vs files 0 len prot (MAP_ANONYMOUS OR MAP_PRIVATE) fd off
    = Some (a, insertMemoryDescriptor c1 newdesc \<lparr>baseAddress = a, md_length = len,
        permissions = protFlagsToPermissions prot, kind = AnonymousMemory\<rparr>, vs)"
  using assms by (simp add: mmap_def anonymous_flags allocateAnonymousMemory_ref_def findEmptyMemoryExtent_def
      Let_def)

lemma findMemoryDescriptor_none:
  assumes "ctx_ok c" and "\<And>p d. (p, d) \<in> set (m_descriptors c) \<Longrightarrow> extent d \<inter> E = {}" and "x \<in> E"
  shows "findMemoryDescriptor c x = None"
proof (cases "findMemoryDescriptor c x")
  case (Some pd)
  with findMemoryDescriptor_ok [OF assms(1), of x "fst pd" "snd pd"]
  have "(fst pd, snd pd) \<in> set (m_descriptors c)" "x \<in> extent (snd pd)" by auto
  with assms(2,3) show ?thesis by blast
qed

lemma new_mapping_fault:
  assumes "ctx_ok (insertMemoryDescriptor c p e)" and "x \<in> extent e" and "kind e = AnonymousMemory"
  shows "handlePageFault fs_mmap fs_read (insertMemoryDescriptor c p e) x op True
    = (if permissions e AND operation_permission op = 0 then [SegmentationFault]
       else [NewPage x (permissions e AND WritePermission \<noteq> 0)])"
proof -
  have "(p, e) \<in> set (m_descriptors (insertMemoryDescriptor c p e))" by (simp add: insertMemoryDescriptor_def)
  with assms(2) findMemoryDescriptor_ok [OF assms(1)]
  have "findMemoryDescriptor (insertMemoryDescriptor c p e) x = Some (p, e)" by blast
  then show ?thesis using assms(3) by (simp add: handlePageFault_def Let_def)
qed

section \<open>Properties\<close>

text \<open>
  C12: In a history of \<open>mmap\<close> without an address and \<open>munmap\<close> in which no \<open>mmap\<close> finds the address space
  exhausted, all mappings of a process are disjoint and lie in the part of user space the allocator manages,
  and a page fault finds the mapping that contains the address. A new anonymous mapping of at most
  \<open>0xFFFFF000\<close> bytes never faults: it returns the address used for exhausted address space, which happens
  only when no free chunk has the pages and ends these guarantees, or a page
  aligned region that no other mapping touches, in which every fault is served with a new page if the
  permissions allow the access and ends in a segmentation fault if not.
\<close>
theorem mappings_stay_disjoint:
  assumes "mapped fs_of c vs" and "newdesc \<noteq> NULL" and "newdesc \<notin> fst ` set (m_descriptors c)"
    and "0 < len" and "len \<le> 0xFFFFF000"
  shows "(\<forall>p d q e. (p, d) \<in> set (m_descriptors c) \<longrightarrow> (q, e) \<in> set (m_descriptors c) \<longrightarrow> p \<noteq> q \<longrightarrow>
        extent d \<inter> extent e = {})
    \<and> (\<forall>p d. (p, d) \<in> set (m_descriptors c) \<longrightarrow> extent d \<subseteq> {USERSPACE_LOW_ADDR ..< USERSPACE_LOW_ADDR + 2 ^ 31})
    \<and> (\<forall>x p d. findMemoryDescriptor c x = Some (p, d) \<longleftrightarrow> (p, d) \<in> set (m_descriptors c) \<and> x \<in> extent d)
    \<and> (\<exists>a c'. mmap newdesc c vs files 0 len prot (MAP_ANONYMOUS OR MAP_PRIVATE) fd off = Some (a, c', vs)
        \<and> (a = no_chunk \<and> exhausted c len \<or> a \<noteq> no_chunk \<and> mapped fs_of c' vs \<and> a mod 4096 = 0
           \<and> (\<forall>x. a \<le> x \<longrightarrow> x < a + len \<longrightarrow> findMemoryDescriptor c x = None
                \<and> handlePageFault fs_mmap fs_read c' x op True
                  = (if protFlagsToPermissions prot AND operation_permission op = 0 then [SegmentationFault]
                     else [NewPage x (protFlagsToPermissions prot AND WritePermission \<noteq> 0)]))))"
proof (intro conjI allI impI)
  note ok = mapped_ctx_ok [OF assms(1)]
  { fix p d q e assume "(p, d) \<in> set (m_descriptors c)" "(q, e) \<in> set (m_descriptors c)" "p \<noteq> q"
    then show "extent d \<inter> extent e = {}" using ok unfolding ctx_ok_def by blast }
  { fix p d assume "(p, d) \<in> set (m_descriptors c)"
    then have "desc_ok (m_vmemAlloc c) d" using ok by (auto simp: ctx_ok_def)
    then show "extent d \<subseteq> {USERSPACE_LOW_ADDR ..< USERSPACE_LOW_ADDR + 2 ^ 31}"
      by (auto simp: desc_ok_def extent_def) }
  show "findMemoryDescriptor c x = Some (p, d) \<longleftrightarrow> (p, d) \<in> set (m_descriptors c) \<and> x \<in> extent d" for x p d
    by (rule findMemoryDescriptor_ok [OF ok])
  from allocVirtualMemory_ok [OF ok assms(4,5)] obtain a c1 where
    a: "allocVirtualMemory c (roundToPageMultiples len) = Some (a, c1)" "m_descriptors c1 = m_descriptors c"
    "a = no_chunk \<and> c1 = c \<and> exhausted c len \<or> USERSPACE_LOW_ADDR \<le> a \<and> ctx_ok c1 \<and> (\<forall>e. baseAddress e = a \<longrightarrow> md_length e = len \<longrightarrow>
        desc_ok (m_vmemAlloc c1) e \<and> (\<forall>p d. (p, d) \<in> set (m_descriptors c) \<longrightarrow> extent d \<inter> extent e = {}))"
    by blast
  let ?e = "\<lparr>baseAddress = a, md_length = len, permissions = protFlagsToPermissions prot, kind = AnonymousMemory\<rparr>"
  let ?c = "insertMemoryDescriptor c1 newdesc ?e"
  have "a \<noteq> 0" using a(3) by (auto simp: no_chunk_def USERSPACE_LOW_ADDR_def)
  note mm = mmap_anonymous [OF assms(4,2) a(1) this, of vs files prot fd off]
  have "mapped fs_of ?c vs \<and> a mod 4096 = 0 \<and> (\<forall>x. a \<le> x \<longrightarrow> x < a + len \<longrightarrow> findMemoryDescriptor c x = None
      \<and> handlePageFault fs_mmap fs_read ?c x op True
        = (if protFlagsToPermissions prot AND operation_permission op = 0 then [SegmentationFault]
           else [NewPage x (protFlagsToPermissions prot AND WritePermission \<noteq> 0)]))" if na: "a \<noteq> no_chunk"
  proof (intro conjI allI impI)
    show m': "mapped fs_of ?c vs" by (rule mapped.Map [OF assms(1-3,5) mm na])
    have e: "desc_ok (m_vmemAlloc c1) ?e"
      "\<And>p d. (p, d) \<in> set (m_descriptors c) \<Longrightarrow> extent d \<inter> extent ?e = {}" using a(3) na by auto
    then show "a mod 4096 = 0" by (auto simp: desc_ok_def USERSPACE_LOW_ADDR_def)
    fix x assume x: "a \<le> x" "x < a + len"
    have "len \<le> roundToPageMultiples len" using roundToPageMultiples_bounds [OF assms(4,5)] by auto
    with x have xe: "x \<in> extent ?e" by (simp add: extent_def)
    show "findMemoryDescriptor c x = None" using e(2) xe by (intro findMemoryDescriptor_none [OF ok])
    show "handlePageFault fs_mmap fs_read ?c x op True
        = (if protFlagsToPermissions prot AND operation_permission op = 0 then [SegmentationFault]
           else [NewPage x (protFlagsToPermissions prot AND WritePermission \<noteq> 0)])"
      using new_mapping_fault [OF mapped_ctx_ok [OF m'] xe] by simp
  qed
  moreover have "exhausted c len" if "a = no_chunk" using a(3) that by (auto simp: no_chunk_def USERSPACE_LOW_ADDR_def)
  ultimately show "\<exists>a c'. mmap newdesc c vs files 0 len prot (MAP_ANONYMOUS OR MAP_PRIVATE) fd off = Some (a, c', vs)
        \<and> (a = no_chunk \<and> exhausted c len \<or> a \<noteq> no_chunk \<and> mapped fs_of c' vs \<and> a mod 4096 = 0
           \<and> (\<forall>x. a \<le> x \<longrightarrow> x < a + len \<longrightarrow> findMemoryDescriptor c x = None
                \<and> handlePageFault fs_mmap fs_read c' x op True
                  = (if protFlagsToPermissions prot AND operation_permission op = 0 then [SegmentationFault]
                     else [NewPage x (protFlagsToPermissions prot AND WritePermission \<noteq> 0)])))"
    using mm by (intro exI [of _ a] exI [of _ ?c]) argo
qed

theorem mappings_stay_disjoint_witness:
  "\<forall>vs. \<exists>c a c'. MemoryContext_init = Some c
    \<and> mmap 1 c vs [] 0 8192 1 (MAP_ANONYMOUS OR MAP_PRIVATE) 0 0 = Some (a, c', vs)"
proof
  fix vs
  obtain c where c: "MemoryContext_init = Some c" "m_descriptors c = []" using MemoryContext_init_ok by blast
  have h: "mapped (\<lambda>x. x) c vs" "(1 :: addr) \<noteq> NULL" "(1 :: addr) \<notin> fst ` set (m_descriptors c)"
    "(0 :: nat) < 8192" "8192 \<le> (0xFFFFF000 :: nat)"
    using c by (auto simp: NULL_def intro: mapped.Start)
  from mappings_stay_disjoint [OF h, where files = "[]" and prot = 1 and fd = 0 and off = 0
      and fs_mmap = "\<lambda>_ _. 0" and fs_read = "\<lambda>_ _. 0" and op = ReadOperation] c(1)
  show "\<exists>c a c'. MemoryContext_init = Some c
      \<and> mmap 1 c vs [] 0 8192 1 (MAP_ANONYMOUS OR MAP_PRIVATE) 0 0 = Some (a, c', vs)" by blast
qed

text \<open>
  C40: What the calls do wrong. \<open>mprotect\<close> of any address in user space returns \<open>-ENOMEM\<close>, because its
  range test is inverted. When the allocator has no chunk that is large enough, an anonymous mapping is
  made all the same, at an address below user space. And \<open>munmap\<close> of a part of a mapping that does not
  reach its end reports success and does nothing.
\<close>
theorem memory_calls_go_wrong:
  assumes "ctx_ok c" and "0 < len" and "len \<le> 0xFFFFF000" and "newdesc \<noteq> NULL"
  shows "(USERSPACE_LOW_ADDR \<le> address \<longrightarrow> mprotect c address len prot = (- errno_code ENOMEM, c))
    \<and> ((\<forall>n. owners (m_lists (m_vmemAlloc c)) n = 0) \<longrightarrow>
        (\<exists>c' e. mmap newdesc c vs files 0 len prot (MAP_ANONYMOUS OR MAP_PRIVATE) fd off = Some (no_chunk, c', vs)
          \<and> (newdesc, e) \<in> set (m_descriptors c') \<and> baseAddress e = no_chunk \<and> no_chunk < USERSPACE_LOW_ADDR))
    \<and> ((\<forall>p d. (p, d) \<in> set (m_descriptors c) \<longrightarrow> md_end d \<le> address \<or> add32 address len < md_end d) \<longrightarrow>
        munmap fs_of c vs address len = Some (0, c, vs))"
proof (intro conjI impI)
  show "mprotect c address len prot = (- errno_code ENOMEM, c)" if "USERSPACE_LOW_ADDR \<le> address"
    using that by (simp add: mprotect_def USERSPACE_LOW_ADDR_def)
  show "munmap fs_of c vs address len = Some (0, c, vs)"
    if "\<forall>p d. (p, d) \<in> set (m_descriptors c) \<longrightarrow> md_end d \<le> address \<or> add32 address len < md_end d"
  proof -
    from that have "findMemoryDescriptorsByRange c address (add32 address len) = []"
      by (force simp: findMemoryDescriptorsByRange_def filter_empty_conv)
    then show ?thesis by (simp add: munmap_def)
  qed
  assume none: "\<forall>n. owners (m_lists (m_vmemAlloc c)) n = 0"
  let ?b = "m_vmemAlloc c"
  from assms(1) have bok: "buddy_ok ?b" "m_orders ?b = 20" by (simp_all add: ctx_ok_def)
  from roundToPageMultiples_bounds [OF assms(2,3)] obtain sz where
    sz: "roundToPageMultiples len = 4096 * sz" "0 < sz" "sz < 2 ^ 20" by blast
  have "int sz < 2 ^ Suc (m_orders ?b)" using sz(3) bok by simp
  from allocateBlocks_ok [OF bok(1) _ this] sz(2) obtain r b' where
    r: "allocateBlocks ?b (int sz) = Some (r, b')"
    "r = -1 \<and> b' = ?b \<or> 0 \<le> r
       \<and> (\<forall>n. owners (m_lists ?b) n = owners (m_lists b') n + within r (int sz) n)" by auto
  have "within r (int sz) r = 1" using sz(2) by (simp add: within_def)
  with r(2) none have "r = -1" "b' = ?b" by (metis add_is_0 zero_neq_one)+
  with r(1) sz have "allocVirtualMemory c (roundToPageMultiples len) = Some (no_chunk, c)"
    by (simp add: allocVirtualMemory_def no_chunk_def USERSPACE_LOW_ADDR_def)
  from mmap_anonymous [OF assms(2,4) this] show "\<exists>c' e. mmap newdesc c vs files 0 len prot
      (MAP_ANONYMOUS OR MAP_PRIVATE) fd off = Some (no_chunk, c', vs)
      \<and> (newdesc, e) \<in> set (m_descriptors c') \<and> baseAddress e = no_chunk \<and> no_chunk < USERSPACE_LOW_ADDR"
    by (auto simp: no_chunk_def USERSPACE_LOW_ADDR_def insertMemoryDescriptor_def)
qed

theorem memory_calls_go_wrong_witness:
  "\<exists>c. MemoryContext_init = Some c \<and> mprotect c 0x10000000 4096 3 = (- errno_code ENOMEM, c)"
proof -
  obtain c where c: "MemoryContext_init = Some c" "ctx_ok c" using MemoryContext_init_ok by blast
  from memory_calls_go_wrong [OF c(2), where len = 4096 and newdesc = 1 and address = "0x10000000" and prot = 3] c(1) show ?thesis
    by (auto simp: NULL_def USERSPACE_LOW_ADDR_def)
qed

end
