(* ===== verification/QList.thy ===== *)
theory QList
  imports Prelude
begin

text \<open>
  The growing array of the kernel, src/src/kernel/include/lib/koof/QList, and the table with holes over it,
  src/src/kernel/include/lib/koof/ListWithHoles. The array is a list of cells: \<open>None\<close> is a cell that
  \<open>new\<close> has not initialised, and reading such a cell, like an access outside the array, through a null
  pointer or to a freed array, is a fault. Indices are integers, because loops run below zero.

  The allocator is a parameter: \<open>ok\<close> tells whether \<open>new\<close> succeeds. The element type stands for a type
  without constructor, such as a pointer, and \<open>dflt\<close> is its value \<open>T()\<close>.
\<close>

section \<open>The array\<close>

datatype 'a m_array = Null | Freed | Cells "'a option list"

record 'a QList =
  m_size :: int
  m_capacity :: int
  cells :: "'a m_array"

fun cell :: "'a m_array \<Rightarrow> int \<Rightarrow> 'a option" where
  "cell (Cells xs) i = (if 0 \<le> i \<and> i < int (length xs) then xs ! nat i else None)"
| "cell _ i = None"

text \<open>A cell as it is copied, initialised or not.\<close>

fun raw_cell :: "'a m_array \<Rightarrow> int \<Rightarrow> 'a option option" where
  "raw_cell (Cells xs) i = (if 0 \<le> i \<and> i < int (length xs) then Some (xs ! nat i) else None)"
| "raw_cell _ i = None"

fun set_cell :: "'a m_array \<Rightarrow> int \<Rightarrow> 'a option \<Rightarrow> 'a m_array option" where
  "set_cell (Cells xs) i v = (if 0 \<le> i \<and> i < int (length xs) then Some (Cells (xs[nat i := v])) else None)"
| "set_cell _ i v = None"

definition new_array :: "int \<Rightarrow> 'a m_array" where
  "new_array n = Cells (replicate (nat n) None)"

fun delete_array :: "'a m_array \<Rightarrow> unit option" where
  "delete_array Freed = None"
| "delete_array _ = Some ()"

text \<open>The two kinds of loops: copying a range and filling a range, upwards.\<close>

function copy_up :: "'a m_array \<Rightarrow> 'a m_array \<Rightarrow> int \<Rightarrow> int \<Rightarrow> 'a m_array option" where
  "copy_up from to i n =
     (if i < n then do {
        v \<leftarrow> raw_cell from i;
        to' \<leftarrow> set_cell to i v;
        copy_up from to' (i + 1) n }
      else Some to)"
  by pat_completeness auto
termination by (relation "measure (\<lambda>(from, to, i, n). nat (n - i))") auto

function fill_up :: "'a m_array \<Rightarrow> 'a \<Rightarrow> int \<Rightarrow> int \<Rightarrow> 'a m_array option" where
  "fill_up arr v i n =
     (if i < n then do {
        arr' \<leftarrow> set_cell arr i (Some v);
        fill_up arr' v (i + 1) n }
      else Some arr)"
  by pat_completeness auto
termination by (relation "measure (\<lambda>(arr, v, i, n). nat (n - i))") auto

declare copy_up.simps [simp del] fill_up.simps [simp del]

section \<open>Construction\<close>

definition QList_init :: "bool \<Rightarrow> int \<Rightarrow> int \<Rightarrow> 'a QList" where
  "QList_init ok n cap = \<lparr>m_size = n, m_capacity = cap, cells = (if ok then new_array cap else Null)\<rparr>"

definition QLIST_DEFAULT_CAPACITY :: int where
  "QLIST_DEFAULT_CAPACITY = 2"

definition QList_new :: "bool \<Rightarrow> 'a QList" where
  "QList_new ok = QList_init ok 0 QLIST_DEFAULT_CAPACITY"

definition QList_fill :: "bool \<Rightarrow> int \<Rightarrow> 'a \<Rightarrow> 'a QList option" where
  "QList_fill ok n value =
     (let l = QList_init ok n n in
      if cells l \<noteq> Null then map_option (\<lambda>a. l\<lparr>cells := a\<rparr>) (fill_up (cells l) value 0 n) else Some l)"

definition isEmpty :: "'a QList \<Rightarrow> bool" where
  "isEmpty l \<longleftrightarrow> m_size l = 0"

definition QList_size :: "'a QList \<Rightarrow> int" where
  "QList_size l = m_size l"

definition isValid :: "'a QList \<Rightarrow> bool" where
  "isValid l \<longleftrightarrow> cells l \<noteq> Null \<or> cells l = Null \<and> m_size l \<noteq> 0 \<and> m_capacity l \<noteq> 0"

definition copyToThis :: "bool \<Rightarrow> 'a QList \<Rightarrow> 'a QList option" where
  "copyToThis ok other =
     (let l = QList_init ok (m_size other) (m_capacity other) in
      if \<not> isEmpty other \<and> isValid other
      then map_option (\<lambda>a. l\<lparr>cells := a\<rparr>) (copy_up (cells other) (cells l) 0 (m_size other))
      else Some l)"

section \<open>Reading\<close>

definition at :: "'a QList \<Rightarrow> int \<Rightarrow> 'a option" where
  "at l i = cell (cells l) i"

definition QList_value :: "'a QList \<Rightarrow> int \<Rightarrow> 'a \<Rightarrow> 'a option" where
  "QList_value l i defaultValue = (if i < m_size l then at l i else Some defaultValue)"

definition QList_last :: "'a QList \<Rightarrow> 'a option" where
  "QList_last l = at l (m_size l - 1)"

definition QList_first :: "'a QList \<Rightarrow> 'a option" where
  "QList_first l = at l 0"

definition endsWith :: "'a QList \<Rightarrow> 'a \<Rightarrow> bool option" where
  "endsWith l value = map_option (\<lambda>x. x = value) (QList_last l)"

definition startsWith :: "'a QList \<Rightarrow> 'a \<Rightarrow> bool option" where
  "startsWith l value = map_option (\<lambda>x. x = value) (QList_first l)"

function count_loop :: "'a QList \<Rightarrow> 'a \<Rightarrow> int \<Rightarrow> int \<Rightarrow> int option" where
  "count_loop l value i counter =
     (if i < m_size l then do {
        x \<leftarrow> at l i;
        count_loop l value (i + 1) (if x = value then counter + 1 else counter) }
      else Some counter)"
  by pat_completeness auto
termination by (relation "measure (\<lambda>(l, value, i, c). nat (m_size l - i))") auto

definition count_value :: "'a QList \<Rightarrow> 'a \<Rightarrow> int option" where
  "count_value l value = count_loop l value 0 0"

function indexOf :: "'a QList \<Rightarrow> 'a \<Rightarrow> int \<Rightarrow> int option" where
  "indexOf l value i =
     (if i < m_size l then do {
        x \<leftarrow> at l i;
        if x = value then Some i else indexOf l value (i + 1) }
      else Some (-1))"
  by pat_completeness auto
termination by (relation "measure (\<lambda>(l, value, i). nat (m_size l - i))") auto

declare count_loop.simps [simp del] indexOf.simps [simp del]

section \<open>Changing\<close>

definition set_at :: "'a QList \<Rightarrow> int \<Rightarrow> 'a \<Rightarrow> 'a QList option" where
  "set_at l i value = map_option (\<lambda>a. l\<lparr>cells := a\<rparr>) (set_cell (cells l) i (Some value))"

definition reserve :: "bool \<Rightarrow> 'a QList \<Rightarrow> int \<Rightarrow> (bool \<times> 'a QList) option" where
  "reserve ok l newCapacity =
     (if \<not> ok then Some (False, l)
      else do {
        let newSize = (if m_size l < newCapacity then m_size l else newCapacity);
        tmpArray \<leftarrow> copy_up (cells l) (new_array newCapacity) 0 newSize;
        delete_array (cells l);
        Some (True, \<lparr>m_size = newSize, m_capacity = newCapacity, cells = tmpArray\<rparr>) })"

definition resize :: "bool \<Rightarrow> 'a \<Rightarrow> 'a QList \<Rightarrow> int \<Rightarrow> 'a QList option" where
  "resize ok dflt l n = do {
     (_, l) \<leftarrow> reserve ok l n;
     a \<leftarrow> fill_up (cells l) dflt (m_size l) n;
     Some (l\<lparr>cells := a, m_size := n\<rparr>) }"

definition clear :: "'a QList \<Rightarrow> 'a QList option" where
  "clear l = map_option (\<lambda>_. \<lparr>m_size = 0, m_capacity = 0, cells = Freed\<rparr>) (delete_array (cells l))"

definition squeeze :: "bool \<Rightarrow> 'a QList \<Rightarrow> 'a QList option" where
  "squeeze ok l = map_option snd (reserve ok l (m_size l))"

definition append_value :: "bool \<Rightarrow> 'a QList \<Rightarrow> 'a \<Rightarrow> (int \<times> 'a QList) option" where
  "append_value ok l value = do {
     (fits, l) \<leftarrow> (if m_size l = m_capacity l then reserve ok l (m_capacity l * 2) else Some (True, l));
     if \<not> fits then Some (-1, l)
     else do {
       let index = m_size l;
       l \<leftarrow> set_at l index value;
       Some (index, l\<lparr>m_size := m_size l + 1\<rparr>) } }"

text \<open>The loop of \<open>insert\<close> that makes room runs down to the index \<open>i\<close> itself.\<close>

function insert_loop :: "'a m_array \<Rightarrow> int \<Rightarrow> int \<Rightarrow> int \<Rightarrow> 'a m_array option" where
  "insert_loop arr i cnt j =
     (if i \<le> j then do {
        v \<leftarrow> raw_cell arr (j - cnt);
        arr' \<leftarrow> set_cell arr j v;
        insert_loop arr' i cnt (j - 1) }
      else Some arr)"
  by pat_completeness auto
termination by (relation "measure (\<lambda>(arr, i, cnt, j). nat (j - i + 1))") auto

declare insert_loop.simps [simp del]

definition insert_values :: "bool \<Rightarrow> 'a QList \<Rightarrow> int \<Rightarrow> int \<Rightarrow> 'a \<Rightarrow> (bool \<times> 'a QList) option" where
  "insert_values ok l i cnt value = do {
     (fits, l) \<leftarrow> (if m_capacity l < m_size l + cnt then reserve ok l (m_capacity l * 2 + cnt) else Some (True, l));
     if \<not> fits then Some (False, l)
     else do {
       a \<leftarrow> insert_loop (cells l) i cnt (m_size l + cnt - 1);
       a \<leftarrow> fill_up a value i (i + cnt);
       Some (True, l\<lparr>cells := a, m_size := m_size l + cnt\<rparr>) } }"

definition insert_value :: "bool \<Rightarrow> 'a QList \<Rightarrow> int \<Rightarrow> 'a \<Rightarrow> (bool \<times> 'a QList) option" where
  "insert_value ok l i value = insert_values ok l i 1 value"

definition prepend :: "bool \<Rightarrow> 'a QList \<Rightarrow> 'a \<Rightarrow> (bool \<times> 'a QList) option" where
  "prepend ok l value = insert_values ok l 0 1 value"

function remove_loop :: "'a m_array \<Rightarrow> int \<Rightarrow> int \<Rightarrow> int \<Rightarrow> 'a m_array option" where
  "remove_loop arr i cnt n =
     (if i < n then do {
        v \<leftarrow> raw_cell arr (i + cnt);
        arr' \<leftarrow> set_cell arr i v;
        remove_loop arr' (i + 1) cnt n }
      else Some arr)"
  by pat_completeness auto
termination by (relation "measure (\<lambda>(arr, i, cnt, n). nat (n - i))") auto

declare remove_loop.simps [simp del]

definition remove_values :: "'a QList \<Rightarrow> int \<Rightarrow> int \<Rightarrow> 'a QList option" where
  "remove_values l i cnt = do {
     a \<leftarrow> remove_loop (cells l) i cnt (m_size l - cnt);
     Some (l\<lparr>cells := a, m_size := m_size l - cnt\<rparr>) }"

definition removeAt :: "'a QList \<Rightarrow> int \<Rightarrow> 'a QList option" where
  "removeAt l i = remove_values l i 1"

definition removeFirst :: "'a QList \<Rightarrow> 'a QList option" where
  "removeFirst l = remove_values l 0 1"

definition removeLast :: "'a QList \<Rightarrow> 'a QList option" where
  "removeLast l = remove_values l (m_size l - 1) 1"

definition takeAt :: "'a QList \<Rightarrow> int \<Rightarrow> ('a \<times> 'a QList) option" where
  "takeAt l i = do { x \<leftarrow> at l i; l \<leftarrow> remove_values l i 1; Some (x, l) }"

definition takeFirst :: "'a QList \<Rightarrow> ('a \<times> 'a QList) option" where
  "takeFirst l = do { x \<leftarrow> at l 0; l \<leftarrow> remove_values l 0 1; Some (x, l) }"

definition takeLast :: "'a QList \<Rightarrow> ('a \<times> 'a QList) option" where
  "takeLast l = do { x \<leftarrow> at l (m_size l - 1); l \<leftarrow> remove_values l (m_size l - 1) 1; Some (x, l) }"

definition QList_swap :: "'a QList \<Rightarrow> int \<Rightarrow> int \<Rightarrow> 'a QList option" where
  "QList_swap l i j = do {
     tmp \<leftarrow> at l i;
     x \<leftarrow> at l j;
     l \<leftarrow> set_at l i x;
     set_at l j tmp }"

text \<open>
  \<open>removeAll\<close>: the inner loop skips equal cells without looking at the size, so it reads past the end when
  the last value is removed. It always ends, because there are finitely many cells.
\<close>

function skip_equal :: "'a m_array \<Rightarrow> 'a \<Rightarrow> int \<Rightarrow> int \<Rightarrow> (int \<times> int) option" where
  "skip_equal arr value i rcounter = do {
     x \<leftarrow> cell arr i;
     if x = value then skip_equal arr value (i + 1) (rcounter + 1) else Some (i, rcounter) }"
  by pat_completeness auto

fun array_length :: "'a m_array \<Rightarrow> nat" where
  "array_length (Cells xs) = length xs"
| "array_length _ = 0"

lemma cell_length: "cell arr i = Some x \<Longrightarrow> 0 \<le> i \<and> i < int (array_length arr)"
  by (cases arr) (auto split: if_splits)

termination skip_equal
  by (relation "measure (\<lambda>(arr, value, i, r). nat (int (array_length arr) - i))") (auto dest: cell_length)

declare skip_equal.simps [simp del]

lemma skip_equal_forward: "skip_equal arr v i r = Some (j, r') \<Longrightarrow> i \<le> j"
proof (induction arr v i r rule: skip_equal.induct)
  case (1 arr v i r)
  from "1.prems" show ?case
    by (subst (asm) skip_equal.simps) (force dest: "1.IH" split: Option.bind_splits if_splits)
qed

function removeAll_loop :: "'a m_array \<Rightarrow> 'a \<Rightarrow> int \<Rightarrow> int \<Rightarrow> int \<Rightarrow> int \<Rightarrow> ('a m_array \<times> int) option" where
  "removeAll_loop arr value n destIndex i rcounter =
     (if i < n then
        case skip_equal arr value i rcounter of
          None \<Rightarrow> None
        | Some (i', rcounter') \<Rightarrow>
            (case raw_cell arr i' of
               None \<Rightarrow> None
             | Some v \<Rightarrow>
                 (case set_cell arr destIndex v of
                    None \<Rightarrow> None
                  | Some arr' \<Rightarrow> removeAll_loop arr' value n (destIndex + 1) (i' + 1) rcounter'))
      else Some (arr, rcounter))"
  by pat_completeness auto
termination
  by (relation "measure (\<lambda>(arr, value, n, d, i, r). nat (n - i))") (auto dest: skip_equal_forward)

declare removeAll_loop.simps [simp del]

definition QList_removeAll :: "'a QList \<Rightarrow> 'a \<Rightarrow> (int \<times> 'a QList) option" where
  "QList_removeAll l value = do {
     first \<leftarrow> indexOf l value 0;
     let start = (if first = -1 then m_size l else first);
     let destIndex = (if first = -1 then 0 else first);
     (a, rcounter) \<leftarrow> removeAll_loop (cells l) value (m_size l) destIndex start 0;
     Some (rcounter, l\<lparr>cells := a, m_size := m_size l - rcounter\<rparr>) }"

section \<open>The table with holes\<close>

definition ListWithHoles_new :: "bool \<Rightarrow> 'a QList" where
  "ListWithHoles_new ok = QList_new ok"

text \<open>The loop of \<open>add\<close> is the one of \<open>indexOf\<close>, for the value \<open>T()\<close>.\<close>

definition add_value :: "bool \<Rightarrow> 'a \<Rightarrow> 'a QList \<Rightarrow> 'a \<Rightarrow> (int \<times> 'a QList) option" where
  "add_value ok dflt l value = do {
     i \<leftarrow> indexOf l dflt 0;
     if i \<noteq> -1 then map_option (Pair i) (set_at l i value)
     else append_value ok l value }"

definition remove_value :: "'a \<Rightarrow> 'a QList \<Rightarrow> int \<Rightarrow> 'a QList option" where
  "remove_value dflt l i = set_at l i dflt"

section \<open>Loops over the cells\<close>

lemma copy_up_cells:
  assumes "n \<le> length xs" and "n \<le> length ys" and "i \<le> n"
  shows "copy_up (Cells xs) (Cells ys) (int i) (int n) = Some (Cells (take i ys @ take (n - i) (drop i xs) @ drop n ys))"
  using assms
proof (induction "n - i" arbitrary: i ys)
  case (Suc k)
  then have i: "i < n" by simp
  have IH: "copy_up (Cells xs) (Cells (ys[i := xs ! i])) (int (Suc i)) (int n)
      = Some (Cells (take (Suc i) (ys[i := xs ! i]) @ take (n - Suc i) (drop (Suc i) xs) @ drop n (ys[i := xs ! i])))"
    using Suc.prems Suc.hyps(2) i by (intro Suc.hyps(1)) auto
  have "take (n - i) (drop i xs) = xs ! i # take (n - Suc i) (drop (Suc i) xs)"
    using i Suc.prems(1) by (simp add: Cons_nth_drop_Suc [symmetric] take_Cons')
  with IH i Suc.prems show ?case
    by (subst copy_up.simps) (simp add: add.commute take_Suc_conv_app_nth)
qed (subst copy_up.simps, simp)

lemma fill_up_cells:
  assumes "n \<le> length xs" and "i \<le> n"
  shows "fill_up (Cells xs) v (int i) (int n) = Some (Cells (take i xs @ replicate (n - i) (Some v) @ drop n xs))"
  using assms
proof (induction "n - i" arbitrary: i xs)
  case (Suc k)
  then have i: "i < n" by simp
  have IH: "fill_up (Cells (xs[i := Some v])) v (int (Suc i)) (int n)
      = Some (Cells (take (Suc i) (xs[i := Some v]) @ replicate (n - Suc i) (Some v) @ drop n (xs[i := Some v])))"
    using Suc.prems Suc.hyps(2) i by (intro Suc.hyps(1)) auto
  have "replicate (n - i) (Some v) = Some v # replicate (n - Suc i) (Some v)"
    using i by (metis Suc_diff_Suc replicate_Suc)
  with IH i Suc.prems show ?case
    by (subst fill_up.simps) (simp add: add.commute take_Suc_conv_app_nth)
qed (subst fill_up.simps, simp)

text \<open>Cells from \<open>i\<close> to \<open>n\<close> moved up by \<open>c\<close>, and down by \<open>c\<close>.\<close>

definition moved_up :: "nat \<Rightarrow> nat \<Rightarrow> nat \<Rightarrow> 'b list \<Rightarrow> 'b list" where
  "moved_up i c n xs = map (\<lambda>k. if i \<le> k \<and> k < n then xs ! (k - c) else xs ! k) [0 ..< length xs]"

definition moved_down :: "nat \<Rightarrow> nat \<Rightarrow> nat \<Rightarrow> 'b list \<Rightarrow> 'b list" where
  "moved_down i c n xs = map (\<lambda>k. if i \<le> k \<and> k < n then xs ! (k + c) else xs ! k) [0 ..< length xs]"

lemma insert_loop_cells:
  assumes "c \<le> i" and "0 < c" and "n \<le> length xs"
  shows "insert_loop (Cells xs) (int i) (int c) (int n - 1) = Some (Cells (moved_up i c n xs))"
  using assms
proof (induction n arbitrary: xs)
  case 0
  have "moved_up i c 0 xs = xs" by (simp add: moved_up_def map_nth)
  then show ?case by (subst insert_loop.simps) simp
next
  case (Suc n)
  show ?case
  proof (cases "i \<le> n")
    case True
    have "moved_up i c n (xs[n := xs ! (n - c)]) = moved_up i c (Suc n) xs"
      using True Suc.prems by (intro nth_equalityI) (auto simp: moved_up_def nth_list_update less_Suc_eq)
    with Suc.IH [of "xs[n := xs ! (n - c)]"] Suc.prems True show ?thesis
      by (subst insert_loop.simps) (simp add: nat_diff_distrib')
  next
    case False
    then have "moved_up i c (Suc n) xs = xs" by (intro nth_equalityI) (auto simp: moved_up_def)
    with False show ?thesis by (subst insert_loop.simps) simp
  qed
qed

lemma remove_loop_cells:
  assumes "n + c \<le> length xs" and "i \<le> n"
  shows "remove_loop (Cells xs) (int i) (int c) (int n) = Some (Cells (moved_down i c n xs))"
  using assms
proof (induction "n - i" arbitrary: i xs)
  case 0
  then have "moved_down i c n xs = xs" by (intro nth_equalityI) (auto simp: moved_down_def)
  with 0 show ?case by (subst remove_loop.simps) simp
next
  case (Suc k)
  then have i: "i < n" by simp
  have "moved_down (Suc i) c n (xs[i := xs ! (i + c)]) = moved_down i c n xs"
    using i Suc.prems by (intro nth_equalityI) (auto simp: moved_down_def nth_list_update)
  moreover have "remove_loop (Cells (xs[i := xs ! (i + c)])) (int (Suc i)) (int c) (int n)
      = Some (Cells (moved_down (Suc i) c n (xs[i := xs ! (i + c)])))"
    using Suc.prems Suc.hyps(2) i by (intro Suc.hyps(1)) auto
  ultimately show ?case using i Suc.prems
    by (subst remove_loop.simps) (simp add: add.commute nat_add_distrib)
qed

section \<open>Contents\<close>

text \<open>A list with the values \<open>xs\<close> and room for more.\<close>

definition shape :: "'a list \<Rightarrow> 'a option list \<Rightarrow> 'a QList" where
  "shape xs junk = \<lparr>m_size = int (length xs), m_capacity = int (length xs + length junk),
     cells = Cells (map Some xs @ junk)\<rparr>"

lemma shape_fields [simp]:
  "m_size (shape xs junk) = int (length xs)" "m_capacity (shape xs junk) = int (length xs + length junk)"
  "cells (shape xs junk) = Cells (map Some xs @ junk)"
  by (simp_all add: shape_def)

definition qlist_ok :: "'a QList \<Rightarrow> bool" where
  "qlist_ok l \<longleftrightarrow> (\<exists>xs junk. l = shape xs junk \<and> 0 < length xs + length junk)"

definition elements :: "'a QList \<Rightarrow> 'a list" where
  "elements l = (case cells l of Cells cs \<Rightarrow> map the (take (nat (m_size l)) cs) | _ \<Rightarrow> [])"

lemma elements_shape [simp]: "elements (shape xs junk) = xs"
  by (simp add: elements_def)

lemma qlist_okE:
  assumes "qlist_ok l"
  obtains junk where "l = shape (elements l) junk" and "0 < length (elements l) + length junk"
  using assms unfolding qlist_ok_def by auto

lemma qlist_ok_shape: "0 < length xs + length junk \<Longrightarrow> qlist_ok (shape xs junk)"
  unfolding qlist_ok_def by blast

lemma QList_size_shape [simp]: "QList_size (shape xs junk) = int (length xs)"
  by (simp add: QList_size_def)

lemma QList_new_shape: "QList_new True = shape [] [None, None]"
  by (simp add: QList_new_def QList_init_def new_array_def QLIST_DEFAULT_CAPACITY_def shape_def numeral_2_eq_2)

lemma at_shape: "i < length xs \<Longrightarrow> at (shape xs junk) (int i) = Some (xs ! i)"
  by (simp add: at_def nth_append)

lemma set_at_shape:
  assumes "i < length xs"
  shows "set_at (shape xs junk) (int i) v = Some (shape (xs[i := v]) junk)"
  using assms by (simp add: set_at_def shape_def list_update_append map_update)

lemma reserve_shape:
  "reserve True (shape xs junk) (int n) = Some (True, shape (take n xs) (replicate (n - length xs) None))"
proof -
  let ?m = "min (length xs) n"
  have c: "copy_up (Cells (map Some xs @ junk)) (new_array (int n)) 0 (int ?m)
      = Some (Cells (map Some (take n xs) @ replicate (n - length xs) None))"
    using copy_up_cells [of ?m "map Some xs @ junk" "replicate n None" 0]
    by (auto simp: new_array_def min_def take_map)
  have "(if int (length xs) < int n then int (length xs) else int n) = int ?m" by simp
  with c show ?thesis unfolding reserve_def shape_fields by (auto simp: shape_def min_def)
qed

lemma copy_shape: "copyToThis True (shape xs junk) = Some (shape xs (replicate (length junk) None))"
proof -
  have "copy_up (Cells (map Some xs @ junk)) (new_array (int (length xs + length junk))) 0 (int (length xs))
      = Some (Cells (map Some xs @ replicate (length junk) None))"
    using copy_up_cells [of "length xs" "map Some xs @ junk" "replicate (length xs + length junk) None" 0]
    by (simp add: new_array_def nat_add_distrib)
  then show ?thesis
    by (cases xs) (simp_all add: copyToThis_def isEmpty_def isValid_def QList_init_def shape_def new_array_def nat_add_distrib)
qed

lemma append_shape:
  assumes "0 < length xs + length junk"
  shows "\<exists>junk'. append_value True (shape xs junk) v = Some (int (length xs), shape (xs @ [v]) junk')"
proof -
  have put: "set_at (shape xs (j # js)) (int (length xs)) v = Some (shape (xs @ [v]) js \<lparr>m_size := int (length xs)\<rparr>)" for j js
    by (simp add: set_at_def shape_def list_update_append)
  show ?thesis
  proof (cases junk)
    case Nil
    from assms Nil obtain n where n: "replicate (length xs) (None :: 'a option) = None # replicate n None"
      by (cases xs) auto
    have "reserve True (shape xs []) (int (length xs) * 2) = Some (True, shape xs (replicate (length xs) None))"
      using reserve_shape [of xs "[]" "length xs * 2"] by (simp add: mult.commute)
    then show ?thesis using Nil put [of None "replicate n None"] n
      by (auto simp: append_value_def shape_def Let_def intro: exI)
  next
    case (Cons j js)
    then show ?thesis using put [of j js] by (auto simp: append_value_def shape_def Let_def intro: exI)
  qed
qed

lemma resize_shape:
  "resize True d (shape xs junk) (int n) = Some (shape (take n xs @ replicate (n - length xs) d) [])"
proof -
  let ?m = "min (length xs) n"
  have "fill_up (Cells (map Some (take n xs) @ replicate (n - length xs) None)) d (int ?m) (int n)
      = Some (Cells (map Some (take n xs @ replicate (n - length xs) d)))"
    using fill_up_cells [of n "map Some (take n xs) @ replicate (n - length xs) None" ?m d]
    by (auto simp: min_def map_replicate_const)
  then show ?thesis by (simp add: resize_def reserve_shape min_def)
qed

lemma moved_up_append:
  assumes "c \<le> i" and "i \<le> length xs" and "c \<le> length js"
  shows "\<exists>ys. moved_up i c (length xs + c) (xs @ js) = take i xs @ ys @ drop i xs @ drop c js \<and> length ys = c"
proof (intro exI conjI)
  let ?ys = "map (\<lambda>k. (xs @ js) ! (k - c)) [i ..< i + c]"
  show "length ?ys = c" by simp
  show "moved_up i c (length xs + c) (xs @ js) = take i xs @ ?ys @ drop i xs @ drop c js"
    using assms by (intro nth_equalityI) (auto simp: moved_up_def nth_append)
qed

lemma insert_shape:
  assumes "c \<le> i" and "0 < c" and "i \<le> length xs"
  shows "\<exists>junk'. insert_values True (shape xs junk) (int i) (int c) v
    = Some (True, shape (take i xs @ replicate c v @ drop i xs) junk')"
proof -
  have room: "\<exists>junk'. insert_values True (shape xs js) (int i) (int c) v
      = Some (True, shape (take i xs @ replicate c v @ drop i xs) junk')" if js: "c \<le> length js" for js
  proof -
    let ?n = "length xs + c"
    from moved_up_append [of c i "map Some xs" js] assms js obtain ys where
      ys: "moved_up i c ?n (map Some xs @ js) = take i (map Some xs) @ ys @ drop i (map Some xs) @ drop c js"
      "length ys = c" by auto
    have l: "insert_loop (Cells (map Some xs @ js)) (int i) (int c) (int ?n - 1)
        = Some (Cells (take i (map Some xs) @ ys @ drop i (map Some xs) @ drop c js))"
      using insert_loop_cells [of c i ?n "map Some xs @ js"] assms js ys(1) by simp
    have f: "fill_up (Cells (take i (map Some xs) @ ys @ drop i (map Some xs) @ drop c js)) v (int i) (int (i + c))
        = Some (Cells (map Some (take i xs @ replicate c v @ drop i xs) @ drop c js))"
      using assms ys(2) by (subst fill_up_cells) (auto simp: take_map drop_map map_replicate_const)
    have "insert_values True (shape xs js) (int i) (int c) v
      = Some (True, shape (take i xs @ replicate c v @ drop i xs) (drop c js))"
      using js l f assms by (simp add: insert_values_def shape_def)
    then show ?thesis by blast
  qed
  show ?thesis
  proof (cases "c \<le> length junk")
    case False
    let ?cap = "(length xs + length junk) * 2 + c"
    have r: "reserve True (shape xs junk) (int ?cap) = Some (True, shape xs (replicate (?cap - length xs) None))"
      using reserve_shape [of xs junk ?cap] by simp
    have "insert_values True (shape xs junk) (int i) (int c) v
        = insert_values True (shape xs (replicate (?cap - length xs) None)) (int i) (int c) v"
      using False r by (simp add: insert_values_def algebra_simps)
    with room show ?thesis by simp
  qed (rule room)
qed

lemma remove_shape:
  assumes "i + c \<le> length xs"
  shows "\<exists>js. remove_values (shape xs junk) (int i) (int c) = Some (shape (take i xs @ drop (i + c) xs) (js @ junk))
    \<and> length js = c"
proof -
  let ?n = "length xs - c" and ?cs = "map Some xs @ junk"
  have "moved_down i c ?n ?cs = map Some (take i xs @ drop (i + c) xs) @ drop ?n (map Some xs) @ junk"
    using assms by (intro nth_equalityI) (auto simp: moved_down_def nth_append add.commute [of _ c])
  moreover have "remove_loop (Cells ?cs) (int i) (int c) (int ?n) = Some (Cells (moved_down i c ?n ?cs))"
    using assms by (intro remove_loop_cells) auto
  ultimately have "remove_values (shape xs junk) (int i) (int c)
      = Some (shape (take i xs @ drop (i + c) xs) (drop ?n (map Some xs) @ junk))"
    using assms by (simp add: remove_values_def shape_def of_nat_diff)
  then show ?thesis using assms by (intro exI [of _ "drop ?n (map Some xs)"]) auto
qed

lemma indexOf_shape:
  "k \<le> length xs \<Longrightarrow> indexOf (shape xs junk) v (int k)
    = Some (if v \<in> set (drop k xs) then int (k + length (takeWhile (\<lambda>x. x \<noteq> v) (drop k xs))) else -1)"
proof (induction "length xs - k" arbitrary: k)
  case (Suc n)
  then have k: "k < length xs" by simp
  then have d: "drop k xs = xs ! k # drop (Suc k) xs" by (simp add: Cons_nth_drop_Suc)
  from Suc.hyps(1) [of "Suc k"] Suc.hyps(2) k show ?case
    by (subst indexOf.simps) (simp add: at_shape d add.commute)
qed (subst indexOf.simps, simp)

lemma count_shape:
  "k \<le> length xs \<Longrightarrow> count_loop (shape xs junk) v (int k) c = Some (c + int (count_list (drop k xs) v))"
proof (induction "length xs - k" arbitrary: k c)
  case (Suc n)
  then have k: "k < length xs" by simp
  then have d: "drop k xs = xs ! k # drop (Suc k) xs" by (simp add: Cons_nth_drop_Suc)
  from Suc.hyps(1) [of "Suc k"] Suc.hyps(2) k show ?case
    by (subst count_loop.simps) (auto simp: at_shape d add.commute)
qed (subst count_loop.simps, simp)

text \<open>
  \<open>removeAll\<close>: \<open>ds\<close> are the cells already written, \<open>mid\<close> the free cells between them and the values still to
  be looked at.
\<close>

lemma count_replicate: "count_list (replicate k v) v = k"
  by (induction k) simp_all

lemma skip_equal_run:
  "skip_equal (Cells (pre @ replicate k (Some v) @ suf)) v (int (length pre)) r
     = skip_equal (Cells (pre @ replicate k (Some v) @ suf)) v (int (length pre + k)) (r + int k)"
proof (induction k arbitrary: pre r)
  case (Suc k)
  from Suc.IH [of "pre @ [Some v]" "r + 1"] show ?case
    by (subst skip_equal.simps) (simp add: nth_append add.commute add.left_commute)
qed simp

lemma skip_equal_stop:
  assumes "x \<noteq> v"
  shows "skip_equal (Cells (pre @ replicate k (Some v) @ Some x # suf)) v (int (length pre)) r
    = Some (int (length pre + k), r + int k)"
  unfolding skip_equal_run using assms by (subst skip_equal.simps) (simp add: nth_append nat_add_distrib)

lemma removeAll_loop_step:
  assumes "x \<noteq> v" and rest: "rest = replicate k v @ x # rest'"
  shows "removeAll_loop (Cells (ds @ mid @ map Some rest @ junk)) v (int (length ds + length mid + length rest))
      (int (length ds)) (int (length ds + length mid)) (int (length mid))
    = (let ds' = ds @ [Some x]; mid' = tl (mid @ replicate k (Some v) @ [Some x]) in
       removeAll_loop (Cells (ds' @ mid' @ map Some rest' @ junk)) v (int (length ds' + length mid' + length rest'))
         (int (length ds')) (int (length ds' + length mid')) (int (length mid')))"
proof -
  let ?cs = "ds @ mid @ map Some rest @ junk"
  have "skip_equal (Cells ?cs) v (int (length ds + length mid)) (int (length mid))
      = Some (int (length ds + length mid + k), int (length mid + k))"
    using skip_equal_stop [OF assms(1), of "ds @ mid" k "map Some rest' @ junk" "int (length mid)"] rest
    by (simp add: map_replicate_const)
  moreover have "?cs[length ds := Some x]
      = (ds @ [Some x]) @ tl (mid @ replicate k (Some v) @ [Some x]) @ map Some rest' @ junk"
    by (cases mid; cases k) (auto simp: rest map_replicate_const list_update_append replicate_append_same)
  moreover have "?cs ! (length ds + length mid + k) = Some x"
    by (simp add: rest nth_append map_replicate_const)
  ultimately show ?thesis
    by (subst removeAll_loop.simps) (simp add: rest add_ac nat_add_distrib)
qed

lemma run_of_equals:
  obtains k where "rest = replicate k v"
  | k x rest' where "x \<noteq> v" and "rest = replicate k v @ x # rest'"
proof (cases "dropWhile (\<lambda>x. x = v) rest")
  let ?t = "takeWhile (\<lambda>x. x = v) rest"
  have t: "?t = replicate (length ?t) v" by (metis (mono_tags, lifting) replicate_eqI set_takeWhileD)
  { case Nil
    with t that(1) show ?thesis by (metis append_Nil2 takeWhile_dropWhile_id) }
  { case (Cons x rest')
    then have "x \<noteq> v" by (metis (mono_tags, lifting) hd_dropWhile list.discI list.sel(1))
    with Cons t that(2) show ?thesis by (metis takeWhile_dropWhile_id) }
qed

lemma removeAll_loop_shape:
  assumes "rest = [] \<or> last rest \<noteq> v"
  shows "\<exists>mid'. removeAll_loop (Cells (ds @ mid @ map Some rest @ junk)) v (int (length ds + length mid + length rest))
      (int (length ds)) (int (length ds + length mid)) (int (length mid))
    = Some (Cells (ds @ map Some (filter (\<lambda>x. x \<noteq> v) rest) @ mid' @ junk), int (length mid'))
    \<and> length mid' = length mid + count_list rest v"
  using assms
proof (induction "length rest" arbitrary: ds mid rest rule: less_induct)
  case less
  show ?case
  proof (cases rule: run_of_equals [of rest v])
    case (1 k)
    with less.prems have "rest = []" by (cases k) (auto simp: replicate_append_same [symmetric])
    then show ?thesis by (subst removeAll_loop.simps) auto
  next
    case (2 k x rest')
    let ?mid = "tl (mid @ replicate k (Some v) @ [Some x])"
    have "rest' = [] \<or> last rest' \<noteq> v" using less.prems 2 by auto
    with less.hyps [of rest' "ds @ [Some x]" ?mid] 2 obtain mid' where
      "removeAll_loop (Cells ((ds @ [Some x]) @ ?mid @ map Some rest' @ junk)) v
            (int (length (ds @ [Some x]) + length ?mid + length rest')) (int (length (ds @ [Some x])))
            (int (length (ds @ [Some x]) + length ?mid)) (int (length ?mid))
        = Some (Cells ((ds @ [Some x]) @ map Some (filter (\<lambda>x. x \<noteq> v) rest') @ mid' @ junk), int (length mid'))"
      "length mid' = length ?mid + count_list rest' v" by force
    with removeAll_loop_step [OF 2, of ds mid junk] 2 show ?thesis
      by (intro exI [of _ mid']) (simp add: count_replicate Let_def add_ac)
  qed
qed

lemma removeAll_loop_fault:
  assumes "rest \<noteq> []" and "last rest = v" and "junk = [] \<or> hd junk = None"
  shows "removeAll_loop (Cells (ds @ mid @ map Some rest @ junk)) v (int (length ds + length mid + length rest))
      (int (length ds)) (int (length ds + length mid)) (int (length mid)) = None"
  using assms(1,2)
proof (induction "length rest" arbitrary: ds mid rest rule: less_induct)
  case less
  show ?case
  proof (cases rule: run_of_equals [of rest v])
    case (1 k)
    have "skip_equal (Cells (ds @ mid @ map Some rest @ junk)) v (int (length (ds @ mid))) (int (length mid))
        = skip_equal (Cells (ds @ mid @ map Some rest @ junk)) v (int (length (ds @ mid) + k)) (int (length mid) + int k)"
      using skip_equal_run [of "ds @ mid" k v junk] 1 by (simp add: map_replicate_const)
    also have "\<dots> = None"
      using assms(3) 1 by (subst skip_equal.simps) (cases junk, auto simp: nth_append nat_add_distrib)
    finally show ?thesis using less.prems by (subst removeAll_loop.simps) simp
  next
    case (2 k x rest')
    with less.prems have "rest' \<noteq> []" "last rest' = v" by (auto split: if_splits)
    with less.hyps [of rest' "ds @ [Some x]" "tl (mid @ replicate k (Some v) @ [Some x])"] 2
    show ?thesis using removeAll_loop_step [OF 2, of ds mid junk] by (simp add: Let_def add_ac)
  qed
qed

lemma removeAll_unfold:
  assumes "v \<in> set xs"
  shows "QList_removeAll (shape xs junk) v
    = map_option (\<lambda>(a, r). (r, (shape xs junk)\<lparr>cells := a, m_size := int (length xs) - r\<rparr>))
        (removeAll_loop (Cells (map Some xs @ junk)) v (int (length xs))
          (int (length (takeWhile (\<lambda>x. x \<noteq> v) xs))) (int (length (takeWhile (\<lambda>x. x \<noteq> v) xs))) 0)"
proof -
  have "indexOf (shape xs junk) v 0 = Some (int (length (takeWhile (\<lambda>x. x \<noteq> v) xs)))"
    using indexOf_shape [of 0 xs junk v] assms by simp
  then show ?thesis
    by (simp add: QList_removeAll_def map_conv_bind_option case_prod_unfold comp_def)
qed

lemma removeAll_shape:
  assumes "xs = [] \<or> last xs \<noteq> v"
  shows "\<exists>junk'. QList_removeAll (shape xs junk) v
    = Some (int (count_list xs v), shape (filter (\<lambda>x. x \<noteq> v) xs) (junk' @ junk)) \<and> length junk' = count_list xs v"
proof (cases "v \<in> set xs")
  case False
  then have "indexOf (shape xs junk) v 0 = Some (-1)" using indexOf_shape [of 0 xs junk v] by simp
  moreover have "filter (\<lambda>x. x \<noteq> v) xs = xs" using False by (auto intro: filter_True)
  moreover have "count_list xs v = 0" using False by (simp add: count_list_0_iff)
  moreover have "removeAll_loop (Cells (map Some xs @ junk)) v (int (length xs)) 0 (int (length xs)) 0
      = Some (Cells (map Some xs @ junk), 0)" by (subst removeAll_loop.simps) simp
  ultimately show ?thesis by (simp add: QList_removeAll_def shape_def)
next
  case True
  obtain a b where ab: "a = takeWhile (\<lambda>x. x \<noteq> v) xs" "b = dropWhile (\<lambda>x. x \<noteq> v) xs" by blast
  then have xs: "xs = a @ b" by simp
  have "b = [] \<or> last b \<noteq> v" using assms xs by auto
  from removeAll_loop_shape [OF this, of "map Some a" "[]" junk] obtain mid where
    mid: "removeAll_loop (Cells (map Some xs @ junk)) v (int (length xs)) (int (length a)) (int (length a)) 0
      = Some (Cells (map Some a @ map Some (filter (\<lambda>x. x \<noteq> v) b) @ mid @ junk), int (length mid))"
    "length mid = count_list b v"
    unfolding xs by auto
  have a: "v \<notin> set a" using ab(1) by (auto dest: set_takeWhileD)
  then have "filter (\<lambda>x. x \<noteq> v) a = a" by (auto simp: filter_id_conv)
  with a have f: "filter (\<lambda>x. x \<noteq> v) xs = a @ filter (\<lambda>x. x \<noteq> v) b" "count_list xs v = count_list b v"
    unfolding xs by (simp_all add: count_list_0_iff [symmetric])
  have len: "length (filter (\<lambda>x. x \<noteq> v) xs) + count_list xs v = length xs"
    by (induction xs) auto
  then have "int (length xs) - int (length mid) = int (length (filter (\<lambda>x. x \<noteq> v) xs))" using mid(2) f(2) by linarith
  moreover have "QList_removeAll (shape xs junk) v
      = Some (int (length mid), (shape xs junk)
          \<lparr>cells := Cells (map Some a @ map Some (filter (\<lambda>x. x \<noteq> v) b) @ mid @ junk),
           m_size := int (length xs) - int (length mid)\<rparr>)"
    using mid(1) by (simp add: removeAll_unfold [OF True] ab(1) [symmetric])
  ultimately show ?thesis using mid(2) f len by (intro exI [of _ mid]) (auto simp: shape_def)
qed

section \<open>Specification\<close>

text \<open>The operations on plain lists; \<open>d\<close> is the value that marks a hole.\<close>

datatype 'a list_op =
  Append 'a | SetAt int 'a | InsertMany int int 'a | Remove int int | TakeAt int | TakeFirst | TakeLast
| RemoveAll 'a | IndexOf 'a int | CountOf 'a | At int | Resize int | Squeeze | Swap int int | AddInHole 'a

datatype 'a list_res = Number int | Element 'a | Done bool

definition first_index :: "'a \<Rightarrow> 'a list \<Rightarrow> nat" where
  "first_index v xs = length (takeWhile (\<lambda>x. x \<noteq> v) xs)"

lemma first_index_hit: "v \<in> set xs \<Longrightarrow> first_index v xs < length xs \<and> xs ! first_index v xs = v"
  by (induction xs) (auto simp: first_index_def)

lemma first_index_before: "m < first_index v xs \<Longrightarrow> m < length xs \<and> xs ! m \<noteq> v"
proof (induction xs arbitrary: m)
  case (Cons x xs)
  then show ?case by (cases m) (auto simp: first_index_def split: if_splits)
qed (simp add: first_index_def)

fun list_step :: "'a \<Rightarrow> 'a list \<Rightarrow> 'a list_op \<Rightarrow> 'a list_res \<times> 'a list" where
  "list_step d xs (Append v) = (Number (int (length xs)), xs @ [v])"
| "list_step d xs (SetAt i v) = (Done True, xs[nat i := v])"
| "list_step d xs (InsertMany i c v) = (Done True, take (nat i) xs @ replicate (nat c) v @ drop (nat i) xs)"
| "list_step d xs (Remove i c) = (Done True, take (nat i) xs @ drop (nat (i + c)) xs)"
| "list_step d xs (TakeAt i) = (Element (xs ! nat i), take (nat i) xs @ drop (nat i + 1) xs)"
| "list_step d xs TakeFirst = (Element (hd xs), tl xs)"
| "list_step d xs TakeLast = (Element (last xs), butlast xs)"
| "list_step d xs (RemoveAll v) = (Number (int (count_list xs v)), filter (\<lambda>x. x \<noteq> v) xs)"
| "list_step d xs (IndexOf v i) =
     (Number (if v \<in> set (drop (nat i) xs) then i + int (first_index v (drop (nat i) xs)) else -1), xs)"
| "list_step d xs (CountOf v) = (Number (int (count_list xs v)), xs)"
| "list_step d xs (At i) = (Element (xs ! nat i), xs)"
| "list_step d xs (Resize n) = (Done True, xs @ replicate (nat n - length xs) d)"
| "list_step d xs Squeeze = (Done True, xs)"
| "list_step d xs (Swap i j) = (Done True, xs[nat i := xs ! nat j, nat j := xs ! nat i])"
| "list_step d xs (AddInHole v) =
     (if d \<in> set xs then (Number (int (first_index d xs)), xs[first_index d xs := v])
      else (Number (int (length xs)), xs @ [v]))"

fun list_pre :: "'a list \<Rightarrow> 'a list_op \<Rightarrow> bool" where
  "list_pre xs (SetAt i v) \<longleftrightarrow> 0 \<le> i \<and> i < int (length xs)"
| "list_pre xs (InsertMany i c v) \<longleftrightarrow> 0 < c \<and> c \<le> i \<and> i \<le> int (length xs)"
| "list_pre xs (Remove i c) \<longleftrightarrow> 0 \<le> i \<and> 0 \<le> c \<and> i + c \<le> int (length xs)"
| "list_pre xs (TakeAt i) \<longleftrightarrow> 0 \<le> i \<and> i < int (length xs)"
| "list_pre xs TakeFirst \<longleftrightarrow> xs \<noteq> []"
| "list_pre xs TakeLast \<longleftrightarrow> xs \<noteq> []"
| "list_pre xs (RemoveAll v) \<longleftrightarrow> xs = [] \<or> last xs \<noteq> v"
| "list_pre xs (IndexOf v i) \<longleftrightarrow> 0 \<le> i \<and> i \<le> int (length xs)"
| "list_pre xs (At i) \<longleftrightarrow> 0 \<le> i \<and> i < int (length xs)"
| "list_pre xs (Resize n) \<longleftrightarrow> 0 < n \<and> int (length xs) \<le> n"
| "list_pre xs Squeeze \<longleftrightarrow> xs \<noteq> []"
| "list_pre xs (Swap i j) \<longleftrightarrow> 0 \<le> i \<and> i < int (length xs) \<and> 0 \<le> j \<and> j < int (length xs)"
| "list_pre xs _ \<longleftrightarrow> True"

fun QList_step :: "'a \<Rightarrow> 'a QList \<Rightarrow> 'a list_op \<Rightarrow> ('a list_res \<times> 'a QList) option" where
  "QList_step d l (Append v) = map_option (map_prod Number id) (append_value True l v)"
| "QList_step d l (SetAt i v) = map_option (Pair (Done True)) (set_at l i v)"
| "QList_step d l (InsertMany i c v) = map_option (map_prod Done id) (insert_values True l i c v)"
| "QList_step d l (Remove i c) = map_option (Pair (Done True)) (remove_values l i c)"
| "QList_step d l (TakeAt i) = map_option (map_prod Element id) (takeAt l i)"
| "QList_step d l TakeFirst = map_option (map_prod Element id) (takeFirst l)"
| "QList_step d l TakeLast = map_option (map_prod Element id) (takeLast l)"
| "QList_step d l (RemoveAll v) = map_option (map_prod Number id) (QList_removeAll l v)"
| "QList_step d l (IndexOf v i) = map_option (\<lambda>k. (Number k, l)) (indexOf l v i)"
| "QList_step d l (CountOf v) = map_option (\<lambda>k. (Number k, l)) (count_value l v)"
| "QList_step d l (At i) = map_option (\<lambda>x. (Element x, l)) (at l i)"
| "QList_step d l (Resize n) = map_option (Pair (Done True)) (resize True d l n)"
| "QList_step d l Squeeze = map_option (Pair (Done True)) (squeeze True l)"
| "QList_step d l (Swap i j) = map_option (Pair (Done True)) (QList_swap l i j)"
| "QList_step d l (AddInHole v) = map_option (map_prod Number id) (add_value True d l v)"

lemma take_shape:
  assumes "i < length xs"
  shows "\<exists>junk'. takeAt (shape xs junk) (int i) = Some (xs ! i, shape (take i xs @ drop (i + 1) xs) junk') \<and> junk' \<noteq> []"
proof -
  from remove_shape [of i 1 xs junk] assms obtain js where
    "remove_values (shape xs junk) (int i) 1 = Some (shape (take i xs @ drop (i + 1) xs) (js @ junk))" "length js = 1"
    by auto
  then show ?thesis using at_shape [OF assms, of junk] by (intro exI [of _ "js @ junk"]) (auto simp: takeAt_def)
qed

lemma swap_shape:
  assumes "i < length xs" and "j < length xs"
  shows "QList_swap (shape xs junk) (int i) (int j) = Some (shape (xs[i := xs ! j, j := xs ! i]) junk)"
  using assms by (simp add: QList_swap_def at_shape set_at_shape)

lemma add_shape:
  assumes "0 < length xs + length junk"
  shows "\<exists>junk'. add_value True d (shape xs junk) v =
    (if d \<in> set xs then Some (int (first_index d xs), shape (xs[first_index d xs := v]) junk')
     else Some (int (length xs), shape (xs @ [v]) junk'))"
proof (cases "d \<in> set xs")
  case True
  then have i: "first_index d xs < length xs" using first_index_hit by fast
  from True have "indexOf (shape xs junk) d 0 = Some (int (first_index d xs))"
    using indexOf_shape [of 0 xs junk d] by (simp add: first_index_def)
  with True set_at_shape [OF i, of junk v] show ?thesis by (auto simp: add_value_def)
next
  case False
  then have "indexOf (shape xs junk) d 0 = Some (-1)" using indexOf_shape [of 0 xs junk d] by simp
  with False append_shape [OF assms, of v] show ?thesis by (auto simp: add_value_def)
qed

lemma QList_step_shape:
  assumes "0 < length xs + length junk" and "list_pre xs x"
  shows "\<exists>r ys junk'. QList_step d (shape xs junk) x = Some (r, shape ys junk') \<and> 0 < length ys + length junk'
    \<and> list_step d xs x = (r, ys)"
proof (cases x)
  case (Append v)
  with append_shape [OF assms(1), of v] show ?thesis by auto
next
  case (SetAt i v)
  with assms set_at_shape [of "nat i" xs junk v] show ?thesis by auto
next
  case (InsertMany i c v)
  with assms(2) have "0 < nat c" "nat c \<le> nat i" "nat i \<le> length xs" "0 < c" "0 \<le> i" by auto
  with InsertMany insert_shape [of "nat c" "nat i" xs junk v] show ?thesis by fastforce
next
  case (Remove i c)
  with assms(2) have c: "nat i + nat c \<le> length xs" "0 \<le> i" "0 \<le> c" by auto
  from remove_shape [OF c(1), of junk] c(2,3) obtain js where
    "remove_values (shape xs junk) i c = Some (shape (take (nat i) xs @ drop (nat i + nat c) xs) (js @ junk))"
    "length js = nat c" by auto
  with Remove c assms(1) show ?thesis by (auto simp: nat_add_distrib)
next
  case (TakeAt i)
  with assms(2) have "nat i < length xs" "0 \<le> i" by auto
  with TakeAt take_shape [of "nat i" xs junk] show ?thesis by fastforce
next
  case TakeFirst
  with assms(2) take_shape [of 0 xs junk] show ?thesis
    by (auto simp: takeFirst_def takeAt_def hd_conv_nth drop_Suc)
next
  case TakeLast
  with assms(2) have "int (length xs - 1) = int (length xs) - 1" by (cases xs) auto
  with TakeLast assms(2) take_shape [of "length xs - 1" xs junk] show ?thesis
    by (auto simp: takeLast_def takeAt_def last_conv_nth butlast_conv_take)
next
  case (RemoveAll v)
  with assms(2) removeAll_shape [of xs v junk] obtain js where
    js: "QList_removeAll (shape xs junk) v = Some (int (count_list xs v), shape (filter (\<lambda>x. x \<noteq> v) xs) (js @ junk))"
    "length js = count_list xs v" by auto
  have "length (filter (\<lambda>x. x \<noteq> v) xs) + count_list xs v = length xs" by (induction xs) auto
  with js RemoveAll assms(1) show ?thesis by auto
next
  case (IndexOf v i)
  with assms indexOf_shape [of "nat i" xs junk v] show ?thesis by (auto simp: first_index_def)
next
  case (CountOf v)
  with assms count_shape [of 0 xs junk v 0] show ?thesis by (auto simp: count_value_def)
next
  case (At i)
  with assms at_shape [of "nat i" xs junk] show ?thesis by auto
next
  case (Resize n)
  with assms resize_shape [of d xs junk "nat n"] show ?thesis by auto
next
  case Squeeze
  with assms reserve_shape [of xs junk "length xs"] show ?thesis by (auto simp: squeeze_def)
next
  case (Swap i j)
  with assms swap_shape [of "nat i" xs "nat j" junk] show ?thesis by auto
next
  case (AddInHole v)
  with add_shape [OF assms(1), of d v] show ?thesis by (auto split: if_splits)
qed

interpretation qlist: data_refinement qlist_ok elements "QList_step d" "list_step d" list_pre for d
proof
  fix l :: "'a QList" and x
  assume "qlist_ok l" and "list_pre (elements l) x"
  then obtain junk where l: "l = shape (elements l) junk" "0 < length (elements l) + length junk"
    by (auto elim: qlist_okE)
  from QList_step_shape [OF l(2), of x d] \<open>list_pre (elements l) x\<close> l(1) obtain r ys junk' where
    "QList_step d l x = Some (r, shape ys junk')" "0 < length ys + length junk'" "list_step d (elements l) x = (r, ys)"
    by auto
  then show "\<exists>r c'. QList_step d l x = Some (r, c') \<and> qlist_ok c' \<and> list_step d (elements l) x = (r, elements c')"
    by (auto intro!: qlist_ok_shape)
qed

lemma insert_loop_fault: "i < c \<Longrightarrow> 0 \<le> i \<Longrightarrow> i \<le> j \<Longrightarrow> insert_loop arr i c j = None"
proof (induction arr i c j rule: insert_loop.induct)
  case (1 arr i c j)
  show ?case
  proof (cases "raw_cell arr (j - c)")
    case (Some w)
    then have "i < j" using "1.prems" by (cases arr) (auto split: if_splits)
    then show ?thesis using "1.IH" "1.prems" Some
      by (subst insert_loop.simps) (auto split: Option.bind_splits)
  qed (use "1.prems" in \<open>subst insert_loop.simps, simp\<close>)
qed

section \<open>Properties\<close>

text \<open>
  C13: As long as memory can be allocated and every call is inside the limits of \<open>list_pre\<close>, any sequence of
  calls on a new list, growing it as needed, never faults and returns what the same calls on a plain list
  return; the table with holes fills its lowest hole first. A copy of the list has the same elements.
\<close>
theorem QList_is_list:
  assumes "allowed list_pre (list_step d) [] ops"
  shows "\<exists>rs l. crun (QList_step d) (QList_new True) ops = Some (rs, l) \<and> qlist_ok l
    \<and> arun (list_step d) [] ops = (rs, elements l)
    \<and> (\<exists>l'. copyToThis True l = Some l' \<and> qlist_ok l' \<and> elements l' = elements l)"
proof -
  have new: "qlist_ok (QList_new True :: 'a QList)" "elements (QList_new True :: 'a QList) = []"
    unfolding QList_new_shape by (auto intro: qlist_ok_shape)
  from qlist.run_refines [OF new(1), of d ops] assms new(2) obtain rs l where
    l: "crun (QList_step d) (QList_new True) ops = Some (rs, l)" "qlist_ok l"
    "arun (list_step d) [] ops = (rs, elements l)" by auto
  from l(2) obtain junk where j: "l = shape (elements l) junk" "0 < length (elements l) + length junk"
    by (auto elim: qlist_okE)
  from copy_shape [of "elements l" junk] j have "copyToThis True l = Some (shape (elements l) (replicate (length junk) None))"
    by simp
  with l j(2) show ?thesis by (auto intro!: qlist_ok_shape)
qed

theorem QList_is_list_witness:
  "\<exists>l. crun (QList_step 0) (QList_new True)
      [Append 7, Append (8 :: nat), Append 9, SetAt 1 0, AddInHole 5, Remove 0 1, IndexOf 9 0, TakeLast]
    = Some ([Number 0, Number 1, Number 2, Done True, Number 1, Done True, Number 1, Element 9], l) \<and> elements l = [5]"
proof -
  let ?ops = "[Append 7, Append (8 :: nat), Append 9, SetAt 1 0, AddInHole 5, Remove 0 1, IndexOf 9 0, TakeLast]"
  have "allowed list_pre (list_step 0) [] ?ops" "arun (list_step 0) [] ?ops
      = ([Number 0, Number 1, Number 2, Done True, Number 1, Done True, Number 1, Element 9], [5])"
    by (simp_all add: first_index_def)
  with QList_is_list [of 0 ?ops] show ?thesis by auto
qed

text \<open>
  Where the class goes wrong. Inserting \<open>c\<close> values at an index below \<open>c\<close>, in particular \<open>prepend\<close>,
  reads in front of the array; appending to a list that was resized to no element or cleared writes past
  the end; removing all occurrences of a value reads past the last element when that is one of them, unless
  an older value is left there; and after \<open>resize(n)\<close> the index \<open>n\<close> is outside the array.
\<close>
theorem QList_faults:
  assumes "qlist_ok l"
  shows "(0 \<le> i \<and> i < c \<longrightarrow> insert_values True l i c v = None)
    \<and> (resize True d l 0 \<bind> (\<lambda>l'. append_value True l' v) = None)
    \<and> (clear l \<bind> (\<lambda>l'. append_value True l' v) = None)
    \<and> (elements l \<noteq> [] \<and> last (elements l) = v \<and> at l (m_size l) = None \<longrightarrow> QList_removeAll l v = None)
    \<and> (0 \<le> n \<longrightarrow> (\<exists>l'. resize True d l n = Some l' \<and> set_at l' n v = None))"
proof (intro conjI impI)
  from assms obtain junk where l: "l = shape (elements l) junk" by (auto elim: qlist_okE)
  obtain xs where xs: "l = shape xs junk" using l by blast
  show "insert_values True l i c v = None" if "0 \<le> i \<and> i < c"
  proof -
    have "insert_loop arr i c (int (length xs) + c - 1) = None" for arr :: "'a m_array"
      using that by (intro insert_loop_fault) auto
    moreover have "\<exists>js. (if m_capacity l < m_size l + c then reserve True l (m_capacity l * 2 + c) else Some (True, l))
        = Some (True, shape xs js)"
      using reserve_shape [of xs junk "(length xs + length junk) * 2 + nat c"] that by (auto simp: xs algebra_simps)
    ultimately show ?thesis unfolding insert_values_def by auto
  qed
  have app: "append_value True (shape [] []) v = None"
    by (simp add: append_value_def reserve_def new_array_def copy_up.simps set_at_def)
  show "resize True d l 0 \<bind> (\<lambda>l'. append_value True l' v) = None"
    using resize_shape [of d xs junk 0] app by (simp add: xs)
  show "clear l \<bind> (\<lambda>l'. append_value True l' v) = None"
    by (simp add: xs clear_def append_value_def reserve_def copy_up.simps)
  show "QList_removeAll l v = None" if "elements l \<noteq> [] \<and> last (elements l) = v \<and> at l (m_size l) = None"
  proof -
    obtain a b where ab: "a = takeWhile (\<lambda>x. x \<noteq> v) xs" "b = dropWhile (\<lambda>x. x \<noteq> v) xs" by blast
    then have split: "xs = a @ b" by simp
    have j: "junk = [] \<or> hd junk = None" and xs': "xs \<noteq> []" "last xs = v"
      using that by (cases junk; auto simp: xs at_def nth_append)+
    then have v: "v \<in> set xs" by auto
    have "v \<notin> set a" using ab(1) by (auto dest: set_takeWhileD)
    then have "b \<noteq> []" using split xs' by (metis append_Nil2 last_in_set)
    then have "b \<noteq> []" "last b = v" using split xs' by simp_all
    from removeAll_loop_fault [OF this j, of "map Some a" "[]"] show ?thesis
      by (simp add: xs removeAll_unfold [OF v] ab(1) [symmetric]) (simp add: split)
  qed
  show "\<exists>l'. resize True d l n = Some l' \<and> set_at l' n v = None" if "0 \<le> n"
    using resize_shape [of d xs junk "nat n"] that by (simp add: xs set_at_def)
qed

theorem QList_faults_witness: "prepend True (shape [1 :: nat] [None]) 2 = None"
  using QList_faults [of "shape [1 :: nat] [None]" 0 1 2 0 0] by (simp add: qlist_ok_shape prepend_def)

end
