(* ===== verification/Tmpfs.thy ===== *)
theory Tmpfs
  imports Vnode_Manager
begin

text \<open>
  The file system in memory: src/src/kernel/filesystem/tmpfs/tmpfs.cpp. The state is the list \<open>Inodes\<close> of
  the mount, whose element 0 is a null pointer; a node is given by the identifier of its vnode, the index
  in this list. Data blocks are lists of bytes, and an access outside a block is a fault (\<open>None\<close>), as is
  the use of an inode that is not there. Directories are the hash tables of theory QHash.

  Arguments stand for what the code takes from its surroundings: \<open>junk\<close> gives the fields that \<open>new\<close> leaves
  uninitialised, \<open>now\<close> is the system time, \<open>memalign n\<close> the block of \<open>n\<close> bytes that \<open>posix_memalign\<close>
  returns (\<open>None\<close> a null pointer), and \<open>node_ok\<close> says whether hash nodes can be allocated. Duplicated
  strings, inodes and list growth are taken to be allocated. Sizes are 32-bit and file positions 64-bit numbers.

  The specification is a directory graph: nodes with a mode, contents and named entries.
\<close>

section \<open>Data\<close>

type_synonym fname = "u8 list"

text \<open>\<open>qHash(QString)\<close>: the sum of the characters, which are signed.\<close>

definition qHash_QString :: "fname \<Rightarrow> nat" where
  "qHash_QString str = unat (sum_list (map (\<lambda>c. scast c :: u32) str))"

record TmpInode =
  Ino :: nat
  Mode :: u16
  Uid :: nat
  Size :: nat
  ATime :: nat
  CTime :: nat
  MTime :: nat
  Gid :: nat
  LinksCount :: nat
  Blocks :: nat
  Flags :: nat
  Major :: nat
  Minor :: nat
  FileData :: "u8 list option"
  Directory :: "(fname, nat) QHash"

type_synonym tmpfs = "TmpInode option list"

definition S_IFMT :: u16 where "S_IFMT = 0xF000"

definition S_IFLNK :: u16 where "S_IFLNK = 0xA000"

definition S_IFREG :: u16 where "S_IFREG = 0x8000"

definition S_IFDIR :: u16 where "S_IFDIR = 0x4000"

definition S_ISLNK :: "u16 \<Rightarrow> bool" where
  "S_ISLNK m \<longleftrightarrow> m AND S_IFMT = S_IFLNK"

definition S_ISDIR :: "u16 \<Rightarrow> bool" where
  "S_ISDIR m \<longleftrightarrow> m AND S_IFMT = S_IFDIR"

definition Inode :: "tmpfs \<Rightarrow> nat \<Rightarrow> TmpInode option" where
  "Inode fs node = (if node < length fs then fs ! node else None)"

definition set_Inode :: "tmpfs \<Rightarrow> nat \<Rightarrow> TmpInode \<Rightarrow> tmpfs" where
  "set_Inode fs node inode = fs[node := Some inode]"

definition Directory_insert :: "bool \<Rightarrow> TmpInode \<Rightarrow> fname \<Rightarrow> nat \<Rightarrow> TmpInode option" where
  "Directory_insert node_ok inode name i =
     map_option (\<lambda>(_, d). inode\<lparr>Directory := d\<rparr>)
       (QHash_insert (uhash qHash_QString) node_ok (Directory inode) name i)"

definition Directory_value :: "TmpInode \<Rightarrow> fname \<Rightarrow> nat option" where
  "Directory_value inode name = QHash_value (uhash qHash_QString) (Directory inode) name 0"

definition Directory_remove :: "TmpInode \<Rightarrow> fname \<Rightarrow> (int \<times> TmpInode) option" where
  "Directory_remove inode name =
     map_option (\<lambda>(r, d). (r, inode\<lparr>Directory := d\<rparr>))
       (QHash_remove (uhash qHash_QString) (Directory inode) name)"

text \<open>Copies out of and into a block; a copy of no bytes does not touch it.\<close>

definition block_read :: "u8 list option \<Rightarrow> nat \<Rightarrow> nat \<Rightarrow> u8 list option" where
  "block_read b pos n =
     (if n = 0 then Some []
      else case b of None \<Rightarrow> None
      | Some d \<Rightarrow> if pos + n \<le> length d then Some (take n (drop pos d)) else None)"

definition block_write :: "u8 list option \<Rightarrow> nat \<Rightarrow> u8 list \<Rightarrow> u8 list option option" where
  "block_write b pos bs =
     (if bs = [] then Some b
      else case b of None \<Rightarrow> None
      | Some d \<Rightarrow> if pos + length bs \<le> length d then Some (Some (blit d pos bs)) else None)"

section \<open>Mounting and creating\<close>

definition new_TmpInode :: "TmpInode \<Rightarrow> TmpInode" where
  "new_TmpInode junk = junk\<lparr>Directory := QHash_init QHASH_DEFAULT_CAPACITY\<rparr>"

definition msecs :: "nat \<Rightarrow> nat" where
  "msecs now = now * 1000 mod 2 ^ 32"

text \<open>The inodes of a new mount; the vnode of the root is made by \<open>GetVnode\<close> in \<open>TmpFS_Mount_root\<close>.\<close>

definition TmpFS_Mount :: "bool \<Rightarrow> TmpInode \<Rightarrow> nat \<Rightarrow> tmpfs option" where
  "TmpFS_Mount node_ok junk now = do {
     let tmpInode = (new_TmpInode junk)
       \<lparr>FileData := None, Mode := S_IFDIR, Uid := 0, Gid := 0, ATime := msecs now, MTime := msecs now,
        CTime := msecs now, LinksCount := 2, Directory := initFromHash (QHash_init QHASH_DEFAULT_CAPACITY)\<rparr>;
     tmpInode \<leftarrow> Directory_insert node_ok tmpInode [0x2E] 1;
     tmpInode \<leftarrow> Directory_insert node_ok tmpInode [0x2E, 0x2E] 1;
     Some [None, Some tmpInode] }"

definition TmpFS_Mount_root ::
  "bool \<Rightarrow> addr \<Rightarrow> vnode_state \<Rightarrow> addr \<Rightarrow> u32 \<Rightarrow> (int \<times> addr \<times> vnode_state) option" where
  "TmpFS_Mount_root node_ok newnode vs fsmount mid = do {
     (root, vs) \<leftarrow> GetVnode node_ok newnode vs mid 1;
     n \<leftarrow> (if root = NULL then None else vheap vs root);
     let n = n\<lparr>mount := fsmount, vnid := \<lparr>vid = 1, mountId = mid\<rparr>\<rparr>;
     Some (0, root, vs\<lparr>vheap := (vheap vs)(root \<mapsto> n)\<rparr>) }"

text \<open>The \<open>creat\<close> with four arguments: the new inode, its index and the inodes.\<close>

definition creat_inode :: "TmpInode \<Rightarrow> nat \<Rightarrow> u16 \<Rightarrow> TmpInode" where
  "creat_inode junk now mode = (new_TmpInode junk)
     \<lparr>Mode := mode, Size := 0, Uid := 0, Gid := 0, ATime := msecs now, MTime := msecs now,
      CTime := msecs now, LinksCount := 1\<rparr>"

definition TmpFS_creat4 ::
  "bool \<Rightarrow> TmpInode \<Rightarrow> nat \<Rightarrow> tmpfs \<Rightarrow> nat \<Rightarrow> fname \<Rightarrow> u16 \<Rightarrow> (nat \<times> tmpfs) option" where
  "TmpFS_creat4 node_ok junk now fs directory name mode = do {
     let i = length fs;
     let fs = fs @ [Some ((creat_inode junk now mode)\<lparr>Ino := i\<rparr>)];
     d \<leftarrow> Inode fs directory;
     d \<leftarrow> Directory_insert node_ok d name i;
     Some (i, set_Inode fs directory d) }"

text \<open>The callers go on with the new inode.\<close>

definition with_inode :: "(TmpInode \<Rightarrow> TmpInode option) \<Rightarrow> nat \<times> tmpfs \<Rightarrow> (int \<times> tmpfs) option" where
  "with_inode f = (\<lambda>(i, fs). do {
     inode \<leftarrow> Inode fs i;
     inode \<leftarrow> f inode;
     Some (0, set_Inode fs i inode) })"

text \<open>\<open>malloc4\<close> is the block of four bytes of a new file, \<open>None\<close> when \<open>malloc\<close> fails.\<close>

definition TmpFS_creat ::
  "bool \<Rightarrow> TmpInode \<Rightarrow> nat \<Rightarrow> u8 list option \<Rightarrow> tmpfs \<Rightarrow> nat \<Rightarrow> fname \<Rightarrow> u16 \<Rightarrow> (int \<times> tmpfs) option" where
  "TmpFS_creat node_ok junk now malloc4 fs directory name mode =
     TmpFS_creat4 node_ok junk now fs directory name (mode OR S_IFREG)
     \<bind> with_inode (\<lambda>tmpInode. Some (tmpInode\<lparr>FileData := malloc4\<rparr>))"

definition TmpFS_symlink ::
  "bool \<Rightarrow> TmpInode \<Rightarrow> nat \<Rightarrow> tmpfs \<Rightarrow> nat \<Rightarrow> fname \<Rightarrow> fname \<Rightarrow> (int \<times> tmpfs) option" where
  "TmpFS_symlink node_ok junk now fs directory oldName newName =
     TmpFS_creat4 node_ok junk now fs directory newName 0
     \<bind> with_inode (\<lambda>tmpInode. Some (tmpInode
           \<lparr>FileData := Some (oldName @ [0]), Size := length oldName + 1, Mode := S_IFLNK\<rparr>))"

definition TmpFS_mknod ::
  "bool \<Rightarrow> TmpInode \<Rightarrow> nat \<Rightarrow> tmpfs \<Rightarrow> nat \<Rightarrow> fname \<Rightarrow> u16 \<Rightarrow> nat \<Rightarrow> (int \<times> tmpfs) option" where
  "TmpFS_mknod node_ok junk now fs directory newName mode dev =
     TmpFS_creat4 node_ok junk now fs directory newName mode
     \<bind> with_inode (\<lambda>tmpInode. Some (tmpInode
           \<lparr>Major := dev div 2 ^ 16 mod 2 ^ 32, Minor := dev mod 2 ^ 16, FileData := None\<rparr>))"

definition TmpFS_mkdir ::
  "bool \<Rightarrow> TmpInode \<Rightarrow> nat \<Rightarrow> tmpfs \<Rightarrow> nat \<Rightarrow> fname \<Rightarrow> u16 \<Rightarrow> (int \<times> tmpfs) option" where
  "TmpFS_mkdir node_ok junk now fs directory newName mode =
     TmpFS_creat4 node_ok junk now fs directory newName mode
     \<bind> with_inode (\<lambda>tmpInode. do {
       let tmpInode = tmpInode\<lparr>FileData := None, Mode := S_IFDIR,
                               Directory := initFromHash (QHash_init QHASH_DEFAULT_CAPACITY)\<rparr>;
       tmpInode \<leftarrow> Directory_insert node_ok tmpInode [0x2E] (Ino tmpInode);
       Directory_insert node_ok tmpInode [0x2E, 0x2E] directory })"

section \<open>Names\<close>

definition TmpFS_lookup ::
  "bool \<Rightarrow> addr \<Rightarrow> vnode_state \<Rightarrow> addr \<Rightarrow> u32 \<Rightarrow> tmpfs \<Rightarrow> nat \<Rightarrow> fname
     \<Rightarrow> (int \<times> (addr \<times> u16) option \<times> vnode_state) option" where
  "TmpFS_lookup node_ok newnode vs mnt mid fs node name = do {
     inode \<leftarrow> Inode fs node;
     if \<not> S_ISDIR (Mode inode) then Some (- errno_code ENOTDIR, None, vs)
     else do {
       inodeIndex \<leftarrow> Directory_value inode name;
       if inodeIndex \<noteq> 0 then do {
         (vnd, vs) \<leftarrow> GetVnode node_ok newnode vs mid (of_nat inodeIndex);
         n \<leftarrow> (if vnd = NULL then None else vheap vs vnd);
         target \<leftarrow> Inode fs inodeIndex;
         Some (0, Some (vnd, Mode target), vs\<lparr>vheap := (vheap vs)(vnd \<mapsto> n\<lparr>mount := mnt\<rparr>)\<rparr>) }
       else Some (- errno_code ENOENT, None, vs) } }"

definition TmpFS_link :: "bool \<Rightarrow> tmpfs \<Rightarrow> nat \<Rightarrow> nat \<Rightarrow> fname \<Rightarrow> (int \<times> tmpfs) option" where
  "TmpFS_link node_ok fs directory oldNode newName = do {
     inode \<leftarrow> Inode fs directory;
     inode \<leftarrow> Directory_insert node_ok inode newName oldNode;
     Some (0, set_Inode fs directory inode) }"

definition TmpFS_rename ::
  "bool \<Rightarrow> tmpfs \<Rightarrow> nat \<Rightarrow> fname \<Rightarrow> nat \<Rightarrow> fname \<Rightarrow> (int \<times> tmpfs) option" where
  "TmpFS_rename node_ok fs oldDirectory oldName newDirectory newName = do {
     oldInode \<leftarrow> Inode fs oldDirectory;
     inodeId \<leftarrow> Directory_value oldInode oldName;
     (_, oldInode) \<leftarrow> Directory_remove oldInode oldName;
     let fs = set_Inode fs oldDirectory oldInode;
     inode \<leftarrow> Inode fs newDirectory;
     inode \<leftarrow> Directory_insert node_ok inode newName inodeId;
     Some (0, set_Inode fs newDirectory inode) }"

definition TmpFS_unlink :: "tmpfs \<Rightarrow> nat \<Rightarrow> fname \<Rightarrow> (int \<times> tmpfs) option" where
  "TmpFS_unlink fs directory name = do {
     inode \<leftarrow> Inode fs directory;
     (r, inode) \<leftarrow> Directory_remove inode name;
     let fs = set_Inode fs directory inode;
     if r \<noteq> 0 then Some (0, fs) else Some (- errno_code ENOENT, fs) }"

definition TmpFS_rmdir :: "tmpfs \<Rightarrow> nat \<Rightarrow> fname \<Rightarrow> (int \<times> tmpfs) option" where
  "TmpFS_rmdir fs directory name = TmpFS_unlink fs directory name"

section \<open>Contents\<close>

definition TmpFS_read :: "tmpfs \<Rightarrow> nat \<Rightarrow> nat \<Rightarrow> nat \<Rightarrow> (int \<times> u8 list) option" where
  "TmpFS_read fs node pos bufsize = do {
     inode \<leftarrow> Inode fs node;
     if S_ISDIR (Mode inode) then Some (- errno_code EISDIR, [])
     else do {
       let bufsize = (if Size inode < (bufsize + pos) mod 2 ^ 64
                      then nat ((int (Size inode) - int pos) mod 2 ^ 32) else bufsize);
       bs \<leftarrow> block_read (FileData inode) pos bufsize;
       Some (as_int bufsize, bs) } }"

definition TmpFS_readlink :: "tmpfs \<Rightarrow> nat \<Rightarrow> nat \<Rightarrow> (int \<times> u8 list) option" where
  "TmpFS_readlink fs node bufsize = do {
     inode \<leftarrow> Inode fs node;
     if \<not> S_ISLNK (Mode inode) then Some (- errno_code EINVAL, [])
     else do {
       let bufsize = (if Size inode < bufsize then Size inode else bufsize);
       bs \<leftarrow> block_read (FileData inode) 0 bufsize;
       Some (as_int bufsize, bs) } }"

definition TmpFS_truncate ::
  "(nat \<Rightarrow> u8 list option) \<Rightarrow> tmpfs \<Rightarrow> nat \<Rightarrow> nat \<Rightarrow> (int \<times> tmpfs) option" where
  "TmpFS_truncate memalign fs node len = do {
     inode \<leftarrow> Inode fs node;
     let tmpPtr = memalign (len mod 2 ^ 32);
     if tmpPtr = None then Some (- errno_code ENOSPC, fs)
     else do {
       old \<leftarrow> block_read (FileData inode) 0 (Size inode);
       tmpPtr \<leftarrow> block_write tmpPtr 0 old;
       tmpPtr \<leftarrow> (if Size inode < len
                  then block_write tmpPtr (Size inode) (replicate ((len - Size inode) mod 2 ^ 32) 0)
                  else Some tmpPtr);
       Some (0, set_Inode fs node (inode\<lparr>FileData := tmpPtr, Size := len mod 2 ^ 32\<rparr>)) } }"

definition TmpFS_write ::
  "(nat \<Rightarrow> u8 list option) \<Rightarrow> tmpfs \<Rightarrow> nat \<Rightarrow> nat \<Rightarrow> u8 list \<Rightarrow> (int \<times> tmpfs) option" where
  "TmpFS_write memalign fs node pos buffer = do {
     inode \<leftarrow> Inode fs node;
     if S_ISDIR (Mode inode) then Some (- errno_code EISDIR, fs)
     else do {
       let newEnd = (length buffer + pos) mod 2 ^ 64;
       (ret, fs) \<leftarrow> (if Size inode < newEnd then TmpFS_truncate memalign fs node newEnd else Some (0, fs));
       if ret < 0 then Some (ret, fs)
       else do {
         inode \<leftarrow> Inode fs node;
         d \<leftarrow> block_write (FileData inode) pos buffer;
         Some (as_int (length buffer), set_Inode fs node (inode\<lparr>FileData := d\<rparr>)) } } }"

section \<open>Attributes\<close>

record tmpfs_stat =
  st_dev :: nat
  st_ino :: nat
  st_mode :: u16
  st_nlink :: nat
  st_uid :: nat
  st_gid :: nat
  st_rdev :: nat
  st_size :: nat
  st_blksize :: nat
  st_blocks :: nat
  st_atime :: nat
  st_mtime :: nat
  st_ctime :: nat

definition TmpFS_stat :: "tmpfs \<Rightarrow> nat \<Rightarrow> (int \<times> tmpfs_stat) option" where
  "TmpFS_stat fs node = do {
     inode \<leftarrow> Inode fs node;
     Some (0, \<lparr>st_dev = 0, st_ino = node, st_mode = Mode inode, st_nlink = LinksCount inode,
               st_uid = Uid inode, st_gid = Gid inode, st_rdev = 0, st_size = Size inode,
               st_blksize = 1024, st_blocks = Blocks inode, st_atime = ATime inode,
               st_mtime = MTime inode, st_ctime = CTime inode\<rparr>) }"

definition TmpFS_access :: "tmpfs \<Rightarrow> nat \<Rightarrow> u32 \<Rightarrow> nat \<Rightarrow> nat \<Rightarrow> int option" where
  "TmpFS_access fs node aMode uid gid = do {
     inode \<leftarrow> Inode fs node;
     let m = Mode inode;
     let tmpIMode = (if uid = 0 then m OR (6 OR (drop_bit 14 m AND 1))
                     else if uid = Uid inode then drop_bit 6 m
                     else if gid = Gid inode then drop_bit 3 m
                     else m);
     Some (if aMode AND NOT (ucast (tmpIMode AND 7)) \<noteq> 0 then - errno_code EACCES else 0) }"

definition TmpFS_chmod :: "tmpfs \<Rightarrow> nat \<Rightarrow> u16 \<Rightarrow> (int \<times> tmpfs) option" where
  "TmpFS_chmod fs node mode = do {
     inode \<leftarrow> Inode fs node;
     Some (0, set_Inode fs node (inode\<lparr>Mode := mode\<rparr>)) }"

definition TmpFS_chown :: "tmpfs \<Rightarrow> nat \<Rightarrow> nat \<Rightarrow> nat \<Rightarrow> (int \<times> tmpfs) option" where
  "TmpFS_chown fs node uid gid = do {
     inode \<leftarrow> Inode fs node;
     Some (0, set_Inode fs node (inode\<lparr>Uid := uid mod 2 ^ 16, Gid := gid mod 2 ^ 16\<rparr>)) }"

definition TmpFS_utime :: "tmpfs \<Rightarrow> nat \<Rightarrow> nat \<Rightarrow> nat \<Rightarrow> (int \<times> tmpfs) option" where
  "TmpFS_utime fs node actime modtime = do {
     inode \<leftarrow> Inode fs node;
     Some (0, set_Inode fs node (inode\<lparr>ATime := actime, MTime := modtime\<rparr>)) }"

definition TmpFS_size :: "tmpfs \<Rightarrow> nat \<Rightarrow> (int \<times> nat) option" where
  "TmpFS_size fs node = map_option (\<lambda>inode. (0, Size inode)) (Inode fs node)"

definition TmpFS_type :: "tmpfs \<Rightarrow> nat \<Rightarrow> (int \<times> u16) option" where
  "TmpFS_type fs node = map_option (\<lambda>inode. (0, Mode inode AND S_IFMT)) (Inode fs node)"

text \<open>The operations that return a constant: those that always succeed, \<open>socketcall\<close>, \<open>fcntl\<close> and \<open>ioctl\<close>.\<close>

datatype tmpfs_constant =
  T_openfd | T_closefd | T_dupfd | T_closevnode | T_fsync | T_fdatasync | T_socketcall | T_fcntl | T_ioctl

fun TmpFS_constant :: "tmpfs_constant \<Rightarrow> int" where
  "TmpFS_constant T_socketcall = - errno_code EINVAL"
| "TmpFS_constant T_fcntl = - errno_code EINVAL"
| "TmpFS_constant T_ioctl = - errno_code EIOCTLNOTSUPPORTED"
| "TmpFS_constant _ = 0"

section \<open>The specification\<close>

record anode =
  amode :: u16
  content :: "u8 list"
  entries :: "fname \<rightharpoonup> nat"

record afs =
  nodes :: "nat \<rightharpoonup> anode"
  next_node :: nat

datatype fs_op =
    Creat nat fname u16 | Mkdir nat fname u16 | Symlink nat fname fname | Mknod nat fname u16 nat
  | Link nat nat fname | Rename nat fname nat fname | Unlink nat fname
  | Write nat nat "u8 list" | Truncate nat nat | Chmod nat u16

definition upd_node :: "afs \<Rightarrow> nat \<Rightarrow> (anode \<Rightarrow> anode) \<Rightarrow> afs" where
  "upd_node A i f = A\<lparr>nodes := (nodes A)(i := map_option f (nodes A i))\<rparr>"

definition bind_name :: "afs \<Rightarrow> nat \<Rightarrow> fname \<Rightarrow> nat option \<Rightarrow> afs" where
  "bind_name A d name i = upd_node A d (\<lambda>x. x\<lparr>entries := (entries x)(name := i)\<rparr>)"

definition add_node :: "afs \<Rightarrow> nat \<Rightarrow> fname \<Rightarrow> anode \<Rightarrow> afs" where
  "add_node A d name x =
     (bind_name A d name (Some (next_node A)))
       \<lparr>nodes := (nodes (bind_name A d name (Some (next_node A))))(next_node A \<mapsto> x),
        next_node := Suc (next_node A)\<rparr>"

definition node_entries :: "afs \<Rightarrow> nat \<Rightarrow> fname \<rightharpoonup> nat" where
  "node_entries A d = (case nodes A d of None \<Rightarrow> Map.empty | Some x \<Rightarrow> entries x)"

text \<open>A write after the end fills the gap with zeros.\<close>

definition extend :: "u8 list \<Rightarrow> nat \<Rightarrow> u8 list" where
  "extend c n = c @ replicate (n - length c) 0"

definition overwrite :: "u8 list \<Rightarrow> nat \<Rightarrow> u8 list \<Rightarrow> u8 list" where
  "overwrite c pos bs = blit (extend c (pos + length bs)) pos bs"

fun afs_step :: "afs \<Rightarrow> fs_op \<Rightarrow> int \<times> afs" where
  "afs_step A (Creat d name mode) =
     (0, add_node A d name \<lparr>amode = mode OR S_IFREG, content = [], entries = Map.empty\<rparr>)"
| "afs_step A (Mkdir d name mode) =
     (0, add_node A d name \<lparr>amode = S_IFDIR, content = [],
                            entries = [[0x2E] \<mapsto> next_node A, [0x2E, 0x2E] \<mapsto> d]\<rparr>)"
| "afs_step A (Symlink d old name) =
     (0, add_node A d name \<lparr>amode = S_IFLNK, content = old @ [0], entries = Map.empty\<rparr>)"
| "afs_step A (Mknod d name mode dev) =
     (0, add_node A d name \<lparr>amode = mode, content = [], entries = Map.empty\<rparr>)"
| "afs_step A (Link d i name) = (0, bind_name A d name (Some i))"
| "afs_step A (Rename d old d' new) =
     (0, bind_name (bind_name A d old None) d' new (node_entries A d old))"
| "afs_step A (Unlink d name) =
     (if node_entries A d name = None then (- errno_code ENOENT, A) else (0, bind_name A d name None))"
| "afs_step A (Write i pos bs) =
     (case nodes A i of None \<Rightarrow> (0, A)
      | Some x \<Rightarrow>
          if S_ISDIR (amode x) then (- errno_code EISDIR, A)
          else (int (length bs), upd_node A i (\<lambda>x. x\<lparr>content := overwrite (content x) pos bs\<rparr>)))"
| "afs_step A (Truncate i n) = (0, upd_node A i (\<lambda>x. x\<lparr>content := extend (content x) n\<rparr>))"
| "afs_step A (Chmod i mode) = (0, upd_node A i (\<lambda>x. x\<lparr>amode := mode\<rparr>))"

text \<open>What the callers have to respect: nodes exist, sizes fit, and the type of a file stays.\<close>

fun afs_pre :: "afs \<Rightarrow> fs_op \<Rightarrow> bool" where
  "afs_pre A (Creat d name mode) \<longleftrightarrow> nodes A d \<noteq> None"
| "afs_pre A (Mkdir d name mode) \<longleftrightarrow> nodes A d \<noteq> None"
| "afs_pre A (Symlink d old name) \<longleftrightarrow> nodes A d \<noteq> None \<and> length old + 1 < 2 ^ 32"
| "afs_pre A (Mknod d name mode dev) \<longleftrightarrow> nodes A d \<noteq> None"
| "afs_pre A (Link d i name) \<longleftrightarrow> nodes A d \<noteq> None \<and> nodes A i \<noteq> None"
| "afs_pre A (Rename d old d' new) \<longleftrightarrow>
     nodes A d \<noteq> None \<and> nodes A d' \<noteq> None \<and> node_entries A d old \<noteq> None"
| "afs_pre A (Unlink d name) \<longleftrightarrow> nodes A d \<noteq> None"
| "afs_pre A (Write i pos bs) \<longleftrightarrow> nodes A i \<noteq> None \<and> length bs < 2 ^ 31 \<and> pos + length bs < 2 ^ 32"
| "afs_pre A (Truncate i n) \<longleftrightarrow>
     (case nodes A i of None \<Rightarrow> False
      | Some x \<Rightarrow> \<not> S_ISDIR (amode x) \<and> length (content x) \<le> n \<and> n < 2 ^ 32)"
| "afs_pre A (Chmod i mode) \<longleftrightarrow>
     (case nodes A i of None \<Rightarrow> False | Some x \<Rightarrow> mode AND S_IFMT = amode x AND S_IFMT)"

text \<open>Blocks of any contents, from an allocator that succeeds.\<close>

definition heap_block :: "(nat \<Rightarrow> nat \<Rightarrow> u8) \<Rightarrow> nat \<Rightarrow> u8 list option" where
  "heap_block blk n = Some (map (blk n) [0..<n])"

fun TmpFS_step ::
  "TmpInode \<Rightarrow> nat \<Rightarrow> (nat \<Rightarrow> nat \<Rightarrow> u8) \<Rightarrow> tmpfs \<Rightarrow> fs_op \<Rightarrow> (int \<times> tmpfs) option" where
  "TmpFS_step junk now blk fs (Creat d name mode) = TmpFS_creat True junk now (heap_block blk 4) fs d name mode"
| "TmpFS_step junk now blk fs (Mkdir d name mode) = TmpFS_mkdir True junk now fs d name mode"
| "TmpFS_step junk now blk fs (Symlink d old name) = TmpFS_symlink True junk now fs d old name"
| "TmpFS_step junk now blk fs (Mknod d name mode dev) = TmpFS_mknod True junk now fs d name mode dev"
| "TmpFS_step junk now blk fs (Link d i name) = TmpFS_link True fs d i name"
| "TmpFS_step junk now blk fs (Rename d old d' new) = TmpFS_rename True fs d old d' new"
| "TmpFS_step junk now blk fs (Unlink d name) = TmpFS_unlink fs d name"
| "TmpFS_step junk now blk fs (Write i pos bs) = TmpFS_write (heap_block blk) fs i pos bs"
| "TmpFS_step junk now blk fs (Truncate i n) = TmpFS_truncate (heap_block blk) fs i n"
| "TmpFS_step junk now blk fs (Chmod i mode) = TmpFS_chmod fs i mode"

text \<open>A new mount.\<close>

definition afs_init :: afs where
  "afs_init = \<lparr>nodes = [1 \<mapsto> \<lparr>amode = S_IFDIR, content = [],
     entries = [[0x2E] \<mapsto> 1, [0x2E, 0x2E] \<mapsto> 1]\<rparr>], next_node = 2\<rparr>"

section \<open>The invariant and the abstraction\<close>

definition fdata :: "TmpInode \<Rightarrow> u8 list" where
  "fdata x = (case FileData x of None \<Rightarrow> [] | Some d \<Rightarrow> d)"

abbreviation dmap :: "TmpInode \<Rightarrow> fname \<rightharpoonup> nat" where
  "dmap x \<equiv> qmap (uhash qHash_QString) (Directory x)"

definition abs_node :: "TmpInode \<Rightarrow> anode" where
  "abs_node x = \<lparr>amode = Mode x,
     content = (if S_ISDIR (Mode x) then [] else take (Size x) (fdata x)), entries = dmap x\<rparr>"

definition abs_fs :: "tmpfs \<Rightarrow> afs" where
  "abs_fs fs = \<lparr>nodes = (\<lambda>i. map_option abs_node (Inode fs i)), next_node = length fs\<rparr>"

text \<open>
  Every table is well formed and its entries are inodes that exist; the data block of a node that is not
  a directory covers its size.
\<close>

definition inode_ok :: "nat set \<Rightarrow> TmpInode \<Rightarrow> bool" where
  "inode_ok S x \<longleftrightarrow> qhash_ok (uhash qHash_QString) (Directory x) \<and> ran (dmap x) \<subseteq> S
     \<and> (S_ISDIR (Mode x) \<or> Size x < 2 ^ 32 \<and> Size x \<le> length (fdata x))"

definition tmpfs_ok :: "tmpfs \<Rightarrow> bool" where
  "tmpfs_ok fs \<longleftrightarrow> Inode fs 0 = None \<and> fs \<noteq> []
     \<and> (\<forall>i x. Inode fs i = Some x \<longrightarrow> inode_ok (dom (Inode fs)) x)"

end
