(* ===== verification/Tmpfs_Refinement.thy ===== *)
theory Tmpfs_Refinement
  imports Tmpfs
begin

text \<open>
  The operations of theory Tmpfs implement the directory graph specified there: an interpretation of the
  locale \<open>data_refinement\<close>, and the properties of the file system in memory.
\<close>

section \<open>Inodes\<close>

lemma Inode_set:
  "i < length fs \<Longrightarrow> Inode (set_Inode fs i x) j = (if j = i then Some x else Inode fs j)"
  by (simp add: Inode_def set_Inode_def)

lemma length_set_Inode [simp]: "length (set_Inode fs i x) = length fs"
  by (simp add: set_Inode_def)

lemma set_Inode_Nil [simp]: "set_Inode fs i x = [] \<longleftrightarrow> fs = []"
  by (simp add: set_Inode_def)

lemma Inode_append: "Inode (fs @ [Some x]) j = (if j = length fs then Some x else Inode fs j)"
  by (auto simp: Inode_def nth_append)

lemma Inode_length: "Inode fs i = Some x \<Longrightarrow> i < length fs"
  by (simp add: Inode_def split: if_splits)

lemma tmpfs_ok_inode: "tmpfs_ok fs \<Longrightarrow> Inode fs i = Some x \<Longrightarrow> inode_ok (dom (Inode fs)) x"
  by (auto simp: tmpfs_ok_def)

lemma inode_ok_mono: "inode_ok S x \<Longrightarrow> S \<subseteq> T \<Longrightarrow> inode_ok T x"
  by (auto simp: inode_ok_def)

lemma tmpfs_ok_set:
  assumes "tmpfs_ok fs" and "Inode fs i = Some x" and "inode_ok (dom (Inode fs)) y"
  shows "tmpfs_ok (set_Inode fs i y)"
    and "abs_fs (set_Inode fs i y) = (abs_fs fs)\<lparr>nodes := (nodes (abs_fs fs))(i \<mapsto> abs_node y)\<rparr>"
proof -
  have i: "i < length fs" using assms(2) by (rule Inode_length)
  have d: "dom (Inode (set_Inode fs i y)) = dom (Inode fs)"
    using assms(2) by (auto simp: Inode_set [OF i] split: if_splits)
  have "i \<noteq> 0" using assms(1,2) by (metis option.distinct(1) tmpfs_ok_def)
  then show "tmpfs_ok (set_Inode fs i y)"
    using assms unfolding tmpfs_ok_def d by (auto simp: Inode_set [OF i])
  show "abs_fs (set_Inode fs i y) = (abs_fs fs)\<lparr>nodes := (nodes (abs_fs fs))(i \<mapsto> abs_node y)\<rparr>"
    by (auto simp: abs_fs_def Inode_set [OF i])
qed

lemma tmpfs_ok_append:
  assumes "tmpfs_ok fs" and "inode_ok (insert (length fs) (dom (Inode fs))) y"
  shows "tmpfs_ok (fs @ [Some y])"
    and "abs_fs (fs @ [Some y]) = \<lparr>nodes = (nodes (abs_fs fs))(length fs \<mapsto> abs_node y),
           next_node = Suc (length fs)\<rparr>"
proof -
  have d: "dom (Inode (fs @ [Some y])) = insert (length fs) (dom (Inode fs))"
    by (auto simp: Inode_append split: if_splits)
  have "inode_ok (insert (length fs) (dom (Inode fs))) x" if "Inode fs i = Some x" for i x
    using tmpfs_ok_inode [OF assms(1) that] by (rule inode_ok_mono) blast
  then show "tmpfs_ok (fs @ [Some y])"
    using assms unfolding tmpfs_ok_def d by (auto simp: Inode_append)
  show "abs_fs (fs @ [Some y]) = \<lparr>nodes = (nodes (abs_fs fs))(length fs \<mapsto> abs_node y),
      next_node = Suc (length fs)\<rparr>"
    by (auto simp: abs_fs_def Inode_append)
qed

lemma nodes_abs: "nodes (abs_fs fs) i = map_option abs_node (Inode fs i)"
  by (simp add: abs_fs_def)

lemma next_node_abs [simp]: "next_node (abs_fs fs) = length fs"
  by (simp add: abs_fs_def)

lemma upd_node_abs:
  "Inode fs i = Some x \<Longrightarrow> f (abs_node x) = abs_node y \<Longrightarrow>
     upd_node (abs_fs fs) i f = (abs_fs fs)\<lparr>nodes := (nodes (abs_fs fs))(i \<mapsto> abs_node y)\<rparr>"
  by (simp add: upd_node_def nodes_abs)

lemma set_refines:
  assumes "tmpfs_ok fs" and "Inode fs i = Some x" and "inode_ok (dom (Inode fs)) y"
    and "f (abs_node x) = abs_node y"
  shows "tmpfs_ok (set_Inode fs i y)" and "abs_fs (set_Inode fs i y) = upd_node (abs_fs fs) i f"
  using tmpfs_ok_set [OF assms(1-3)] upd_node_abs [OF assms(2), of f y] assms(4) by auto

section \<open>Directories\<close>

lemma Directory_insert_ok:
  assumes "qhash_ok (uhash qHash_QString) (Directory x)"
  shows "\<exists>D. Directory_insert True x name i = Some (x\<lparr>Directory := D\<rparr>)
    \<and> qhash_ok (uhash qHash_QString) D \<and> qmap (uhash qHash_QString) D = (dmap x)(name \<mapsto> i)"
  using QHash_insert_ok [OF assms, of name i] by (auto simp: Directory_insert_def)

lemma Directory_value_ok:
  "qhash_ok (uhash qHash_QString) (Directory x) \<Longrightarrow>
     Directory_value x name = Some (case dmap x name of None \<Rightarrow> 0 | Some v \<Rightarrow> v)"
  by (simp add: Directory_value_def QHash_value_ok)

lemma Directory_remove_ok:
  assumes "qhash_ok (uhash qHash_QString) (Directory x)"
  shows "\<exists>D. Directory_remove x name = Some (if dmap x name = None then 0 else 1, x\<lparr>Directory := D\<rparr>)
    \<and> qhash_ok (uhash qHash_QString) D \<and> qmap (uhash qHash_QString) D = (dmap x)(name := None)"
  using removeFromTable_ok [OF assms, of name] by (auto simp: Directory_remove_def QHash_remove_def)

lemma inode_ok_Directory:
  assumes "inode_ok S x" and "qhash_ok (uhash qHash_QString) D"
    and "qmap (uhash qHash_QString) D = (dmap x)(name := i)" and "\<And>j. i = Some j \<Longrightarrow> j \<in> S"
  shows "inode_ok S (x\<lparr>Directory := D\<rparr>)"
    and "abs_node (x\<lparr>Directory := D\<rparr>) = (abs_node x)\<lparr>entries := (entries (abs_node x))(name := i)\<rparr>"
  using assms by (auto simp: inode_ok_def abs_node_def fdata_def ran_def split: if_splits)

text \<open>Binding and unbinding a name.\<close>

lemma bind_refines:
  assumes ok: "tmpfs_ok fs" and d: "Inode fs d = Some x" and i: "i \<in> dom (Inode fs)"
  shows "\<exists>y. Directory_insert True x name i = Some y \<and> tmpfs_ok (set_Inode fs d y)
    \<and> abs_fs (set_Inode fs d y) = bind_name (abs_fs fs) d name (Some i)"
proof -
  note x = tmpfs_ok_inode [OF ok d]
  then have "qhash_ok (uhash qHash_QString) (Directory x)" by (simp add: inode_ok_def)
  from Directory_insert_ok [OF this] obtain D where
    D: "Directory_insert True x name i = Some (x\<lparr>Directory := D\<rparr>)"
    "qhash_ok (uhash qHash_QString) D" "qmap (uhash qHash_QString) D = (dmap x)(name \<mapsto> i)" by blast
  note y = inode_ok_Directory [OF x D(2,3)]
  have "inode_ok (dom (Inode fs)) (x\<lparr>Directory := D\<rparr>)" using i by (intro y(1)) auto
  from set_refines [OF ok d this, of "\<lambda>x. x\<lparr>entries := (entries x)(name \<mapsto> i)\<rparr>"] y(2) i D(1)
  show ?thesis unfolding bind_name_def by simp
qed

lemma unbind_refines:
  assumes ok: "tmpfs_ok fs" and d: "Inode fs d = Some x"
  shows "\<exists>y. Directory_remove x name = Some (if dmap x name = None then 0 else 1, y)
    \<and> tmpfs_ok (set_Inode fs d y) \<and> abs_fs (set_Inode fs d y) = bind_name (abs_fs fs) d name None
    \<and> dom (Inode (set_Inode fs d y)) = dom (Inode fs)"
proof -
  note x = tmpfs_ok_inode [OF ok d]
  then have "qhash_ok (uhash qHash_QString) (Directory x)" by (simp add: inode_ok_def)
  from Directory_remove_ok [OF this] obtain D where
    D: "Directory_remove x name = Some (if dmap x name = None then 0 else 1, x\<lparr>Directory := D\<rparr>)"
    "qhash_ok (uhash qHash_QString) D" "qmap (uhash qHash_QString) D = (dmap x)(name := None)" by blast
  note y = inode_ok_Directory [OF x D(2,3)]
  have "inode_ok (dom (Inode fs)) (x\<lparr>Directory := D\<rparr>)" by (intro y(1)) auto
  from set_refines [OF ok d this, of "\<lambda>x. x\<lparr>entries := (entries x)(name := None)\<rparr>"] y(2) D(1)
    Inode_length [OF d] d
  show ?thesis unfolding bind_name_def by (auto simp: Inode_set split: if_splits)
qed

lemma node_entries_abs: "Inode fs d = Some x \<Longrightarrow> node_entries (abs_fs fs) d = dmap x"
  by (simp add: node_entries_def nodes_abs abs_node_def)

section \<open>New nodes\<close>

lemma create_refines:
  assumes ok: "tmpfs_ok fs" and d: "Inode fs d = Some dx"
    and f: "f ((creat_inode junk now mode)\<lparr>Ino := length fs\<rparr>) = Some x"
    and x: "inode_ok (insert (length fs) (dom (Inode fs))) x"
  shows "\<exists>fs'. TmpFS_creat4 True junk now fs d name mode \<bind> with_inode f = Some (0, fs')
    \<and> tmpfs_ok fs' \<and> abs_fs fs' = add_node (abs_fs fs) d name (abs_node x)"
proof -
  let ?n = "(creat_inode junk now mode)\<lparr>Ino := length fs\<rparr>"
  have dl: "d < length fs" "d \<noteq> length fs" using Inode_length [OF d] by auto
  from tmpfs_ok_inode [OF ok d] have "qhash_ok (uhash qHash_QString) (Directory dx)"
    by (simp add: inode_ok_def)
  note fs1 = tmpfs_ok_append [OF ok x]
  let ?fs1 = "fs @ [Some x]"
  have d1: "Inode ?fs1 d = Some dx" using d dl by (simp add: Inode_append)
  have "length fs \<in> dom (Inode ?fs1)" by (simp add: Inode_append domIff)
  from bind_refines [OF fs1(1) d1 this, of name] obtain y where
    y: "Directory_insert True dx name (length fs) = Some y" "tmpfs_ok (set_Inode ?fs1 d y)"
    "abs_fs (set_Inode ?fs1 d y) = bind_name (abs_fs ?fs1) d name (Some (length fs))" by blast
  have "TmpFS_creat4 True junk now fs d name mode
      = Some (length fs, set_Inode (fs @ [Some ?n]) d y)"
    using d dl y(1) by (simp add: TmpFS_creat4_def Inode_append Let_def)
  moreover have "with_inode f (length fs, set_Inode (fs @ [Some ?n]) d y) = Some (0, set_Inode ?fs1 d y)"
    using f dl by (simp add: with_inode_def Inode_def set_Inode_def list_update_append nth_append)
  moreover have "bind_name (abs_fs ?fs1) d name (Some (length fs)) = add_node (abs_fs fs) d name (abs_node x)"
    unfolding fs1(2) add_node_def bind_name_def upd_node_def using dl by (auto simp: abs_fs_def)
  ultimately show ?thesis using y(2,3) by simp
qed

lemma new_table:
  "qhash_ok h (QHash_init QHASH_DEFAULT_CAPACITY)" "qmap h (QHash_init QHASH_DEFAULT_CAPACITY) = Map.empty"
  "initFromHash (QHash_init QHASH_DEFAULT_CAPACITY) = QHash_init QHASH_DEFAULT_CAPACITY"
proof -
  have "0 < QHASH_DEFAULT_CAPACITY" by (simp add: QHASH_DEFAULT_CAPACITY_def)
  from QHash_init_ok [OF this, of h]
  show "qhash_ok h (QHash_init QHASH_DEFAULT_CAPACITY)"
    and "qmap h (QHash_init QHASH_DEFAULT_CAPACITY) = Map.empty" by auto
qed (simp add: initFromHash_def QHash_isEmpty_def QHash_init_def)

lemma creat_inode_simps [simp]:
  "Mode (creat_inode junk now mode) = mode" "Size (creat_inode junk now mode) = 0"
  "Directory (creat_inode junk now mode) = QHash_init QHASH_DEFAULT_CAPACITY"
  by (simp_all add: creat_inode_def new_TmpInode_def)

text \<open>The first two entries of a directory.\<close>

lemma dot_entries:
  assumes "Directory x = QHash_init QHASH_DEFAULT_CAPACITY"
  shows "\<exists>D. Directory_insert True x [0x2E] i \<bind> (\<lambda>y. Directory_insert True y [0x2E, 0x2E] j)
      = Some (x\<lparr>Directory := D\<rparr>)
    \<and> qhash_ok (uhash qHash_QString) D \<and> qmap (uhash qHash_QString) D = [[0x2E] \<mapsto> i, [0x2E, 0x2E] \<mapsto> j]"
proof -
  from new_table assms have "qhash_ok (uhash qHash_QString) (Directory x)" by simp
  from Directory_insert_ok [OF this, of "[0x2E]" i] obtain D where
    D: "Directory_insert True x [0x2E] i = Some (x\<lparr>Directory := D\<rparr>)"
    "qhash_ok (uhash qHash_QString) D" "qmap (uhash qHash_QString) D = [[0x2E] \<mapsto> i]"
    using assms by (auto simp: new_table)
  from Directory_insert_ok [of "x\<lparr>Directory := D\<rparr>" "[0x2E, 0x2E]" j] D show ?thesis by auto
qed

section \<open>Contents\<close>

lemma fdata_block: "block_read (FileData x) pos n = (if pos + n \<le> length (fdata x) \<or> n = 0
    then Some (take n (drop pos (fdata x))) else None)"
  by (auto simp: block_read_def fdata_def split: option.splits)

lemma truncate_refines:
  assumes ok: "tmpfs_ok fs" and i: "Inode fs i = Some x" and nd: "\<not> S_ISDIR (Mode x)"
    and n: "Size x \<le> n" "n < 2 ^ 32" and al: "al n = Some d" "length d = n"
  shows "\<exists>y. TmpFS_truncate al fs i n = Some (0, set_Inode fs i y)
    \<and> y = x\<lparr>FileData := Some (extend (take (Size x) (fdata x)) n), Size := n\<rparr>
    \<and> inode_ok (dom (Inode fs)) y
    \<and> abs_node y = (abs_node x)\<lparr>content := extend (content (abs_node x)) n\<rparr>"
proof -
  from tmpfs_ok_inode [OF ok i] nd have x: "Size x \<le> length (fdata x)" "Size x < 2 ^ 32"
    and x': "inode_ok (dom (Inode fs)) x" by (simp_all add: inode_ok_def)
  let ?c = "take (Size x) (fdata x)"
  let ?d = "extend ?c n"
  have lc: "length ?c = Size x" using x by simp
  have r: "block_read (FileData x) 0 (Size x) = Some ?c" using x by (simp add: fdata_block)
  have w: "block_write (Some d) 0 ?c = Some (Some (?c @ drop (Size x) d))"
    using n al(2) lc by (auto simp: block_write_def blit_def)
  have "(if Size x < n then block_write (Some (?c @ drop (Size x) d)) (Size x) (replicate ((n - Size x) mod 2 ^ 32) 0)
      else Some (Some (?c @ drop (Size x) d))) = Some (Some ?d)"
  proof (cases "Size x < n")
    case True
    then have "n - Size x < 2 ^ 32" using n by simp
    then have m: "(n - Size x) mod 2 ^ 32 = n - Size x" by simp
    have "block_write (Some (?c @ drop (Size x) d)) (Size x) (replicate (n - Size x) 0)
        = Some (Some (take (Size x) (?c @ drop (Size x) d) @ replicate (n - Size x) 0
            @ drop (Size x + (n - Size x)) (?c @ drop (Size x) d)))"
      using True n al(2) lc by (simp add: block_write_def blit_def del: take_append drop_append)
    also have "\<dots> = Some (Some ?d)" using True al(2) lc by (simp add: extend_def)
    finally show ?thesis using True m by simp
  next
    case False
    with n have "Size x = n" by simp
    with al(2) lc show ?thesis by (simp add: extend_def)
  qed
  moreover have "n mod 2 ^ 32 = n" using n by simp
  ultimately have "TmpFS_truncate al fs i n
      = Some (0, set_Inode fs i (x\<lparr>FileData := Some ?d, Size := n\<rparr>))"
    using i al r w by (simp add: TmpFS_truncate_def Let_def)
  moreover have "length ?d = n" using lc n by (simp add: extend_def)
  ultimately show ?thesis using x' nd n by (auto simp: inode_ok_def abs_node_def fdata_def)
qed

lemma block_write_fdata:
  assumes "pos + length bs \<le> length (fdata x)"
  shows "\<exists>b. block_write (FileData x) pos bs = Some b
    \<and> fdata (x\<lparr>FileData := b\<rparr>) = blit (fdata x) pos bs"
  using assms by (auto simp: block_write_def fdata_def split: option.splits)

lemma take_blit: "pos + length bs \<le> n \<Longrightarrow> n \<le> length d \<Longrightarrow> take n (blit d pos bs) = blit (take n d) pos bs"
  by (cases "n = pos") (auto simp: blit_def min_def drop_take)

lemma length_blit_in: "pos + length bs \<le> length d \<Longrightarrow> length (blit d pos bs) = length d"
  by (simp add: blit_def)

text \<open>A write inside the size.\<close>

lemma write_inside:
  assumes x: "inode_ok S x" "\<not> S_ISDIR (Mode x)" and e: "pos + length bs \<le> Size x"
  shows "\<exists>b. block_write (FileData x) pos bs = Some b \<and> inode_ok S (x\<lparr>FileData := b\<rparr>)
    \<and> abs_node (x\<lparr>FileData := b\<rparr>) = (abs_node x)\<lparr>content := overwrite (content (abs_node x)) pos bs\<rparr>"
proof -
  from x have s: "Size x \<le> length (fdata x)" by (simp add: inode_ok_def)
  with e obtain b where b: "block_write (FileData x) pos bs = Some b"
    "fdata (x\<lparr>FileData := b\<rparr>) = blit (fdata x) pos bs" using block_write_fdata [of pos bs x] by auto
  moreover have "overwrite (take (Size x) (fdata x)) pos bs = take (Size x) (blit (fdata x) pos bs)"
    using e s by (simp add: overwrite_def extend_def take_blit)
  ultimately show ?thesis using x s e by (auto simp: inode_ok_def abs_node_def length_blit_in)
qed

lemma write_refines:
  assumes ok: "tmpfs_ok fs" and i: "Inode fs i = Some x" and nd: "\<not> S_ISDIR (Mode x)"
    and n: "length bs < 2 ^ 31" "pos + length bs < 2 ^ 32"
  shows "\<exists>y. TmpFS_write (heap_block blk) fs i pos bs = Some (int (length bs), set_Inode fs i y)
    \<and> inode_ok (dom (Inode fs)) y \<and> Mode y = Mode x \<and> pos + length bs \<le> Size y
    \<and> abs_node y = (abs_node x)\<lparr>content := overwrite (content (abs_node x)) pos bs\<rparr>"
proof -
  let ?e = "pos + length bs"
  note x = tmpfs_ok_inode [OF ok i]
  have il: "i < length fs" using i by (rule Inode_length)
  have e: "(length bs + pos) mod 2 ^ 64 = ?e" using n by simp
  note r = as_int_small [OF n(1)]
  show ?thesis
  proof (cases "Size x < ?e")
    case True
    have "heap_block blk ?e = Some (map (blk ?e) [0..<?e])" "length (map (blk ?e) [0..<?e]) = ?e"
      by (simp_all add: heap_block_def)
    from truncate_refines [where al = "heap_block blk", OF ok i nd less_imp_le [OF True] n(2) this] obtain y where
      y: "TmpFS_truncate (heap_block blk) fs i ?e = Some (0, set_Inode fs i y)"
      "y = x\<lparr>FileData := Some (extend (take (Size x) (fdata x)) ?e), Size := ?e\<rparr>"
      "inode_ok (dom (Inode fs)) y"
      "abs_node y = (abs_node x)\<lparr>content := extend (content (abs_node x)) ?e\<rparr>" by blast
    have "\<not> S_ISDIR (Mode y)" "?e \<le> Size y" using y(2) nd by simp_all
    from write_inside [OF y(3) this] obtain b where
      b: "block_write (FileData y) pos bs = Some b" "inode_ok (dom (Inode fs)) (y\<lparr>FileData := b\<rparr>)"
      "abs_node (y\<lparr>FileData := b\<rparr>) = (abs_node y)\<lparr>content := overwrite (content (abs_node y)) pos bs\<rparr>"
      by blast
    have "extend (extend c ?e) ?e = extend c ?e" for c by (simp add: extend_def)
    then have "abs_node (y\<lparr>FileData := b\<rparr>) = (abs_node x)\<lparr>content := overwrite (content (abs_node x)) pos bs\<rparr>"
      using b(3) y(4) by (simp add: overwrite_def)
    moreover have "TmpFS_write (heap_block blk) fs i pos bs
        = Some (int (length bs), set_Inode (set_Inode fs i y) i (y\<lparr>FileData := b\<rparr>))"
      using i nd True e y(1) b(1) r il by (simp add: TmpFS_write_def Inode_set)
    moreover have "set_Inode (set_Inode fs i y) i z = set_Inode fs i z" for z by (simp add: set_Inode_def)
    ultimately show ?thesis using b(2) y(2) by auto
  next
    case False
    with write_inside [OF x nd, of pos bs] obtain b where
      "block_write (FileData x) pos bs = Some b" "inode_ok (dom (Inode fs)) (x\<lparr>FileData := b\<rparr>)"
      "abs_node (x\<lparr>FileData := b\<rparr>) = (abs_node x)\<lparr>content := overwrite (content (abs_node x)) pos bs\<rparr>"
      by auto
    moreover from this have "TmpFS_write (heap_block blk) fs i pos bs
        = Some (int (length bs), set_Inode fs i (x\<lparr>FileData := b\<rparr>))"
      using i nd False e r by (simp add: TmpFS_write_def)
    ultimately show ?thesis using False by auto
  qed
qed

lemma read_ok:
  assumes ok: "tmpfs_ok fs" and i: "Inode fs i = Some x" and nd: "\<not> S_ISDIR (Mode x)"
    and n: "n < 2 ^ 31" "pos \<le> Size x"
  shows "TmpFS_read fs i pos n
    = (let bs = take n (drop pos (content (abs_node x))) in Some (int (length bs), bs))"
proof -
  from tmpfs_ok_inode [OF ok i] nd have x: "Size x \<le> length (fdata x)" "Size x < 2 ^ 32"
    by (simp_all add: inode_ok_def)
  have c: "content (abs_node x) = take (Size x) (fdata x)" using nd by (simp add: abs_node_def)
  have e: "(n + pos) mod 2 ^ 64 = n + pos" using n x by simp
  have "nat ((int (Size x) - int pos) mod 2 ^ 32) = Size x - pos"
  proof -
    have "(int (Size x) - int pos) mod 2 ^ 32 = int (Size x) - int pos" using n x by (intro mod_pos_pos_trivial) simp_all
    then show ?thesis by simp
  qed
  then have "TmpFS_read fs i pos n = do {
      let m = (if Size x < n + pos then Size x - pos else n);
      bs \<leftarrow> block_read (FileData x) pos m; Some (as_int m, bs) }"
    using i nd e by (simp add: TmpFS_read_def)
  also have "\<dots> = (let bs = take n (drop pos (take (Size x) (fdata x))) in Some (int (length bs), bs))"
  proof (cases "Size x < n + pos")
    case True
    then have m: "Size x - pos < 2 ^ 31" "Size x - pos \<le> n" using n by simp_all
    have "pos + (Size x - pos) \<le> length (fdata x)" using x n by simp
    then have "block_read (FileData x) pos (Size x - pos) = Some (take (Size x - pos) (drop pos (fdata x)))"
      by (simp only: fdata_block) simp
    moreover have "take n (drop pos (take (Size x) (fdata x))) = take (Size x - pos) (drop pos (fdata x))"
      using m(2) by (simp add: drop_take min_def)
    ultimately show ?thesis using True x n as_int_small [OF m(1)] by (simp add: Let_def)
  next
    case False
    then have "block_read (FileData x) pos n = Some (take n (drop pos (fdata x)))"
      using x by (simp add: fdata_block)
    moreover have "take n (drop pos (take (Size x) (fdata x))) = take n (drop pos (fdata x))"
      using False by (simp add: drop_take min_def)
    ultimately show ?thesis using False x as_int_small [OF n(1)] by (simp add: Let_def)
  qed
  finally show ?thesis by (simp add: c)
qed

section \<open>Every operation refines its specification\<close>

lemma type_bits [simp]:
  "S_ISDIR S_IFDIR" "\<not> S_ISDIR S_IFLNK" "\<not> S_ISDIR S_IFREG" "\<not> S_ISDIR (m OR S_IFREG)"
proof -
  show "\<not> S_ISDIR (m OR S_IFREG)"
  proof
    assume "S_ISDIR (m OR S_IFREG)"
    then have "bit ((m OR S_IFREG) AND S_IFMT) 15 = bit S_IFDIR 15" by (simp add: S_ISDIR_def)
    then show False by (simp add: S_IFREG_def S_IFMT_def S_IFDIR_def bit_simps)
  qed
qed (simp_all add: S_ISDIR_def S_IFDIR_def S_IFMT_def S_IFLNK_def S_IFREG_def)

lemma creat_step:
  assumes "tmpfs_ok fs" and "Inode fs d = Some dx"
  shows "\<exists>fs'. TmpFS_creat True junk now (heap_block blk 4) fs d name mode = Some (0, fs') \<and> tmpfs_ok fs'
    \<and> afs_step (abs_fs fs) (Creat d name mode) = (0, abs_fs fs')"
proof -
  let ?x = "(creat_inode junk now (mode OR S_IFREG))\<lparr>Ino := length fs, FileData := heap_block blk 4\<rparr>"
  have "inode_ok (insert (length fs) (dom (Inode fs))) ?x"
    by (simp add: inode_ok_def new_table)
  from create_refines [OF assms, of "\<lambda>t. Some (t\<lparr>FileData := heap_block blk 4\<rparr>)" junk now
      "mode OR S_IFREG" ?x name, OF _ this]
  show ?thesis unfolding TmpFS_creat_def by (auto simp: abs_node_def new_table)
qed

lemma symlink_step:
  assumes "tmpfs_ok fs" and "Inode fs d = Some dx" and "length old + 1 < 2 ^ 32"
  shows "\<exists>fs'. TmpFS_symlink True junk now fs d old name = Some (0, fs') \<and> tmpfs_ok fs'
    \<and> afs_step (abs_fs fs) (Symlink d old name) = (0, abs_fs fs')"
proof -
  let ?f = "\<lambda>t :: TmpInode. t\<lparr>FileData := Some (old @ [0]), Size := length old + 1, Mode := S_IFLNK\<rparr>"
  let ?x = "?f ((creat_inode junk now 0)\<lparr>Ino := length fs\<rparr>)"
  have "inode_ok (insert (length fs) (dom (Inode fs))) ?x"
    using assms(3) by (simp add: inode_ok_def new_table fdata_def)
  from create_refines [OF assms(1,2), of "\<lambda>t. Some (?f t)" junk now 0 ?x name, OF _ this]
  show ?thesis unfolding TmpFS_symlink_def by (auto simp: abs_node_def new_table fdata_def)
qed

lemma mknod_step:
  assumes "tmpfs_ok fs" and "Inode fs d = Some dx"
  shows "\<exists>fs'. TmpFS_mknod True junk now fs d name mode dev = Some (0, fs') \<and> tmpfs_ok fs'
    \<and> afs_step (abs_fs fs) (Mknod d name mode dev) = (0, abs_fs fs')"
proof -
  let ?f = "\<lambda>t :: TmpInode. t\<lparr>Major := dev div 2 ^ 16 mod 2 ^ 32, Minor := dev mod 2 ^ 16, FileData := None\<rparr>"
  let ?x = "?f ((creat_inode junk now mode)\<lparr>Ino := length fs\<rparr>)"
  have "inode_ok (insert (length fs) (dom (Inode fs))) ?x" by (simp add: inode_ok_def new_table)
  from create_refines [OF assms, of "\<lambda>t. Some (?f t)" junk now mode ?x name, OF _ this]
  show ?thesis unfolding TmpFS_mknod_def by (auto simp: abs_node_def new_table)
qed

lemma mkdir_step:
  assumes "tmpfs_ok fs" and "Inode fs d = Some dx"
  shows "\<exists>fs'. TmpFS_mkdir True junk now fs d name mode = Some (0, fs') \<and> tmpfs_ok fs'
    \<and> afs_step (abs_fs fs) (Mkdir d name mode) = (0, abs_fs fs')"
proof -
  let ?t = "(creat_inode junk now mode)\<lparr>Ino := length fs, FileData := None, Mode := S_IFDIR,
    Directory := QHash_init QHASH_DEFAULT_CAPACITY\<rparr>"
  from dot_entries [of ?t "length fs" d] obtain D where
    D: "Directory_insert True ?t [0x2E] (length fs) \<bind> (\<lambda>y. Directory_insert True y [0x2E, 0x2E] d)
      = Some (?t\<lparr>Directory := D\<rparr>)"
    "qhash_ok (uhash qHash_QString) D" "qmap (uhash qHash_QString) D = [[0x2E] \<mapsto> length fs, [0x2E, 0x2E] \<mapsto> d]"
    by auto
  have "d \<in> dom (Inode fs)" using assms(2) by auto
  then have ok: "inode_ok (insert (length fs) (dom (Inode fs))) (?t\<lparr>Directory := D\<rparr>)"
    using D by (simp add: inode_ok_def)
  define f where "f = (\<lambda>t :: TmpInode. Directory_insert True (t\<lparr>FileData := None, Mode := S_IFDIR,
      Directory := QHash_init QHASH_DEFAULT_CAPACITY\<rparr>) [0x2E] (Ino t)
      \<bind> (\<lambda>y. Directory_insert True y [0x2E, 0x2E] d))"
  have e: "TmpFS_mkdir True junk now fs d name mode
      = TmpFS_creat4 True junk now fs d name mode \<bind> with_inode f"
    by (simp add: TmpFS_mkdir_def f_def new_table Let_def)
  have "f ((creat_inode junk now mode)\<lparr>Ino := length fs\<rparr>) = Some (?t\<lparr>Directory := D\<rparr>)"
    using D(1) by (simp add: f_def)
  from create_refines [where f = f and junk = junk and now = now and mode = mode, OF assms this ok, of name] D(3) show ?thesis
    unfolding e by (auto simp: abs_node_def)
qed

lemma rename_step:
  assumes ok: "tmpfs_ok fs" and d: "Inode fs d = Some x" "dmap x old = Some i" and d': "Inode fs d' = Some x'"
  shows "\<exists>fs'. TmpFS_rename True fs d old d' new = Some (0, fs') \<and> tmpfs_ok fs'
    \<and> afs_step (abs_fs fs) (Rename d old d' new) = (0, abs_fs fs')"
proof -
  note x = tmpfs_ok_inode [OF ok d(1)]
  then have v: "Directory_value x old = Some i" using d(2) by (simp add: Directory_value_ok inode_ok_def)
  have i: "i \<in> dom (Inode fs)" using x d(2) by (auto simp: inode_ok_def ran_def)
  from unbind_refines [OF ok d(1), of old] d(2) obtain y where
    y: "Directory_remove x old = Some (1, y)" "tmpfs_ok (set_Inode fs d y)"
    "abs_fs (set_Inode fs d y) = bind_name (abs_fs fs) d old None"
    "dom (Inode (set_Inode fs d y)) = dom (Inode fs)" by auto
  from d' y(4) obtain z where z: "Inode (set_Inode fs d y) d' = Some z" by (metis domD domI)
  from bind_refines [OF y(2) z, of i new] i y(4) obtain w where
    w: "Directory_insert True z new i = Some w" "tmpfs_ok (set_Inode (set_Inode fs d y) d' w)"
    "abs_fs (set_Inode (set_Inode fs d y) d' w) = bind_name (bind_name (abs_fs fs) d old None) d' new (Some i)"
    using y(3) by auto
  have "TmpFS_rename True fs d old d' new = Some (0, set_Inode (set_Inode fs d y) d' w)"
    using d v y(1) z w(1) by (simp add: TmpFS_rename_def)
  with w show ?thesis using d by (simp add: node_entries_abs)
qed

lemma unlink_step:
  assumes ok: "tmpfs_ok fs" and d: "Inode fs d = Some x"
  shows "\<exists>r fs'. TmpFS_unlink fs d name = Some (r, fs') \<and> tmpfs_ok fs'
    \<and> afs_step (abs_fs fs) (Unlink d name) = (r, abs_fs fs')"
proof -
  from unbind_refines [OF ok d, of name] obtain y where
    y: "Directory_remove x name = Some (if dmap x name = None then 0 else 1, y)"
    "tmpfs_ok (set_Inode fs d y)" "abs_fs (set_Inode fs d y) = bind_name (abs_fs fs) d name None" by blast
  have "bind_name (abs_fs fs) d name None = abs_fs fs" if "dmap x name = None"
  proof -
    have "(abs_node x)\<lparr>entries := (entries (abs_node x))(name := None)\<rparr> = abs_node x"
      using that by (simp add: abs_node_def fun_upd_idem)
    then show ?thesis using d by (simp add: bind_name_def upd_node_def nodes_abs) (simp add: abs_fs_def fun_upd_idem)
  qed
  with y d show ?thesis by (auto simp: TmpFS_unlink_def node_entries_abs)
qed

lemma chmod_step:
  assumes ok: "tmpfs_ok fs" and i: "Inode fs i = Some x" and m: "mode AND S_IFMT = Mode x AND S_IFMT"
  shows "\<exists>fs'. TmpFS_chmod fs i mode = Some (0, fs') \<and> tmpfs_ok fs'
    \<and> afs_step (abs_fs fs) (Chmod i mode) = (0, abs_fs fs')"
proof -
  have t: "S_ISDIR mode = S_ISDIR (Mode x)" using m by (simp add: S_ISDIR_def)
  have "inode_ok (dom (Inode fs)) (x\<lparr>Mode := mode\<rparr>)"
    using tmpfs_ok_inode [OF ok i] t by (simp add: inode_ok_def fdata_def)
  from set_refines [OF ok i this, of "\<lambda>x. x\<lparr>amode := mode\<rparr>"] t i show ?thesis
    by (auto simp: TmpFS_chmod_def abs_node_def fdata_def)
qed

lemma TmpFS_step_refines:
  assumes ok: "tmpfs_ok fs" and pre: "afs_pre (abs_fs fs) op"
  shows "\<exists>r fs'. TmpFS_step junk now blk fs op = Some (r, fs') \<and> tmpfs_ok fs'
    \<and> afs_step (abs_fs fs) op = (r, abs_fs fs')"
proof (cases op)
  case (Link d i name)
  then obtain x where "Inode fs d = Some x" "i \<in> dom (Inode fs)" using pre by (auto simp: nodes_abs)
  with bind_refines [OF ok this, of name] Link show ?thesis by (auto simp: TmpFS_link_def)
next
  case (Unlink d name)
  then obtain x where "Inode fs d = Some x" using pre by (auto simp: nodes_abs)
  from unlink_step [OF ok this, of name] Unlink show ?thesis by simp
next
  case (Write i pos bs)
  then obtain x where x: "Inode fs i = Some x" using pre by (auto simp: nodes_abs)
  show ?thesis
  proof (cases "S_ISDIR (Mode x)")
    case True
    with x Write ok show ?thesis by (auto simp: TmpFS_write_def nodes_abs abs_node_def)
  next
    case False
    from write_refines [OF ok x False, of bs pos blk] pre Write obtain y where
      y: "TmpFS_write (heap_block blk) fs i pos bs = Some (int (length bs), set_Inode fs i y)"
      "inode_ok (dom (Inode fs)) y"
      "abs_node y = (abs_node x)\<lparr>content := overwrite (content (abs_node x)) pos bs\<rparr>" by auto
    from set_refines [OF ok x y(2), of "\<lambda>x. x\<lparr>content := overwrite (content x) pos bs\<rparr>"] y False x Write
    show ?thesis by (auto simp: nodes_abs) (auto simp: abs_node_def)
  qed
next
  case (Truncate i n)
  then obtain x where x: "Inode fs i = Some x" "\<not> S_ISDIR (Mode x)" "n < 2 ^ 32"
    "length (content (abs_node x)) \<le> n" using pre by (auto simp: nodes_abs abs_node_def split: option.splits)
  then have "Size x \<le> n" using tmpfs_ok_inode [OF ok x(1)] by (auto simp: abs_node_def inode_ok_def)
  from truncate_refines [where al = "heap_block blk", OF ok x(1,2) this x(3)] obtain y where
    y: "TmpFS_truncate (heap_block blk) fs i n = Some (0, set_Inode fs i y)"
    "inode_ok (dom (Inode fs)) y"
    "abs_node y = (abs_node x)\<lparr>content := extend (content (abs_node x)) n\<rparr>" by (auto simp: heap_block_def)
  from set_refines [OF ok x(1) y(2), of "\<lambda>x. x\<lparr>content := extend (content x) n\<rparr>"] y x Truncate
  show ?thesis by simp
qed (use pre in \<open>auto simp: nodes_abs node_entries_abs abs_node_def
        intro: creat_step [OF ok, simplified] mkdir_step [OF ok, simplified]
          symlink_step [OF ok, simplified] mknod_step [OF ok, simplified] rename_step [OF ok, simplified]
          chmod_step [OF ok, simplified]
        split: option.splits\<close>)

interpretation tmpfs: data_refinement tmpfs_ok abs_fs "TmpFS_step junk now blk" afs_step afs_pre
  for junk now blk
  by unfold_locales (rule TmpFS_step_refines)

lemma TmpFS_Mount_ok:
  "\<exists>fs. TmpFS_Mount True junk now = Some fs \<and> tmpfs_ok fs \<and> abs_fs fs = afs_init"
proof -
  let ?t = "(new_TmpInode junk)
    \<lparr>FileData := None, Mode := S_IFDIR, Uid := 0, Gid := 0, ATime := msecs now, MTime := msecs now,
     CTime := msecs now, LinksCount := 2, Directory := QHash_init QHASH_DEFAULT_CAPACITY\<rparr>"
  from dot_entries [of ?t 1 1] obtain D where
    D: "Directory_insert True ?t [0x2E] 1 \<bind> (\<lambda>y. Directory_insert True y [0x2E, 0x2E] 1)
      = Some (?t\<lparr>Directory := D\<rparr>)"
    "qhash_ok (uhash qHash_QString) D" "qmap (uhash qHash_QString) D = [[0x2E] \<mapsto> 1, [0x2E, 0x2E] \<mapsto> 1]"
    by auto
  obtain root where root: "root = ?t\<lparr>Directory := D\<rparr>" by blast
  then have r: "Mode root = S_IFDIR" "Directory root = D" by simp_all
  have "TmpFS_Mount True junk now = Directory_insert True ?t [0x2E] 1
      \<bind> (\<lambda>y. Directory_insert True y [0x2E, 0x2E] 1) \<bind> (\<lambda>z. Some [None, Some z])"
    by (simp add: TmpFS_Mount_def new_table)
  then have "TmpFS_Mount True junk now = Some [None, Some root]"
    unfolding D(1) root [symmetric] by simp
  moreover have I: "Inode [None, Some root] i = (if i = 1 then Some root else None)" for i
    by (auto simp: Inode_def less_Suc_eq)
  have "dom (Inode [None, Some root]) = {1}" by (auto simp: I split: if_splits)
  with D r have "tmpfs_ok [None, Some root]" unfolding tmpfs_ok_def by (auto simp: I inode_ok_def)
  moreover have "abs_fs [None, Some root] = afs_init"
    using D(3) r by (auto simp: abs_fs_def afs_init_def I abs_node_def)
  ultimately show ?thesis by blast
qed

section \<open>Properties\<close>

text \<open>
  C4: From a new mount on, any sequence of operations that the callers are allowed to make returns what
  the directory graph returns and leaves the file system in the state of the graph: the inodes are well
  formed, every directory entry leads to an inode that exists, reading a file returns the bytes of its
  contents and looking up a name finds its entry. No operation faults.
\<close>
theorem tmpfs_refines_directory_graph:
  assumes "allowed afs_pre afs_step afs_init ops"
  shows "\<exists>fs0 rs fs. TmpFS_Mount True junk now = Some fs0
    \<and> crun (TmpFS_step junk now blk) fs0 ops = Some (rs, fs)
    \<and> arun afs_step afs_init ops = (rs, abs_fs fs)
    \<and> tmpfs_ok fs
    \<and> (\<forall>i x pos n. nodes (abs_fs fs) i = Some x \<longrightarrow> \<not> S_ISDIR (amode x) \<longrightarrow> pos \<le> length (content x)
         \<longrightarrow> n < 2 ^ 31 \<longrightarrow>
         TmpFS_read fs i pos n = (let bs = take n (drop pos (content x)) in Some (int (length bs), bs)))
    \<and> (\<forall>i x name. nodes (abs_fs fs) i = Some x \<longrightarrow>
         (\<exists>y. Inode fs i = Some y
            \<and> Directory_value y name = Some (case entries x name of None \<Rightarrow> 0 | Some j \<Rightarrow> j)))"
proof -
  obtain fs0 where fs0: "TmpFS_Mount True junk now = Some fs0" "tmpfs_ok fs0" "abs_fs fs0 = afs_init"
    using TmpFS_Mount_ok by blast
  with tmpfs.run_refines [OF fs0(2)] assms obtain rs fs where
    run: "crun (TmpFS_step junk now blk) fs0 ops = Some (rs, fs)" and ok: "tmpfs_ok fs"
    and "arun afs_step afs_init ops = (rs, abs_fs fs)" by metis
  moreover have "TmpFS_read fs i pos n = (let bs = take n (drop pos (content x)) in Some (int (length bs), bs))"
    if x: "nodes (abs_fs fs) i = Some x" "\<not> S_ISDIR (amode x)" "pos \<le> length (content x)" "n < 2 ^ 31"
    for i x pos n
  proof -
    from x(1) obtain y where y: "Inode fs i = Some y" "x = abs_node y" by (auto simp: nodes_abs)
    with x have nd: "\<not> S_ISDIR (Mode y)" by (simp add: abs_node_def)
    then have "pos \<le> Size y" using x(3) y by (simp add: abs_node_def)
    from read_ok [OF ok y(1) nd x(4) this] y(2) show ?thesis by simp
  qed
  moreover have "\<exists>y. Inode fs i = Some y
      \<and> Directory_value y name = Some (case entries x name of None \<Rightarrow> 0 | Some j \<Rightarrow> j)"
    if "nodes (abs_fs fs) i = Some x" for i x name
  proof -
    from that obtain y where y: "Inode fs i = Some y" "x = abs_node y" by (auto simp: nodes_abs)
    with tmpfs_ok_inode [OF ok y(1)] show ?thesis
      by (auto simp: Directory_value_ok inode_ok_def abs_node_def)
  qed
  ultimately show ?thesis using fs0(1) by auto
qed

theorem tmpfs_refines_directory_graph_witness:
  "\<forall>junk now blk. \<exists>fs0 fs. TmpFS_Mount True junk now = Some fs0
    \<and> crun (TmpFS_step junk now blk) fs0 [Mkdir 1 [100] 0, Creat 2 [102] 0, Write 3 2 [7, 8]]
        = Some ([0, 0, 2], fs)"
proof (intro allI)
  fix junk now blk
  let ?ops = "[Mkdir 1 [100] 0, Creat 2 [102] 0, Write 3 2 [7, 8]]"
  have "allowed afs_pre afs_step afs_init ?ops" "fst (arun afs_step afs_init ?ops) = [0, 0, 2]"
    by (simp_all add: afs_init_def add_node_def bind_name_def upd_node_def)
  with tmpfs_refines_directory_graph [of ?ops junk now blk]
  show "\<exists>fs0 fs. TmpFS_Mount True junk now = Some fs0
      \<and> crun (TmpFS_step junk now blk) fs0 ?ops = Some ([0, 0, 2], fs)" by (metis fst_conv)
qed

lemma length_extend_content:
  "Size x \<le> length (fdata x) \<Longrightarrow> length (extend (take (Size x) (fdata x)) n) = max (Size x) n"
  by (simp add: extend_def)

lemma write_read_back:
  assumes "tmpfs_ok fs" and "Inode fs i = Some x" and "\<not> S_ISDIR (Mode x)"
    and "length bs < 2 ^ 31" and "pos + length bs < 2 ^ 32"
  shows "\<exists>y. TmpFS_write (heap_block blk) fs i pos bs = Some (int (length bs), set_Inode fs i y)
    \<and> tmpfs_ok (set_Inode fs i y) \<and> inode_ok (dom (Inode fs)) y \<and> Mode y = Mode x
    \<and> abs_node y = (abs_node x)\<lparr>content := overwrite (content (abs_node x)) pos bs\<rparr>
    \<and> TmpFS_read (set_Inode fs i y) i pos (length bs) = Some (int (length bs), bs)"
proof -
  from write_refines [OF assms, of blk] obtain y where
    y: "TmpFS_write (heap_block blk) fs i pos bs = Some (int (length bs), set_Inode fs i y)"
    "inode_ok (dom (Inode fs)) y" "Mode y = Mode x" "pos + length bs \<le> Size y"
    "abs_node y = (abs_node x)\<lparr>content := overwrite (content (abs_node x)) pos bs\<rparr>" by blast
  have x: "Size x \<le> length (fdata x)"
    using tmpfs_ok_inode [OF assms(1,2)] assms(3) by (simp add: inode_ok_def)
  have i: "i < length fs" using assms(2) by (rule Inode_length)
  have Iy: "Inode (set_Inode fs i y) i = Some y" by (simp add: Inode_set [OF i])
  have c: "content (abs_node y) = overwrite (take (Size x) (fdata x)) pos bs"
    using assms(3) by (simp add: y(5)) (simp add: abs_node_def)
  have "take (length bs) (drop pos (content (abs_node y))) = bs"
    unfolding c using length_extend_content [OF x, of "pos + length bs"] by (simp add: overwrite_def blit_def)
  then have "TmpFS_read (set_Inode fs i y) i pos (length bs) = Some (int (length bs), bs)"
    using read_ok [OF tmpfs_ok_set(1) [OF assms(1,2) y(2)] Iy, of "length bs" pos] y(3,4) assms(3,4) by simp
  with y tmpfs_ok_set(1) [OF assms(1,2) y(2)] show ?thesis by blast
qed

text \<open>
  C28: A write of less than \<open>2 ^ 31\<close> bytes that ends below \<open>2 ^ 32\<close> in any node that is not a directory
  succeeds, a read of the same range returns the bytes written, the bytes before the old end and outside
  the range are kept, a gap is filled with zeros, and no other inode changes.
\<close>
theorem tmpfs_write_then_read:
  assumes "tmpfs_ok fs" and "Inode fs i = Some x" and "\<not> S_ISDIR (Mode x)"
    and "length bs < 2 ^ 31" and "pos + length bs < 2 ^ 32"
  shows "\<exists>fs' y. TmpFS_write (heap_block blk) fs i pos bs = Some (int (length bs), fs') \<and> tmpfs_ok fs'
    \<and> TmpFS_read fs' i pos (length bs) = Some (int (length bs), bs)
    \<and> Inode fs' i = Some y \<and> Size y = max (Size x) (pos + length bs)
    \<and> (\<forall>k < Size y. \<not> (pos \<le> k \<and> k < pos + length bs) \<longrightarrow>
         fdata y ! k = (if k < Size x then fdata x ! k else 0))
    \<and> (\<forall>j. j \<noteq> i \<longrightarrow> Inode fs' j = Inode fs j)"
proof -
  from write_read_back [OF assms, of blk] obtain y where
    y: "TmpFS_write (heap_block blk) fs i pos bs = Some (int (length bs), set_Inode fs i y)"
    "inode_ok (dom (Inode fs)) y" "Mode y = Mode x" "tmpfs_ok (set_Inode fs i y)"
    "abs_node y = (abs_node x)\<lparr>content := overwrite (content (abs_node x)) pos bs\<rparr>"
    "TmpFS_read (set_Inode fs i y) i pos (length bs) = Some (int (length bs), bs)" by blast
  let ?c = "take (Size x) (fdata x)"
  have x: "Size x \<le> length (fdata x)" and sy: "Size y \<le> length (fdata y)"
    using tmpfs_ok_inode [OF assms(1,2)] y(2,3) assms(3) by (simp_all add: inode_ok_def)
  have c: "take (Size y) (fdata y) = overwrite ?c pos bs"
    using y(3,5) assms(3) by (simp add: abs_node_def)
  have lx: "length (extend ?c (pos + length bs)) = max (Size x) (pos + length bs)"
    by (rule length_extend_content [OF x])
  then have "length (overwrite ?c pos bs) = max (Size x) (pos + length bs)"
    by (simp add: overwrite_def length_blit_in)
  then have size: "Size y = max (Size x) (pos + length bs)" using arg_cong [OF c, of length] sy by simp
  have "fdata y ! k = (if k < Size x then fdata x ! k else 0)"
    if k: "k < Size y" "\<not> (pos \<le> k \<and> k < pos + length bs)" for k
  proof -
    have "fdata y ! k = overwrite ?c pos bs ! k" using k(1) by (simp flip: c)
    also have "\<dots> = extend ?c (pos + length bs) ! k"
      using k lx size by (auto simp: overwrite_def blit_def nth_append min_def)
    also have "\<dots> = (if k < Size x then fdata x ! k else 0)"
      using x k size by (auto simp: extend_def nth_append)
    finally show ?thesis .
  qed
  then show ?thesis using y size Inode_length [OF assms(2)] by (auto simp: Inode_set)
qed

definition sample_inode :: "u16 \<Rightarrow> u8 list \<Rightarrow> TmpInode" where
  "sample_inode mode d = \<lparr>Ino = 1, Mode = mode, Uid = 7, Size = length d, ATime = 0, CTime = 0, MTime = 0,
     Gid = 8, LinksCount = 1, Blocks = 0, Flags = 0, Major = 0, Minor = 0, FileData = Some d,
     Directory = QHash_init QHASH_DEFAULT_CAPACITY\<rparr>"

lemma sample_inode_simps [simp]:
  "Mode (sample_inode m d) = m" "Size (sample_inode m d) = length d" "FileData (sample_inode m d) = Some d"
  "Directory (sample_inode m d) = QHash_init QHASH_DEFAULT_CAPACITY"
  by (simp_all add: sample_inode_def)

lemma sample_ok:
  assumes "length d < 2 ^ 32"
  shows "Inode [None, Some (sample_inode m d)] i = (if i = 1 then Some (sample_inode m d) else None)"
    and "tmpfs_ok [None, Some (sample_inode m d)]"
proof -
  show I: "Inode [None, Some (sample_inode m d)] i = (if i = 1 then Some (sample_inode m d) else None)" for i
    by (auto simp: Inode_def less_Suc_eq)
  show "tmpfs_ok [None, Some (sample_inode m d)]"
    using assms by (auto simp: tmpfs_ok_def I inode_ok_def new_table fdata_def split: if_splits)
qed

theorem tmpfs_write_then_read_witness:
  "\<exists>fs. TmpFS_write (heap_block (\<lambda>_ _. 0)) [None, Some (sample_inode S_IFREG [1, 2, 3])] 1 5 [9] = Some (1, fs)
    \<and> TmpFS_read fs 1 5 1 = Some (1, [9])"
proof -
  let ?fs = "[None, Some (sample_inode S_IFREG [1, 2, 3])]"
  have i: "Inode ?fs 1 = Some (sample_inode S_IFREG [1, 2, 3])" by (simp add: Inode_def)
  have m: "\<not> S_ISDIR (Mode (sample_inode S_IFREG [1, 2, 3]))" by simp
  from tmpfs_write_then_read [OF sample_ok(2) i m, of "[9]" 5 "\<lambda>_ _. 0"] show ?thesis by auto
qed

text \<open>
  The access check grants a request exactly when every requested bit is one of read, write and execute
  and is granted by the bits of one class: the owner's, else the group's, else the others'. The super user
  may always read and write, but executes only what the others may execute, and directories (and the
  other types with that bit of the type).
\<close>
theorem tmpfs_access_by_class:
  assumes "Inode fs i = Some x"
  shows "TmpFS_access fs i aMode uid gid = Some (if \<forall>k. bit aMode k \<longrightarrow> k < 3 \<and>
      (if uid = 0 then k \<noteq> 0 \<or> bit (Mode x) 0 \<or> bit (Mode x) 14
       else if uid = Uid x then bit (Mode x) (k + 6)
       else if gid = Gid x then bit (Mode x) (k + 3)
       else bit (Mode x) k) then 0 else - errno_code EACCES)"
proof -
  define t where "t = (if uid = 0 then Mode x OR (6 OR (drop_bit 14 (Mode x) AND 1))
      else if uid = Uid x then drop_bit 6 (Mode x) else if gid = Gid x then drop_bit 3 (Mode x) else Mode x)"
  have seven: "bit (7 :: u16) k \<longleftrightarrow> k < 3" for k
  proof -
    have "(7 :: u16) = mask 3" by (simp add: mask_eq_exp_minus_1)
    then have "bit (7 :: u16) k = bit (mask 3 :: u16) k" by (rule arg_cong)
    also have "\<dots> \<longleftrightarrow> k < 3" by (auto simp: bit_mask_iff)
    finally show ?thesis .
  qed
  define g where "g = (\<lambda>k. if uid = 0 then k \<noteq> 0 \<or> bit (Mode x) 0 \<or> bit (Mode x) 14
       else if uid = Uid x then bit (Mode x) (k + 6)
       else if gid = Gid x then bit (Mode x) (k + 3)
       else bit (Mode x) k)"
  have g: "bit t k \<longleftrightarrow> g k" if "k < 3" for k
  proof -
    have six: "\<not> bit (6 :: u16) 0" "bit (6 :: u16) 1" "bit (6 :: u16) 2" by code_simp+
    from that consider "k = 0" | "k = 1" | "k = 2" by fastforce
    then have "bit (6 :: u16) k \<longleftrightarrow> k \<noteq> 0" using six by cases simp_all
    then show ?thesis
      by (auto simp: t_def g_def bit_or_iff bit_and_iff bit_drop_bit_eq bit_1_iff add.commute)
  qed
  have z: "aMode AND NOT (ucast (t AND 7)) = 0 \<longleftrightarrow> (\<forall>k. bit aMode k \<longrightarrow> k < 3 \<and> bit t k)"
  proof -
    have "bit (ucast (t AND 7) :: u32) k \<longleftrightarrow> k < 32 \<and> k < 3 \<and> bit t k" for k
      by (simp only: bit_unsigned_iff bit_and_iff seven possible_bit_word) auto
    then obtain u :: u32 where u: "u = ucast (t AND 7)" "\<And>k. bit u k \<longleftrightarrow> k < 32 \<and> k < 3 \<and> bit t k" by blast
    have l: "bit aMode k \<Longrightarrow> k < 32" for k using bit_imp_le_length [of aMode k] by simp
    then have "bit (aMode AND NOT u) k \<longleftrightarrow> bit aMode k \<and> \<not> (k < 3 \<and> bit t k)" for k
      by (auto simp add: bit_and_iff bit_not_iff u(2))
    then show ?thesis unfolding u(1) [symmetric] bit_eq_iff [of "aMode AND NOT u"] using l by auto
  qed
  have "TmpFS_access fs i aMode uid gid
      = Some (if aMode AND NOT (ucast (t AND 7)) \<noteq> 0 then - errno_code EACCES else 0)"
    by (simp only: TmpFS_access_def assms Let_def t_def bind.bind_lunit)
  moreover have "aMode AND NOT (ucast (t AND 7)) \<noteq> 0 \<longleftrightarrow> \<not> (\<forall>k. bit aMode k \<longrightarrow> k < 3 \<and> g k)"
    unfolding z using g by blast
  ultimately have "TmpFS_access fs i aMode uid gid
      = Some (if \<forall>k. bit aMode k \<longrightarrow> k < 3 \<and> g k then 0 else - errno_code EACCES)"
    by (simp only: not_not split: if_split) blast
  then show ?thesis unfolding g_def .
qed

theorem tmpfs_access_by_class_witness:
  "TmpFS_access [None, Some (sample_inode (S_IFREG OR 0x1C0) [])] 1 1 0 0 = Some (- errno_code EACCES)"
proof -
  let ?x = "sample_inode (S_IFREG OR 0x1C0) []"
  have i: "Inode [None, Some ?x] 1 = Some ?x" by (simp add: Inode_def)
  have "\<not> bit (0x81C0 :: u16) 0" "\<not> bit (0x81C0 :: u16) 14" by code_simp+
  then have "\<not> bit (Mode ?x) 0" "\<not> bit (Mode ?x) 14" by (simp_all add: S_IFREG_def)
  then have "\<not> (\<forall>k. bit (1 :: u32) k \<longrightarrow> k < 3 \<and> (if (0 :: nat) = 0 then k \<noteq> 0 \<or> bit (Mode ?x) 0 \<or> bit (Mode ?x) 14
      else if 0 = Uid ?x then bit (Mode ?x) (k + 6) else if (0 :: nat) = Gid ?x then bit (Mode ?x) (k + 3)
      else bit (Mode ?x) k))" by (intro notI) (drule spec [of _ 0], simp)
  with tmpfs_access_by_class [OF i, of 1 0 0] show ?thesis by (simp only: if_False)
qed



end
