(* ===== verification/Vfs.thy ===== *)
theory Vfs
  imports Tmpfs_Refinement
begin

text \<open>
  Path resolution: \<open>VFS::RelativePathToVnode\<close> of src/src/kernel/filesystem/vfs.cpp, over the vnode table
  of theory Vnode\_Manager. A file system is its operations \<open>lookup\<close> and \<open>readlink\<close>; mounts are addresses
  with a root vnode and a covered vnode. A path is the list of its characters. The copy of the path and the
  buffer for links are taken to be allocated. The access check is compiled only with \<open>USE_TASKS\<close>, which no
  file of the repository defines, so it is not part of the model.

  A resolution that fails assigns 0 to \<open>*node\<close> in most cases; where the code leaves it unassigned (a missing
  start, too many links, a failing \<open>readlink\<close>) the model gives 0 as well. Of the callers only
  \<open>open\<close> with \<open>O_CREAT\<close> and an empty path, in a process without a directory, reads it then.

  The recursion for symbolic links is limited by \<open>count\<close>, which starts at 0 and grows by one, so the test
  for the limit is written as an inequality and resolution always ends.
\<close>

section \<open>Resolution\<close>

record vfs_env =
  fs_lookup :: "vnode_state \<Rightarrow> addr \<Rightarrow> fname \<Rightarrow> (int \<times> (addr \<times> u16) option \<times> vnode_state) option"
  fs_readlink :: "vnode_state \<Rightarrow> addr \<Rightarrow> (int \<times> fname) option"
  fs_of :: "addr \<Rightarrow> addr"
  fsRootVNode :: "addr \<Rightarrow> addr"
  coversVNode :: "addr \<Rightarrow> addr"
  RootNode :: addr

definition MAX_COUNT :: nat where
  "MAX_COUNT = 256"

definition SLASH :: u8 where
  "SLASH = 0x2F"

definition S_ISREG :: "u16 \<Rightarrow> bool" where
  "S_ISREG m \<longleftrightarrow> m AND S_IFMT = S_IFREG"

text \<open>The first component of a path that does not start with a slash, and the rest after it.\<close>

definition component :: "fname \<Rightarrow> fname" where
  "component path = hd path # takeWhile (\<lambda>c. c \<noteq> SLASH) (tl path)"

definition next_path :: "fname \<Rightarrow> fname" where
  "next_path path = dropWhile (\<lambda>c. c = SLASH) (dropWhile (\<lambda>c. c \<noteq> SLASH) (tl path))"

lemma next_path_shorter: "path \<noteq> [] \<Longrightarrow> length (next_path path) < length path"
  unfolding next_path_def
  by (cases path) (auto intro: le_less_trans [OF length_dropWhile_le] le_less_trans [OF length_dropWhile_le])

text \<open>\<open>..\<close> in the root of a mounted file system goes on from the directory the mount covers.\<close>

definition leave_mount :: "vfs_env \<Rightarrow> vnode_state \<Rightarrow> addr \<Rightarrow> fname \<Rightarrow> (addr \<times> vnode_state) option" where
  "leave_mount env vs tmpnode name = do {
     n \<leftarrow> vheap vs tmpnode;
     if name = [0x2E, 0x2E] \<and> fsRootVNode env (mount n) = tmpnode \<and> coversVNode env (mount n) \<noteq> NULL then do {
       vs \<leftarrow> ReferenceVnode vs (coversVNode env (mount n));
       vs \<leftarrow> PutVnode (fs_of env) vs tmpnode;
       Some (coversVNode env (mount n), vs) }
     else Some (tmpnode, vs) }"

text \<open>A directory on which a file system is mounted is replaced by the root of that file system.\<close>

definition enter_mount :: "vfs_env \<Rightarrow> vnode_state \<Rightarrow> addr \<Rightarrow> (addr \<times> vnode_state) option" where
  "enter_mount env vs nextVnode = do {
     n \<leftarrow> vheap vs nextVnode;
     if coveredBy n \<noteq> NULL then do {
       vs \<leftarrow> ReferenceVnode vs (coveredBy n);
       vs \<leftarrow> PutVnode (fs_of env) vs nextVnode;
       Some (coveredBy n, vs) }
     else Some (nextVnode, vs) }"

text \<open>The start of a resolution: absolute paths begin at the root, relative ones need a start.\<close>

definition absolute :: "fname \<Rightarrow> bool" where
  "absolute path \<longleftrightarrow> path \<noteq> [] \<and> hd path = SLASH"

definition start_of :: "vfs_env \<Rightarrow> addr \<Rightarrow> fname \<Rightarrow> addr \<times> fname" where
  "start_of env start path =
     (if absolute path then (RootNode env, dropWhile (\<lambda>c. c = SLASH) path) else (start, path))"

text \<open>
  The loop: the result, the vnode (0 on an error) and the vnode table. An error gives the current vnode
  back. In the two cases of a regular file inside the path and of a symbolic link the reference to the
  vnode found by \<open>lookup\<close> is not given back, as in the code.
\<close>

function walk ::
  "vfs_env \<Rightarrow> bool \<Rightarrow> nat \<Rightarrow> vnode_state \<Rightarrow> addr \<Rightarrow> fname \<Rightarrow> (int \<times> addr \<times> vnode_state) option" where
  "walk env traverse_leaf_link cnt vs tmpnode path =
     (if path = [] then Some (0, tmpnode, vs)
      else do {
        let name = component path;
        let nextPath = next_path path;
        (tmpnode, vs) \<leftarrow> leave_mount env vs tmpnode name;
        (result, found, vs) \<leftarrow> fs_lookup env vs tmpnode name;
        if result < 0 then do {
          vs \<leftarrow> PutVnode (fs_of env) vs tmpnode;
          Some (result, 0, vs) }
        else do {
          (nextVnode, NodeType) \<leftarrow> found;
          if S_ISREG NodeType \<and> nextPath \<noteq> [] then do {
            vs \<leftarrow> PutVnode (fs_of env) vs tmpnode;
            Some (- errno_code ENOTDIR, 0, vs) }
          else do {
            (result, nextVnode, vs) \<leftarrow>
              (if S_ISLNK NodeType \<and> \<not> (\<not> traverse_leaf_link \<and> nextPath = []) then do {
                 (res, target) \<leftarrow> fs_readlink env vs nextVnode;
                 if res < 0 then Some (res, 0, vs)
                 else case start_of env tmpnode target of (start, tpath) \<Rightarrow>
                   if start = NULL \<and> \<not> absolute target then Some (- errno_code EINVAL, 0, vs)
                   else if MAX_COUNT \<le> Suc cnt then Some (- errno_code ELOOP, 0, vs)
                   else do {
                     vs \<leftarrow> ReferenceVnode vs start;
                     walk env traverse_leaf_link (Suc cnt) vs start tpath } }
               else Some (0, nextVnode, vs));
            if result < 0 then do {
              vs \<leftarrow> PutVnode (fs_of env) vs tmpnode;
              Some (result, 0, vs) }
            else do {
              (nextVnode, vs) \<leftarrow> enter_mount env vs nextVnode;
              vs \<leftarrow> PutVnode (fs_of env) vs tmpnode;
              walk env traverse_leaf_link cnt vs nextVnode nextPath } } } })"
  by pat_completeness auto
termination
  by (relation "measures [\<lambda>(env, leaf, cnt, vs, tmpnode, path). MAX_COUNT - cnt,
        \<lambda>(env, leaf, cnt, vs, tmpnode, path). length path]")
    (auto simp: next_path_shorter)

declare walk.simps [simp del]

definition RelativePathToVnode ::
  "vfs_env \<Rightarrow> vnode_state \<Rightarrow> addr \<Rightarrow> fname \<Rightarrow> bool \<Rightarrow> (int \<times> addr \<times> vnode_state) option" where
  "RelativePathToVnode env vs start path traverse_leaf_link =
     (case start_of env start path of (start, path') \<Rightarrow>
        if start = NULL \<and> \<not> absolute path then Some (- errno_code EINVAL, 0, vs)
        else do {
          vs \<leftarrow> ReferenceVnode vs start;
          walk env traverse_leaf_link 0 vs start path' })"

section \<open>Components of a path\<close>

function components :: "fname \<Rightarrow> fname list" where
  "components path = (if path = [] then [] else component path # components (next_path path))"
  by pat_completeness auto
termination by (relation "measure length") (auto simp: next_path_shorter)

declare components.simps [simp del]

text \<open>A path written as names with one or more slashes after each, perhaps none after the last.\<close>

fun written :: "(fname \<times> nat) list \<Rightarrow> fname" where
  "written [] = []"
| "written ((name, k) # rest) = name @ replicate k SLASH @ written rest"

definition plain_name :: "fname \<Rightarrow> bool" where
  "plain_name name \<longleftrightarrow> name \<noteq> [] \<and> SLASH \<notin> set name"

fun well_written :: "(fname \<times> nat) list \<Rightarrow> bool" where
  "well_written [] \<longleftrightarrow> True"
| "well_written ((name, k) # rest) \<longleftrightarrow> plain_name name \<and> (rest \<noteq> [] \<longrightarrow> 0 < k) \<and> well_written rest"

lemma written_head: "well_written xs \<Longrightarrow> written xs \<noteq> [] \<Longrightarrow> hd (written xs) \<noteq> SLASH"
  by (cases xs rule: well_written.cases) (auto simp: plain_name_def dest: hd_in_set)

lemma written_split:
  assumes "well_written ((name, k) # rest)"
  shows "component (written ((name, k) # rest)) = name" and "next_path (written ((name, k) # rest)) = written rest"
proof -
  from assms obtain c cs where n: "name = c # cs" "SLASH \<notin> set (c # cs)"
    by (cases name) (auto simp: plain_name_def)
  have t: "tl (written ((name, k) # rest)) = cs @ replicate k SLASH @ written rest" by (simp add: n)
  have all: "\<And>x. x \<in> set cs \<Longrightarrow> x \<noteq> SLASH" using n by auto
  have tail: "takeWhile (\<lambda>c. c \<noteq> SLASH) (replicate k SLASH @ written rest) = []
      \<and> dropWhile (\<lambda>c. c \<noteq> SLASH) (replicate k SLASH @ written rest) = replicate k SLASH @ written rest"
    using assms by (cases k; cases rest) auto
  have "dropWhile (\<lambda>c. c = SLASH) (replicate k SLASH @ written rest) = dropWhile (\<lambda>c. c = SLASH) (written rest)"
    by (induction k) simp_all
  also have "\<dots> = written rest"
    using written_head [of rest] assms by (cases "written rest") auto
  finally show "next_path (written ((name, k) # rest)) = written rest"
    unfolding next_path_def t using all tail by (simp add: dropWhile_append2)
  show "component (written ((name, k) # rest)) = name"
    unfolding component_def t using all tail by (simp add: takeWhile_append2 n)
qed

lemma components_written: "well_written xs \<Longrightarrow> components (written xs) = map fst xs"
proof (induction xs rule: well_written.induct)
  case (2 name k rest)
  then have "written ((name, k) # rest) \<noteq> []" by (auto simp: plain_name_def)
  with 2 written_split [OF "2.prems"] show ?case by (subst components.simps) simp
qed (subst components.simps, simp)

section \<open>Resolution in the directory graph\<close>

fun awalk :: "afs \<Rightarrow> nat \<Rightarrow> fname list \<Rightarrow> errno + nat" where
  "awalk A i [] = Inr i"
| "awalk A i (c # cs) =
     (case nodes A i of None \<Rightarrow> Inl ENOENT
      | Some x \<Rightarrow>
          if \<not> S_ISDIR (amode x) then Inl ENOTDIR
          else case entries x c of None \<Rightarrow> Inl ENOENT | Some j \<Rightarrow> awalk A j cs)"

text \<open>The regular file at which a path ends too early: it is met with names still to come.\<close>

definition is_regular :: "afs \<Rightarrow> nat \<Rightarrow> bool" where
  "is_regular A j \<longleftrightarrow> (case nodes A j of None \<Rightarrow> False | Some y \<Rightarrow> S_ISREG (amode y))"

fun stuck :: "afs \<Rightarrow> nat \<Rightarrow> fname list \<Rightarrow> nat option" where
  "stuck A i [] = None"
| "stuck A i (c # cs) =
     (case nodes A i of None \<Rightarrow> None
      | Some x \<Rightarrow>
          if \<not> S_ISDIR (amode x) then None
          else case entries x c of None \<Rightarrow> None
            | Some j \<Rightarrow> if is_regular A j \<and> cs \<noteq> [] then Some j else stuck A j cs)"

text \<open>No name on the way leads to a symbolic link.\<close>

fun no_links :: "afs \<Rightarrow> nat \<Rightarrow> fname list \<Rightarrow> bool" where
  "no_links A i [] \<longleftrightarrow> True"
| "no_links A i (c # cs) \<longleftrightarrow>
     (case node_entries A i c of None \<Rightarrow> True
      | Some j \<Rightarrow> (case nodes A j of None \<Rightarrow> True | Some y \<Rightarrow> \<not> S_ISLNK (amode y) \<and> no_links A j cs))"

text \<open>The file system in memory behind the calls; \<open>alloc\<close> gives the address of a new vnode.\<close>

definition tmpfs_env ::
  "(vnode_state \<Rightarrow> addr) \<Rightarrow> addr \<Rightarrow> u32 \<Rightarrow> tmpfs \<Rightarrow> (addr \<Rightarrow> addr) \<Rightarrow> addr \<Rightarrow> vfs_env" where
  "tmpfs_env alloc mnt mid fs fo root =
     \<lparr>fs_lookup = (\<lambda>vs p name. vheap vs p \<bind>
        (\<lambda>n. TmpFS_lookup True (alloc vs) vs mnt mid fs (unat (vid (vnid n))) name)),
      fs_readlink = (\<lambda>vs p. vheap vs p \<bind> (\<lambda>n. map_option (\<lambda>(r, bs). (r, takeWhile (\<lambda>b. b \<noteq> 0) bs))
        (TmpFS_readlink fs (unat (vid (vnid n))) 20480))),
      fs_of = fo, fsRootVNode = (\<lambda>m. root), coversVNode = (\<lambda>m. NULL), RootNode = root\<rparr>"

section \<open>References\<close>

definition inc :: "(addr \<Rightarrow> nat) \<Rightarrow> addr \<Rightarrow> addr \<Rightarrow> nat" where
  "inc r p = r(p := r p + 1)"

lemma inc_put: "(inc (inc r p) q)(p := inc (inc r p) q p - 1) = inc r q"
  by (auto simp: inc_def fun_eq_iff)

lemma inc_put_one: "(inc r p)(p := inc r p p - 1) = r"
  by (auto simp: inc_def fun_eq_iff)

lemma inc_pos [simp]: "0 < inc r p p" "0 < inc (inc r p) q p"
  by (auto simp: inc_def)

text \<open>The vnodes of the mount know it, and nothing is mounted over them.\<close>

definition mount_ok :: "addr \<Rightarrow> u32 \<Rightarrow> vnode_state \<Rightarrow> bool" where
  "mount_ok mnt mid vs \<longleftrightarrow> (\<forall>p n. vheap vs p = Some n \<longrightarrow> mountId (vnid n) = mid \<longrightarrow>
     mount n = mnt \<and> coveredBy n = NULL)"

definition same_node :: "VNode \<Rightarrow> VNode \<Rightarrow> bool" where
  "same_node m n \<longleftrightarrow> vnid m = vnid n \<and> mount m = mount n \<and> coveredBy m = coveredBy n"

lemma PutVnode_same:
  "PutVnode fo s p = Some s' \<Longrightarrow> vheap s' q = Some m \<Longrightarrow> \<exists>n. vheap s q = Some n \<and> same_node m n"
  by (auto simp: PutVnode_def same_node_def Let_def split: option.splits if_splits prod.splits)

lemma ReferenceVnode_same:
  "ReferenceVnode s p = Some s' \<Longrightarrow> vheap s' q = Some m \<Longrightarrow> \<exists>n. vheap s q = Some n \<and> same_node m n"
  by (auto simp: ReferenceVnode_def same_node_def split: option.splits if_splits)

lemma mount_ok_same:
  assumes "mount_ok mnt mid s" and "\<And>q m. vheap s' q = Some m \<Longrightarrow> \<exists>n. vheap s q = Some n \<and> same_node m n"
  shows "mount_ok mnt mid s'"
  using assms unfolding mount_ok_def same_node_def by metis

lemma put_held:
  assumes "vnodes_ok s (inc r p)"
  shows "\<exists>s'. PutVnode fo s p = Some s' \<and> vnodes_ok s' r"
proof -
  from held_vnode [OF assms, of p] obtain n where "vheap s p = Some n" by auto
  from PutVnode_ok [OF assms this, of fo] show ?thesis unfolding inc_put_one by blast
qed

lemma put_held_below:
  assumes "vnodes_ok s (inc (inc r p) q)"
  shows "\<exists>s'. PutVnode fo s p = Some s' \<and> vnodes_ok s' (inc r q)"
proof -
  from held_vnode [OF assms, of p] obtain n where "vheap s p = Some n" by auto
  from PutVnode_ok [OF assms this, of fo] show ?thesis unfolding inc_put by blast
qed

section \<open>Lookups in the file system in memory\<close>

text \<open>What a new vnode needs.\<close>

definition alloc_ok :: "(vnode_state \<Rightarrow> addr) \<Rightarrow> bool" where
  "alloc_ok alloc \<longleftrightarrow> (\<forall>vs. alloc vs \<noteq> NULL \<and> (finite (dom (vheap vs)) \<longrightarrow> vheap vs (alloc vs) = None))"

lemma GetVnode_vnid:
  assumes ok: "vnodes_ok s r" and m: "mid \<noteq> -1" and new: "newnode \<noteq> NULL" "vheap s newnode = None"
    and b: "\<forall>p. r p + 1 < 2 ^ 32" and mo: "mount_ok mnt mid s"
  shows "\<exists>p s' n. GetVnode True newnode s mid i = Some (p, s') \<and> vnodes_ok s' (inc r p)
    \<and> vheap s' p = Some n \<and> vnid n = \<lparr>vid = i, mountId = mid\<rparr> \<and> coveredBy n = NULL
    \<and> (\<forall>q m'. q \<noteq> p \<longrightarrow> vheap s' q = Some m' \<longrightarrow> (\<exists>m. vheap s q = Some m \<and> same_node m' m))
    \<and> dom (vheap s') \<subseteq> insert newnode (dom (vheap s))"
proof (cases "vnode_map s \<lparr>vid = i, mountId = mid\<rparr>")
  case None
  from GetVnode_new [OF ok m new None] obtain s' where
    s': "GetVnode True newnode s mid i = Some (newnode, s')" "vnodes_ok s' (r(newnode := r newnode + 1))"
    "vheap s' = (vheap s)(newnode \<mapsto> \<lparr>vnid = \<lparr>vid = i, mountId = mid\<rparr>, refCount = 1, mount = NULL,
         coveredBy = NULL, privdata = NULL, dirty = False\<rparr>)" by blast
  then show ?thesis by (auto simp: inc_def same_node_def)
next
  case (Some p)
  from vnodes_okD(3) [OF ok Some] obtain n where n: "vheap s p = Some n" "vnid n = \<lparr>vid = i, mountId = mid\<rparr>"
    by blast
  from n vnodes_okD(2) [OF ok n(1)] have pn: "p \<noteq> NULL" by simp
  from ReferenceVnode_ok [OF ok n(1)] b obtain s' where
    s': "ReferenceVnode s p = Some s'" "vnodes_ok s' (inc r p)" by (auto simp: inc_def)
  have "GetVnode True newnode s mid i = Some (p, s')"
    using LookupVnode_ok [OF ok m, of i] Some s'(1) pn by (simp add: GetVnode_def)
  moreover from s'(1) n have "vheap s' = (vheap s)(p \<mapsto> n\<lparr>refCount := (refCount n + 1) mod 2 ^ 32\<rparr>)"
    by (auto simp: ReferenceVnode_def)
  moreover have "coveredBy n = NULL" using mo n unfolding mount_ok_def by auto
  ultimately show ?thesis using s'(2) n by (auto simp: same_node_def)
qed

text \<open>
  A lookup in the directory \<open>i\<close>: an error that changes nothing, or a vnode of the entry's inode with one
  more reference.
\<close>

lemma lookup_tmpfs:
  assumes fs: "tmpfs_ok fs" "length fs < 2 ^ 64" and ok: "vnodes_ok vs r" and mo: "mount_ok mnt mid vs"
    and fin: "finite (dom (vheap vs))"
    and m: "mid \<noteq> -1" and al: "alloc_ok alloc" and b: "\<forall>p. r p + 1 < 2 ^ 32"
    and p: "vheap vs p = Some n" "vnid n = \<lparr>vid = of_nat i, mountId = mid\<rparr>" and x: "Inode fs i = Some x"
  shows "fs_lookup (tmpfs_env alloc mnt mid fs fo root) vs p name =
      (if \<not> S_ISDIR (Mode x) then Some (- errno_code ENOTDIR, None, vs)
       else if dmap x name = None then Some (- errno_code ENOENT, None, vs)
       else fs_lookup (tmpfs_env alloc mnt mid fs fo root) vs p name)"
    and "S_ISDIR (Mode x) \<Longrightarrow> dmap x name = Some j \<Longrightarrow>
      \<exists>q vs' m' y. fs_lookup (tmpfs_env alloc mnt mid fs fo root) vs p name = Some (0, Some (q, Mode y), vs')
        \<and> Inode fs j = Some y \<and> vnodes_ok vs' (inc r q) \<and> mount_ok mnt mid vs' \<and> finite (dom (vheap vs'))
        \<and> vheap vs' q = Some m' \<and> vnid m' = \<lparr>vid = of_nat j, mountId = mid\<rparr>"
proof -
  have i: "i < length fs" using x by (rule Inode_length)
  then have u: "unat (vid (vnid n)) = i" using p(2) fs(2) by (simp add: unat_of_nat take_bit_nat_eq_self)
  have xok: "inode_ok (dom (Inode fs)) x" using tmpfs_ok_inode [OF fs(1) x] .
  then have v: "Directory_value x name = Some (case dmap x name of None \<Rightarrow> 0 | Some v \<Rightarrow> v)"
    by (intro Directory_value_ok) (simp add: inode_ok_def)
  have e: "fs_lookup (tmpfs_env alloc mnt mid fs fo root) vs p name
      = TmpFS_lookup True (alloc vs) vs mnt mid fs i name" using p(1) u by (simp add: tmpfs_env_def)
  show "fs_lookup (tmpfs_env alloc mnt mid fs fo root) vs p name =
      (if \<not> S_ISDIR (Mode x) then Some (- errno_code ENOTDIR, None, vs)
       else if dmap x name = None then Some (- errno_code ENOENT, None, vs)
       else fs_lookup (tmpfs_env alloc mnt mid fs fo root) vs p name)"
    unfolding e using x v by (simp add: TmpFS_lookup_def)
  assume d: "S_ISDIR (Mode x)" and j: "dmap x name = Some j"
  have "j \<in> dom (Inode fs)" using xok j by (auto simp: inode_ok_def ran_def)
  then obtain y where y: "Inode fs j = Some y" by blast
  have "Inode fs 0 = None" using fs(1) by (simp add: tmpfs_ok_def)
  with y have j0: "j \<noteq> 0" by (metis option.distinct(1))
  have new: "alloc vs \<noteq> NULL" "vheap vs (alloc vs) = None" using al fin by (auto simp: alloc_ok_def)
  from GetVnode_vnid [OF ok m new b mo, of "of_nat j"] obtain q s' n' where
    g: "GetVnode True (alloc vs) vs mid (of_nat j) = Some (q, s')" "vnodes_ok s' (inc r q)"
    "vheap s' q = Some n'" "vnid n' = \<lparr>vid = of_nat j, mountId = mid\<rparr>" "coveredBy n' = NULL"
    "\<forall>a m'. a \<noteq> q \<longrightarrow> vheap s' a = Some m' \<longrightarrow> (\<exists>m. vheap vs a = Some m \<and> same_node m' m)"
    "dom (vheap s') \<subseteq> insert (alloc vs) (dom (vheap vs))" by blast
  let ?m = "n'\<lparr>mount := mnt\<rparr>"
  let ?vs = "s'\<lparr>vheap := (vheap s')(q \<mapsto> ?m)\<rparr>"
  note gq = vnodes_okD(2) [OF g(2) g(3)]
  have "fs_lookup (tmpfs_env alloc mnt mid fs fo root) vs p name = Some (0, Some (q, Mode y), ?vs)"
    unfolding e using x d v j j0 g(1,3) gq y by (simp add: TmpFS_lookup_def)
  moreover have "vnodes_ok ?vs ((inc r q)(q := inc r q q))"
    using vnodes_ok_update [OF g(2,3), of "inc r q q" ?m] gq by simp
  then have "vnodes_ok ?vs (inc r q)" by simp
  moreover have "mount_ok mnt mid ?vs"
    using mo g(4,5,6) unfolding mount_ok_def same_node_def by (auto split: if_splits) metis+
  moreover have "finite (dom (vheap ?vs))"
    using finite_subset [OF g(7)] fin by simp
  ultimately show "\<exists>q vs' m' y. fs_lookup (tmpfs_env alloc mnt mid fs fo root) vs p name = Some (0, Some (q, Mode y), vs')
        \<and> Inode fs j = Some y \<and> vnodes_ok vs' (inc r q) \<and> mount_ok mnt mid vs' \<and> finite (dom (vheap vs'))
        \<and> vheap vs' q = Some m' \<and> vnid m' = \<lparr>vid = of_nat j, mountId = mid\<rparr>"
    using y g(4) by (intro exI [of _ q] exI [of _ ?vs] exI [of _ ?m] exI [of _ y]) simp
qed

section \<open>Resolution on the file system in memory\<close>

definition good_state :: "addr \<Rightarrow> u32 \<Rightarrow> vnode_state \<Rightarrow> (addr \<Rightarrow> nat) \<Rightarrow> bool" where
  "good_state mnt mid vs r \<longleftrightarrow> vnodes_ok vs r \<and> mount_ok mnt mid vs \<and> finite (dom (vheap vs))"

definition is_node :: "u32 \<Rightarrow> vnode_state \<Rightarrow> addr \<Rightarrow> nat \<Rightarrow> bool" where
  "is_node mid vs p i \<longleftrightarrow> (\<exists>n. vheap vs p = Some n \<and> vnid n = \<lparr>vid = of_nat i, mountId = mid\<rparr>)"

lemma put_good:
  assumes "good_state mnt mid vs (inc r p)"
  shows "\<exists>vs'. PutVnode fo vs p = Some vs' \<and> good_state mnt mid vs' r"
proof -
  from put_held [of vs r p fo] assms obtain vs' where
    vs': "PutVnode fo vs p = Some vs'" "vnodes_ok vs' r" by (auto simp: good_state_def)
  note same = PutVnode_same [OF vs'(1)]
  have "dom (vheap vs') \<subseteq> dom (vheap vs)" using same by blast
  with vs' assms mount_ok_same [of mnt mid vs vs'] same show ?thesis
    unfolding good_state_def by (meson finite_subset)
qed

lemma put_good_below:
  assumes "good_state mnt mid vs (inc (inc r p) q)" and "is_node mid vs q j"
  shows "\<exists>vs'. PutVnode fo vs p = Some vs' \<and> good_state mnt mid vs' (inc r q) \<and> is_node mid vs' q j"
proof -
  from put_held_below [of vs r p q fo] assms(1) obtain vs' where
    vs': "PutVnode fo vs p = Some vs'" "vnodes_ok vs' (inc r q)" by (auto simp: good_state_def)
  note same = PutVnode_same [OF vs'(1)]
  have "dom (vheap vs') \<subseteq> dom (vheap vs)" using same by blast
  then have "good_state mnt mid vs' (inc r q)"
    using vs' assms(1) mount_ok_same [of mnt mid vs vs'] same unfolding good_state_def by (meson finite_subset)
  moreover from held_vnode [OF vs'(2), of q] obtain n where "vheap vs' q = Some n" by auto
  with same [of q n] assms(2) have "is_node mid vs' q j" by (auto simp: is_node_def same_node_def)
  ultimately show ?thesis using vs'(1) by blast
qed

lemma awalk_not_dir: "nodes A i = Some x \<Longrightarrow> \<not> S_ISDIR (amode x) \<Longrightarrow> cs \<noteq> [] \<Longrightarrow> awalk A i cs = Inl ENOTDIR"
  by (cases cs) auto

lemma regular_not_dir: "S_ISREG m \<Longrightarrow> \<not> S_ISDIR m"
  by (simp add: S_ISREG_def S_ISDIR_def S_IFREG_def S_IFDIR_def)

text \<open>The result of a resolution that began with a reference on its start.\<close>

definition walk_result :: "addr \<Rightarrow> u32 \<Rightarrow> (addr \<Rightarrow> nat) \<Rightarrow> afs \<Rightarrow> nat \<Rightarrow> fname list
    \<Rightarrow> (int \<times> addr \<times> vnode_state) option \<Rightarrow> bool" where
  "walk_result mnt mid r A i names w \<longleftrightarrow>
     (case awalk A i names of
        Inr j \<Rightarrow> \<exists>q vs'. w = Some (0, q, vs') \<and> good_state mnt mid vs' (inc r q) \<and> is_node mid vs' q j
      | Inl e \<Rightarrow> \<exists>vs'. w = Some (- errno_code e, 0, vs') \<and>
          (case stuck A i names of
             None \<Rightarrow> good_state mnt mid vs' r
           | Some j \<Rightarrow> \<exists>q. good_state mnt mid vs' (inc r q) \<and> is_node mid vs' q j))"

lemma walk_tmpfs:
  assumes fs: "tmpfs_ok fs" "length fs < 2 ^ 64" and m: "mid \<noteq> -1" and al: "alloc_ok alloc"
    and b: "\<forall>p. r p + 3 < 2 ^ 32"
    and "well_written xs" and "good_state mnt mid vs (inc r p)" and "is_node mid vs p i"
    and "i \<in> dom (Inode fs)" and "no_links (abs_fs fs) i (map fst xs)"
  shows "walk_result mnt mid r (abs_fs fs) i (map fst xs)
    (walk (tmpfs_env alloc mnt mid fs fo root) leaf cnt vs p (written xs))"
  using assms(6-)
proof (induction xs arbitrary: vs p i rule: written.induct)
  case 1
  then show ?case by (simp add: walk.simps walk_result_def)
next
  case (2 name k rest)
  let ?env = "tmpfs_env alloc mnt mid fs fo root" and ?path = "written ((name, k) # rest)"
  from "2.prems"(3) obtain n where n: "vheap vs p = Some n" "vnid n = \<lparr>vid = of_nat i, mountId = mid\<rparr>"
    by (auto simp: is_node_def)
  from "2.prems"(4) obtain x where x: "Inode fs i = Some x" by blast
  from "2.prems"(2) have g: "vnodes_ok vs (inc r p)" "mount_ok mnt mid vs" "finite (dom (vheap vs))"
    by (simp_all add: good_state_def)
  have b1: "\<forall>a. inc r p a + 1 < 2 ^ 32"
  proof
    fix a show "inc r p a + 1 < 2 ^ 32" using b [rule_format, of a] by (cases "a = p") (simp_all add: inc_def)
  qed
  note split = written_split [OF "2.prems"(1)]
  have ne: "?path \<noteq> []" using "2.prems"(1) by (auto simp: plain_name_def)
  have lm: "leave_mount ?env vs p name = Some (p, vs)" using n by (simp add: leave_mount_def tmpfs_env_def)
  have ax: "nodes (abs_fs fs) i = Some (abs_node x)" using x by (simp add: nodes_abs)
  have fo: "fs_of ?env = fo" by (simp add: tmpfs_env_def)
  note lk = lookup_tmpfs [OF fs g m al b1 n x, where fo = fo and root = root and name = name]
  note step = walk.simps [of ?env leaf cnt vs p ?path, unfolded split]
  from put_good [OF "2.prems"(2), of fo] obtain vs0 where
    vs0: "PutVnode fo vs p = Some vs0" "good_state mnt mid vs0 r" by blast
  show ?case
  proof (cases "S_ISDIR (Mode x) \<and> dmap x name \<noteq> None")
    case False
    then have "walk ?env leaf cnt vs p ?path
        = Some (- errno_code (if S_ISDIR (Mode x) then ENOENT else ENOTDIR), 0, vs0)"
      using lk(1) lm ne vs0(1) fo step by (cases "S_ISDIR (Mode x)") simp_all
    moreover have "awalk (abs_fs fs) i (map fst ((name, k) # rest))
        = Inl (if S_ISDIR (Mode x) then ENOENT else ENOTDIR)"
      using False ax by (auto simp: abs_node_def)
    moreover have "stuck (abs_fs fs) i (map fst ((name, k) # rest)) = None"
      using False ax by (auto simp: abs_node_def)
    ultimately show ?thesis using vs0(2) by (simp add: walk_result_def)
  next
    case True
    then obtain j where j: "dmap x name = Some j" by auto
    from lk(2) [OF _ j] True obtain q vs1 y where
      q: "fs_lookup ?env vs p name = Some (0, Some (q, Mode y), vs1)" "Inode fs j = Some y"
      "good_state mnt mid vs1 (inc (inc r p) q)" "is_node mid vs1 q j"
      by (auto simp: good_state_def is_node_def)
    have aw: "awalk (abs_fs fs) i (map fst ((name, k) # rest)) = awalk (abs_fs fs) j (map fst rest)"
      using True j ax by (simp add: abs_node_def)
    have ay: "nodes (abs_fs fs) j = Some (abs_node y)" using q(2) by (simp add: nodes_abs)
    have sk: "stuck (abs_fs fs) i (map fst ((name, k) # rest))
        = (if S_ISREG (Mode y) \<and> rest \<noteq> [] then Some j else stuck (abs_fs fs) j (map fst rest))"
      using True j ax ay by (simp add: abs_node_def is_regular_def)
    have nl: "\<not> S_ISLNK (Mode y)" "no_links (abs_fs fs) j (map fst rest)"
      using "2.prems"(5) j ay by (auto simp: node_entries_abs [OF x] abs_node_def)
    from put_good_below [OF q(3,4), of fo] obtain vs2 where
      vs2: "PutVnode fo vs1 p = Some vs2" "good_state mnt mid vs2 (inc r q)" "is_node mid vs2 q j" by blast
    show ?thesis
    proof (cases "S_ISREG (Mode y) \<and> written rest \<noteq> []")
      case reg: True
      then have "walk ?env leaf cnt vs p ?path = Some (- errno_code ENOTDIR, 0, vs2)"
        using q(1) lm ne vs2(1) fo step by simp
      moreover have "awalk (abs_fs fs) j (map fst rest) = Inl ENOTDIR"
        using awalk_not_dir [OF ay, of "map fst rest"] reg regular_not_dir by (cases rest) (auto simp: abs_node_def)
      moreover have "rest \<noteq> []" using reg by auto
      ultimately show ?thesis using vs2(2,3) aw sk reg by (auto simp: walk_result_def)
    next
      case reg: False
      have "enter_mount ?env vs1 q = Some (q, vs1)"
        using q(3,4) by (auto simp: enter_mount_def is_node_def good_state_def mount_ok_def)
      then have "walk ?env leaf cnt vs p ?path = walk ?env leaf cnt vs2 q (written rest)"
        using q(1) lm ne vs2(1) fo step reg nl(1) by auto
      moreover have "walk_result mnt mid r (abs_fs fs) j (map fst rest)
          (walk ?env leaf cnt vs2 q (written rest))"
        using "2.IH" [OF _ vs2(2,3) _ nl(2)] "2.prems"(1) q(2) by auto
      moreover have "\<not> (S_ISREG (Mode y) \<and> rest \<noteq> [])"
        using reg "2.prems"(1) by (cases rest) (auto simp: plain_name_def)
      ultimately show ?thesis using aw sk unfolding walk_result_def by (simp only: if_False)
    qed
  qed
qed

section \<open>Properties\<close>

text \<open>
  C8: On a file system in memory whose vnodes are all alive or not yet created, an absolute path without
  symbolic links resolves to what the directory graph says, whatever slashes separate its names: the vnode
  of the inode reached, with exactly one reference more and no other count changed, or the error of the
  first step that is not possible. All counts are as before an error, unless the path goes on behind a
  regular file: then the vnode of that file keeps the reference \<open>lookup\<close> gave, which nobody gives back, and
  no other count changes. A name looked up in a node that is neither a directory nor a regular file fails
  with the same \<open>ENOTDIR\<close> and leaves nothing behind.
\<close>
theorem path_resolution_on_tmpfs:
  assumes "tmpfs_ok fs" and "length fs < 2 ^ 64" and "mid \<noteq> -1" and "alloc_ok alloc"
    and "\<forall>p. r p + 3 < 2 ^ 32" and "good_state mnt mid vs r"
    and "is_node mid vs root 1" and "Inode fs 1 \<noteq> None" and "well_written xs" and "0 < k"
    and "no_links (abs_fs fs) 1 (map fst xs)"
  shows "walk_result mnt mid r (abs_fs fs) 1 (map fst xs)
    (RelativePathToVnode (tmpfs_env alloc mnt mid fs fo root) vs start (replicate k SLASH @ written xs) leaf)"
proof -
  let ?env = "tmpfs_env alloc mnt mid fs fo root"
  from assms(7) obtain n where n: "vheap vs root = Some n" "vnid n = \<lparr>vid = of_nat 1, mountId = mid\<rparr>"
    by (auto simp: is_node_def)
  from assms(6) have ok: "vnodes_ok vs r" by (simp add: good_state_def)
  from vnodes_okD(2) [OF ok n(1)] have root: "root \<noteq> NULL" by simp
  have "r root + 1 < 2 ^ 32" using assms(5) [rule_format, of root] by simp
  from ReferenceVnode_ok [OF ok n(1) this] obtain vs1 where
    vs1: "ReferenceVnode vs root = Some vs1" "vnodes_ok vs1 (inc r root)" by (auto simp: inc_def)
  note same = ReferenceVnode_same [OF vs1(1)]
  have "dom (vheap vs1) \<subseteq> dom (vheap vs)" using same by blast
  then have g1: "good_state mnt mid vs1 (inc r root)"
    using vs1(2) assms(6) mount_ok_same [of mnt mid vs vs1] same unfolding good_state_def by (meson finite_subset)
  from held_vnode [OF vs1(2), of root] obtain n1 where "vheap vs1 root = Some n1" by auto
  with same [of root n1] n have i1: "is_node mid vs1 root 1" by (auto simp: is_node_def same_node_def)
  have "dropWhile (\<lambda>c. c = SLASH) (replicate k SLASH @ written xs) = dropWhile (\<lambda>c. c = SLASH) (written xs)"
    by (induction k) simp_all
  also have "\<dots> = written xs" using written_head [OF assms(9)] by (cases "written xs") auto
  finally have "start_of ?env start (replicate k SLASH @ written xs) = (root, written xs)"
    using assms(10) by (cases k) (auto simp: start_of_def absolute_def tmpfs_env_def)
  then have "RelativePathToVnode ?env vs start (replicate k SLASH @ written xs) leaf
      = walk ?env leaf 0 vs1 root (written xs)"
    using root vs1(1) by (simp add: RelativePathToVnode_def)
  with walk_tmpfs [OF assms(1-5,9) g1 i1 _ assms(11), of fo root leaf 0] assms(8) show ?thesis by auto
qed

definition next_address :: "vnode_state \<Rightarrow> addr" where
  "next_address vs = Suc (Max (insert 0 (dom (vheap vs))))"

lemma next_address_ok: "alloc_ok next_address"
proof -
  have "vheap vs (next_address vs) = None" if "finite (dom (vheap vs))" for vs
  proof (rule ccontr)
    assume "vheap vs (next_address vs) \<noteq> None"
    then have "next_address vs \<le> Max (insert 0 (dom (vheap vs)))" using that by (intro Max_ge) auto
    then show False by (simp add: next_address_def)
  qed
  then show ?thesis by (simp add: alloc_ok_def next_address_def NULL_def)
qed

theorem path_resolution_on_tmpfs_witness:
  "\<forall>junk. \<exists>fs vs. TmpFS_Mount True junk 0 = Some fs
    \<and> walk_result 16 5 (inc (\<lambda>p. 0) 8) afs_init 1 [[0x2E]]
        (RelativePathToVnode (tmpfs_env next_address 16 5 fs (\<lambda>m. m) 8) vs 0 [SLASH, 0x2E] True)"
proof
  fix junk
  obtain fs where fs: "TmpFS_Mount True junk 0 = Some fs" "tmpfs_ok fs" "abs_fs fs = afs_init"
    using TmpFS_Mount_ok by blast
  have len: "length fs = 2" using arg_cong [OF fs(3), of next_node] by (simp add: afs_init_def)
  have in1: "Inode fs 1 \<noteq> None"
    using arg_cong [OF fs(3), of "\<lambda>A. nodes A 1"] by (auto simp: nodes_abs afs_init_def)
  let ?id = "\<lparr>vid = of_nat 1, mountId = 5 :: u32\<rparr>"
  have none: "vnode_map vnode_start ?id = None"
    using vnodes_okD(3) [OF vnode_start_ok, of ?id] by (cases "vnode_map vnode_start ?id") (auto simp: vnode_start_fields)
  from GetVnode_new [OF vnode_start_ok, of 5 8 "of_nat 1"] none obtain vs where
    vs: "vnodes_ok vs (inc (\<lambda>p. 0) 8)" "vheap vs = (vheap vnode_start)(8 \<mapsto> \<lparr>vnid = ?id, refCount = 1, mount = NULL,
         coveredBy = NULL, privdata = NULL, dirty = False\<rparr>)"
    by (auto simp: inc_def vnode_start_fields NULL_def)
  let ?n = "\<lparr>vnid = ?id, refCount = 1, mount = 16, coveredBy = NULL, privdata = NULL, dirty = False\<rparr>"
  let ?vs = "vs\<lparr>vheap := (vheap vs)(8 \<mapsto> ?n)\<rparr>"
  have "vnodes_ok ?vs ((inc (\<lambda>p. 0) 8)(8 := 1))" using vs(2) by (intro vnodes_ok_update [OF vs(1)]) auto
  then have "vnodes_ok ?vs (inc (\<lambda>p. 0) 8)" by (simp add: inc_def)
  then have good: "good_state 16 5 ?vs (inc (\<lambda>p. 0) 8)"
    using vs(2) by (auto simp: good_state_def mount_ok_def vnode_start_fields)
  have h: "length fs < 2 ^ 64" "(5 :: u32) \<noteq> -1" "\<forall>p. inc (\<lambda>p. 0) 8 p + 3 < (2 :: nat) ^ 32"
    "is_node 5 ?vs 8 1" "well_written [([0x2E], 0)]" "(0 :: nat) < 1"
    "no_links (abs_fs fs) 1 (map fst [([0x2E], 0)])"
    using len vs(2) fs(3)
    by (auto simp: inc_def is_node_def plain_name_def SLASH_def afs_init_def node_entries_def S_ISLNK_def
        S_IFDIR_def S_IFMT_def S_IFLNK_def S_ISDIR_def)
  from path_resolution_on_tmpfs [OF fs(2) h(1,2) next_address_ok h(3) good h(4) in1 h(5,6,7),
      of "\<lambda>m. m" 0 True] fs(1,3)
  show "\<exists>fs vs. TmpFS_Mount True junk 0 = Some fs
      \<and> walk_result 16 5 (inc (\<lambda>p. 0) 8) afs_init 1 [[0x2E]]
          (RelativePathToVnode (tmpfs_env next_address 16 5 fs (\<lambda>m. m) 8) vs 0 [SLASH, 0x2E] True)"
    by (intro exI [of _ fs] exI [of _ ?vs]) simp
qed

end
