(* ===== verification/File_Calls.thy ===== *)
theory File_Calls
  imports QList Vfs
begin

text \<open>
  The file system calls of the kernel, src/src/kernel/uapi/fsuapi.cpp, over the vnode table, the resolution
  of paths and the table with holes. A call works on the state of the calling process and of the kernel
  (record \<open>kernel\<close>). The operations of the file systems are reached through the function table of the
  vnode's mount, as in the code: they are the record \<open>fs_calls\<close>, whose functions take the state of all file
  systems, \<open>'w\<close>, and the vnode. A \<open>FileDescriptor\<close> is only ever pointed to by one slot of one process, so a
  slot holds its value, and a null pointer is \<open>None\<close>.

  A path argument is what \<open>UserString\<close> (theory User\_Memory) made of it: an error number or the string. The
  argument \<open>put\<close> of a call that fills a buffer of the caller is the result of \<open>memcpyToUser\<close>; the data come
  with the result when they were copied. A vnode pointer that an error path leaves unassigned is 0.
\<close>

section \<open>Descriptors and the state of a call\<close>

definition SEEK_SET :: int where "SEEK_SET = 0"
definition SEEK_CUR :: int where "SEEK_CUR = 1"
definition SEEK_END :: int where "SEEK_END = 2"

definition MAX_FILENAME_LEN :: nat where "MAX_FILENAME_LEN = 8192"

definition O_ACCMODE :: u32 where "O_ACCMODE = 3"
definition O_RDONLY :: u32 where "O_RDONLY = 0"
definition O_WRONLY :: u32 where "O_WRONLY = 1"
definition O_RDWR :: u32 where "O_RDWR = 2"
definition O_CREAT :: u32 where "O_CREAT = 0x40"
definition O_CLOEXEC :: u32 where "O_CLOEXEC = 0x40000"

definition S_IFSOCK :: u16 where "S_IFSOCK = 0xC000"
definition S_IFCHR :: u16 where "S_IFCHR = 0x2000"
definition S_IFFIFO :: u16 where "S_IFFIFO = 0x1000"

definition TCGETS :: int where "TCGETS = 21505"

record FileDescriptor =
  node :: addr
  fpos :: nat
  fd_flags :: u32

definition new_FileDescriptor :: "addr \<Rightarrow> u32 \<Rightarrow> FileDescriptor" where
  "new_FileDescriptor vn fl = \<lparr>node = vn, fpos = 0, fd_flags = fl\<rparr>"

record 'w kernel =
  vnode_table :: vnode_state
  world :: 'w
  openFiles :: "FileDescriptor option QList"
  currentWorkingDirNode :: addr
  umask_value :: u32
  uid :: nat
  gid :: nat

text \<open>
  The function table; \<open>new_pipe\<close> and \<open>new_socket\<close> are \<open>Pipe::newPipe\<close> and \<open>Socket::newSocket\<close>, and
  \<open>same_rename\<close> compares the \<open>rename\<close> entries of two mounts. \<open>heap_ok\<close> tells whether the table of
  descriptors can grow.
\<close>

record 'w fs_calls =
  vfs :: "'w \<Rightarrow> vfs_env"
  heap_ok :: bool
  new_pipe :: "'w \<Rightarrow> vnode_state \<Rightarrow> (addr \<times> 'w \<times> vnode_state) option"
  new_socket :: "int \<Rightarrow> int \<Rightarrow> int \<Rightarrow> 'w \<Rightarrow> vnode_state \<Rightarrow> (addr \<times> 'w \<times> vnode_state) option"
  same_rename :: "addr \<Rightarrow> addr \<Rightarrow> bool"
  op_type :: "'w \<Rightarrow> VNode \<Rightarrow> (int \<times> u16) option"
  op_size :: "'w \<Rightarrow> VNode \<Rightarrow> (int \<times> int) option"
  op_stat :: "'w \<Rightarrow> VNode \<Rightarrow> (int \<times> tmpfs_stat) option"
  op_statfs :: "'w \<Rightarrow> VNode \<Rightarrow> (int \<times> u8 list) option"
  op_access :: "'w \<Rightarrow> VNode \<Rightarrow> u32 \<Rightarrow> nat \<Rightarrow> nat \<Rightarrow> int option"
  op_read :: "'w \<Rightarrow> VNode \<Rightarrow> nat \<Rightarrow> nat \<Rightarrow> ((int \<times> u8 list) \<times> 'w) option"
  op_readlink :: "'w \<Rightarrow> VNode \<Rightarrow> nat \<Rightarrow> (int \<times> u8 list) option"
  op_getdents :: "'w \<Rightarrow> VNode \<Rightarrow> nat \<Rightarrow> (int \<times> u8 list) option"
  op_write :: "'w \<Rightarrow> VNode \<Rightarrow> nat \<Rightarrow> u8 list \<Rightarrow> (int \<times> 'w) option"
  op_truncate :: "'w \<Rightarrow> VNode \<Rightarrow> nat \<Rightarrow> (int \<times> 'w) option"
  op_chmod :: "'w \<Rightarrow> VNode \<Rightarrow> u16 \<Rightarrow> (int \<times> 'w) option"
  op_chown :: "'w \<Rightarrow> VNode \<Rightarrow> nat \<Rightarrow> nat \<Rightarrow> (int \<times> 'w) option"
  op_utime :: "'w \<Rightarrow> VNode \<Rightarrow> nat \<Rightarrow> nat \<Rightarrow> (int \<times> 'w) option"
  op_fsync :: "'w \<Rightarrow> VNode \<Rightarrow> (int \<times> 'w) option"
  op_fdatasync :: "'w \<Rightarrow> VNode \<Rightarrow> (int \<times> 'w) option"
  op_ioctl :: "'w \<Rightarrow> VNode \<Rightarrow> int \<Rightarrow> int \<Rightarrow> (int \<times> 'w) option"
  op_creat :: "'w \<Rightarrow> VNode \<Rightarrow> fname \<Rightarrow> u16 \<Rightarrow> (int \<times> 'w) option"
  op_mkdir :: "'w \<Rightarrow> VNode \<Rightarrow> fname \<Rightarrow> u16 \<Rightarrow> (int \<times> 'w) option"
  op_mknod :: "'w \<Rightarrow> VNode \<Rightarrow> fname \<Rightarrow> u16 \<Rightarrow> nat \<Rightarrow> (int \<times> 'w) option"
  op_unlink :: "'w \<Rightarrow> VNode \<Rightarrow> fname \<Rightarrow> (int \<times> 'w) option"
  op_rmdir :: "'w \<Rightarrow> VNode \<Rightarrow> fname \<Rightarrow> (int \<times> 'w) option"
  op_symlink :: "'w \<Rightarrow> VNode \<Rightarrow> fname \<Rightarrow> fname \<Rightarrow> (int \<times> 'w) option"
  op_link :: "'w \<Rightarrow> VNode \<Rightarrow> VNode \<Rightarrow> fname \<Rightarrow> (int \<times> 'w) option"
  op_rename :: "'w \<Rightarrow> VNode \<Rightarrow> fname \<Rightarrow> VNode \<Rightarrow> fname \<Rightarrow> (int \<times> 'w) option"

text \<open>The object behind a vnode pointer, and a call that may change the file systems.\<close>

definition deref :: "'w kernel \<Rightarrow> addr \<Rightarrow> VNode option" where
  "deref k p = vheap (vnode_table k) p"

definition fs_call :: "'w kernel \<Rightarrow> ('w \<Rightarrow> ('r \<times> 'w) option) \<Rightarrow> ('r \<times> 'w kernel) option" where
  "fs_call k f = map_option (\<lambda>(r, w). (r, k\<lparr>world := w\<rparr>)) (f (world k))"

definition reference :: "'w kernel \<Rightarrow> addr \<Rightarrow> 'w kernel option" where
  "reference k p = map_option (\<lambda>vs. k\<lparr>vnode_table := vs\<rparr>) (ReferenceVnode (vnode_table k) p)"

definition put :: "'w fs_calls \<Rightarrow> 'w kernel \<Rightarrow> addr \<Rightarrow> 'w kernel option" where
  "put C k p = map_option (\<lambda>vs. k\<lparr>vnode_table := vs\<rparr>) (PutVnode (fs_of (vfs C (world k))) (vnode_table k) p)"

definition resolve :: "'w fs_calls \<Rightarrow> 'w kernel \<Rightarrow> addr \<Rightarrow> fname \<Rightarrow> bool \<Rightarrow> (int \<times> addr \<times> 'w kernel) option" where
  "resolve C k start path leaf =
     map_option (\<lambda>(r, p, vs). (r, p, k\<lparr>vnode_table := vs\<rparr>))
       (RelativePathToVnode (vfs C (world k)) (vnode_table k) start path leaf)"

text \<open>The macro \<open>CHECK_FOR_EBADF\<close> and the test for a hole: \<open>None\<close> inside is the error \<open>-EBADF\<close>.\<close>

definition descriptor :: "'w kernel \<Rightarrow> int \<Rightarrow> FileDescriptor option option" where
  "descriptor k fd = (if \<not> (0 \<le> fd \<and> fd < QList_size (openFiles k)) then Some None else at (openFiles k) fd)"

definition with_descriptor ::
  "'w kernel \<Rightarrow> int \<Rightarrow> (int \<Rightarrow> ('r \<times> 'w kernel) option) \<Rightarrow> (FileDescriptor \<Rightarrow> ('r \<times> 'w kernel) option) \<Rightarrow>
     ('r \<times> 'w kernel) option" where
  "with_descriptor k fd fail f = do {
     d \<leftarrow> descriptor k fd;
     (case d of None \<Rightarrow> fail (- errno_code EBADF) | Some fdesc \<Rightarrow> f fdesc) }"

text \<open>An error as the result of a call without and with data for the caller.\<close>

definition only :: "'w kernel \<Rightarrow> int \<Rightarrow> (int \<times> 'w kernel) option" where
  "only k e = Some (e, k)"

definition no_data :: "'w kernel \<Rightarrow> int \<Rightarrow> ((int \<times> 'd option) \<times> 'w kernel) option" where
  "no_data k e = Some ((e, None), k)"

text \<open>The slot of a descriptor, and a new descriptor in the lowest hole.\<close>

definition set_slot :: "'w kernel \<Rightarrow> int \<Rightarrow> FileDescriptor option \<Rightarrow> 'w kernel option" where
  "set_slot k fd d = map_option (\<lambda>l. k\<lparr>openFiles := l\<rparr>) (set_at (openFiles k) fd d)"

definition add_descriptor :: "'w fs_calls \<Rightarrow> 'w kernel \<Rightarrow> FileDescriptor \<Rightarrow> (int \<times> 'w kernel) option" where
  "add_descriptor C k d =
     map_option (\<lambda>(i, l). (i, k\<lparr>openFiles := l\<rparr>)) (add_value (heap_ok C) None (openFiles k) (Some d))"

section \<open>Names\<close>

definition isValidFileName :: "fname \<Rightarrow> int" where
  "isValidFileName name =
     (if name = [] then - errno_code ENOENT
      else if 8192 \<le> length name then - errno_code ENAMETOOLONG
      else 0)"

definition isValidUserFileName :: "fname \<Rightarrow> int" where
  "isValidUserFileName name = (let retVal = isValidFileName name in if retVal < 0 then retVal else 0)"

text \<open>
  The loop of \<open>pathToParentAndName\<close>: the index after the last slash that is not the last character. When the
  parent cannot be resolved the code frees \<open>name\<close>, the address of its caller's variable, which \<open>malloc\<close> never
  gave: the call is lost.
\<close>

fun path_token :: "fname \<Rightarrow> nat \<Rightarrow> nat \<Rightarrow> nat" where
  "path_token [] i tok = tok"
| "path_token [c] i tok = tok"
| "path_token (c # d # cs) i tok = path_token (d # cs) (Suc i) (if c = SLASH then Suc i else tok)"

definition strip_slash :: "fname \<Rightarrow> fname" where
  "strip_slash name = (if name \<noteq> [] \<and> last name = SLASH then butlast name else name)"

definition pathToParentAndName ::
  "'w fs_calls \<Rightarrow> 'w kernel \<Rightarrow> fname \<Rightarrow> ((int \<times> addr \<times> fname) \<times> 'w kernel) option" where
  "pathToParentAndName C k pathname =
     (let tok = path_token pathname 0 0; name = drop tok pathname in
      if name = [] then Some ((- errno_code ENOENT, 0, name), k)
      else let name = strip_slash name in
        if 1 < tok then do {
          (result, dir, k) \<leftarrow> resolve C k (currentWorkingDirNode k) (take (tok - 1) pathname) True;
          if result < 0 then None else Some ((0, dir, name), k) }
        else do {
          k' \<leftarrow> reference k (currentWorkingDirNode k);
          Some ((0, currentWorkingDirNode k, name), k') })"

section \<open>Calls on a path\<close>

text \<open>What most of them share: resolve the path, call the file system, give the vnode back.\<close>

definition path_call ::
  "'w fs_calls \<Rightarrow> 'w kernel \<Rightarrow> errno + fname \<Rightarrow> bool \<Rightarrow> ('w \<Rightarrow> VNode \<Rightarrow> (int \<times> 'w) option) \<Rightarrow> (int \<times> 'w kernel) option" where
  "path_call C k path leaf f =
     (case path of
        Inl e \<Rightarrow> Some (- errno_code e, k)
      | Inr p \<Rightarrow> do {
          (result, nd, k) \<leftarrow> resolve C k (currentWorkingDirNode k) p leaf;
          if result < 0 then Some (result, k)
          else do {
            n \<leftarrow> deref k nd;
            (result, k) \<leftarrow> fs_call k (\<lambda>w. f w n);
            k \<leftarrow> put C k nd;
            Some (result, k) } })"

text \<open>The same for a call that fills a buffer of the caller.\<close>

definition path_query ::
  "'w fs_calls \<Rightarrow> 'w kernel \<Rightarrow> errno + fname \<Rightarrow> bool \<Rightarrow> int \<Rightarrow> ('w \<Rightarrow> VNode \<Rightarrow> (int \<times> 'd) option) \<Rightarrow>
     ((int \<times> 'd option) \<times> 'w kernel) option" where
  "path_query C k path leaf put_result f =
     (case path of
        Inl e \<Rightarrow> no_data k (- errno_code e)
      | Inr p \<Rightarrow> do {
          (result, nd, k) \<leftarrow> resolve C k (currentWorkingDirNode k) p leaf;
          if result < 0 then no_data k result
          else do {
            n \<leftarrow> deref k nd;
            (result, d) \<leftarrow> f (world k) n;
            k \<leftarrow> put C k nd;
            if result < 0 then no_data k result
            else if put_result < 0 then no_data k put_result
            else Some ((result, Some d), k) } })"

definition FSUAPI_stat :: "'w fs_calls \<Rightarrow> 'w kernel \<Rightarrow> errno + fname \<Rightarrow> int \<Rightarrow> ((int \<times> tmpfs_stat option) \<times> 'w kernel) option" where
  "FSUAPI_stat C k path put_result = path_query C k path True put_result (op_stat C)"

definition FSUAPI_lstat :: "'w fs_calls \<Rightarrow> 'w kernel \<Rightarrow> errno + fname \<Rightarrow> int \<Rightarrow> ((int \<times> tmpfs_stat option) \<times> 'w kernel) option" where
  "FSUAPI_lstat C k path put_result = path_query C k path False put_result (op_stat C)"

text \<open>The 64-bit variants copy the fields one by one into a structure with wider fields.\<close>

definition to_stat64 :: "tmpfs_stat \<Rightarrow> tmpfs_stat" where
  "to_stat64 buf = \<lparr>st_dev = st_dev buf, st_ino = st_ino buf, st_mode = st_mode buf, st_nlink = st_nlink buf,
     st_uid = st_uid buf, st_gid = st_gid buf, st_rdev = st_rdev buf, st_size = st_size buf,
     st_blksize = st_blksize buf, st_blocks = st_blocks buf, st_atime = st_atime buf,
     st_mtime = st_mtime buf, st_ctime = st_ctime buf\<rparr>"

definition FSUAPI_stat64 :: "'w fs_calls \<Rightarrow> 'w kernel \<Rightarrow> errno + fname \<Rightarrow> int \<Rightarrow> ((int \<times> tmpfs_stat option) \<times> 'w kernel) option" where
  "FSUAPI_stat64 C k path put_result =
     path_query C k path True put_result (\<lambda>w n. map_option (map_prod id to_stat64) (op_stat C w n))"

definition FSUAPI_lstat64 :: "'w fs_calls \<Rightarrow> 'w kernel \<Rightarrow> errno + fname \<Rightarrow> int \<Rightarrow> ((int \<times> tmpfs_stat option) \<times> 'w kernel) option" where
  "FSUAPI_lstat64 C k path put_result =
     path_query C k path False put_result (\<lambda>w n. map_option (map_prod id to_stat64) (op_stat C w n))"

definition FSUAPI_statfs :: "'w fs_calls \<Rightarrow> 'w kernel \<Rightarrow> errno + fname \<Rightarrow> int \<Rightarrow> ((int \<times> u8 list option) \<times> 'w kernel) option" where
  "FSUAPI_statfs C k path put_result = path_query C k path False put_result (op_statfs C)"

text \<open>\<open>readlink\<close> gets its buffer first; \<open>tmp\<close> tells whether that was possible.\<close>

definition FSUAPI_readlink ::
  "'w fs_calls \<Rightarrow> 'w kernel \<Rightarrow> errno + fname \<Rightarrow> nat \<Rightarrow> bool \<Rightarrow> int \<Rightarrow> ((int \<times> u8 list option) \<times> 'w kernel) option" where
  "FSUAPI_readlink C k path bufsiz tmp put_result =
     (case path of
        Inl e \<Rightarrow> no_data k (- errno_code e)
      | Inr p \<Rightarrow> do {
          (result, tmpnode, k) \<leftarrow> resolve C k (currentWorkingDirNode k) p False;
          if result < 0 then no_data k result
          else if \<not> tmp then no_data k (- errno_code ENOMEM)
          else do {
            n \<leftarrow> deref k tmpnode;
            (result, bs) \<leftarrow> op_readlink C (world k) n bufsiz;
            k \<leftarrow> put C k tmpnode;
            if result < 0 then no_data k result
            else if put_result < 0 then no_data k put_result
            else Some ((result, Some (take (nat result) bs)), k) } })"

definition FSUAPI_access :: "'w fs_calls \<Rightarrow> 'w kernel \<Rightarrow> errno + fname \<Rightarrow> u32 \<Rightarrow> (int \<times> 'w kernel) option" where
  "FSUAPI_access C k path mode =
     path_call C k path False (\<lambda>w n. map_option (\<lambda>r. (r, w)) (op_access C w n mode (uid k) (gid k)))"

definition FSUAPI_truncate :: "'w fs_calls \<Rightarrow> 'w kernel \<Rightarrow> errno + fname \<Rightarrow> nat \<Rightarrow> (int \<times> 'w kernel) option" where
  "FSUAPI_truncate C k path len = path_call C k path True (\<lambda>w n. op_truncate C w n len)"

definition FSUAPI_chmod :: "'w fs_calls \<Rightarrow> 'w kernel \<Rightarrow> errno + fname \<Rightarrow> u16 \<Rightarrow> (int \<times> 'w kernel) option" where
  "FSUAPI_chmod C k path mode = path_call C k path True (\<lambda>w n. op_chmod C w n mode)"

definition FSUAPI_chown :: "'w fs_calls \<Rightarrow> 'w kernel \<Rightarrow> errno + fname \<Rightarrow> nat \<Rightarrow> nat \<Rightarrow> (int \<times> 'w kernel) option" where
  "FSUAPI_chown C k path owner grp = path_call C k path True (\<lambda>w n. op_chown C w n owner grp)"

text \<open>\<open>lchown\<close> does not give the vnode back.\<close>

definition FSUAPI_lchown :: "'w fs_calls \<Rightarrow> 'w kernel \<Rightarrow> errno + fname \<Rightarrow> nat \<Rightarrow> nat \<Rightarrow> (int \<times> 'w kernel) option" where
  "FSUAPI_lchown C k path owner grp =
     (case path of
        Inl e \<Rightarrow> Some (- errno_code e, k)
      | Inr p \<Rightarrow> do {
          (result, nd, k) \<leftarrow> resolve C k (currentWorkingDirNode k) p False;
          if result \<ge> 0 then do {
            n \<leftarrow> deref k nd;
            fs_call k (\<lambda>w. op_chown C w n owner grp) }
          else Some (result, k) })"

text \<open>\<open>utime\<close> copies the times of the caller: \<open>utim\<close> is an error number or the two times.\<close>

definition FSUAPI_utime :: "'w fs_calls \<Rightarrow> 'w kernel \<Rightarrow> errno + fname \<Rightarrow> errno + nat \<times> nat \<Rightarrow> (int \<times> 'w kernel) option" where
  "FSUAPI_utime C k path utim =
     (case path of
        Inl e \<Rightarrow> Some (- errno_code e, k)
      | Inr p \<Rightarrow> do {
          (result, tmpnode, k) \<leftarrow> resolve C k (currentWorkingDirNode k) p False;
          if result < 0 then Some (result, k)
          else (case utim of
              Inl e \<Rightarrow> Some (- errno_code e, k)
            | Inr (actime, modtime) \<Rightarrow> do {
                n \<leftarrow> deref k tmpnode;
                (result, k) \<leftarrow> fs_call k (\<lambda>w. op_utime C w n actime modtime);
                k \<leftarrow> put C k tmpnode;
                Some (result, k) }) })"

section \<open>Calls on a descriptor\<close>

definition fd_call ::
  "'w kernel \<Rightarrow> int \<Rightarrow> ('w \<Rightarrow> VNode \<Rightarrow> (int \<times> 'w) option) \<Rightarrow> (int \<times> 'w kernel) option" where
  "fd_call k fd f = with_descriptor k fd (only k) (\<lambda>fdesc. do {
     n \<leftarrow> deref k (node fdesc);
     fs_call k (\<lambda>w. f w n) })"

definition fd_query ::
  "'w kernel \<Rightarrow> int \<Rightarrow> int \<Rightarrow> ('w \<Rightarrow> VNode \<Rightarrow> (int \<times> 'd) option) \<Rightarrow> ((int \<times> 'd option) \<times> 'w kernel) option" where
  "fd_query k fd put_result f = with_descriptor k fd (no_data k) (\<lambda>fdesc. do {
     n \<leftarrow> deref k (node fdesc);
     (result, d) \<leftarrow> f (world k) n;
     if result < 0 then no_data k result
     else if put_result < 0 then no_data k put_result
     else Some ((result, Some d), k) })"

text \<open>\<open>fstat\<close> holds a reference of its own while it asks the file system.\<close>

definition FSUAPI_fstat ::
  "'w fs_calls \<Rightarrow> 'w kernel \<Rightarrow> int \<Rightarrow> int \<Rightarrow> ((int \<times> tmpfs_stat option) \<times> 'w kernel) option" where
  "FSUAPI_fstat C k filedes put_result = with_descriptor k filedes (no_data k) (\<lambda>fdesc. do {
     k \<leftarrow> reference k (node fdesc);
     n \<leftarrow> deref k (node fdesc);
     (result, s) \<leftarrow> op_stat C (world k) n;
     k \<leftarrow> put C k (node fdesc);
     if result < 0 then no_data k result
     else if put_result < 0 then no_data k put_result
     else Some ((result, Some s), k) })"

definition FSUAPI_fstat64 ::
  "'w fs_calls \<Rightarrow> 'w kernel \<Rightarrow> int \<Rightarrow> int \<Rightarrow> ((int \<times> tmpfs_stat option) \<times> 'w kernel) option" where
  "FSUAPI_fstat64 C k filedes put_result = with_descriptor k filedes (no_data k) (\<lambda>fdesc. do {
     k \<leftarrow> reference k (node fdesc);
     n \<leftarrow> deref k (node fdesc);
     (result, s) \<leftarrow> op_stat C (world k) n;
     k \<leftarrow> put C k (node fdesc);
     if result < 0 then no_data k result
     else if put_result < 0 then no_data k put_result
     else Some ((result, Some (to_stat64 s)), k) })"

definition FSUAPI_fstatfs ::
  "'w fs_calls \<Rightarrow> 'w kernel \<Rightarrow> int \<Rightarrow> int \<Rightarrow> ((int \<times> u8 list option) \<times> 'w kernel) option" where
  "FSUAPI_fstatfs C k fd put_result = fd_query k fd put_result (op_statfs C)"

definition FSUAPI_getdents ::
  "'w fs_calls \<Rightarrow> 'w kernel \<Rightarrow> int \<Rightarrow> nat \<Rightarrow> ((int \<times> u8 list option) \<times> 'w kernel) option" where
  "FSUAPI_getdents C k fd cnt = with_descriptor k fd (no_data k) (\<lambda>fdesc. do {
     n \<leftarrow> deref k (node fdesc);
     (result, bs) \<leftarrow> op_getdents C (world k) n cnt;
     Some ((result, Some bs), k) })"

definition FSUAPI_umask :: "'w kernel \<Rightarrow> u32 \<Rightarrow> u32 \<times> 'w kernel" where
  "FSUAPI_umask k mode = (umask_value k, k\<lparr>umask_value := mode AND 0x1FF\<rparr>)"

definition FSUAPI_fsync :: "'w fs_calls \<Rightarrow> 'w kernel \<Rightarrow> int \<Rightarrow> (int \<times> 'w kernel) option" where
  "FSUAPI_fsync C k fd = fd_call k fd (op_fsync C)"

definition FSUAPI_fdatasync :: "'w fs_calls \<Rightarrow> 'w kernel \<Rightarrow> int \<Rightarrow> (int \<times> 'w kernel) option" where
  "FSUAPI_fdatasync C k fd = fd_call k fd (op_fdatasync C)"

definition FSUAPI_ftruncate :: "'w fs_calls \<Rightarrow> 'w kernel \<Rightarrow> int \<Rightarrow> nat \<Rightarrow> (int \<times> 'w kernel) option" where
  "FSUAPI_ftruncate C k fd len = fd_call k fd (\<lambda>w n. op_truncate C w n len)"

definition FSUAPI_fchmod :: "'w fs_calls \<Rightarrow> 'w kernel \<Rightarrow> int \<Rightarrow> u16 \<Rightarrow> (int \<times> 'w kernel) option" where
  "FSUAPI_fchmod C k fildes mode = fd_call k fildes (\<lambda>w n. op_chmod C w n mode)"

definition FSUAPI_fchown :: "'w fs_calls \<Rightarrow> 'w kernel \<Rightarrow> int \<Rightarrow> nat \<Rightarrow> nat \<Rightarrow> (int \<times> 'w kernel) option" where
  "FSUAPI_fchown C k fd owner grp = fd_call k fd (\<lambda>w n. op_chown C w n owner grp)"

definition FSUAPI_pread ::
  "'w fs_calls \<Rightarrow> 'w kernel \<Rightarrow> int \<Rightarrow> nat \<Rightarrow> nat \<Rightarrow> ((int \<times> u8 list option) \<times> 'w kernel) option" where
  "FSUAPI_pread C k fd cnt offset = with_descriptor k fd (no_data k) (\<lambda>fdesc. do {
     n \<leftarrow> deref k (node fdesc);
     ((ret, bs), k) \<leftarrow> fs_call k (\<lambda>w. op_read C w n offset cnt);
     Some ((ret, Some bs), k) })"

definition FSUAPI_pwrite :: "'w fs_calls \<Rightarrow> 'w kernel \<Rightarrow> int \<Rightarrow> u8 list \<Rightarrow> nat \<Rightarrow> (int \<times> 'w kernel) option" where
  "FSUAPI_pwrite C k fd buf offset = fd_call k fd (\<lambda>w n. op_write C w n offset buf)"

text \<open>\<open>read\<close> and \<open>write\<close> move the position by the number of bytes.\<close>

definition advance :: "'w kernel \<Rightarrow> int \<Rightarrow> FileDescriptor \<Rightarrow> int \<Rightarrow> 'w kernel option" where
  "advance k fd fdesc ret =
     (if 0 < ret then set_slot k fd (Some (fdesc\<lparr>fpos := (fpos fdesc + nat ret) mod 2 ^ 64\<rparr>)) else Some k)"

definition FSUAPI_write :: "'w fs_calls \<Rightarrow> 'w kernel \<Rightarrow> int \<Rightarrow> u8 list \<Rightarrow> (int \<times> 'w kernel) option" where
  "FSUAPI_write C k fd buf = with_descriptor k fd (only k) (\<lambda>fdesc.
     if fd_flags fdesc AND O_ACCMODE = O_RDONLY then only k (- errno_code EBADF)
     else do {
       n \<leftarrow> deref k (node fdesc);
       (ret, k) \<leftarrow> fs_call k (\<lambda>w. op_write C w n (fpos fdesc) buf);
       k \<leftarrow> advance k fd fdesc ret;
       Some (ret, k) })"

definition FSUAPI_read ::
  "'w fs_calls \<Rightarrow> 'w kernel \<Rightarrow> int \<Rightarrow> nat \<Rightarrow> ((int \<times> u8 list option) \<times> 'w kernel) option" where
  "FSUAPI_read C k fd cnt = with_descriptor k fd (no_data k) (\<lambda>fdesc.
     if fd_flags fdesc AND O_ACCMODE = O_WRONLY then no_data k (- errno_code EBADF)
     else do {
       n \<leftarrow> deref k (node fdesc);
       ((ret, bs), k) \<leftarrow> fs_call k (\<lambda>w. op_read C w n (fpos fdesc) cnt);
       k \<leftarrow> advance k fd fdesc ret;
       Some ((ret, Some bs), k) })"

text \<open>
  \<open>lseek\<close>: the position is a 64-bit unsigned number and the offset a 32-bit signed one; the tests convert to
  64-bit numbers as the code does, and the result is the position cut to an \<open>int\<close>. \<open>SEEK_CUR\<close> adds in
  unsigned arithmetic, so its test for a negative position never holds.
\<close>

definition seek_to :: "'w kernel \<Rightarrow> int \<Rightarrow> FileDescriptor \<Rightarrow> int \<Rightarrow> (int \<times> 'w kernel) option" where
  "seek_to k fd fdesc pos = do {
     let p = nat (pos mod 2 ^ 64);
     k \<leftarrow> set_slot k fd (Some (fdesc\<lparr>fpos := p\<rparr>));
     Some (as_int p, k) }"

definition as_int64 :: "int \<Rightarrow> int" where
  "as_int64 x = signed_take_bit 63 x"

definition FSUAPI_lseek :: "'w fs_calls \<Rightarrow> 'w kernel \<Rightarrow> int \<Rightarrow> int \<Rightarrow> int \<Rightarrow> (int \<times> 'w kernel) option" where
  "FSUAPI_lseek C k fd offset whence = with_descriptor k fd (only k) (\<lambda>fdesc. do {
     n \<leftarrow> deref k (node fdesc);
     (ret, type) \<leftarrow> op_type C (world k) n;
     if ret < 0 then only k ret
     else if type AND (S_IFFIFO OR S_IFSOCK) \<noteq> 0 then only k (- errno_code ESPIPE)
     else do {
       (ret, size) \<leftarrow> op_size C (world k) n;
       if ret < 0 then only k ret
       else if whence = SEEK_SET then
         (if offset > size \<or> offset < 0 then only k (- errno_code EINVAL) else seek_to k fd fdesc offset)
       else if whence = SEEK_CUR then
         (if as_int64 (int (fpos fdesc) + offset) > size then only k (- errno_code EINVAL)
          else seek_to k fd fdesc (int (fpos fdesc) + offset))
       else if whence = SEEK_END then
         (if as_int64 (size + offset) > size then only k (- errno_code EINVAL)
          else seek_to k fd fdesc (size + offset))
       else only k (- errno_code EINVAL) } })"

definition FSUAPI_fcntl :: "'w kernel \<Rightarrow> int \<Rightarrow> int \<Rightarrow> int \<Rightarrow> (int \<times> 'w kernel) option" where
  "FSUAPI_fcntl k fd cmd arg = only k (- errno_code EINVAL)"

definition FSUAPI_ioctl :: "'w fs_calls \<Rightarrow> 'w kernel \<Rightarrow> int \<Rightarrow> int \<Rightarrow> int \<Rightarrow> (int \<times> 'w kernel) option" where
  "FSUAPI_ioctl C k d request arg = with_descriptor k d (only k) (\<lambda>fdesc. do {
     n \<leftarrow> deref k (node fdesc);
     (retVal, k) \<leftarrow> fs_call k (\<lambda>w. op_ioctl C w n request arg);
     if retVal = - errno_code EIOCTLNOTSUPPORTED then
       (if request = TCGETS then only k (- errno_code ENOTTY) else only k (- errno_code EINVAL))
     else only k retVal })"

section \<open>Directories of a process\<close>

text \<open>Neither call gives the old directory back.\<close>

definition FSUAPI_chdir :: "'w fs_calls \<Rightarrow> 'w kernel \<Rightarrow> errno + fname \<Rightarrow> (int \<times> 'w kernel) option" where
  "FSUAPI_chdir C k path =
     (case path of
        Inl e \<Rightarrow> Some (- errno_code e, k)
      | Inr p \<Rightarrow> do {
          (result, nd, k) \<leftarrow> resolve C k (currentWorkingDirNode k) p True;
          if result < 0 then Some (result, k)
          else do {
            n \<leftarrow> deref k nd;
            (retVal, type) \<leftarrow> op_type C (world k) n;
            if retVal < 0 then do { k \<leftarrow> put C k nd; Some (retVal, k) }
            else if type AND S_IFDIR = 0 then do { k \<leftarrow> put C k nd; Some (- errno_code ENOTDIR, k) }
            else Some (0, k\<lparr>currentWorkingDirNode := nd\<rparr>) } })"

definition FSUAPI_fchdir :: "'w fs_calls \<Rightarrow> 'w kernel \<Rightarrow> int \<Rightarrow> (int \<times> 'w kernel) option" where
  "FSUAPI_fchdir C k fd = with_descriptor k fd (only k) (\<lambda>fdesc. do {
     n \<leftarrow> deref k (node fdesc);
     (retVal, type) \<leftarrow> op_type C (world k) n;
     if retVal < 0 then only k retVal
     else if type AND S_IFDIR = 0 then only k (- errno_code ENOTDIR)
     else do {
       k \<leftarrow> reference k (node fdesc);
       Some (0, k\<lparr>currentWorkingDirNode := node fdesc\<rparr>) } })"

section \<open>Opening and closing\<close>

definition createNewFile :: "'w fs_calls \<Rightarrow> 'w kernel \<Rightarrow> fname \<Rightarrow> ((int \<times> addr) \<times> 'w kernel) option" where
  "createNewFile C k pathname = do {
     ((result, nd, name), k) \<leftarrow> pathToParentAndName C k pathname;
     if result < 0 then Some ((result, nd), k)
     else if isValidUserFileName name < 0 then Some ((isValidUserFileName name, nd), k)
     else do {
       n \<leftarrow> deref k nd;
       (result, k) \<leftarrow> fs_call k (\<lambda>w. op_creat C w n name 0);
       Some ((result, nd), k) } }"

text \<open>
  With \<open>O_CREAT\<close> the result of \<open>createNewFile\<close> is not looked at, and the vnode the descriptor gets is the
  one \<open>createNewFile\<close> leaves: the directory of the new file.
\<close>

definition openAtVNode ::
  "'w fs_calls \<Rightarrow> 'w kernel \<Rightarrow> addr \<Rightarrow> errno + fname \<Rightarrow> u32 \<Rightarrow> (int \<times> 'w kernel) option" where
  "openAtVNode C k dirNode path flags =
     (case path of
        Inl e \<Rightarrow> Some (- errno_code e, k)
      | Inr p \<Rightarrow> do {
          (result, nd, k) \<leftarrow> resolve C k dirNode p True;
          if result < 0 then
            if flags AND O_CREAT \<noteq> 0 then do {
              ((_, nd), k) \<leftarrow> createNewFile C k p;
              add_descriptor C k (new_FileDescriptor nd flags) }
            else Some (result, k)
          else add_descriptor C k (new_FileDescriptor nd flags) })"

definition FSUAPI_open :: "'w fs_calls \<Rightarrow> 'w kernel \<Rightarrow> errno + fname \<Rightarrow> u32 \<Rightarrow> (int \<times> 'w kernel) option" where
  "FSUAPI_open C k path flags = openAtVNode C k (currentWorkingDirNode k) path flags"

definition FSUAPI_openat :: "'w fs_calls \<Rightarrow> 'w kernel \<Rightarrow> int \<Rightarrow> errno + fname \<Rightarrow> u32 \<Rightarrow> (int \<times> 'w kernel) option" where
  "FSUAPI_openat C k dirfd path flags = with_descriptor k dirfd (only k) (\<lambda>fdesc. do {
     n \<leftarrow> deref k (node fdesc);
     (retVal, type) \<leftarrow> op_type C (world k) n;
     if retVal < 0 then only k retVal
     else if type AND S_IFDIR = 0 then only k (- errno_code ENOTDIR)
     else openAtVNode C k (node fdesc) path flags })"

text \<open>\<open>creat\<close> takes the string at the pointer of the caller, \<open>raw\<close>, before \<open>open\<close> checks the pointer.\<close>

definition FSUAPI_creat :: "'w fs_calls \<Rightarrow> 'w kernel \<Rightarrow> fname \<Rightarrow> errno + fname \<Rightarrow> (int \<times> 'w kernel) option" where
  "FSUAPI_creat C k raw path = do {
     (_, k) \<leftarrow> createNewFile C k raw;
     FSUAPI_open C k path 0 }"

definition closePB :: "'w fs_calls \<Rightarrow> 'w kernel \<Rightarrow> int \<Rightarrow> (int \<times> 'w kernel) option" where
  "closePB C k fd = with_descriptor k fd (only k) (\<lambda>fdesc. do {
     k \<leftarrow> set_slot k fd None;
     k \<leftarrow> put C k (node fdesc);
     Some (0, k) })"

definition FSUAPI_close :: "'w fs_calls \<Rightarrow> 'w kernel \<Rightarrow> int \<Rightarrow> (int \<times> 'w kernel) option" where
  "FSUAPI_close C k fd = closePB C k fd"

section \<open>Duplicates, pipes and sockets\<close>

definition FSUAPI_dup :: "'w fs_calls \<Rightarrow> 'w kernel \<Rightarrow> int \<Rightarrow> (int \<times> 'w kernel) option" where
  "FSUAPI_dup C k oldfd = with_descriptor k oldfd (only k) (\<lambda>oldFdesc. do {
     k \<leftarrow> reference k (node oldFdesc);
     add_descriptor C k \<lparr>node = node oldFdesc, fpos = fpos oldFdesc, fd_flags = fd_flags oldFdesc\<rparr> })"

definition FSUAPI_dup3 :: "'w fs_calls \<Rightarrow> 'w kernel \<Rightarrow> int \<Rightarrow> int \<Rightarrow> u32 \<Rightarrow> (int \<times> 'w kernel) option" where
  "FSUAPI_dup3 C k oldfd newfd flags =
     (if newfd < 0 then only k (- errno_code EBADF)
      else with_descriptor k oldfd (only k) (\<lambda>oldFdesc.
        if newfd = oldfd then only k (- errno_code EINVAL)
        else do {
          k \<leftarrow> (if newfd < QList_size (openFiles k) then do {
                  closefdesc \<leftarrow> at (openFiles k) newfd;
                  if closefdesc \<noteq> None then map_option snd (FSUAPI_close C k newfd) else Some k }
                else map_option (\<lambda>l. k\<lparr>openFiles := l\<rparr>) (resize (heap_ok C) None (openFiles k) newfd));
          k \<leftarrow> reference k (node oldFdesc);
          k \<leftarrow> set_slot k newfd (Some \<lparr>node = node oldFdesc, fpos = fpos oldFdesc,
                 fd_flags = fd_flags oldFdesc OR flags\<rparr>);
          Some (newfd, k) }))"

definition FSUAPI_dup2 :: "'w fs_calls \<Rightarrow> 'w kernel \<Rightarrow> int \<Rightarrow> int \<Rightarrow> (int \<times> 'w kernel) option" where
  "FSUAPI_dup2 C k oldfd newfd = (if newfd = oldfd then Some (newfd, k) else FSUAPI_dup3 C k oldfd newfd 0)"

definition new_node ::
  "'w kernel \<Rightarrow> ('w \<Rightarrow> vnode_state \<Rightarrow> (addr \<times> 'w \<times> vnode_state) option) \<Rightarrow> (addr \<times> 'w kernel) option" where
  "new_node k f = map_option (\<lambda>(p, w, vs). (p, k\<lparr>world := w, vnode_table := vs\<rparr>)) (f (world k) (vnode_table k))"

definition FSUAPI_pipe2 :: "'w fs_calls \<Rightarrow> 'w kernel \<Rightarrow> u32 \<Rightarrow> ((int \<times> (int \<times> int) option) \<times> 'w kernel) option" where
  "FSUAPI_pipe2 C k flags = do {
     (nd, k) \<leftarrow> new_node k (new_pipe C);
     if nd = NULL then no_data k (- errno_code ENOMEM)
     else do {
       (fd0, k) \<leftarrow> add_descriptor C k (new_FileDescriptor nd (O_RDONLY OR flags));
       k \<leftarrow> reference k nd;
       (fd1, k) \<leftarrow> add_descriptor C k (new_FileDescriptor nd (O_WRONLY OR flags));
       Some ((0, Some (fd0, fd1)), k) } }"

definition FSUAPI_pipe :: "'w fs_calls \<Rightarrow> 'w kernel \<Rightarrow> ((int \<times> (int \<times> int) option) \<times> 'w kernel) option" where
  "FSUAPI_pipe C k = FSUAPI_pipe2 C k 0"

definition FSUAPI_socket :: "'w fs_calls \<Rightarrow> 'w kernel \<Rightarrow> int \<Rightarrow> int \<Rightarrow> int \<Rightarrow> (int \<times> 'w kernel) option" where
  "FSUAPI_socket C k domain type protocol = do {
     (nd, k) \<leftarrow> new_node k (new_socket C domain type protocol);
     if nd = NULL then only k (- errno_code ENOMEM)
     else add_descriptor C k (new_FileDescriptor nd O_RDWR) }"

section \<open>Names in directories\<close>

text \<open>What \<open>unlink\<close>, \<open>rmdir\<close>, \<open>mkdir\<close> and \<open>mknod\<close> share; an invalid name leaves the directory referenced.\<close>

definition name_call ::
  "'w fs_calls \<Rightarrow> 'w kernel \<Rightarrow> errno + fname \<Rightarrow> ('w \<Rightarrow> VNode \<Rightarrow> fname \<Rightarrow> (int \<times> 'w) option) \<Rightarrow> (int \<times> 'w kernel) option" where
  "name_call C k path f =
     (case path of
        Inl e \<Rightarrow> Some (- errno_code e, k)
      | Inr p \<Rightarrow> do {
          ((result, nd, name), k) \<leftarrow> pathToParentAndName C k p;
          if result < 0 then Some (result, k)
          else if isValidUserFileName name < 0 then Some (isValidUserFileName name, k)
          else do {
            n \<leftarrow> deref k nd;
            (result, k) \<leftarrow> fs_call k (\<lambda>w. f w n name);
            k \<leftarrow> put C k nd;
            Some (result, k) } })"

definition FSUAPI_unlink :: "'w fs_calls \<Rightarrow> 'w kernel \<Rightarrow> errno + fname \<Rightarrow> (int \<times> 'w kernel) option" where
  "FSUAPI_unlink C k path = name_call C k path (op_unlink C)"

definition FSUAPI_rmdir :: "'w fs_calls \<Rightarrow> 'w kernel \<Rightarrow> errno + fname \<Rightarrow> (int \<times> 'w kernel) option" where
  "FSUAPI_rmdir C k path = name_call C k path (op_rmdir C)"

definition FSUAPI_mkdir :: "'w fs_calls \<Rightarrow> 'w kernel \<Rightarrow> errno + fname \<Rightarrow> u16 \<Rightarrow> (int \<times> 'w kernel) option" where
  "FSUAPI_mkdir C k path mode = name_call C k path (\<lambda>w n name. op_mkdir C w n name mode)"

definition FSUAPI_mknod :: "'w fs_calls \<Rightarrow> 'w kernel \<Rightarrow> errno + fname \<Rightarrow> u16 \<Rightarrow> nat \<Rightarrow> (int \<times> 'w kernel) option" where
  "FSUAPI_mknod C k path mode dev = name_call C k path (\<lambda>w n name. op_mknod C w n name mode dev)"

definition FSUAPI_link :: "'w fs_calls \<Rightarrow> 'w kernel \<Rightarrow> errno + fname \<Rightarrow> errno + fname \<Rightarrow> (int \<times> 'w kernel) option" where
  "FSUAPI_link C k oldpath newpath =
     (case (oldpath, newpath) of
        (Inl e, _) \<Rightarrow> Some (- errno_code e, k)
      | (_, Inl e) \<Rightarrow> Some (- errno_code e, k)
      | (Inr op, Inr np) \<Rightarrow> do {
          (result, oldNode, k) \<leftarrow> resolve C k (currentWorkingDirNode k) op False;
          if result < 0 then Some (result, k)
          else do {
            ((result, nd, name), k) \<leftarrow> pathToParentAndName C k np;
            if result < 0 then do { k \<leftarrow> put C k oldNode; Some (result, k) }
            else do {
              n \<leftarrow> deref k nd;
              old \<leftarrow> deref k oldNode;
              (result, k) \<leftarrow> fs_call k (\<lambda>w. op_link C w n old name);
              k \<leftarrow> put C k oldNode;
              k \<leftarrow> put C k nd;
              Some (result, k) } } })"

definition FSUAPI_symlink :: "'w fs_calls \<Rightarrow> 'w kernel \<Rightarrow> errno + fname \<Rightarrow> errno + fname \<Rightarrow> (int \<times> 'w kernel) option" where
  "FSUAPI_symlink C k oldpath newpath =
     (case (oldpath, newpath) of
        (Inl e, _) \<Rightarrow> Some (- errno_code e, k)
      | (_, Inl e) \<Rightarrow> Some (- errno_code e, k)
      | (Inr op, Inr np) \<Rightarrow> do {
          ((result, nd, name), k) \<leftarrow> pathToParentAndName C k np;
          if result < 0 then Some (result, k)
          else do {
            n \<leftarrow> deref k nd;
            (result, k) \<leftarrow> fs_call k (\<lambda>w. op_symlink C w n op name);
            k \<leftarrow> put C k nd;
            Some (result, k) } })"

definition FSUAPI_rename :: "'w fs_calls \<Rightarrow> 'w kernel \<Rightarrow> errno + fname \<Rightarrow> errno + fname \<Rightarrow> (int \<times> 'w kernel) option" where
  "FSUAPI_rename C k oldpath newpath =
     (case (oldpath, newpath) of
        (Inl e, _) \<Rightarrow> Some (- errno_code e, k)
      | (_, Inl e) \<Rightarrow> Some (- errno_code e, k)
      | (Inr op, Inr np) \<Rightarrow> do {
          ((result, oldNode, oldName), k) \<leftarrow> pathToParentAndName C k op;
          if result < 0 then Some (result, k)
          else if isValidUserFileName oldName < 0 then Some (isValidUserFileName oldName, k)
          else do {
            ((result, newNode, newName), k) \<leftarrow> pathToParentAndName C k np;
            if result < 0 then do { k \<leftarrow> put C k oldNode; Some (result, k) }
            else if isValidUserFileName newName < 0 then Some (isValidUserFileName newName, k)
            else do {
              old \<leftarrow> deref k oldNode;
              new \<leftarrow> deref k newNode;
              (result, k) \<leftarrow>
                (if mountId (vnid old) \<noteq> mountId (vnid new) \<or> \<not> same_rename C (mount old) (mount new)
                 then Some (- errno_code EXDEV, k)
                 else fs_call k (\<lambda>w. op_rename C w old oldName new newName));
              k \<leftarrow> put C k oldNode;
              k \<leftarrow> put C k newNode;
              Some (result, k) } } })"

end
