(* ===== verification/File_Calls_Refinement.thy ===== *)
theory File_Calls_Refinement
  imports File_Calls
begin

text \<open>
  What the file system calls promise: the calls on descriptors refine a map from numbers to descriptors,
  and every reference a process holds is one of its descriptors or its directory. The calls that break this
  are described at the end.
\<close>

section \<open>References of a process\<close>

definition table :: "'w kernel \<Rightarrow> FileDescriptor option list" where
  "table k = elements (openFiles k)"

definition refs :: "'w kernel \<Rightarrow> addr \<Rightarrow> nat" where
  "refs k p = count_list (map (map_option node) (table k)) (Some p) + of_bool (currentWorkingDirNode k = p)"

text \<open>\<open>R\<close> counts all references, in \<open>kernel_ok\<close> those of the process and \<open>r\<close> others.\<close>

definition counts_ok :: "'w kernel \<Rightarrow> (addr \<Rightarrow> nat) \<Rightarrow> bool" where
  "counts_ok k R \<longleftrightarrow> qlist_ok (openFiles k) \<and> vnodes_ok (vnode_table k) R"

definition kernel_ok :: "'w kernel \<Rightarrow> (addr \<Rightarrow> nat) \<Rightarrow> bool" where
  "kernel_ok k r \<longleftrightarrow> counts_ok k (\<lambda>p. r p + refs k p)"

text \<open>The parts of the state that the calls on descriptors leave alone.\<close>

definition same_rest :: "'w kernel \<Rightarrow> 'w kernel \<Rightarrow> bool" where
  "same_rest k k' \<longleftrightarrow> world k' = world k \<and> currentWorkingDirNode k' = currentWorkingDirNode k"

lemma same_rest_refl [simp]: "same_rest k k"
  by (simp add: same_rest_def)

lemma same_rest_trans: "same_rest k l \<Longrightarrow> same_rest l m \<Longrightarrow> same_rest k m"
  by (simp add: same_rest_def)

lemma refs_same: "table k' = table k \<Longrightarrow> currentWorkingDirNode k' = currentWorkingDirNode k \<Longrightarrow> refs k' = refs k"
  by (simp add: refs_def fun_eq_iff)

lemma count_list_update:
  "i < length xs \<Longrightarrow> count_list (xs[i := y]) v + of_bool (xs ! i = v) = count_list xs v + of_bool (y = v)"
proof (induction xs arbitrary: i)
  case (Cons x xs)
  then show ?case by (cases i) (auto split: if_splits)
qed simp

section \<open>Steps\<close>

lemma reference_ok:
  assumes "counts_ok k R" and "0 < R p" and "R p + 1 < 2 ^ 32"
  shows "\<exists>k'. reference k p = Some k' \<and> counts_ok k' (inc R p) \<and> openFiles k' = openFiles k \<and> same_rest k k'"
proof -
  from assms obtain n where "vheap (vnode_table k) p = Some n"
    by (auto simp: counts_ok_def elim: held_vnode)
  with assms ReferenceVnode_ok [of "vnode_table k" R p n] show ?thesis
    by (auto simp: counts_ok_def reference_def inc_def same_rest_def)
qed

lemma put_ok:
  assumes "counts_ok k (inc R p)"
  shows "\<exists>k'. put C k p = Some k' \<and> counts_ok k' R \<and> openFiles k' = openFiles k \<and> same_rest k k'"
  using assms put_held [of "vnode_table k" R p "fs_of (vfs C (world k))"]
  by (auto simp: counts_ok_def put_def same_rest_def)

lemma descriptor_ok:
  assumes "qlist_ok (openFiles k)"
  shows "descriptor k fd = Some (if 0 \<le> fd \<and> nat fd < length (table k) then table k ! nat fd else None)"
proof -
  from assms obtain junk where l: "openFiles k = shape (table k) junk" by (auto simp: table_def elim: qlist_okE)
  show ?thesis
  proof (cases "0 \<le> fd \<and> nat fd < length (table k)")
    case True
    then have "at (openFiles k) (int (nat fd)) = Some (table k ! nat fd)" unfolding l by (intro at_shape) simp
    with True show ?thesis by (auto simp: descriptor_def l)
  qed (auto simp: descriptor_def l)
qed

lemma set_slot_ok:
  assumes "counts_ok k R" and "i < length (table k)"
  shows "\<exists>k'. set_slot k (int i) d = Some k' \<and> counts_ok k' R \<and> table k' = (table k)[i := d] \<and> same_rest k k'
    \<and> vnode_table k' = vnode_table k"
proof -
  from assms(1) obtain junk where l: "openFiles k = shape (table k) junk" "0 < length (table k) + length junk"
    by (auto simp: table_def counts_ok_def elim: qlist_okE)
  from set_at_shape [OF assms(2), of junk d]
  have "set_slot k (int i) d = Some (k\<lparr>openFiles := shape ((table k)[i := d]) junk\<rparr>)"
    by (simp add: set_slot_def l(1))
  with assms(1) l(2) show ?thesis
    by (auto simp: counts_ok_def same_rest_def table_def intro!: qlist_ok_shape)
qed

text \<open>The lowest number that is not in use.\<close>

lemma first_index_None:
  assumes "\<And>n. t n = (if n < length xs then xs ! n else None)"
  shows "(LEAST n. t n = None) = (if None \<in> set xs then first_index None xs else length xs)"
proof (rule Least_equality)
  let ?n = "if None \<in> set xs then first_index None xs else length xs"
  show "t ?n = None" using first_index_hit [of None xs] by (simp add: assms)
  fix m assume m: "t m = None"
  show "?n \<le> m"
  proof (rule ccontr)
    assume "\<not> ?n \<le> m"
    then have "m < length xs \<and> xs ! m \<noteq> None"
      by (metis first_index_before nth_mem not_le)
    with m show False by (simp add: assms)
  qed
qed

lemma add_descriptor_ok:
  assumes "counts_ok k R" and "heap_ok C"
  shows "\<exists>i k'. add_descriptor C k d = Some (int i, k') \<and> counts_ok k' R \<and> same_rest k k'
    \<and> vnode_table k' = vnode_table k
    \<and> i = (if None \<in> set (table k) then first_index None (table k) else length (table k))
    \<and> table k' = (if None \<in> set (table k) then (table k)[i := Some d] else table k @ [Some d])"
proof -
  from assms(1) obtain junk where l: "openFiles k = shape (table k) junk" "0 < length (table k) + length junk"
    by (auto simp: table_def counts_ok_def elim: qlist_okE)
  from add_shape [OF l(2), of None "Some d"] obtain junk' where
    "add_value True None (openFiles k) (Some d) =
      (if None \<in> set (table k) then Some (int (first_index None (table k)), shape ((table k)[first_index None (table k) := Some d]) junk')
       else Some (int (length (table k)), shape (table k @ [Some d]) junk'))"
    unfolding l(1) by blast
  moreover have "0 < length (table k) + length junk'" if "None \<in> set (table k)" using that by (cases "table k") auto
  ultimately show ?thesis using assms
    by (auto simp: add_descriptor_def counts_ok_def same_rest_def table_def intro!: qlist_ok_shape)
qed

section \<open>Descriptors as a map\<close>

definition fdmap :: "'w kernel \<Rightarrow> nat \<rightharpoonup> FileDescriptor" where
  "fdmap k n = (if n < length (table k) then table k ! n else None)"

definition same_vnode :: "FileDescriptor option \<Rightarrow> addr \<Rightarrow> bool" where
  "same_vnode d p \<longleftrightarrow> map_option node d = Some p"

lemma refs_slot:
  assumes "i < length (table k)" and "table k' = (table k)[i := y]" and "same_rest k k'"
  shows "refs k' p + of_bool (same_vnode (table k ! i) p) = refs k p + of_bool (same_vnode y p)"
  using assms count_list_update [of i "map (map_option node) (table k)" "map_option node y" "Some p"]
  by (simp add: refs_def same_rest_def same_vnode_def map_update)

lemma fdmap_slot:
  "i < length (table k) \<Longrightarrow> table k' = (table k)[i := y] \<Longrightarrow> fdmap k' = (fdmap k)(i := y)"
  by (auto simp: fdmap_def fun_eq_iff)

lemma descriptor_fdmap:
  "qlist_ok (openFiles k) \<Longrightarrow> descriptor k fd = Some (if 0 \<le> fd then fdmap k (nat fd) else None)"
  by (simp add: descriptor_ok fdmap_def)

lemma fdmap_SomeD: "fdmap k i = Some f \<Longrightarrow> i < length (table k) \<and> table k ! i = Some f"
  by (simp add: fdmap_def split: if_splits)

text \<open>A process never holds more references to a vnode than it has descriptors, and one for its directory.\<close>

lemma refs_bound: "refs k p \<le> card (dom (fdmap k)) + 1"
proof -
  have "count_list (map (map_option node) ds) (Some p) \<le> length (filter (\<lambda>d. d \<noteq> None) ds)" for ds
    by (induction ds) auto
  from this [of "table k"]
  have "count_list (map (map_option node) (table k)) (Some p) \<le> length (filter (\<lambda>d. d \<noteq> None) (table k))" .
  also have "\<dots> = card (dom (fdmap k))"
    unfolding length_filter_conv_card by (intro arg_cong [where f = card]) (auto simp: fdmap_def split: if_splits)
  finally show ?thesis by (simp add: refs_def)
qed

lemma close_ok:
  assumes "kernel_ok k r" and "fdmap k i = Some f"
  shows "\<exists>k'. FSUAPI_close C k (int i) = Some (0, k') \<and> kernel_ok k' r \<and> fdmap k' = (fdmap k)(i := None) \<and> same_rest k k'
    \<and> length (table k') = length (table k)"
proof -
  note i = fdmap_SomeD [OF assms(2)]
  have ok: "counts_ok k (\<lambda>p. r p + refs k p)" using assms(1) by (simp add: kernel_ok_def)
  from set_slot_ok [OF ok, of i None] i obtain k1 where
    k1: "set_slot k (int i) None = Some k1" "counts_ok k1 (\<lambda>p. r p + refs k p)" "table k1 = (table k)[i := None]"
    "same_rest k k1" by blast
  have "refs k p = inc (refs k1) (node f) p" for p
    using refs_slot [OF _ k1(3,4), of p] i by (auto simp: same_vnode_def inc_def)
  then have "(\<lambda>p. r p + refs k p) = inc (\<lambda>p. r p + refs k1 p) (node f)" by (auto simp: inc_def fun_eq_iff)
  with k1(2) put_ok [of k1 _ "node f" C] obtain k2 where
    k2: "put C k1 (node f) = Some k2" "counts_ok k2 (\<lambda>p. r p + refs k1 p)" "openFiles k2 = openFiles k1" "same_rest k1 k2"
    by force
  have t: "table k2 = table k1" using k2(3) by (simp add: table_def)
  with k2(4) have "refs k2 = refs k1" by (intro refs_same) (simp_all add: same_rest_def)
  with k2 have "kernel_ok k2 r" by (simp add: kernel_ok_def)
  moreover have "fdmap k2 = (fdmap k)(i := None)" using i k1(3) t by (intro fdmap_slot) simp_all
  moreover have "descriptor k (int i) = Some (Some f)"
    using ok assms(2) by (simp add: descriptor_fdmap counts_ok_def)
  ultimately show ?thesis using k1 k2 t
    by (auto simp: FSUAPI_close_def closePB_def with_descriptor_def intro: same_rest_trans)
qed

text \<open>A new descriptor for a vnode to which one more reference is held.\<close>

lemma add_reference_ok:
  assumes "counts_ok k (inc (\<lambda>p. r p + refs k p) (node d))" and "heap_ok C"
  shows "\<exists>k'. add_descriptor C k d = Some (int (LEAST n. fdmap k n = None), k') \<and> kernel_ok k' r \<and> same_rest k k'
    \<and> fdmap k' = (fdmap k)((LEAST n. fdmap k n = None) \<mapsto> d)"
proof -
  let ?i = "if None \<in> set (table k) then first_index None (table k) else length (table k)"
  have least: "(LEAST n. fdmap k n = None) = ?i" by (rule first_index_None) (simp add: fdmap_def)
  from add_descriptor_ok [OF assms, of d] obtain j k' where
    k': "add_descriptor C k d = Some (int j, k')" "counts_ok k' (inc (\<lambda>p. r p + refs k p) (node d))" "same_rest k k'"
    and j: "j = ?i" "table k' = (if None \<in> set (table k) then (table k)[j := Some d] else table k @ [Some d])" by blast
  have "refs k' p = inc (refs k) (node d) p" for p
  proof (cases "None \<in> set (table k)")
    case True
    then have h: "j < length (table k)" "table k ! j = None" "table k' = (table k)[j := Some d]"
      using first_index_hit [OF True] j by simp_all
    from refs_slot [OF h(1,3) k'(3), of p] h(2) show ?thesis by (simp add: same_vnode_def inc_def)
  next
    case False
    then have "table k' = table k @ [Some d]" using j(2) by simp
    with k'(3) show ?thesis by (simp add: refs_def same_rest_def inc_def)
  qed
  then have "inc (\<lambda>p. r p + refs k p) (node d) = (\<lambda>p. r p + refs k' p)" by (auto simp: inc_def fun_eq_iff)
  with k'(2) have "kernel_ok k' r" by (simp add: kernel_ok_def)
  moreover have "fdmap k' = (fdmap k)(?i \<mapsto> d)"
  proof (cases "None \<in> set (table k)")
    case True
    with first_index_hit [OF True] j show ?thesis by (simp add: fdmap_slot)
  next
    case False
    with j have "table k' = table k @ [Some d]" by simp
    with False show ?thesis by (auto simp: fdmap_def fun_eq_iff nth_append)
  qed
  ultimately show ?thesis using k'(1,3) j(1) unfolding least by blast
qed

lemma hold_descriptor:
  assumes "kernel_ok k r" and "fdmap k i = Some f" and "\<forall>p. r p < 2 ^ 31" and "card (dom (fdmap k)) < 2 ^ 30"
  shows "\<exists>k1. reference k (node f) = Some k1 \<and> counts_ok k1 (inc (\<lambda>p. r p + refs k1 p) (node f))
    \<and> table k1 = table k \<and> openFiles k1 = openFiles k \<and> same_rest k k1"
proof -
  note i = fdmap_SomeD [OF assms(2)]
  have "Some (node f) \<in> set (map (map_option node) (table k))" using i by (force simp: in_set_conv_nth)
  then have "0 < count_list (map (map_option node) (table k)) (Some (node f))"
    using count_list_0_iff by (metis gr0I)
  then have "0 < r (node f) + refs k (node f)" by (simp add: refs_def)
  moreover have "r (node f) + refs k (node f) + 1 < 2 ^ 32"
    using refs_bound [of k "node f"] assms(3) [rule_format, of "node f"] assms(4) by simp
  ultimately obtain k1 where
    k1: "reference k (node f) = Some k1" "counts_ok k1 (inc (\<lambda>p. r p + refs k p) (node f))"
    "openFiles k1 = openFiles k" "same_rest k k1"
    using reference_ok [of k "\<lambda>p. r p + refs k p" "node f"] assms(1) by (auto simp: kernel_ok_def)
  have "refs k1 = refs k" using k1(3,4) by (intro refs_same) (simp_all add: table_def same_rest_def)
  with k1 show ?thesis by (auto simp: table_def)
qed

lemma fdmap_same: "table k' = table k \<Longrightarrow> fdmap k' = fdmap k"
  by (simp add: fdmap_def fun_eq_iff)

lemma fd_eta: "\<lparr>node = node f, fpos = fpos f, fd_flags = fd_flags f\<rparr> = f"
  by simp

lemma fd_or_eta:
  "\<lparr>node = node f, fpos = fpos f, fd_flags = fd_flags f OR fl\<rparr> = f\<lparr>fd_flags := fd_flags f OR fl\<rparr>"
  by simp

lemma dup_ok:
  assumes "kernel_ok k r" and "fdmap k i = Some f" and "\<forall>p. r p < 2 ^ 31" and "card (dom (fdmap k)) < 2 ^ 30"
    and "heap_ok C"
  shows "\<exists>k'. FSUAPI_dup C k (int i) = Some (int (LEAST n. fdmap k n = None), k') \<and> kernel_ok k' r \<and> same_rest k k'
    \<and> fdmap k' = (fdmap k)((LEAST n. fdmap k n = None) \<mapsto> f)"
proof -
  from hold_descriptor [OF assms(1-4)] obtain k1 where
    k1: "reference k (node f) = Some k1" "counts_ok k1 (inc (\<lambda>p. r p + refs k1 p) (node f))"
    "table k1 = table k" "same_rest k k1" by blast
  have "fdmap k1 = fdmap k" by (rule fdmap_same [OF k1(3)])
  with add_reference_ok [OF k1(2) assms(5)] obtain k2 where
    "add_descriptor C k1 f = Some (int (LEAST n. fdmap k n = None), k2)" "kernel_ok k2 r" "same_rest k1 k2"
    "fdmap k2 = (fdmap k)((LEAST n. fdmap k n = None) \<mapsto> f)" by auto
  moreover have "descriptor k (int i) = Some (Some f)"
    using assms(1,2) by (simp add: descriptor_fdmap counts_ok_def kernel_ok_def)
  ultimately show ?thesis using k1 unfolding FSUAPI_dup_def fd_eta
    by (auto simp: with_descriptor_def intro: same_rest_trans)
qed

lemma replace_slot_ok:
  assumes "counts_ok k (inc (\<lambda>p. r p + refs k p) (node d))" and "i < length (table k)" and "table k ! i = None"
  shows "\<exists>k'. set_slot k (int i) (Some d) = Some k' \<and> kernel_ok k' r \<and> same_rest k k' \<and> fdmap k' = (fdmap k)(i \<mapsto> d)"
proof -
  from set_slot_ok [OF assms(1,2), of "Some d"] obtain k' where
    k': "set_slot k (int i) (Some d) = Some k'" "counts_ok k' (inc (\<lambda>p. r p + refs k p) (node d))"
    "table k' = (table k)[i := Some d]" "same_rest k k'" by blast
  have "refs k' p = inc (refs k) (node d) p" for p
    using refs_slot [OF assms(2) k'(3,4), of p] assms(3) by (simp add: same_vnode_def inc_def)
  then have "inc (\<lambda>p. r p + refs k p) (node d) = (\<lambda>p. r p + refs k' p)" by (auto simp: inc_def fun_eq_iff)
  with k' fdmap_slot [OF assms(2) k'(3)] show ?thesis by (simp add: kernel_ok_def)
qed

lemma dup3_ok:
  assumes "kernel_ok k r" and "fdmap k i = Some f" and "\<forall>p. r p < 2 ^ 31" and "card (dom (fdmap k)) < 2 ^ 30"
    and "j < length (table k)" and "j \<noteq> i"
  shows "\<exists>k'. FSUAPI_dup3 C k (int i) (int j) fl = Some (int j, k') \<and> kernel_ok k' r \<and> same_rest k k'
    \<and> fdmap k' = (fdmap k)(j \<mapsto> f\<lparr>fd_flags := fd_flags f OR fl\<rparr>)"
proof -
  let ?d = "f\<lparr>fd_flags := fd_flags f OR fl\<rparr>"
  have q: "qlist_ok (openFiles k)" using assms(1) by (simp add: kernel_ok_def counts_ok_def)
  then obtain junk where l: "openFiles k = shape (table k) junk" by (auto simp: table_def elim: qlist_okE)
  have size: "int j < QList_size (openFiles k)" and atj: "at (openFiles k) (int j) = Some (table k ! j)"
    using assms(5) by (simp_all add: l at_shape)
  have "\<exists>k0. (if table k ! j \<noteq> None then map_option snd (FSUAPI_close C k (int j)) else Some k) = Some k0
      \<and> kernel_ok k0 r \<and> fdmap k0 = (fdmap k)(j := None) \<and> same_rest k k0 \<and> length (table k0) = length (table k)"
  proof (cases "table k ! j")
    case None
    then have "fdmap k = (fdmap k)(j := None)" by (auto simp: fdmap_def fun_eq_iff)
    with None assms(1) show ?thesis by simp
  next
    case (Some g)
    then have "fdmap k j = Some g" using assms(5) by (simp add: fdmap_def)
    from close_ok [OF assms(1) this, of C] Some show ?thesis by auto
  qed
  then obtain k0 where
    k0: "(if table k ! j \<noteq> None then map_option snd (FSUAPI_close C k (int j)) else Some k) = Some k0"
    "kernel_ok k0 r" "fdmap k0 = (fdmap k)(j := None)" "same_rest k k0" "length (table k0) = length (table k)" by blast
  have f: "fdmap k0 i = Some f" using assms(2,6) k0(3) by simp
  have "finite (dom (fdmap k))" by (rule finite_subset [of _ "{..< length (table k)}"]) (auto simp: fdmap_def split: if_splits)
  moreover have "dom (fdmap k0) \<subseteq> dom (fdmap k)" by (auto simp: k0(3))
  ultimately have "card (dom (fdmap k0)) \<le> card (dom (fdmap k))" by (rule card_mono)
  with assms(4) have "card (dom (fdmap k0)) < 2 ^ 30" by linarith
  from hold_descriptor [OF k0(2) f assms(3) this] obtain k1 where
    k1: "reference k0 (node f) = Some k1" "counts_ok k1 (inc (\<lambda>p. r p + refs k1 p) (node ?d))"
    "table k1 = table k0" "same_rest k0 k1" by auto
  have "j < length (table k1)" using k1(3) k0(5) assms(5) by simp
  moreover have "table k1 ! j = None" using k0(3,5) assms(5) k1(3) by (metis fdmap_def fun_upd_same)
  ultimately obtain k2 where
    k2: "set_slot k1 (int j) (Some ?d) = Some k2" "kernel_ok k2 r" "same_rest k1 k2" "fdmap k2 = (fdmap k1)(j \<mapsto> ?d)"
    using replace_slot_ok [OF k1(2)] by blast
  have "fdmap k2 = (fdmap k)(j \<mapsto> ?d)" using k2(4) k0(3) fdmap_same [OF k1(3)] by simp
  moreover have "descriptor k (int i) = Some (Some f)" using q assms(2) by (simp add: descriptor_fdmap)
  ultimately show ?thesis using k0(1,4) k1 k2 assms(6) size atj unfolding FSUAPI_dup3_def fd_or_eta
    by (auto simp: with_descriptor_def intro: same_rest_trans)
qed

section \<open>Specification of the calls on descriptors\<close>

datatype fd_op = Close int | Dup int | Dup2 int int | Dup3 int int u32

definition open_fd :: "(nat \<rightharpoonup> FileDescriptor) \<Rightarrow> int \<Rightarrow> bool" where
  "open_fd t fd \<longleftrightarrow> 0 \<le> fd \<and> t (nat fd) \<noteq> None"

definition lowest_free :: "(nat \<rightharpoonup> FileDescriptor) \<Rightarrow> nat" where
  "lowest_free t = (LEAST n. t n = None)"

definition spec_dup3 :: "(nat \<rightharpoonup> FileDescriptor) \<Rightarrow> int \<Rightarrow> int \<Rightarrow> u32 \<Rightarrow> int \<times> (nat \<rightharpoonup> FileDescriptor)" where
  "spec_dup3 t oldfd newfd fl =
     (if newfd < 0 \<or> \<not> open_fd t oldfd then (- errno_code EBADF, t)
      else if newfd = oldfd then (- errno_code EINVAL, t)
      else (newfd, t(nat newfd := map_option (\<lambda>d. d\<lparr>fd_flags := fd_flags d OR fl\<rparr>) (t (nat oldfd)))))"

fun fd_spec :: "(nat \<rightharpoonup> FileDescriptor) \<Rightarrow> fd_op \<Rightarrow> int \<times> (nat \<rightharpoonup> FileDescriptor)" where
  "fd_spec t (Close fd) = (if open_fd t fd then (0, t(nat fd := None)) else (- errno_code EBADF, t))"
| "fd_spec t (Dup fd) =
     (if open_fd t fd then (int (lowest_free t), t(lowest_free t := t (nat fd))) else (- errno_code EBADF, t))"
| "fd_spec t (Dup2 oldfd newfd) = (if newfd = oldfd then (newfd, t) else spec_dup3 t oldfd newfd 0)"
| "fd_spec t (Dup3 oldfd newfd fl) = spec_dup3 t oldfd newfd fl"

text \<open>
  The limits: fewer than \<open>2 ^ 30\<close> descriptors, and a chosen number must not be above all descriptors in use
  (see \<open>file_calls_go_wrong\<close> for what happens then).
\<close>

definition reachable_fd :: "(nat \<rightharpoonup> FileDescriptor) \<Rightarrow> int \<Rightarrow> int \<Rightarrow> bool" where
  "reachable_fd t oldfd newfd \<longleftrightarrow> (open_fd t oldfd \<and> newfd \<noteq> oldfd \<longrightarrow> (\<exists>j. nat newfd \<le> j \<and> t j \<noteq> None))"

fun fd_pre :: "(nat \<rightharpoonup> FileDescriptor) \<Rightarrow> fd_op \<Rightarrow> bool" where
  "fd_pre t (Close fd) \<longleftrightarrow> True"
| "fd_pre t (Dup fd) \<longleftrightarrow> card (dom t) < 2 ^ 30"
| "fd_pre t (Dup2 oldfd newfd) \<longleftrightarrow> card (dom t) < 2 ^ 30 \<and> reachable_fd t oldfd newfd"
| "fd_pre t (Dup3 oldfd newfd fl) \<longleftrightarrow> card (dom t) < 2 ^ 30 \<and> reachable_fd t oldfd newfd"

fun fd_step :: "'w fs_calls \<Rightarrow> 'w kernel \<Rightarrow> fd_op \<Rightarrow> (int \<times> 'w kernel) option" where
  "fd_step C k (Close fd) = FSUAPI_close C k fd"
| "fd_step C k (Dup fd) = FSUAPI_dup C k fd"
| "fd_step C k (Dup2 oldfd newfd) = FSUAPI_dup2 C k oldfd newfd"
| "fd_step C k (Dup3 oldfd newfd fl) = FSUAPI_dup3 C k oldfd newfd fl"

text \<open>A call on a number that is not open.\<close>

lemma closed_descriptor:
  assumes "kernel_ok k r" and "\<not> open_fd (fdmap k) fd"
  shows "with_descriptor k fd fail f = fail (- errno_code EBADF)"
  using assms by (auto simp: with_descriptor_def kernel_ok_def counts_ok_def descriptor_fdmap open_fd_def)

definition fd_valid :: "(addr \<Rightarrow> nat) \<Rightarrow> 'w kernel \<Rightarrow> 'w kernel \<Rightarrow> bool" where
  "fd_valid r k0 k \<longleftrightarrow> kernel_ok k r \<and> same_rest k0 k \<and> (\<forall>p. r p < 2 ^ 31)"

lemma fd_validI: "fd_valid r k0 k \<Longrightarrow> kernel_ok k' r \<Longrightarrow> same_rest k k' \<Longrightarrow> fd_valid r k0 k'"
  by (auto simp: fd_valid_def intro: same_rest_trans)

lemma dup3_step:
  assumes v: "fd_valid r k0 k" and c: "card (dom (fdmap k)) < 2 ^ 30" and re: "reachable_fd (fdmap k) oldfd newfd"
  shows "\<exists>res k'. FSUAPI_dup3 C k oldfd newfd fl = Some (res, k') \<and> fd_valid r k0 k'
    \<and> spec_dup3 (fdmap k) oldfd newfd fl = (res, fdmap k')"
proof -
  from v have ok: "kernel_ok k r" and r: "\<forall>p. r p < 2 ^ 31" by (simp_all add: fd_valid_def)
  consider "newfd < 0 \<or> \<not> open_fd (fdmap k) oldfd" | "0 \<le> newfd" "open_fd (fdmap k) oldfd" "newfd = oldfd"
    | "0 \<le> newfd" "open_fd (fdmap k) oldfd" "newfd \<noteq> oldfd" by fastforce
  then show ?thesis
  proof cases
    case 1
    then have "FSUAPI_dup3 C k oldfd newfd fl = Some (- errno_code EBADF, k)"
      by (cases "newfd < 0") (simp_all add: FSUAPI_dup3_def closed_descriptor [OF ok] only_def)
    with 1 v show ?thesis by (auto simp: spec_dup3_def)
  next
    case 2
    then have "descriptor k oldfd = Some (fdmap k (nat oldfd))"
      using ok by (simp add: descriptor_fdmap kernel_ok_def counts_ok_def)
    with 2 v show ?thesis
      by (auto simp: spec_dup3_def FSUAPI_dup3_def only_def with_descriptor_def open_fd_def)
  next
    case 3
    then obtain f where f: "0 \<le> oldfd" "fdmap k (nat oldfd) = Some f" by (auto simp: open_fd_def)
    from 3 re obtain j where "nat newfd \<le> j" "fdmap k j \<noteq> None" by (auto simp: reachable_fd_def)
    then have "nat newfd < length (table k)" by (auto simp: fdmap_def split: if_splits)
    moreover have "nat newfd \<noteq> nat oldfd" using 3 f(1) by arith
    ultimately obtain k' where
      "FSUAPI_dup3 C k oldfd newfd fl = Some (newfd, k')" "kernel_ok k' r" "same_rest k k'"
      "fdmap k' = (fdmap k)(nat newfd \<mapsto> f\<lparr>fd_flags := fd_flags f OR fl\<rparr>)"
      using dup3_ok [OF ok f(2) r c, of "nat newfd" C fl] 3 f(1) by auto
    with 3 f v show ?thesis by (auto simp: spec_dup3_def intro: fd_validI)
  qed
qed

lemma fd_step_refines:
  assumes v: "fd_valid r k0 k" and "fd_pre (fdmap k) x" and "heap_ok C"
  shows "\<exists>res k'. fd_step C k x = Some (res, k') \<and> fd_valid r k0 k' \<and> fd_spec (fdmap k) x = (res, fdmap k')"
proof -
  from v have ok: "kernel_ok k r" and r: "\<forall>p. r p < 2 ^ 31" by (simp_all add: fd_valid_def)
  show ?thesis
  proof (cases x)
    case (Close fd)
    show ?thesis
    proof (cases "open_fd (fdmap k) fd")
      case True
      then obtain f where "0 \<le> fd" "fdmap k (nat fd) = Some f" by (auto simp: open_fd_def)
      with close_ok [OF ok this(2), of C] True Close v show ?thesis by (auto intro: fd_validI)
    next
      case False
      with Close v show ?thesis by (simp add: FSUAPI_close_def closePB_def closed_descriptor [OF ok False]) (simp add: only_def)
    qed
  next
    case (Dup fd)
    show ?thesis
    proof (cases "open_fd (fdmap k) fd")
      case True
      then obtain f where f: "0 \<le> fd" "fdmap k (nat fd) = Some f" by (auto simp: open_fd_def)
      with Dup assms(2) dup_ok [OF ok f(2) r _ assms(3)] True v show ?thesis
        by (auto simp: lowest_free_def intro: fd_validI)
    next
      case False
      with Dup v show ?thesis by (simp add: FSUAPI_dup_def closed_descriptor [OF ok False]) (simp add: only_def)
    qed
  next
    case (Dup2 oldfd newfd)
    with dup3_step [OF v, of oldfd newfd C 0] assms(2) v show ?thesis by (auto simp: FSUAPI_dup2_def)
  next
    case (Dup3 oldfd newfd fl)
    with dup3_step [OF v, of oldfd newfd C fl] assms(2) show ?thesis by simp
  qed
qed

text \<open>The calls implement the specification, through the interpretation of \<open>data_refinement\<close>.\<close>

definition fd_fits :: "'w fs_calls \<Rightarrow> (nat \<rightharpoonup> FileDescriptor) \<Rightarrow> fd_op \<Rightarrow> bool" where
  "fd_fits C t x \<longleftrightarrow> heap_ok C \<and> fd_pre t x"

interpretation fd: data_refinement "fd_valid r k0" fdmap "fd_step C" fd_spec "fd_fits C" for r k0 C
proof
  fix k :: "'a kernel" and x
  assume "fd_valid r k0 k" "fd_fits C (fdmap k) x"
  then show "\<exists>res k'. fd_step C k x = Some (res, k') \<and> fd_valid r k0 k' \<and> fd_spec (fdmap k) x = (res, fdmap k')"
    using fd_step_refines [of r k0 k x C] by (simp add: fd_fits_def)
qed

lemma allowed_fits:
  "heap_ok C \<Longrightarrow> allowed fd_pre fd_spec t ops \<Longrightarrow> allowed (fd_fits C) fd_spec t ops"
  by (induction ops arbitrary: t) (simp_all add: fd_fits_def)

section \<open>Properties\<close>

text \<open>
  C5: Every sequence of \<open>close\<close>, \<open>dup\<close>, \<open>dup2\<close> and \<open>dup3\<close> within the limits of \<open>fd_pre\<close> behaves like the
  same operations on a map from numbers to descriptors, in which a duplicate gets the lowest free number;
  it never faults, the reference count of every vnode stays the number of references of others plus those
  the process holds through its descriptors and its directory, and the file systems are not touched.
\<close>
theorem descriptors_refine_map:
  assumes "kernel_ok k r" and "\<forall>p. r p < 2 ^ 31" and "heap_ok C" and "allowed fd_pre fd_spec (fdmap k) ops"
  shows "\<exists>rs k'. crun (fd_step C) k ops = Some (rs, k') \<and> arun fd_spec (fdmap k) ops = (rs, fdmap k')
    \<and> kernel_ok k' r \<and> world k' = world k \<and> currentWorkingDirNode k' = currentWorkingDirNode k
    \<and> (\<forall>p n. vheap (vnode_table k') p = Some n \<longrightarrow> refCount n = r p + refs k' p)"
proof -
  have "fd_valid r k k" using assms(1,2) by (simp add: fd_valid_def)
  from fd.run_refines [OF this allowed_fits [OF assms(3,4)]] obtain rs k' where
    k': "crun (fd_step C) k ops = Some (rs, k')" "fd_valid r k k'" "arun fd_spec (fdmap k) ops = (rs, fdmap k')" by blast
  then have "kernel_ok k' r" "same_rest k k'" by (simp_all add: fd_valid_def)
  moreover from this(1) have "\<forall>p n. vheap (vnode_table k') p = Some n \<longrightarrow> refCount n = r p + refs k' p"
    using vnodes_okD(2) by (fastforce simp: kernel_ok_def counts_ok_def)
  ultimately show ?thesis using k' by (simp add: same_rest_def)
qed

text \<open>A process with one open descriptor, for the same vnode as its directory.\<close>

definition sample_kernel :: "vnode_state \<Rightarrow> addr \<Rightarrow> 'w \<Rightarrow> 'w kernel" where
  "sample_kernel vs p w = \<lparr>vnode_table = vs, world = w, openFiles = shape [Some (new_FileDescriptor p O_RDWR)] [None],
     currentWorkingDirNode = p, umask_value = 0, uid = 0, gid = 0\<rparr>"

lemma sample_kernel_ok:
  "\<exists>vs n. kernel_ok (sample_kernel vs 8 w) (\<lambda>p. 0) \<and> vheap vs 8 = Some n \<and> vid (vnid n) = 1"
proof -
  let ?id = "\<lparr>vid = 1, mountId = 5 :: u32\<rparr>"
  have none: "vnode_map vnode_start ?id = None"
    using vnodes_okD(3) [OF vnode_start_ok, of ?id] by (cases "vnode_map vnode_start ?id") (auto simp: vnode_start_fields)
  from GetVnode_new [OF vnode_start_ok, of 5 8 1] none obtain vs m where vs: "vnodes_ok vs (inc (\<lambda>p. 0) 8)"
    and m: "vheap vs 8 = Some m" "vnid m = ?id"
    by (auto simp: inc_def vnode_start_fields NULL_def)
  from ReferenceVnode_ok [OF vs m(1)] obtain vs' where
    vs': "ReferenceVnode vs 8 = Some vs'" "vnodes_ok vs' (inc (inc (\<lambda>p. 0) 8) 8)" by (auto simp: inc_def)
  from held_vnode [OF vs'(2), of 8] obtain n where n: "vheap vs' 8 = Some n" by (auto simp: inc_def)
  with ReferenceVnode_same [OF vs'(1) n] m have "vid (vnid n) = 1" by (auto simp: same_node_def)
  moreover have "inc (inc (\<lambda>p. 0) 8) 8 = (\<lambda>p. 0 + refs (sample_kernel vs' 8 w) p)"
    by (auto simp: inc_def refs_def table_def sample_kernel_def new_FileDescriptor_def)
  with vs'(2) have "kernel_ok (sample_kernel vs' 8 w) (\<lambda>p. 0)"
    by (simp add: kernel_ok_def counts_ok_def sample_kernel_def qlist_ok_shape)
  ultimately show ?thesis using n by blast
qed

lemma sample_kernel_fdmap: "fdmap (sample_kernel vs p w) = [0 \<mapsto> new_FileDescriptor p O_RDWR]"
  by (auto simp: fdmap_def table_def sample_kernel_def fun_eq_iff)

theorem descriptors_refine_map_witness:
  "\<exists>k C k'. crun (fd_step C) k [Dup 0, Close 0, Dup2 1 0] = Some ([1, 0, 0], k')
    \<and> kernel_ok (k' :: unit kernel) (\<lambda>p. 0)"
proof -
  from sample_kernel_ok [of "()"] obtain vs where ok: "kernel_ok (sample_kernel vs 8 ()) (\<lambda>p. 0)" by blast
  let ?k = "sample_kernel vs 8 ()" and ?ops = "[Dup 0, Close 0, Dup2 1 0]"
  let ?C = "undefined\<lparr>heap_ok := True\<rparr> :: unit fs_calls"
  have C: "heap_ok ?C" by simp
  have low: "lowest_free [0 \<mapsto> d] = 1" for d
    unfolding lowest_free_def by (rule Least_equality) (auto split: if_splits intro: Suc_leI)
  have h: "\<forall>p. (\<lambda>p. 0) p < (2 :: nat) ^ 31" "allowed fd_pre fd_spec (fdmap ?k) ?ops"
    "fst (arun fd_spec (fdmap ?k) ?ops) = [1, 0, 0]"
    by (auto simp: sample_kernel_fdmap open_fd_def low spec_dup3_def reachable_fd_def)
  from descriptors_refine_map [OF ok h(1) C h(2)] h(3) show ?thesis by (metis fst_conv)
qed

end
