(* ===== verification/File_Calls_Properties.thy ===== *)
theory File_Calls_Properties
  imports File_Calls_Refinement
begin

text \<open>
  The file system calls over the file system in memory, the balance of references in the calls on a path,
  and what the calls do wrong.
\<close>

section \<open>The file system in memory behind the calls\<close>

definition ino :: "VNode \<Rightarrow> nat" where
  "ino n = unat (vid (vnid n))"

definition tmpfs_calls :: "TmpInode \<Rightarrow> nat \<Rightarrow> (nat \<Rightarrow> nat \<Rightarrow> u8) \<Rightarrow> tmpfs fs_calls \<Rightarrow> tmpfs fs_calls" where
  "tmpfs_calls junk now blk C = C\<lparr>
     op_type := \<lambda>fs n. TmpFS_type fs (ino n),
     op_size := \<lambda>fs n. map_option (map_prod id int) (TmpFS_size fs (ino n)),
     op_stat := \<lambda>fs n. TmpFS_stat fs (ino n),
     op_access := \<lambda>fs n mode u g. TmpFS_access fs (ino n) mode u g,
     op_read := \<lambda>fs n pos cnt. map_option (\<lambda>r. (r, fs)) (TmpFS_read fs (ino n) pos cnt),
     op_readlink := \<lambda>fs n cnt. TmpFS_readlink fs (ino n) cnt,
     op_write := \<lambda>fs n pos bs. TmpFS_write (heap_block blk) fs (ino n) pos bs,
     op_truncate := \<lambda>fs n len. TmpFS_truncate (heap_block blk) fs (ino n) len,
     op_chmod := \<lambda>fs n mode. TmpFS_chmod fs (ino n) mode,
     op_chown := \<lambda>fs n u g. TmpFS_chown fs (ino n) u g,
     op_utime := \<lambda>fs n a m. TmpFS_utime fs (ino n) a m,
     op_creat := \<lambda>fs n name mode. TmpFS_creat True junk now (heap_block blk 4) fs (ino n) name mode,
     op_mkdir := \<lambda>fs n name mode. TmpFS_mkdir True junk now fs (ino n) name mode,
     op_mknod := \<lambda>fs n name mode dev. TmpFS_mknod True junk now fs (ino n) name mode dev,
     op_unlink := \<lambda>fs n name. TmpFS_unlink fs (ino n) name,
     op_rmdir := \<lambda>fs n name. TmpFS_rmdir fs (ino n) name,
     op_symlink := \<lambda>fs n old name. TmpFS_symlink True junk now fs (ino n) old name,
     op_link := \<lambda>fs n old name. TmpFS_link True fs (ino n) (ino old) name,
     op_rename := \<lambda>fs n old n' new. TmpFS_rename True fs (ino n) old (ino n') new\<rparr>"

lemma tmpfs_calls_rw [simp]:
  "op_read (tmpfs_calls junk now blk C) fs n pos cnt = map_option (\<lambda>r. (r, fs)) (TmpFS_read fs (ino n) pos cnt)"
  "op_write (tmpfs_calls junk now blk C) fs n pos bs = TmpFS_write (heap_block blk) fs (ino n) pos bs"
  by (simp_all add: tmpfs_calls_def)

section \<open>Descriptors\<close>

lemma open_descriptor:
  assumes "kernel_ok k r" and "fdmap k i = Some f"
  shows "with_descriptor k (int i) fail g = g f"
  using assms by (simp add: with_descriptor_def descriptor_fdmap kernel_ok_def counts_ok_def)

lemma kernel_ok_world: "kernel_ok (k\<lparr>world := w\<rparr>) r = kernel_ok k r"
  by (simp add: kernel_ok_def counts_ok_def refs_def[abs_def] table_def)

lemma fdmap_world [simp]: "fdmap (k\<lparr>world := w\<rparr>) = fdmap k"
  by (intro fdmap_same) (simp add: table_def)

lemma move_position:
  assumes "kernel_ok k r" and "fdmap k i = Some f"
  shows "\<exists>k'. set_slot k (int i) (Some (f\<lparr>fpos := p\<rparr>)) = Some k' \<and> kernel_ok k' r
    \<and> fdmap k' = (fdmap k)(i \<mapsto> f\<lparr>fpos := p\<rparr>) \<and> vnode_table k' = vnode_table k \<and> same_rest k k'"
proof -
  note i = fdmap_SomeD [OF assms(2)]
  from set_slot_ok [of k "\<lambda>p. r p + refs k p" i "Some (f\<lparr>fpos := p\<rparr>)"] assms(1) i obtain k' where
    k': "set_slot k (int i) (Some (f\<lparr>fpos := p\<rparr>)) = Some k'" "counts_ok k' (\<lambda>p. r p + refs k p)"
    "table k' = (table k)[i := Some (f\<lparr>fpos := p\<rparr>)]" "same_rest k k'" "vnode_table k' = vnode_table k"
    by (auto simp: kernel_ok_def)
  have "refs k' q = refs k q" for q
    using refs_slot [OF _ k'(3,4), of q] i by (simp add: same_vnode_def)
  with k'(2) have "kernel_ok k' r" by (simp add: kernel_ok_def)
  with k' i show ?thesis by (auto intro: fdmap_slot)
qed

section \<open>Properties\<close>

text \<open>
  C9: On the file system in memory, a write through a descriptor that is open for writing stores the bytes at
  the descriptor's position and moves only that position; reading the range by position returns them, and so
  does a read through any other descriptor of the file that stands at that position and is open for reading.
  References and descriptors stay balanced.
\<close>
theorem write_through_descriptor:
  assumes T: "T = tmpfs_calls junk now blk C"
    and "kernel_ok k r" and "fdmap k i = Some f" and "fd_flags f AND O_ACCMODE \<noteq> O_RDONLY"
    and "vheap (vnode_table k) (node f) = Some n" and "tmpfs_ok (world k)" and "Inode (world k) (ino n) = Some x"
    and "\<not> S_ISDIR (Mode x)" and "bs \<noteq> []" and "length bs < 2 ^ 31" and "fpos f + length bs < 2 ^ 32"
  shows "\<exists>k'. FSUAPI_write T k (int i) bs = Some (int (length bs), k') \<and> kernel_ok k' r \<and> tmpfs_ok (world k')
    \<and> fdmap k' = (fdmap k)(i \<mapsto> f\<lparr>fpos := fpos f + length bs\<rparr>)
    \<and> FSUAPI_pread T k' (int i) (length bs) (fpos f) = Some ((int (length bs), Some bs), k')
    \<and> (\<forall>j g. j \<noteq> i \<longrightarrow> fdmap k j = Some g \<longrightarrow> node g = node f \<longrightarrow> fpos g = fpos f \<longrightarrow>
         fd_flags g AND O_ACCMODE \<noteq> O_WRONLY \<longrightarrow>
         (\<exists>k''. FSUAPI_read T k' (int j) (length bs) = Some ((int (length bs), Some bs), k'') \<and> kernel_ok k'' r))"
proof -
  from write_read_back [OF assms(6-8,10,11), of blk] obtain w where
    y: "TmpFS_write (heap_block blk) (world k) (ino n) (fpos f) bs = Some (int (length bs), w)"
    "tmpfs_ok w" "TmpFS_read w (ino n) (fpos f) (length bs) = Some (int (length bs), bs)" by blast
  let ?k = "k\<lparr>world := w\<rparr>"
  have ok: "kernel_ok ?k r" and f: "fdmap ?k i = Some f" using assms(2,3) by (simp_all add: kernel_ok_world)
  from move_position [OF ok f, of "fpos f + length bs"] obtain k' where
    k': "set_slot ?k (int i) (Some (f\<lparr>fpos := fpos f + length bs\<rparr>)) = Some k'" "kernel_ok k' r"
    "fdmap k' = (fdmap k)(i \<mapsto> f\<lparr>fpos := fpos f + length bs\<rparr>)" "vnode_table k' = vnode_table k" "world k' = w"
    by (auto simp: same_rest_def)
  have "FSUAPI_write T k (int i) bs = Some (int (length bs), k')"
    using assms(4,5,9,11) y(1) k'(1)
    by (simp add: FSUAPI_write_def open_descriptor [OF assms(2,3)] deref_def fs_call_def advance_def T)
  moreover have f': "fdmap k' i = Some (f\<lparr>fpos := fpos f + length bs\<rparr>)" using k'(3) by simp
  have "FSUAPI_pread T k' (int i) (length bs) (fpos f) = Some ((int (length bs), Some bs), k'\<lparr>world := world k'\<rparr>)"
    using assms(5) y(3) k'(4,5)
    by (simp add: FSUAPI_pread_def open_descriptor [OF k'(2) f'] deref_def fs_call_def T)
  moreover have "\<exists>k''. FSUAPI_read T k' (int j) (length bs) = Some ((int (length bs), Some bs), k'') \<and> kernel_ok k'' r"
    if g: "j \<noteq> i" "fdmap k j = Some g" "node g = node f" "fpos g = fpos f" "fd_flags g AND O_ACCMODE \<noteq> O_WRONLY" for j g
  proof -
    have g': "fdmap k' j = Some g" using g(1,2) k'(3) by simp
    from move_position [OF k'(2) g', of "fpos g + length bs"] obtain k'' where
      "set_slot k' (int j) (Some (g\<lparr>fpos := fpos g + length bs\<rparr>)) = Some k''" "kernel_ok k'' r" by blast
    moreover have e: "k'\<lparr>world := w\<rparr> = k'" using k'(5) by simp
    ultimately show ?thesis using assms(5,9,11) y(3) k'(4,5) g
      by (simp add: FSUAPI_read_def open_descriptor [OF k'(2) g'] deref_def fs_call_def advance_def T e)
  qed
  ultimately show ?thesis using k' y(2) by auto
qed

theorem write_through_descriptor_witness:
  "\<forall>junk now C. \<exists>k k'. kernel_ok k (\<lambda>p. 0)
    \<and> FSUAPI_write (tmpfs_calls junk now (\<lambda>_ _. 0) C) k 0 [9, 8] = Some (2, k')
    \<and> FSUAPI_pread (tmpfs_calls junk now (\<lambda>_ _. 0) C) k' 0 2 0 = Some ((2, Some [9, 8]), k')"
proof (intro allI)
  fix junk now C
  let ?fs = "[None, Some (sample_inode S_IFREG [1, 2, 3])]" and ?f = "new_FileDescriptor 8 O_RDWR"
  from sample_kernel_ok [of ?fs] obtain vs n where k: "kernel_ok (sample_kernel vs 8 ?fs) (\<lambda>p. 0)"
    "vheap vs 8 = Some n" "vid (vnid n) = 1" by blast
  let ?k = "sample_kernel vs 8 ?fs"
  have h: "fdmap ?k 0 = Some ?f" "fd_flags ?f AND O_ACCMODE \<noteq> O_RDONLY" "vheap (vnode_table ?k) (node ?f) = Some n"
    "tmpfs_ok (world ?k)" "Inode (world ?k) (ino n) = Some (sample_inode S_IFREG [1, 2, 3])"
    "\<not> S_ISDIR (Mode (sample_inode S_IFREG [1, 2, 3]))" "[9, 8 :: u8] \<noteq> []" "length [9, 8 :: u8] < 2 ^ 31"
    "fpos ?f + length [9, 8 :: u8] < 2 ^ 32"
    using k(2,3) sample_ok
    by (simp_all add: sample_kernel_fdmap) (simp_all add: new_FileDescriptor_def O_ACCMODE_def O_RDONLY_def O_RDWR_def
        sample_kernel_def ino_def)
  from write_through_descriptor [OF refl k(1) h, of junk now "\<lambda>_ _. 0" C] obtain k' where
    "FSUAPI_write (tmpfs_calls junk now (\<lambda>_ _. 0) C) ?k (int 0) [9, 8] = Some (int (length [9, 8 :: u8]), k')"
    "FSUAPI_pread (tmpfs_calls junk now (\<lambda>_ _. 0) C) k' (int 0) (length [9, 8 :: u8]) (fpos ?f)
      = Some ((int (length [9, 8 :: u8]), Some [9, 8]), k')" by blast
  then have "FSUAPI_write (tmpfs_calls junk now (\<lambda>_ _. 0) C) ?k 0 [9, 8] = Some (2, k')"
    "FSUAPI_pread (tmpfs_calls junk now (\<lambda>_ _. 0) C) k' 0 2 0 = Some ((2, Some [9, 8]), k')"
    by (simp_all add: new_FileDescriptor_def numeral_2_eq_2)
  with k(1) show "\<exists>k k'. kernel_ok k (\<lambda>p. 0) \<and> FSUAPI_write (tmpfs_calls junk now (\<lambda>_ _. 0) C) k 0 [9, 8] = Some (2, k')
      \<and> FSUAPI_pread (tmpfs_calls junk now (\<lambda>_ _. 0) C) k' 0 2 0 = Some ((2, Some [9, 8]), k')" by blast
qed

section \<open>The calls on a path\<close>

text \<open>
  The calls that resolve a path and ask its vnode, with their arguments. \<open>cpy\<close> is the result of the copy to
  the caller, \<open>tmp\<close> whether \<open>readlink\<close> gets its buffer, \<open>t\<close> the copied times or an error number.
\<close>

datatype path_request =
  Access u32 | Truncate nat | Chmod u16 | Chown nat nat | Lchown nat nat | Utime "errno + nat \<times> nat" | Chdir
  | Stat int | Lstat int | Stat64 int | Lstat64 int | Statfs int | Readlink nat bool int

definition status :: "((int \<times> 'd) \<times> 'k) option \<Rightarrow> (int \<times> 'k) option" where
  "status = map_option (\<lambda>((res, _), k). (res, k))"

fun do_request :: "'w fs_calls \<Rightarrow> 'w kernel \<Rightarrow> errno + fname \<Rightarrow> path_request \<Rightarrow> (int \<times> 'w kernel) option" where
  "do_request C k path (Access mode) = FSUAPI_access C k path mode"
| "do_request C k path (Truncate len) = FSUAPI_truncate C k path len"
| "do_request C k path (Chmod mode) = FSUAPI_chmod C k path mode"
| "do_request C k path (Chown owner grp) = FSUAPI_chown C k path owner grp"
| "do_request C k path (Lchown owner grp) = FSUAPI_lchown C k path owner grp"
| "do_request C k path (Utime t) = FSUAPI_utime C k path t"
| "do_request C k path Chdir = FSUAPI_chdir C k path"
| "do_request C k path (Stat cpy) = status (FSUAPI_stat C k path cpy)"
| "do_request C k path (Lstat cpy) = status (FSUAPI_lstat C k path cpy)"
| "do_request C k path (Stat64 cpy) = status (FSUAPI_stat64 C k path cpy)"
| "do_request C k path (Lstat64 cpy) = status (FSUAPI_lstat64 C k path cpy)"
| "do_request C k path (Statfs cpy) = status (FSUAPI_statfs C k path cpy)"
| "do_request C k path (Readlink cnt tmp cpy) = status (FSUAPI_readlink C k path cnt tmp cpy)"

text \<open>Whether a symbolic link at the end of the path is followed.\<close>

fun follows :: "path_request \<Rightarrow> bool" where
  "follows (Truncate _) = True" | "follows (Chmod _) = True" | "follows (Chown _ _) = True" | "follows Chdir = True"
| "follows (Stat _) = True" | "follows (Stat64 _) = True" | "follows _ = False"

text \<open>What the caller gets from the vnode \<open>n\<close>, and the file systems afterwards.\<close>

definition copied_out :: "'w \<Rightarrow> int \<Rightarrow> (int \<times> 'd) option \<Rightarrow> (int \<times> 'w) option" where
  "copied_out w cpy = map_option (\<lambda>(res, _). (if res < 0 then res else if cpy < 0 then cpy else res, w))"

fun answer :: "'w fs_calls \<Rightarrow> nat \<Rightarrow> nat \<Rightarrow> 'w \<Rightarrow> VNode \<Rightarrow> path_request \<Rightarrow> (int \<times> 'w) option" where
  "answer C u g w n (Access mode) = map_option (\<lambda>res. (res, w)) (op_access C w n mode u g)"
| "answer C u g w n (Truncate len) = op_truncate C w n len"
| "answer C u g w n (Chmod mode) = op_chmod C w n mode"
| "answer C u g w n (Chown owner grp) = op_chown C w n owner grp"
| "answer C u g w n (Lchown owner grp) = op_chown C w n owner grp"
| "answer C u g w n (Utime t) = (case t of Inl e \<Rightarrow> Some (- errno_code e, w) | Inr (a, m) \<Rightarrow> op_utime C w n a m)"
| "answer C u g w n Chdir = map_option (\<lambda>(res, type).
     (if res < 0 then res else if type AND S_IFDIR = 0 then - errno_code ENOTDIR else 0, w)) (op_type C w n)"
| "answer C u g w n (Stat cpy) = copied_out w cpy (op_stat C w n)"
| "answer C u g w n (Lstat cpy) = copied_out w cpy (op_stat C w n)"
| "answer C u g w n (Stat64 cpy) = copied_out w cpy (op_stat C w n)"
| "answer C u g w n (Lstat64 cpy) = copied_out w cpy (op_stat C w n)"
| "answer C u g w n (Statfs cpy) = copied_out w cpy (op_statfs C w n)"
| "answer C u g w n (Readlink cnt tmp cpy) =
     (if tmp then copied_out w cpy (op_readlink C w n cnt) else Some (- errno_code ENOMEM, w))"

text \<open>The vnode on which a reference is left that no table and no process knows of, if there is one.\<close>

fun forgotten :: "path_request \<Rightarrow> int \<Rightarrow> addr \<Rightarrow> addr \<Rightarrow> addr option" where
  "forgotten (Lchown _ _) res nd cwd = Some nd"
| "forgotten (Utime t) res nd cwd = (case t of Inl _ \<Rightarrow> Some nd | Inr _ \<Rightarrow> None)"
| "forgotten (Readlink _ tmp _) res nd cwd = (if tmp then None else Some nd)"
| "forgotten Chdir res nd cwd = (if res = 0 then Some cwd else None)"
| "forgotten _ res nd cwd = None"

definition with_forgotten :: "(addr \<Rightarrow> nat) \<Rightarrow> addr option \<Rightarrow> addr \<Rightarrow> nat" where
  "with_forgotten r v = (case v of None \<Rightarrow> r | Some p \<Rightarrow> inc r p)"

lemma put_back:
  assumes "kernel_ok k (inc r nd)"
  shows "\<exists>k'. put C (k\<lparr>world := w\<rparr>) nd = Some k' \<and> kernel_ok k' r \<and> world k' = w
    \<and> currentWorkingDirNode k' = currentWorkingDirNode k"
proof -
  have "inc (\<lambda>p. r p + refs k p) nd = (\<lambda>p. inc r nd p + refs k p)" by (auto simp: inc_def)
  with assms have "counts_ok (k\<lparr>world := w\<rparr>) (inc (\<lambda>p. r p + refs k p) nd)"
    by (simp add: kernel_ok_def counts_ok_def)
  from put_ok [OF this, of C] obtain k' where
    k': "put C (k\<lparr>world := w\<rparr>) nd = Some k'" "counts_ok k' (\<lambda>p. r p + refs k p)" "openFiles k' = openFiles k"
    "same_rest (k\<lparr>world := w\<rparr>) k'" by auto
  then have "refs k' = refs k" by (intro refs_same) (simp_all add: table_def same_rest_def)
  with k' show ?thesis by (simp add: kernel_ok_def same_rest_def)
qed

lemma change_directory:
  assumes "kernel_ok k (inc r nd)"
  shows "kernel_ok (k\<lparr>currentWorkingDirNode := nd\<rparr>) (inc r (currentWorkingDirNode k))"
proof -
  have "(\<lambda>p. inc r (currentWorkingDirNode k) p + refs (k\<lparr>currentWorkingDirNode := nd\<rparr>) p) = (\<lambda>p. inc r nd p + refs k p)"
    by (auto simp: inc_def refs_def table_def)
  with assms show ?thesis by (simp add: kernel_ok_def counts_ok_def)
qed

lemmas path_call_defs = FSUAPI_access_def FSUAPI_truncate_def FSUAPI_chmod_def FSUAPI_chown_def

lemmas path_query_defs = FSUAPI_stat_def FSUAPI_lstat_def FSUAPI_stat64_def FSUAPI_lstat64_def FSUAPI_statfs_def

lemmas path_own_defs = FSUAPI_lchown_def FSUAPI_utime_def FSUAPI_chdir_def FSUAPI_readlink_def

lemma put_back_same:
  assumes "kernel_ok k (inc r nd)"
  shows "\<exists>k'. put C k nd = Some k' \<and> kernel_ok k' r \<and> world k' = world k \<and> currentWorkingDirNode k' = currentWorkingDirNode k"
  using put_back [OF assms, of C "world k"] by simp

lemma path_call_balance:
  assumes "resolve C k (currentWorkingDirNode k) path leaf = Some (0, nd, k1)" and "kernel_ok k1 (inc r nd)"
    and "deref k1 nd = Some n" and "f (world k1) n = Some (a, w)"
  shows "\<exists>k'. path_call C k (Inr path) leaf f = Some (a, k') \<and> world k' = w \<and> kernel_ok k' r
    \<and> currentWorkingDirNode k' = currentWorkingDirNode k1"
  using put_back [OF assms(2), of C w] assms by (auto simp: path_call_def fs_call_def)

lemma path_query_balance:
  assumes "resolve C k (currentWorkingDirNode k) path leaf = Some (0, nd, k1)" and "kernel_ok k1 (inc r nd)"
    and "deref k1 nd = Some n" and "copied_out (world k1) cpy (f (world k1) n) = Some (a, w)"
  shows "\<exists>k'. status (path_query C k (Inr path) leaf cpy f) = Some (a, k') \<and> world k' = w \<and> kernel_ok k' r
    \<and> currentWorkingDirNode k' = currentWorkingDirNode k1"
proof -
  from put_back_same [OF assms(2), of C] obtain k2 where
    "put C k1 nd = Some k2" "kernel_ok k2 r" "world k2 = world k1" "currentWorkingDirNode k2 = currentWorkingDirNode k1"
    by blast
  moreover from assms(4) obtain res d where "f (world k1) n = Some (res, d)"
    "a = (if res < 0 then res else if cpy < 0 then cpy else res)" "w = world k1" by (auto simp: copied_out_def)
  ultimately show ?thesis using assms(1,3) by (simp add: path_query_def status_def no_data_def)
qed

lemma copied_map [simp]: "copied_out w cpy (map_option (map_prod id g) x) = copied_out w cpy x"
  by (cases x) (auto simp: copied_out_def)

text \<open>
  C31: The calls on a path: \<open>access\<close>, \<open>truncate\<close>, \<open>chmod\<close>, \<open>chown\<close>, \<open>lchown\<close>, \<open>utime\<close>, \<open>chdir\<close>, \<open>stat\<close>, \<open>lstat\<close>,
  their 64-bit variants, \<open>statfs\<close> and \<open>readlink\<close>. A path that cannot be copied or resolved gives its error
  and changes nothing else. Otherwise the caller gets what the file system answers for the vnode, or the
  error of the copy to the caller, and the reference the resolution took is given back, so all counts are as
  before, whatever the answer. The exceptions leave one reference behind: \<open>lchown\<close> always, \<open>utime\<close> when the
  times cannot be copied, \<open>readlink\<close> without memory, and \<open>chdir\<close> to a directory, which keeps the one to the
  old directory.
\<close>
theorem path_calls_balance:
  assumes "kernel_ok k r" and "resolve C k (currentWorkingDirNode k) path (follows q) = Some (res, nd, k1)"
  shows "(\<forall>e. do_request C k (Inl e) q = Some (- errno_code e, k))
    \<and> (res < 0 \<longrightarrow> do_request C k (Inr path) q = Some (res, k1))
    \<and> (\<forall>n a w. res = 0 \<longrightarrow> kernel_ok k1 (inc r nd) \<longrightarrow> currentWorkingDirNode k1 = currentWorkingDirNode k
         \<longrightarrow> deref k1 nd = Some n \<longrightarrow> answer C (uid k) (gid k) (world k1) n q = Some (a, w) \<longrightarrow>
       (\<exists>k'. do_request C k (Inr path) q = Some (a, k') \<and> world k' = w
          \<and> kernel_ok k' (with_forgotten r (forgotten q a nd (currentWorkingDirNode k)))
          \<and> currentWorkingDirNode k' = (if q = Chdir \<and> a = 0 then nd else currentWorkingDirNode k)))"
proof (intro conjI allI impI)
  show "do_request C k (Inl e) q = Some (- errno_code e, k)" for e
    by (cases q) (simp_all add: path_call_defs path_query_defs path_own_defs path_call_def path_query_def status_def no_data_def)
  show "do_request C k (Inr path) q = Some (res, k1)" if "res < 0"
    using that assms(2)
    by (cases q) (simp_all add: path_call_defs path_query_defs path_own_defs path_call_def path_query_def status_def no_data_def)
  fix n a w
  assume h: "res = 0" "kernel_ok k1 (inc r nd)" "currentWorkingDirNode k1 = currentWorkingDirNode k"
    "deref k1 nd = Some n" and a: "answer C (uid k) (gid k) (world k1) n q = Some (a, w)"
  note res = assms(2) [unfolded h(1)]
  note call = path_call_balance [OF _ h(2,4), of C k path] and query = path_query_balance [OF _ h(2,4), of C k path]
  show "\<exists>k'. do_request C k (Inr path) q = Some (a, k') \<and> world k' = w
      \<and> kernel_ok k' (with_forgotten r (forgotten q a nd (currentWorkingDirNode k)))
      \<and> currentWorkingDirNode k' = (if q = Chdir \<and> a = 0 then nd else currentWorkingDirNode k)"
  proof (cases q)
    case (Lchown owner grp)
    then show ?thesis using res h a by (auto simp: FSUAPI_lchown_def fs_call_def with_forgotten_def kernel_ok_world)
  next
    case (Utime t)
    then show ?thesis using res h a put_back [OF h(2), of C w]
      by (cases t) (auto simp: FSUAPI_utime_def fs_call_def with_forgotten_def)
  next
    case Chdir
    then show ?thesis using res h a put_back_same [OF h(2), of C] change_directory [OF h(2)]
      by (auto simp: FSUAPI_chdir_def with_forgotten_def split: if_splits)
  next
    case (Readlink cnt tmp cpy)
    then show ?thesis using res h a put_back_same [OF h(2), of C]
      by (cases tmp) (auto simp: FSUAPI_readlink_def with_forgotten_def copied_out_def status_def no_data_def split: if_splits)
  next
    case (Access mode)
    then show ?thesis
      using res a h(3) call [of False "\<lambda>w n. map_option (\<lambda>res. (res, w)) (op_access C w n mode (uid k) (gid k))" a w]
      by (auto simp: FSUAPI_access_def with_forgotten_def)
  next
    case (Stat64 cpy)
    then show ?thesis
      using res a h(3) query [of True cpy "\<lambda>w n. map_option (map_prod id to_stat64) (op_stat C w n)" a w]
      by (simp add: FSUAPI_stat64_def with_forgotten_def)
  next
    case (Lstat64 cpy)
    then show ?thesis
      using res a h(3) query [of False cpy "\<lambda>w n. map_option (map_prod id to_stat64) (op_stat C w n)" a w]
      by (simp add: FSUAPI_lstat64_def with_forgotten_def)
  qed (use res a h(3) call query in \<open>auto simp: with_forgotten_def path_call_defs path_query_defs\<close>)
qed

text \<open>Resolving the empty path takes a reference to the directory of the process.\<close>

lemma resolve_empty:
  assumes "kernel_ok k r" and "0 < refs k (currentWorkingDirNode k)"
    and "r (currentWorkingDirNode k) + refs k (currentWorkingDirNode k) + 1 < 2 ^ 32" and "currentWorkingDirNode k \<noteq> NULL"
  shows "\<exists>k1. resolve C k (currentWorkingDirNode k) [] leaf = Some (0, currentWorkingDirNode k, k1)
    \<and> kernel_ok k1 (inc r (currentWorkingDirNode k)) \<and> currentWorkingDirNode k1 = currentWorkingDirNode k
    \<and> reference k (currentWorkingDirNode k) = Some k1 \<and> world k1 = world k \<and> openFiles k1 = openFiles k"
proof -
  let ?p = "currentWorkingDirNode k"
  from assms reference_ok [of k "\<lambda>p. r p + refs k p" ?p] obtain k1 where
    k1: "reference k ?p = Some k1" "counts_ok k1 (inc (\<lambda>p. r p + refs k p) ?p)" "openFiles k1 = openFiles k" "same_rest k k1"
    by (auto simp: kernel_ok_def)
  have "refs k1 = refs k" using k1(3,4) by (intro refs_same) (simp_all add: table_def same_rest_def)
  then have "inc (\<lambda>p. r p + refs k p) ?p = (\<lambda>p. inc r ?p p + refs k1 p)" by (auto simp: inc_def)
  with k1(2) have "kernel_ok k1 (inc r ?p)" by (simp add: kernel_ok_def)
  moreover have "resolve C k ?p [] leaf = Some (0, ?p, k1)"
    using k1(1) assms(4)
    by (auto simp: resolve_def RelativePathToVnode_def start_of_def absolute_def reference_def walk.simps)
  ultimately show ?thesis using k1 by (simp add: same_rest_def)
qed

theorem path_calls_balance_witness:
  "\<exists>k k' k''. kernel_ok (k :: unit kernel) (\<lambda>p. 0)
    \<and> do_request (undefined\<lparr>op_chown := \<lambda>w n u g. Some (7, w)\<rparr>) k (Inr []) (Chown 1 1) = Some (7, k')
    \<and> kernel_ok k' (\<lambda>p. 0)
    \<and> do_request (undefined\<lparr>op_chown := \<lambda>w n u g. Some (7, w)\<rparr>) k (Inr []) (Lchown 1 1) = Some (7, k'')
    \<and> kernel_ok k'' (inc (\<lambda>p. 0) 8)"
proof -
  let ?C = "undefined\<lparr>op_chown := \<lambda>w n u g. Some (7 :: int, w :: unit)\<rparr>"
  from sample_kernel_ok [of "()"] obtain vs where k: "kernel_ok (sample_kernel vs 8 ()) (\<lambda>p. 0)" by blast
  let ?k = "sample_kernel vs 8 ()"
  have cwd: "currentWorkingDirNode ?k = 8" and two: "refs ?k 8 = 2"
    by (simp_all add: sample_kernel_def refs_def table_def new_FileDescriptor_def)
  have k1: "\<exists>k1. resolve ?C ?k (currentWorkingDirNode ?k) [] leaf = Some (0, 8, k1) \<and> kernel_ok k1 (inc (\<lambda>p. 0) 8)
      \<and> currentWorkingDirNode k1 = currentWorkingDirNode ?k \<and> (\<exists>n. deref k1 8 = Some n)" for leaf
  proof -
    from resolve_empty [OF k, of ?C leaf] obtain k1 where
      k1: "resolve ?C ?k (currentWorkingDirNode ?k) [] leaf = Some (0, 8, k1)" "kernel_ok k1 (inc (\<lambda>p. 0) 8)"
      "currentWorkingDirNode k1 = currentWorkingDirNode ?k"
      by (auto simp: cwd two NULL_def)
    moreover from held_vnode [of "vnode_table k1" "\<lambda>p. inc (\<lambda>p. 0) 8 p + refs k1 p" 8] k1(2) obtain n where
      "deref k1 8 = Some n" by (auto simp: kernel_ok_def counts_ok_def deref_def)
    ultimately show ?thesis by blast
  qed
  from k1 [of "follows (Chown 1 1)"] path_calls_balance [OF k, of ?C "[]" "Chown 1 1"] obtain k' where
    "do_request ?C ?k (Inr []) (Chown 1 1) = Some (7, k')" "kernel_ok k' (\<lambda>p. 0)"
    by (fastforce simp: with_forgotten_def)
  moreover from k1 [of "follows (Lchown 1 1)"] path_calls_balance [OF k, of ?C "[]" "Lchown 1 1"] obtain k'' where
    "do_request ?C ?k (Inr []) (Lchown 1 1) = Some (7, k'')" "kernel_ok k'' (inc (\<lambda>p. 0) 8)"
    by (fastforce simp: with_forgotten_def)
  ultimately show ?thesis using k by blast
qed

section \<open>What goes wrong\<close>

lemma seekless_types:
  assumes "m AND S_IFMT \<in> {S_IFREG, S_IFDIR, S_IFLNK, S_IFSOCK, S_IFFIFO}"
  shows "m AND (S_IFFIFO OR S_IFSOCK) \<noteq> 0"
proof -
  have "m AND (S_IFFIFO OR S_IFSOCK) = (m AND S_IFMT) AND (S_IFFIFO OR S_IFSOCK)"
    by (simp add: S_IFFIFO_def S_IFSOCK_def S_IFMT_def and.assoc)
  with assms show ?thesis
    by (auto simp: S_IFFIFO_def S_IFSOCK_def S_IFMT_def S_IFREG_def S_IFDIR_def S_IFLNK_def)
qed

text \<open>
  C35: What the calls on descriptors do wrong: \<open>lseek\<close> answers \<open>-ESPIPE\<close> for every regular file and directory;
  \<open>dup2\<close> to a number above the table writes outside it; \<open>dup2\<close> of a number that is not open to itself
  succeeds; and \<open>fchdir\<close> keeps a reference to the old directory.
\<close>
theorem descriptor_calls_go_wrong:
  assumes "kernel_ok k r" and "fdmap k i = Some f" and "deref k (node f) = Some n"
  shows "(op_type C (world k) n = Some (0, type) \<longrightarrow> type AND S_IFMT \<in> {S_IFREG, S_IFDIR, S_IFLNK} \<longrightarrow>
        FSUAPI_lseek C k (int i) offset whence = Some (- errno_code ESPIPE, k))
    \<and> (heap_ok C \<longrightarrow> length (table k) \<le> j \<longrightarrow> FSUAPI_dup2 C k (int i) (int j) = None)
    \<and> FSUAPI_dup2 C k fd fd = Some (fd, k)
    \<and> (op_type C (world k) n = Some (0, type) \<longrightarrow> type AND S_IFDIR \<noteq> 0 \<longrightarrow>
        r (node f) + refs k (node f) + 1 < 2 ^ 32 \<longrightarrow>
        (\<exists>k'. FSUAPI_fchdir C k (int i) = Some (0, k') \<and> kernel_ok k' (inc r (currentWorkingDirNode k))))"
proof (intro conjI impI)
  note wd = open_descriptor [OF assms(1,2)]
  show "FSUAPI_lseek C k (int i) offset whence = Some (- errno_code ESPIPE, k)"
    if "op_type C (world k) n = Some (0, type)" "type AND S_IFMT \<in> {S_IFREG, S_IFDIR, S_IFLNK}"
    using that seekless_types [of type] assms(3) by (auto simp: FSUAPI_lseek_def wd only_def)
  show "FSUAPI_dup2 C k (int i) (int j) = None" if "heap_ok C" "length (table k) \<le> j"
  proof -
    have i: "i < length (table k)" using fdmap_SomeD [OF assms(2)] by simp
    from assms(1) obtain junk where l: "openFiles k = shape (table k) junk"
      by (auto simp: table_def kernel_ok_def counts_ok_def elim: qlist_okE)
    have re: "resize True None (openFiles k) (int j) = Some (shape (table k @ replicate (j - length (table k)) None) [])"
      using that(2) by (simp add: l resize_shape)
    have "set_at (shape (table k @ replicate (j - length (table k)) None) []) (int j) d = None" for d
      using that(2) by (simp add: set_at_def)
    then show ?thesis using that i re
      by (auto simp: FSUAPI_dup2_def FSUAPI_dup3_def wd l set_slot_def reference_def split: Option.bind_splits)
  qed
  show "FSUAPI_dup2 C k fd fd = Some (fd, k)" by (simp add: FSUAPI_dup2_def)
  show "\<exists>k'. FSUAPI_fchdir C k (int i) = Some (0, k') \<and> kernel_ok k' (inc r (currentWorkingDirNode k))"
    if "op_type C (world k) n = Some (0, type)" "type AND S_IFDIR \<noteq> 0" "r (node f) + refs k (node f) + 1 < 2 ^ 32"
  proof -
    have "0 < r (node f) + refs k (node f)"
      using vnodes_okD(2) [of "vnode_table k" "\<lambda>p. r p + refs k p" "node f" n] assms(1,3)
      by (simp add: kernel_ok_def counts_ok_def deref_def)
    with that(3) reference_ok [of k "\<lambda>p. r p + refs k p" "node f"] assms(1) obtain k1 where
      k1: "reference k (node f) = Some k1" "counts_ok k1 (inc (\<lambda>p. r p + refs k p) (node f))"
      "openFiles k1 = openFiles k" "same_rest k k1" by (auto simp: kernel_ok_def)
    let ?k = "k1\<lparr>currentWorkingDirNode := node f\<rparr>"
    have "(\<lambda>p. inc r (currentWorkingDirNode k) p + refs ?k p) = inc (\<lambda>p. r p + refs k p) (node f)"
      using k1(3) by (auto simp: inc_def refs_def table_def)
    then have "kernel_ok ?k (inc r (currentWorkingDirNode k))" using k1(2) by (simp add: kernel_ok_def counts_ok_def)
    with that(1,2) k1(1) assms(3) show ?thesis by (auto simp: FSUAPI_fchdir_def wd)
  qed
qed

theorem descriptor_calls_go_wrong_witness:
  "\<forall>C. \<exists>k. kernel_ok (k :: unit kernel) (\<lambda>p. 0)
    \<and> FSUAPI_dup2 (C\<lparr>heap_ok := True\<rparr>) k 0 5 = None \<and> FSUAPI_dup2 C k 9 9 = Some (9, k)"
proof
  fix C :: "unit fs_calls"
  let ?f = "new_FileDescriptor 8 O_RDWR"
  from sample_kernel_ok [of "()"] obtain vs n where k: "kernel_ok (sample_kernel vs 8 ()) (\<lambda>p. 0)"
    "vheap vs 8 = Some n" by blast
  let ?k = "sample_kernel vs 8 ()"
  have h: "fdmap ?k 0 = Some ?f" "deref ?k (node ?f) = Some n"
    using k(2) by (simp_all add: sample_kernel_fdmap deref_def new_FileDescriptor_def) (simp add: sample_kernel_def)
  have len: "length (table ?k) \<le> 5" by (simp add: table_def sample_kernel_def)
  note w = descriptor_calls_go_wrong [OF k(1) h]
  from w [of "C\<lparr>heap_ok := True\<rparr>" 0 0 0 5 0] w [of C 0 0 0 5 9] len k(1)
  show "\<exists>k. kernel_ok (k :: unit kernel) (\<lambda>p. 0)
      \<and> FSUAPI_dup2 (C\<lparr>heap_ok := True\<rparr>) k 0 5 = None \<and> FSUAPI_dup2 C k 9 9 = Some (9, k)" by auto
qed

lemma path_token_top: "SLASH \<notin> set name \<Longrightarrow> path_token name i tok = tok"
  by (induction name i tok rule: path_token.induct) auto

text \<open>
  C34: Creating a file. \<open>open\<close> with \<open>O_CREAT\<close> of a name that does not exist returns a descriptor for the
  directory of the new file, not for the file, and does so also when the creation failed; and the parent of a
  path with one name after a leading slash is taken to be the directory of the process, not the root.
\<close>
theorem create_goes_wrong:
  assumes "resolve C k (currentWorkingDirNode k) p True = Some (e, x, k1)" and "e < 0" and "flags AND O_CREAT \<noteq> 0"
    and "pathToParentAndName C k1 p = Some ((0, dir, name), k2)" and "isValidUserFileName name = 0"
    and "deref k2 dir = Some n" and "op_creat C (world k2) n name 0 = Some (c, w)"
    and "kernel_ok k2 (inc r dir)" and "heap_ok C"
  shows "(\<exists>fd k'. FSUAPI_open C k (Inr p) flags = Some (int fd, k') \<and> kernel_ok k' r
      \<and> fdmap k' fd = Some (new_FileDescriptor dir flags))
    \<and> (\<forall>name. plain_name name \<longrightarrow> pathToParentAndName C k (SLASH # name)
        = map_option (\<lambda>k'. ((0, currentWorkingDirNode k, name), k')) (reference k (currentWorkingDirNode k)))"
proof (intro conjI allI impI)
  let ?k = "k2\<lparr>world := w\<rparr>" and ?d = "new_FileDescriptor dir flags"
  have "inc (\<lambda>p. r p + refs ?k p) (node ?d) = (\<lambda>p. inc r dir p + refs k2 p)"
    by (auto simp: inc_def refs_def table_def new_FileDescriptor_def)
  with assms(8) have "counts_ok ?k (inc (\<lambda>p. r p + refs ?k p) (node ?d))" by (simp add: kernel_ok_def counts_ok_def)
  from add_reference_ok [OF this assms(9)] obtain fd k' where
    "add_descriptor C ?k ?d = Some (int fd, k')" "kernel_ok k' r" "fdmap k' fd = Some ?d" by auto
  moreover have "createNewFile C k1 p = Some ((c, dir), ?k)"
    using assms(4-7) by (simp add: createNewFile_def fs_call_def)
  ultimately show "\<exists>fd k'. FSUAPI_open C k (Inr p) flags = Some (int fd, k') \<and> kernel_ok k' r \<and> fdmap k' fd = Some ?d"
    using assms(1-3) by (auto simp: FSUAPI_open_def openAtVNode_def)
  fix name assume n: "plain_name name"
  then obtain a as where name: "name = a # as" by (cases name) (auto simp: plain_name_def)
  have "path_token (SLASH # name) 0 0 = 1" using n path_token_top [of name 1 1] by (simp add: name plain_name_def)
  moreover have "last name \<noteq> SLASH" using n by (metis last_in_set plain_name_def)
  then have "strip_slash name = name" by (simp add: strip_slash_def)
  ultimately show "pathToParentAndName C k (SLASH # name)
      = map_option (\<lambda>k'. ((0, currentWorkingDirNode k, name), k')) (reference k (currentWorkingDirNode k))"
    using n by (simp add: pathToParentAndName_def plain_name_def map_conv_bind_option comp_def)
qed

text \<open>A file system in which no name exists and nothing can be created.\<close>

definition barren :: "unit fs_calls" where
  "barren = undefined\<lparr>vfs := (\<lambda>w. \<lparr>fs_lookup = (\<lambda>vs p name. Some (-2, None, vs)), fs_readlink = (\<lambda>vs p. None),
     fs_of = (\<lambda>m. m), fsRootVNode = (\<lambda>m. 0), coversVNode = (\<lambda>m. 0), RootNode = 0\<rparr>),
     heap_ok := True, op_creat := (\<lambda>w n name mode. Some (-13, w))\<rparr>"

theorem create_goes_wrong_witness:
  "\<exists>k fd k'. kernel_ok (k :: unit kernel) (\<lambda>p. 0) \<and> FSUAPI_open barren k (Inr [0x61]) O_CREAT = Some (int fd, k')
    \<and> fdmap k' fd = Some (new_FileDescriptor (currentWorkingDirNode k) O_CREAT)"
proof -
  from sample_kernel_ok [of "()"] obtain vs where k: "kernel_ok (sample_kernel vs 8 ()) (\<lambda>p. 0)" by blast
  let ?k = "sample_kernel vs 8 ()"
  have cwd: "currentWorkingDirNode ?k = 8" and two: "refs ?k 8 = 2"
    by (simp_all add: sample_kernel_def refs_def table_def new_FileDescriptor_def)
  have counts: "inc (\<lambda>p. refs l p) 8 = (\<lambda>p. inc (\<lambda>p. 0) 8 p + refs l p)" for l :: "unit kernel" by (auto simp: inc_def)
  have hold: "\<exists>l'. reference l 8 = Some l' \<and> kernel_ok l' (inc (\<lambda>p. 0) 8) \<and> openFiles l' = openFiles l \<and> same_rest l l'"
    if l: "kernel_ok l (\<lambda>p. 0)" "refs l 8 = 2" for l :: "unit kernel"
  proof -
    from l reference_ok [of l "refs l" 8] obtain l' where
      l': "reference l 8 = Some l'" "counts_ok l' (inc (refs l) 8)" "openFiles l' = openFiles l" "same_rest l l'"
      by (auto simp: kernel_ok_def)
    then have "refs l' = refs l" by (intro refs_same) (simp_all add: table_def same_rest_def)
    with l' counts [of l] show ?thesis by (auto simp: kernel_ok_def)
  qed
  from hold [OF k two] obtain k0 where
    k0: "reference ?k 8 = Some k0" "kernel_ok k0 (inc (\<lambda>p. 0) 8)" "openFiles k0 = openFiles ?k" "same_rest ?k k0" by blast
  from put_ok [of k0 "refs k0" 8 barren] k0(2) counts [of k0] obtain k1 where
    k1: "put barren k0 8 = Some k1" "counts_ok k1 (refs k0)" "openFiles k1 = openFiles k0" "same_rest k0 k1"
    by (auto simp: kernel_ok_def)
  have "refs k1 = refs k0" "refs k0 = refs ?k"
    using k0(3,4) k1(3,4) by (auto intro!: refs_same simp: table_def same_rest_def)
  then have ok1: "kernel_ok k1 (\<lambda>p. 0)" "refs k1 8 = 2" using k1(2) two by (simp_all add: kernel_ok_def)
  from held_vnode [of "vnode_table k0" "\<lambda>p. inc (\<lambda>p. 0) 8 p + refs k0 p" 8] k0(2) obtain m where
    "vheap (vnode_table k0) 8 = Some m" by (auto simp: kernel_ok_def counts_ok_def)
  then have r: "resolve barren ?k (currentWorkingDirNode ?k) [0x61] True = Some (-2, 0, k1)"
    using k0(1) k1(1)
    by (auto simp: cwd resolve_def RelativePathToVnode_def start_of_def absolute_def SLASH_def NULL_def reference_def
        put_def walk.simps component_def leave_mount_def barren_def)
  from hold [OF ok1] obtain k2 where
    k2: "reference k1 8 = Some k2" "kernel_ok k2 (inc (\<lambda>p. 0) 8)" "same_rest k1 k2" by blast
  have "currentWorkingDirNode k1 = 8" using k0(4) k1(4) cwd by (simp add: same_rest_def)
  then have p: "pathToParentAndName barren k1 [0x61] = Some ((0, 8, [0x61]), k2)"
    using k2(1) by (simp add: pathToParentAndName_def strip_slash_def SLASH_def)
  from held_vnode [of "vnode_table k2" "\<lambda>p. inc (\<lambda>p. 0) 8 p + refs k2 p" 8] k2(2) obtain n where
    n: "deref k2 8 = Some n" by (auto simp: kernel_ok_def counts_ok_def deref_def)
  have h: "(-2 :: int) < 0" "O_CREAT AND O_CREAT \<noteq> 0" "isValidUserFileName [0x61] = 0"
    "op_creat barren (world k2) n [0x61] 0 = Some (-13, world k2)" "heap_ok barren"
    by (simp_all add: O_CREAT_def isValidUserFileName_def isValidFileName_def barren_def)
  from create_goes_wrong [OF r h(1,2) p h(3) n h(4) k2(2) h(5)] k cwd show ?thesis by auto
qed

end
