(* ===== verification/User_Memory.thy ===== *)
theory User_Memory
  imports Libc_String Memory_Context
begin

text \<open>
  Access to the memory of the calling process: src/src/kernel/arch/ia32/mm/usermemoryops.cpp and the class
  \<open>UserString\<close> of src/src/kernel/include/mm/usermemoryops.h. User and kernel share the address space, so
  memory is one list of bytes; pointers have 32 bits, and sums of a pointer and a size wrap. The string
  functions of the kernel (src/src/kernel/lib/libc/cstring.cpp) are the same loops as those of theory
  Libc\_String, except that \<open>strndup\<close> looks for a failed allocation.
\<close>

section \<open>Checks and copies\<close>

definition canWriteUserMemory :: "addr \<Rightarrow> nat \<Rightarrow> bool" where
  "canWriteUserMemory ptr n \<longleftrightarrow> USERSPACE_LOW_ADDR \<le> ptr \<and> add32 ptr n \<le> USERSPACE_HI_ADDR"

definition canReadUserMemory :: "addr \<Rightarrow> nat \<Rightarrow> bool" where
  "canReadUserMemory ptr n \<longleftrightarrow> USERSPACE_LOW_ADDR \<le> ptr \<and> add32 ptr n \<le> USERSPACE_HI_ADDR"

definition strnlenUser :: "mem \<Rightarrow> addr \<Rightarrow> nat \<Rightarrow> int option" where
  "strnlenUser m s maxsize =
     (if canReadUserMemory s maxsize then map_option as_int (strlen m s) else Some (- errno_code EFAULT))"

definition strndup_kernel :: "malloc_fn \<Rightarrow> mem \<Rightarrow> addr \<Rightarrow> nat \<Rightarrow> (addr \<times> mem) option" where
  "strndup_kernel malloc m s n = do {
     slen \<leftarrow> strlen m s;
     let minLen = (if n > slen then slen else n);
     let (newstr, m) = malloc m (minLen + 1);
     if newstr \<noteq> NULL then do {
       (_, m) \<leftarrow> memcpy m newstr s minLen;
       m \<leftarrow> store m (newstr + minLen) 0;
       Some (newstr, m) }
     else Some (newstr, m) }"

definition strndupUser :: "malloc_fn \<Rightarrow> mem \<Rightarrow> addr \<Rightarrow> nat \<Rightarrow> (int \<times> addr \<times> mem) option" where
  "strndupUser malloc m s maxsize =
     (if canReadUserMemory s maxsize then map_option (Pair 0) (strndup_kernel malloc m s maxsize)
      else Some (- errno_code EFAULT, NULL, m))"

definition strncpyFromUser :: "mem \<Rightarrow> addr \<Rightarrow> addr \<Rightarrow> nat \<Rightarrow> (int \<times> mem) option" where
  "strncpyFromUser m dest src n =
     (if canReadUserMemory src n then map_option (\<lambda>(_, m). (0, m)) (strncpy m dest src n)
      else Some (- errno_code EFAULT, m))"

definition memcpyToUser :: "mem \<Rightarrow> addr \<Rightarrow> addr \<Rightarrow> nat \<Rightarrow> (int \<times> mem) option" where
  "memcpyToUser m dest src n =
     (if canWriteUserMemory dest n then map_option (\<lambda>(_, m). (0, m)) (memcpy m dest src n)
      else Some (- errno_code EFAULT, m))"

definition memcpyFromUser :: "mem \<Rightarrow> addr \<Rightarrow> addr \<Rightarrow> nat \<Rightarrow> (int \<times> mem) option" where
  "memcpyFromUser m dest src n =
     (if canReadUserMemory src n then map_option (\<lambda>(_, m). (0, m)) (memcpy m dest src n)
      else Some (- errno_code EFAULT, m))"

section \<open>Single values\<close>

text \<open>A word in memory, least significant byte first, and the accesses of the four widths.\<close>

fun le_word :: "u8 list \<Rightarrow> 'a::len word" where
  "le_word [] = 0"
| "le_word (b # bs) = ucast b OR push_bit 8 (le_word bs)"

fun le_bytes :: "nat \<Rightarrow> 'a::len word \<Rightarrow> u8 list" where
  "le_bytes 0 w = []"
| "le_bytes (Suc n) w = ucast w # le_bytes n (drop_bit 8 w)"

definition load_word :: "nat \<Rightarrow> mem \<Rightarrow> addr \<Rightarrow> 'a::len word option" where
  "load_word n m p = (if region m p n then Some (le_word (bytes_at m p n)) else None)"

definition store_word :: "nat \<Rightarrow> mem \<Rightarrow> addr \<Rightarrow> 'a::len word \<Rightarrow> mem option" where
  "store_word n m p w = (if region m p n then Some (blit m p (le_bytes n w)) else None)"

text \<open>A failed read leaves the variable of the caller as it was, here \<open>old\<close>.\<close>

definition getFromUser8 :: "mem \<Rightarrow> u8 \<Rightarrow> addr \<Rightarrow> (int \<times> u8) option" where
  "getFromUser8 m old ptr =
     (if canReadUserMemory ptr 1 then map_option (Pair 0) (load_word 1 m ptr) else Some (- errno_code EFAULT, old))"

definition getFromUser16 :: "mem \<Rightarrow> u16 \<Rightarrow> addr \<Rightarrow> (int \<times> u16) option" where
  "getFromUser16 m old ptr =
     (if canReadUserMemory ptr 2 then map_option (Pair 0) (load_word 2 m ptr) else Some (- errno_code EFAULT, old))"

definition getFromUser32 :: "mem \<Rightarrow> u32 \<Rightarrow> addr \<Rightarrow> (int \<times> u32) option" where
  "getFromUser32 m old ptr =
     (if canReadUserMemory ptr 4 then map_option (Pair 0) (load_word 4 m ptr) else Some (- errno_code EFAULT, old))"

definition getFromUser64 :: "mem \<Rightarrow> u64 \<Rightarrow> addr \<Rightarrow> (int \<times> u64) option" where
  "getFromUser64 m old ptr =
     (if canReadUserMemory ptr 8 then map_option (Pair 0) (load_word 8 m ptr) else Some (- errno_code EFAULT, old))"

definition putToUser8 :: "mem \<Rightarrow> u8 \<Rightarrow> addr \<Rightarrow> (int \<times> mem) option" where
  "putToUser8 m v ptr =
     (if canWriteUserMemory ptr 1 then map_option (Pair 0) (store_word 1 m ptr v) else Some (- errno_code EFAULT, m))"

definition putToUser16 :: "mem \<Rightarrow> u16 \<Rightarrow> addr \<Rightarrow> (int \<times> mem) option" where
  "putToUser16 m v ptr =
     (if canWriteUserMemory ptr 2 then map_option (Pair 0) (store_word 2 m ptr v) else Some (- errno_code EFAULT, m))"

definition putToUser32 :: "mem \<Rightarrow> u32 \<Rightarrow> addr \<Rightarrow> (int \<times> mem) option" where
  "putToUser32 m v ptr =
     (if canWriteUserMemory ptr 4 then map_option (Pair 0) (store_word 4 m ptr v) else Some (- errno_code EFAULT, m))"

definition putToUser64 :: "mem \<Rightarrow> u64 \<Rightarrow> addr \<Rightarrow> (int \<times> mem) option" where
  "putToUser64 m v ptr =
     (if canWriteUserMemory ptr 8 then map_option (Pair 0) (store_word 8 m ptr v) else Some (- errno_code EFAULT, m))"

section \<open>Strings\<close>

record UserString =
  m_buf :: addr
  m_len :: int
  m_smallBuf :: addr

text \<open>The constructor: \<open>small\<close> is the address of the member \<open>m_smallBuf\<close>.\<close>

definition UserString_init :: "malloc_fn \<Rightarrow> mem \<Rightarrow> addr \<Rightarrow> addr \<Rightarrow> nat \<Rightarrow> (UserString \<times> mem) option" where
  "UserString_init malloc m small user maxBufLen = do {
     len \<leftarrow> strnlenUser m user maxBufLen;
     if len < 0 then Some (\<lparr>m_buf = NULL, m_len = len, m_smallBuf = small\<rparr>, m)
     else do {
       (ret, buf, m) \<leftarrow>
         (if len < 64 then map_option (\<lambda>(r, m). (r, NULL, m)) (strncpyFromUser m small user 64)
          else strndupUser malloc m user (nat (if len < int maxBufLen then len else int maxBufLen)));
       Some (\<lparr>m_buf = buf, m_len = (if ret < 0 then ret else len), m_smallBuf = small\<rparr>, m) } }"

definition UserString_isValid :: "UserString \<Rightarrow> bool" where
  "UserString_isValid u \<longleftrightarrow> 0 \<le> m_len u"

definition UserString_len :: "UserString \<Rightarrow> int" where
  "UserString_len u = m_len u"

definition UserString_data :: "UserString \<Rightarrow> addr" where
  "UserString_data u = (if m_buf u \<noteq> NULL then m_buf u else m_smallBuf u)"

section \<open>Lemmas\<close>

lemma length_le_bytes [simp]: "length (le_bytes n w) = n"
  by (induction n w rule: le_bytes.induct) simp_all

lemma bit_le_word_bytes: "bit (le_word (le_bytes n w) :: 'a::len word) k \<longleftrightarrow> k < 8 * n \<and> bit w k"
  for w :: "'a::len word"
proof (induction n arbitrary: w k)
  case (Suc n)
  have "bit (le_word (le_bytes (Suc n) w) :: 'a word) k
      \<longleftrightarrow> k < LENGTH('a) \<and> k < 8 \<and> bit w k
        \<or> 8 \<le> k \<and> k < LENGTH('a) \<and> bit (le_word (le_bytes n (drop_bit 8 w)) :: 'a word) (k - 8)"
    by (simp add: bit_or_iff bit_push_bit_iff bit_ucast_iff)
  also have "\<dots> \<longleftrightarrow> k < 8 * Suc n \<and> bit w k"
    unfolding Suc.IH by (cases "8 \<le> k") (auto simp: bit_drop_bit_eq dest: bit_imp_le_length)
  finally show ?case .
qed simp

lemma le_word_bytes: "LENGTH('a::len) \<le> 8 * n \<Longrightarrow> le_word (le_bytes n w) = (w :: 'a word)"
  by (rule bit_word_eqI) (simp add: bit_le_word_bytes)

lemma load_store_word:
  assumes "store_word n m p w = Some m'" and "LENGTH('a::len) \<le> 8 * n"
  shows "load_word n m' p = Some (w :: 'a word)"
proof -
  from assms(1) have r: "region m p (length (le_bytes n w))" and m': "m' = blit m p (le_bytes n w)"
    by (auto simp: store_word_def split: if_splits)
  from bytes_at_blit_same [OF r] have "bytes_at m' p n = le_bytes n w" by (simp add: m')
  with r region_blit [OF r, of p n] assms(2) show ?thesis by (simp add: load_word_def m' le_word_bytes)
qed

lemma memcpyToUser_ok:
  assumes "region m dest n" and "region m src n" and "disjnt_blocks dest n src n" and "dest + n < 2 ^ 32"
  shows "memcpyToUser m dest src n =
    Some (if USERSPACE_LOW_ADDR \<le> dest \<and> dest + n \<le> USERSPACE_HI_ADDR then (0, blit m dest (bytes_at m src n))
          else (- errno_code EFAULT, m))"
proof -
  have "memcpy m dest src n = Some (dest, blit m dest (bytes_at m src n))"
    using assms by (intro memcpy_blit) (auto simp: disjnt_blocks_def)
  then show ?thesis using assms(4) by (simp add: memcpyToUser_def canWriteUserMemory_def add32_small)
qed

lemma memcpyFromUser_ok:
  assumes "region m dest n" and "region m src n" and "disjnt_blocks dest n src n" and "src + n < 2 ^ 32"
  shows "memcpyFromUser m dest src n =
    Some (if USERSPACE_LOW_ADDR \<le> src \<and> src + n \<le> USERSPACE_HI_ADDR then (0, blit m dest (bytes_at m src n))
          else (- errno_code EFAULT, m))"
proof -
  have "memcpy m dest src n = Some (dest, blit m dest (bytes_at m src n))"
    using assms by (intro memcpy_blit) (auto simp: disjnt_blocks_def)
  then show ?thesis using assms(4) by (simp add: memcpyFromUser_def canReadUserMemory_def add32_small)
qed

lemma can_read_iff_write: "canReadUserMemory p n \<longleftrightarrow> canWriteUserMemory p n"
  by (simp add: canReadUserMemory_def canWriteUserMemory_def)

lemma strndup_kernel_copy:
  assumes "cstr m p s" and "k \<le> length s" and "n = k \<or> length s \<le> n \<and> k = length s"
    and "malloc m (k + 1) = (q, m')" and "q \<noteq> NULL" and "cstr m' p s" and "region m' q (Suc k)"
    and "disjnt_blocks q (Suc k) p (Suc (length s))"
  shows "strndup_kernel malloc m p n = Some (q, blit m' q (take k s @ [0]))"
proof -
  have k: "(if n > length s then length s else n) = k" using assms(2,3) by auto
  have "bytes_at m' p k = take k (bytes_at m' p (Suc (length s)))"
    using assms(2) by (simp add: bytes_at_def min_def)
  then have b: "bytes_at m' p k = take k s" using assms(2,6) by (simp add: cstr_def)
  have "region m' p k" using assms(2,6) region_mono [of m' p "Suc (length s)" k] by (simp add: cstr_def)
  then have mc: "memcpy m' q p k = Some (q, blit m' q (take k s))"
    using assms(7,8) b by (subst memcpy_blit) (auto intro: region_mono simp: disjnt_blocks_def)
  have r: "region m' q (length (take k s))" using assms(2,7) by (auto intro: region_mono)
  have "store (blit m' q (take k s)) (q + k) 0 = Some (blit (blit m' q (take k s)) (q + length (take k s)) [0])"
    using assms(2,7) r by (subst store_blit) (auto simp: region_def)
  also have "\<dots> = Some (blit m' q (take k s @ [0]))"
    using assms(2,7) by (subst blit_blit_append) (auto simp: min_def)
  finally show ?thesis
    using assms(4,5) mc by (simp add: strndup_kernel_def strlen_cstr [OF assms(1)] k Let_def)
qed

lemma add32_wrap: "a + b = 2 ^ 32 + c \<Longrightarrow> c < 2 ^ 32 \<Longrightarrow> add32 a b = c"
  by (simp only: add32_def mod_add_self1 mod_less)

section \<open>Properties\<close>

text \<open>
  C14: A copy to user memory whose end does not pass the end of the address space either lies in user space
  and copies exactly the bytes asked for, or returns \<open>-EFAULT\<close> and changes nothing; the same holds for a
  copy from user memory; and a 32-bit or 64-bit value put into user memory is read back.
\<close>
theorem user_copies_stay_in_user_space:
  assumes "region m dest n" and "region m src n" and "disjnt_blocks dest n src n"
  shows "(dest + n < 2 ^ 32 \<longrightarrow> memcpyToUser m dest src n =
      Some (if USERSPACE_LOW_ADDR \<le> dest \<and> dest + n \<le> USERSPACE_HI_ADDR then (0, blit m dest (bytes_at m src n))
            else (- errno_code EFAULT, m)))
    \<and> (src + n < 2 ^ 32 \<longrightarrow> memcpyFromUser m dest src n =
      Some (if USERSPACE_LOW_ADDR \<le> src \<and> src + n \<le> USERSPACE_HI_ADDR then (0, blit m dest (bytes_at m src n))
            else (- errno_code EFAULT, m)))
    \<and> (n = 4 \<longrightarrow> canWriteUserMemory dest 4 \<longrightarrow>
        (\<exists>m'. putToUser32 m v dest = Some (0, m') \<and> getFromUser32 m' old dest = Some (0, v)))
    \<and> (n = 8 \<longrightarrow> canWriteUserMemory dest 8 \<longrightarrow>
        (\<exists>m'. putToUser64 m v' dest = Some (0, m') \<and> getFromUser64 m' old' dest = Some (0, v')))"
proof (intro conjI impI)
  show "memcpyToUser m dest src n =
      Some (if USERSPACE_LOW_ADDR \<le> dest \<and> dest + n \<le> USERSPACE_HI_ADDR then (0, blit m dest (bytes_at m src n))
            else (- errno_code EFAULT, m))" if "dest + n < 2 ^ 32"
    by (rule memcpyToUser_ok [OF assms that])
  show "memcpyFromUser m dest src n =
      Some (if USERSPACE_LOW_ADDR \<le> src \<and> src + n \<le> USERSPACE_HI_ADDR then (0, blit m dest (bytes_at m src n))
            else (- errno_code EFAULT, m))" if "src + n < 2 ^ 32"
    by (rule memcpyFromUser_ok [OF assms that])
  show "\<exists>m'. putToUser32 m v dest = Some (0, m') \<and> getFromUser32 m' old dest = Some (0, v)"
    if "n = 4" "canWriteUserMemory dest 4"
  proof -
    have "region m dest 4" using assms(1) that(1) by simp
    then obtain m' where m': "store_word 4 m dest v = Some m'" by (simp add: store_word_def)
    from load_store_word [OF this] that show ?thesis
      by (simp add: putToUser32_def getFromUser32_def can_read_iff_write m')
  qed
  show "\<exists>m'. putToUser64 m v' dest = Some (0, m') \<and> getFromUser64 m' old' dest = Some (0, v')"
    if "n = 8" "canWriteUserMemory dest 8"
  proof -
    have "region m dest 8" using assms(1) that(1) by simp
    then obtain m' where m': "store_word 8 m dest v' = Some m'" by (simp add: store_word_def)
    from load_store_word [OF this] that show ?thesis
      by (simp add: putToUser64_def getFromUser64_def can_read_iff_write m')
  qed
qed

theorem user_copies_stay_in_user_space_witness:
  "memcpyToUser (replicate 64 7) 16 32 4 = Some (- errno_code EFAULT, replicate 64 7)"
proof -
  have h: "region (replicate 64 7) 16 4" "region (replicate 64 7) 32 4" "disjnt_blocks 16 4 32 4"
    by (simp_all add: region_def disjnt_blocks_def)
  from user_copies_stay_in_user_space [OF h, of 0 0 0 0] show ?thesis
    by (simp add: USERSPACE_LOW_ADDR_def)
qed

text \<open>
  C36: The checks add the size to the pointer in 32 bits, so a range that passes the end of the address space
  is accepted and goes on at address 0: for every address below user space, where the kernel is, there is a
  range the checks accept for writing that contains it.
\<close>
theorem user_check_wraps:
  assumes "a < USERSPACE_LOW_ADDR"
  shows "\<exists>ptr n i. ptr < 2 ^ 32 \<and> n < 2 ^ 32 \<and> canWriteUserMemory ptr n \<and> canReadUserMemory ptr n
    \<and> i < n \<and> add32 ptr i = a"
proof (intro exI conjI)
  let ?p = "0xFFFFF000 :: nat" and ?n = "a + 0x1001" and ?i = "a + 0x1000"
  have e: "?p + ?n = 2 ^ 32 + (a + 1)" "?p + ?i = 2 ^ 32 + a" by simp_all
  have "add32 ?p ?n = a + 1" using e(1) assms by (intro add32_wrap) (simp_all add: USERSPACE_LOW_ADDR_def)
  then show "canWriteUserMemory ?p ?n" "canReadUserMemory ?p ?n"
    using assms by (simp_all add: can_read_iff_write canWriteUserMemory_def USERSPACE_LOW_ADDR_def USERSPACE_HI_ADDR_def)
  show "add32 ?p ?i = a" using e(2) assms by (intro add32_wrap) (simp_all add: USERSPACE_LOW_ADDR_def)
  show "?i < ?n" by simp
  show "?n < 2 ^ 32" using assms by (simp add: USERSPACE_LOW_ADDR_def)
  show "?p < 2 ^ 32" by simp
qed

theorem user_check_wraps_witness:
  "\<exists>ptr n i. canWriteUserMemory ptr n \<and> i < n \<and> add32 ptr i = 0x1000"
  using user_check_wraps [of "0x1000"] by (auto simp: USERSPACE_LOW_ADDR_def)

text \<open>
  C37: A path copied from user memory. A string of less than 64 characters is copied as it is; a longer one is
  cut at the limit without an error, although its length is reported in full, and when the allocation for it
  fails the string is valid all the same and its data are those of the small buffer, which was never filled.
\<close>
theorem UserString_copies:
  assumes "cstr m user s" and "length s < 2 ^ 31" and "64 \<le> limit" and "USERSPACE_LOW_ADDR \<le> user"
    and "user + limit \<le> USERSPACE_HI_ADDR" and "region m small 64" and "disjnt_blocks small 64 user (Suc (length s))"
    and "malloc m (min limit (length s) + 1) = (q, m')"
    and "q \<noteq> NULL \<longrightarrow> cstr m' user s \<and> region m' q (Suc (min limit (length s)))
      \<and> disjnt_blocks q (Suc (min limit (length s))) user (Suc (length s))"
  shows "\<exists>u m''. UserString_init malloc m small user limit = Some (u, m'') \<and> UserString_isValid u
    \<and> UserString_len u = int (length s)
    \<and> (length s < 64 \<or> q \<noteq> NULL \<longrightarrow> cstr m'' (UserString_data u) (take (min limit (length s)) s))
    \<and> (64 \<le> length s \<longrightarrow> q = NULL \<longrightarrow> UserString_data u = small \<and> m'' = m')"
proof -
  have can: "canReadUserMemory user k" if "k \<le> limit" for k
    using assms(4,5) that by (simp add: canReadUserMemory_def add32_small USERSPACE_HI_ADDR_def)
  have len: "strnlenUser m user limit = Some (int (length s))"
    using assms(2) by (simp add: strnlenUser_def can strlen_cstr [OF assms(1)] as_int_small)
  have z: "0 \<notin> set s" using assms(1) by (simp add: cstr_def)
  show ?thesis
  proof (cases "length s < 64")
    case True
    from strncpy_blit [OF assms(1,6,7)] True assms(3)
    have c: "strncpyFromUser m small user 64 = Some (0, blit m small (s @ replicate (64 - length s) 0))"
      by (simp add: strncpyFromUser_def can)
    have "s @ replicate (64 - length s) 0 = (s @ [0]) @ replicate (63 - length s) 0"
      using True by (simp add: Suc_diff_Suc replicate_Suc [symmetric] del: replicate_Suc)
    moreover have "blit m small ((s @ [0]) @ replicate (63 - length s) 0)
        = blit (blit m small (s @ [0])) (small + length (s @ [0])) (replicate (63 - length s) 0)"
      using True assms(6) by (subst blit_blit_append) auto
    moreover have "cstr (blit (blit m small (s @ [0])) (small + length (s @ [0])) (replicate (63 - length s) 0)) small s"
      using True assms(6) z
      by (intro cstr_blit_other cstr_blit_same) (auto simp: disjnt_blocks_def region_def)
    ultimately show ?thesis using True len c assms(3)
      by (simp add: UserString_init_def UserString_isValid_def UserString_data_def UserString_len_def min_def NULL_def)
  next
    case False
    let ?k = "min limit (length s)"
    have d: "nat (if int (length s) < int limit then int (length s) else int limit) = ?k" by simp
    show ?thesis
    proof (cases "q = NULL")
      case True
      have "(if ?k > length s then length s else ?k) = ?k" by simp
      with True assms(8) have "strndup_kernel malloc m user ?k = Some (NULL, m')"
        by (simp add: strndup_kernel_def strlen_cstr [OF assms(1)] Let_def)
      then show ?thesis using False True len d
        by (simp add: UserString_init_def strndupUser_def can UserString_isValid_def UserString_data_def
            UserString_len_def)
    next
      case q: False
      then have "strndup_kernel malloc m user ?k = Some (q, blit m' q (take ?k s @ [0]))"
        using assms(8,9) by (intro strndup_kernel_copy [OF assms(1)]) auto
      moreover have "cstr (blit m' q (take ?k s @ [0])) q (take ?k s)"
        using assms(9) q z by (intro cstr_blit_same) (auto simp: min_def dest: in_set_takeD)
      ultimately show ?thesis using False q len d
        by (simp add: UserString_init_def strndupUser_def can UserString_isValid_def UserString_data_def
            UserString_len_def)
    qed
  qed
qed

theorem UserString_copies_witness:
  "\<exists>m u m''. cstr m USERSPACE_LOW_ADDR [0x2F] \<and> UserString_init (\<lambda>m n. (NULL, m)) m 16 USERSPACE_LOW_ADDR 8192 = Some (u, m'')
    \<and> UserString_isValid u"
proof (intro exI [of _ "replicate USERSPACE_LOW_ADDR 1 @ [0x2F, 0 :: u8]"])
  let ?m = "replicate USERSPACE_LOW_ADDR 1 @ [0x2F, 0 :: u8]"
  have c: "cstr ?m USERSPACE_LOW_ADDR [0x2F]"
    by (simp add: cstr_def region_def bytes_at_def USERSPACE_LOW_ADDR_def)
  have h: "length [0x2F :: u8] < 2 ^ 31" "64 \<le> (8192 :: nat)" "USERSPACE_LOW_ADDR \<le> USERSPACE_LOW_ADDR"
    "USERSPACE_LOW_ADDR + 8192 \<le> USERSPACE_HI_ADDR" "region ?m 16 64"
    "disjnt_blocks 16 64 USERSPACE_LOW_ADDR (Suc (length [0x2F :: u8]))"
    by (simp_all add: USERSPACE_LOW_ADDR_def USERSPACE_HI_ADDR_def region_def disjnt_blocks_def)
  from UserString_copies [OF c h, where malloc = "\<lambda>m n. (NULL, m)" and q = NULL and m' = ?m] c
  show "\<exists>u m''. cstr ?m USERSPACE_LOW_ADDR [0x2F]
      \<and> UserString_init (\<lambda>m n. (NULL, m)) ?m 16 USERSPACE_LOW_ADDR 8192 = Some (u, m'') \<and> UserString_isValid u"
    by auto
qed

end
