(* ===== verification/Scheduler.thy ===== *)
theory Scheduler
  imports Prelude
begin

text \<open>
  The scheduler, the timers and the event listeners: src/src/kernel/task/scheduler.cpp,
  src/src/kernel/core/systemtimer.cpp and src/src/kernel/task/eventsmanager.cpp. Threads are only ever
  appended to the list of threads, so a thread is given by its index there.

  The search for the next thread does not end when no thread is running, so it is a partial function;
  \<open>None\<close> is that loop, a division by the length of an empty list, or an overflow of a signed product.
  Ticks are counted in 64 bits and compared with expiry times of 32 bits.
\<close>

section \<open>Data\<close>

datatype ThreadStatus = Running | UWaiting | IWaiting | Defunct

record ThreadTimer =
  parentThread :: nat
  expiralSystemTime :: nat

record sched_state =
  threads :: "ThreadStatus list"
  s_currentThread :: nat
  preemptionEnabled :: bool
  timers :: "ThreadTimer list"
  systemTicks :: nat
  tickFrequency :: nat
  startupTimestamp :: int

section \<open>The scheduler\<close>

definition Scheduler_init :: "sched_state \<Rightarrow> sched_state" where
  "Scheduler_init s = s\<lparr>threads := []\<rparr>"

text \<open>\<open>do { ... } while (tB->status != Running)\<close>\<close>

partial_function (option) nextThread_loop :: "ThreadStatus list \<Rightarrow> nat \<Rightarrow> nat option" where
  "nextThread_loop ts c =
     (if ts = [] then None
      else let c' = (c + 1) mod length ts in
        if ts ! c' \<noteq> Running then nextThread_loop ts c' else Some c')"

definition nextThread :: "sched_state \<Rightarrow> (nat \<times> sched_state) option" where
  "nextThread s =
     map_option (\<lambda>c. (c, s\<lparr>s_currentThread := c\<rparr>)) (nextThread_loop (threads s) (s_currentThread s))"

definition currentThread :: "sched_state \<Rightarrow> ThreadStatus option" where
  "currentThread s =
     (if s_currentThread s < length (threads s) then Some (threads s ! s_currentThread s) else None)"

definition inhibitPreemption :: "sched_state \<Rightarrow> sched_state" where
  "inhibitPreemption s = s\<lparr>preemptionEnabled := False\<rparr>"

definition isPreemptionInhibited :: "sched_state \<Rightarrow> bool" where
  "isPreemptionInhibited s = (\<not> preemptionEnabled s)"

definition restorePreemption :: "sched_state \<Rightarrow> sched_state" where
  "restorePreemption s = s\<lparr>preemptionEnabled := True\<rparr>"

definition threads_append :: "sched_state \<Rightarrow> ThreadStatus \<Rightarrow> sched_state" where
  "threads_append s t = s\<lparr>threads := threads s @ [t]\<rparr>"

section \<open>Timers\<close>

definition SystemTimer_init :: "sched_state \<Rightarrow> nat \<Rightarrow> sched_state" where
  "SystemTimer_init s frequency = s\<lparr>timers := [], tickFrequency := frequency\<rparr>"

text \<open>
  \<open>sleep(int millis, ThreadControlBlock *thread)\<close>: the product is an \<open>int\<close>, whose overflow is undefined, and
  its division truncates. The expiry, an unsigned long, can lie before the current time.
\<close>

definition sleep_millis :: "sched_state \<Rightarrow> int \<Rightarrow> nat \<Rightarrow> sched_state option" where
  "sleep_millis s millis thread =
     (let product = millis * int (tickFrequency s);
          ticks = (if 0 \<le> product then product div 1000 else - ((- product) div 1000)) in
      if thread < length (threads s) \<and> - (2 ^ 31) \<le> product \<and> product < 2 ^ 31 then
        Some (s\<lparr>threads := (threads s)[thread := IWaiting],
                timers := timers s @ [\<lparr>parentThread = thread,
                  expiralSystemTime = nat ((int (systemTicks s) + ticks) mod 2 ^ 32)\<rparr>]\<rparr>)
      else None)"

text \<open>
  The loop of \<open>timerTickISR\<close>: after a timer has been removed the index is increased all the same.
\<close>

function tick_loop ::
  "nat \<Rightarrow> nat \<Rightarrow> ThreadTimer list \<Rightarrow> ThreadStatus list \<Rightarrow> ThreadTimer list \<times> ThreadStatus list" where
  "tick_loop now i tms ts =
     (if i < length tms then
        if expiralSystemTime (tms ! i) < now then
          tick_loop now (Suc i) (take i tms @ drop (Suc i) tms) (ts[parentThread (tms ! i) := Running])
        else tick_loop now (Suc i) tms ts
      else (tms, ts))"
  by pat_completeness auto
termination by (relation "measure (\<lambda>(now, i, tms, ts). length tms - i)") auto

declare tick_loop.simps [simp del]

definition timerTickISR :: "sched_state \<Rightarrow> sched_state" where
  "timerTickISR s =
     (let now = (systemTicks s + 1) mod 2 ^ 64;
          (tms, ts) = tick_loop now 0 (timers s) (threads s)
      in s\<lparr>systemTicks := now, timers := tms, threads := ts\<rparr>)"

definition SystemTimer_time :: "sched_state \<Rightarrow> int option" where
  "SystemTimer_time s =
     (if tickFrequency s = 0 then None
      else Some ((startupTimestamp s + int (systemTicks s div tickFrequency s)) * 1000 mod 2 ^ 64))"

section \<open>Event listeners\<close>

record EventListener =
  resource :: addr
  thread :: nat
  filter_mask :: u32

definition connectEventListener ::
  "EventListener list \<Rightarrow> addr \<Rightarrow> nat \<Rightarrow> u32 \<Rightarrow> EventListener list" where
  "connectEventListener ls r t f = ls @ [\<lparr>resource = r, thread = t, filter_mask = f\<rparr>]"

fun takeEventListener ::
  "EventListener list \<Rightarrow> addr \<Rightarrow> u32 \<Rightarrow> nat option \<times> EventListener list" where
  "takeEventListener [] r f = (None, [])"
| "takeEventListener (l # ls) r f =
     (if resource l = r \<and> filter_mask l AND f \<noteq> 0 then (Some (thread l), ls)
      else case takeEventListener ls r f of (t, ls') \<Rightarrow> (t, l # ls'))"

fun disconnectEventListener ::
  "EventListener list \<Rightarrow> addr \<Rightarrow> nat \<Rightarrow> bool \<times> EventListener list" where
  "disconnectEventListener [] r t = (False, [])"
| "disconnectEventListener (l # ls) r t =
     (if thread l = t \<and> resource l = r then (True, ls)
      else case disconnectEventListener ls r t of (b, ls') \<Rightarrow> (b, l # ls'))"

text \<open>A listener that was connected is taken by the next event of its resource unless an older one matches.\<close>

lemma take_connected:
  assumes "takeEventListener ls r f = (None, ls')" and "m AND f \<noteq> 0"
  shows "takeEventListener (connectEventListener ls r t m) r f = (Some t, ls)"
  using assms unfolding connectEventListener_def
  by (induction ls arbitrary: ls') (auto split: if_splits prod.splits)

lemma take_none_unchanged: "takeEventListener ls r f = (None, ls') \<Longrightarrow> ls' = ls"
  by (induction ls arbitrary: ls') (auto split: if_splits prod.splits)

section \<open>The next thread\<close>

text \<open>The number of steps from thread \<open>c\<close> to thread \<open>j\<close> around the list of \<open>n\<close> threads, from 1 to \<open>n\<close>.\<close>

definition steps_to :: "nat \<Rightarrow> nat \<Rightarrow> nat \<Rightarrow> nat" where
  "steps_to n c j = (if c < j then j - c else j + n - c)"

lemma steps_to_next:
  assumes "c < n" and "j < n" and "(c + 1) mod n \<noteq> j"
  shows "steps_to n c j = Suc (steps_to n ((c + 1) mod n) j)"
proof (cases "c + 1 = n")
  case True
  with assms show ?thesis by (auto simp: steps_to_def)
next
  case False
  with assms show ?thesis by (auto simp: steps_to_def)
qed

lemma steps_to_pos: "c < n \<Longrightarrow> j < n \<Longrightarrow> 0 < steps_to n c j \<and> steps_to n c j \<le> n"
  by (auto simp: steps_to_def)

text \<open>
  With a running thread \<open>j\<close> the loop returns a running thread that is not later in the round than \<open>j\<close>,
  and no thread in between is running.
\<close>

lemma nextThread_loop_running:
  assumes "c < length ts" and "j < length ts" and "ts ! j = Running"
  shows "\<exists>c'. nextThread_loop ts c = Some c' \<and> c' < length ts \<and> ts ! c' = Running
    \<and> steps_to (length ts) c c' \<le> steps_to (length ts) c j
    \<and> (c' = j \<or> steps_to (length ts) c' j < steps_to (length ts) c j)"
  using assms(1)
proof (induction "steps_to (length ts) c j" arbitrary: c rule: less_induct)
  case less
  let ?n = "length ts" and ?c = "(c + 1) mod length ts"
  have "ts \<noteq> []" using less.prems by auto
  then have cn: "?c < ?n" by simp
  show ?case
  proof (cases "ts ! ?c = Running")
    case True
    then have r: "nextThread_loop ts c = Some ?c"
      using less.prems by (subst nextThread_loop.simps) auto
    have one: "steps_to ?n c ?c = 1"
      using less.prems by (cases "c + 1 = ?n") (auto simp: steps_to_def)
    show ?thesis
    proof (cases "?c = j")
      case False
      from steps_to_next [OF less.prems assms(2) False] one show ?thesis
        using r True cn steps_to_pos [OF less.prems assms(2)] by auto
    qed (use r True assms one in auto)
  next
    case False
    with assms have ne: "?c \<noteq> j" by auto
    note d = steps_to_next [OF less.prems assms(2) ne]
    have "nextThread_loop ts c = nextThread_loop ts ?c"
      using False less.prems by (subst nextThread_loop.simps) auto
    moreover from d have "steps_to ?n ?c j < steps_to ?n c j" by simp
    from less.hyps [OF this cn] obtain c' where c':
      "nextThread_loop ts ?c = Some c'" "c' < ?n" "ts ! c' = Running"
      "steps_to ?n ?c c' \<le> steps_to ?n ?c j" "c' = j \<or> steps_to ?n c' j < steps_to ?n ?c j" by blast
    moreover have "steps_to ?n c c' = Suc (steps_to ?n ?c c')"
      using steps_to_next [OF less.prems c'(2)] c'(3) False by auto
    ultimately show ?thesis using d by auto
  qed
qed

lemma nextThread_loop_diverges:
  assumes "\<forall>j < length ts. ts ! j \<noteq> Running"
  shows "nextThread_loop ts c = None"
proof -
  have "nextThread_loop ts c = Some y \<Longrightarrow> \<exists>j < length ts. ts ! j = Running" for ts c y
    by (erule nextThread_loop.raw_induct [where P = "\<lambda>ts c y. \<exists>j < length ts. ts ! j = Running", rotated])
      (auto simp: Let_def split: if_splits intro!: exI [of _ "Suc _ mod _"])
  with assms show ?thesis by fastforce
qed

section \<open>Timer ticks\<close>

text \<open>Whether a timer has expired.\<close>

definition expired :: "nat \<Rightarrow> ThreadTimer \<Rightarrow> bool" where
  "expired now t \<longleftrightarrow> expiralSystemTime t < now"

lemma tick_loop_lower:
  assumes "i \<le> length tms" and "k < i"
  shows "fst (tick_loop now i tms ts) ! k = tms ! k \<and> k < length (fst (tick_loop now i tms ts))"
  using assms
proof (induction now i tms ts rule: tick_loop.induct)
  case (1 now i tms ts)
  show ?case
  proof (cases "i < length tms")
    case True
    show ?thesis
    proof (cases "expiralSystemTime (tms ! i) < now")
      case e: True
      show ?thesis
      proof (cases "Suc i \<le> length tms - 1")
        case le: True
        with 1(1) [OF True e] "1.prems" True e show ?thesis
          by (subst (1 2) tick_loop.simps) (simp add: nth_append)
      next
        case False
        then have "tick_loop now (Suc i) (take i tms @ drop (Suc i) tms) ts' = (take i tms @ drop (Suc i) tms, ts')"
          for ts' using True by (subst tick_loop.simps) simp
        with True e "1.prems" show ?thesis by (subst (1 2) tick_loop.simps) (simp add: nth_append)
      qed
    next
      case False
      with 1(2) [OF True False] "1.prems" True show ?thesis by (subst (1 2) tick_loop.simps) simp
    qed
  next
    case False
    with "1.prems" show ?thesis by (subst (1 2) tick_loop.simps) simp
  qed
qed

lemma tick_loop_threads:
  "length (snd (tick_loop now i tms ts)) = length ts
   \<and> set (fst (tick_loop now i tms ts)) \<subseteq> set tms
   \<and> (k < length ts \<longrightarrow> ts ! k = Running \<longrightarrow> snd (tick_loop now i tms ts) ! k = Running)
   \<and> (k < length ts \<longrightarrow> snd (tick_loop now i tms ts) ! k = Running \<longrightarrow>
        ts ! k = Running \<or> (\<exists>t \<in> set tms. expired now t \<and> parentThread t = k))"
proof (induction now i tms ts rule: tick_loop.induct)
  case (1 now i tms ts)
  show ?case
  proof (cases "i < length tms")
    case True
    show ?thesis
    proof (cases "expiralSystemTime (tms ! i) < now")
      case e: True
      have sub: "set (take i tms @ drop (Suc i) tms) \<subseteq> set tms"
        by (auto dest: in_set_takeD in_set_dropD)
      let ?tms = "take i tms @ drop (Suc i) tms" and ?ts = "ts[parentThread (tms ! i) := Running]"
      have un: "tick_loop now i tms ts = tick_loop now (Suc i) ?tms ?ts"
        using True e by (subst tick_loop.simps) simp
      have t: "tms ! i \<in> set tms" "expired now (tms ! i)" using True e by (simp_all add: expired_def)
      have len: "length ?ts = length ts" by simp
      note IH = 1(1) [OF True e, unfolded len]
      have "ts ! k = Running \<or> (\<exists>t \<in> set tms. expired now t \<and> parentThread t = k)"
        if "k < length ts" "snd (tick_loop now (Suc i) ?tms ?ts) ! k = Running"
      proof -
        from IH that have "?ts ! k = Running \<or> (\<exists>t \<in> set ?tms. expired now t \<and> parentThread t = k)" by blast
        then show ?thesis using t sub that(1) by (cases "k = parentThread (tms ! i)") auto
      qed
      moreover have "?ts ! k = Running" if "k < length ts" "ts ! k = Running"
        using that by (cases "k = parentThread (tms ! i)") auto
      ultimately show ?thesis unfolding un using IH sub by blast
    next
      case False
      with 1(2) [OF True False] True show ?thesis by (subst (1 2 3 4) tick_loop.simps) simp
    qed
  next
    case False
    then show ?thesis by (subst (1 2 3 4) tick_loop.simps) simp
  qed
qed

text \<open>A timer is handled, or it is kept at a position that is lower if it has expired.\<close>

lemma tick_loop_progress:
  assumes "i \<le> p" and "p < length tms" and "parentThread (tms ! p) < length ts"
  shows "expired now (tms ! p) \<and> snd (tick_loop now i tms ts) ! parentThread (tms ! p) = Running
    \<or> (\<exists>q \<le> p. (expired now (tms ! p) \<longrightarrow> q < p) \<and> q < length (fst (tick_loop now i tms ts))
         \<and> fst (tick_loop now i tms ts) ! q = tms ! p)"
  using assms
proof (induction now i tms ts arbitrary: p rule: tick_loop.induct)
  case (1 now i tms ts)
  have i: "i < length tms" using "1.prems" by simp
  show ?case
  proof (cases "expiralSystemTime (tms ! i) < now")
    case e: True
    let ?tms = "take i tms @ drop (Suc i) tms" and ?ts = "ts[parentThread (tms ! i) := Running]"
    have un: "tick_loop now i tms ts = tick_loop now (Suc i) ?tms ?ts"
      using i e by (subst tick_loop.simps) simp
    show ?thesis
    proof (cases "p = i")
      case True
      with e "1.prems"(3) tick_loop_threads [of now "Suc i" ?tms ?ts "parentThread (tms ! i)"]
      show ?thesis unfolding un by (simp add: expired_def)
    next
      case ne: False
      then have p: "i < p" using "1.prems" by simp
      then have at: "?tms ! (p - 1) = tms ! p" "p - 1 < length ?tms"
        using "1.prems" i by (auto simp: nth_append)
      show ?thesis
      proof (cases "p = Suc i")
        case True
        then have "Suc i \<le> length ?tms" using at by simp
        from tick_loop_lower [OF this, of "p - 1" now ?ts] True at p show ?thesis
          unfolding un by (intro disjI2 exI [of _ "p - 1"]) auto
      next
        case False
        with p have "Suc i \<le> p - 1" by simp
        from 1(1) [OF i e this at(2)] at(1) "1.prems"(3) have
          "expired now (tms ! p) \<and> snd (tick_loop now i tms ts) ! parentThread (tms ! p) = Running
           \<or> (\<exists>q \<le> p - 1. (expired now (tms ! p) \<longrightarrow> q < p - 1) \<and> q < length (fst (tick_loop now i tms ts))
                \<and> fst (tick_loop now i tms ts) ! q = tms ! p)" unfolding un by simp
        then show ?thesis
        proof (elim disjE exE conjE)
          fix q assume "q \<le> p - 1" "q < length (fst (tick_loop now i tms ts))"
            "fst (tick_loop now i tms ts) ! q = tms ! p"
          then show ?thesis using p by (intro disjI2 exI [of _ q]) auto
        qed simp
      qed
    qed
  next
    case False
    have un: "tick_loop now i tms ts = tick_loop now (Suc i) tms ts"
      using i False by (subst tick_loop.simps) simp
    show ?thesis
    proof (cases "p = i")
      case True
      with tick_loop_lower [of "Suc i" tms i now ts] i False show ?thesis
        unfolding un by (intro disjI2 exI [of _ i]) (auto simp: expired_def)
    next
      case ne: False
      then have "Suc i \<le> p" using "1.prems" by simp
      from 1(2) [OF i False this "1.prems"(2,3)] show ?thesis unfolding un .
    qed
  qed
qed

text \<open>Ticks in a row.\<close>

lemma systemTicks_ticks:
  "systemTicks s + k < 2 ^ 64 \<Longrightarrow> systemTicks ((timerTickISR ^^ k) s) = systemTicks s + k"
  by (induction k) (auto simp: timerTickISR_def Let_def split: prod.splits)

lemma timerTickISR_parts:
  assumes "systemTicks s + 1 < 2 ^ 64"
  shows "timers (timerTickISR s) = fst (tick_loop (systemTicks s + 1) 0 (timers s) (threads s))"
    and "threads (timerTickISR s) = snd (tick_loop (systemTicks s + 1) 0 (timers s) (threads s))"
  using assms by (simp_all add: timerTickISR_def Let_def split: prod.splits)

lemma ticks_set_timers:
  "systemTicks s + k < 2 ^ 64 \<Longrightarrow> set (timers ((timerTickISR ^^ k) s)) \<subseteq> set (timers s)
     \<and> length (threads ((timerTickISR ^^ k) s)) = length (threads s)"
proof (induction k)
  case (Suc k)
  let ?s = "(timerTickISR ^^ k) s"
  have "systemTicks ?s + 1 < 2 ^ 64" using Suc.prems by (simp add: systemTicks_ticks)
  from timerTickISR_parts [OF this] Suc tick_loop_threads [of "systemTicks ?s + 1" 0 "timers ?s" "threads ?s"]
  show ?case by auto
qed simp

text \<open>The timer is handled at the first tick after its expiry at which no earlier timer is in its way.\<close>

lemma timer_position:
  assumes "systemTicks s + k < 2 ^ 64" and "p < length (timers s)" and "t = timers s ! p"
    and "parentThread t < length (threads s)"
  shows "(\<exists>k' \<le> k. threads ((timerTickISR ^^ k') s) ! parentThread t = Running)
    \<or> (\<exists>q. q + (systemTicks s + k - max (systemTicks s) (expiralSystemTime t)) \<le> p
         \<and> q < length (timers ((timerTickISR ^^ k) s)) \<and> timers ((timerTickISR ^^ k) s) ! q = t)"
  using assms(1)
proof (induction k)
  case 0
  then show ?case using assms by auto
next
  case (Suc k)
  let ?s = "(timerTickISR ^^ k) s" and ?e = "expiralSystemTime t"
  have b: "systemTicks s + k < 2 ^ 64" using Suc.prems by simp
  from Suc.IH [OF b] show ?case
  proof (elim disjE exE conjE)
    fix k' assume "k' \<le> k" "threads ((timerTickISR ^^ k') s) ! parentThread t = Running"
    then show ?thesis by (intro disjI1 exI [of _ k']) simp
  next
    fix q assume q: "q + (systemTicks s + k - max (systemTicks s) ?e) \<le> p" "q < length (timers ?s)" "timers ?s ! q = t"
    note now = systemTicks_ticks [OF b]
    have "systemTicks ?s + 1 < 2 ^ 64" using Suc.prems now by simp
    note parts = timerTickISR_parts [OF this]
    have "parentThread (timers ?s ! q) < length (threads ?s)"
      using assms(4) q(3) ticks_set_timers [OF b] by simp
    from tick_loop_progress [OF le0 q(2) this, of "systemTicks ?s + 1"] q(3) parts
    have "expired (systemTicks ?s + 1) t \<and> threads ((timerTickISR ^^ Suc k) s) ! parentThread t = Running
      \<or> (\<exists>q' \<le> q. (expired (systemTicks ?s + 1) t \<longrightarrow> q' < q) \<and> q' < length (timers ((timerTickISR ^^ Suc k) s))
           \<and> timers ((timerTickISR ^^ Suc k) s) ! q' = t)" by simp
    then show ?thesis
    proof (elim disjE exE conjE)
      assume "threads ((timerTickISR ^^ Suc k) s) ! parentThread t = Running"
      then show ?thesis by blast
    next
      fix q' assume q': "q' \<le> q" "expired (systemTicks ?s + 1) t \<longrightarrow> q' < q"
        "q' < length (timers ((timerTickISR ^^ Suc k) s))" "timers ((timerTickISR ^^ Suc k) s) ! q' = t"
      have "q' + (systemTicks s + Suc k - max (systemTicks s) ?e) \<le> p"
        using q' q(1) now by (cases "?e < systemTicks s + k + 1") (auto simp: expired_def max_def)
      with q' show ?thesis by blast
    qed
  qed
qed

section \<open>Properties\<close>

text \<open>A sequence of calls of \<open>nextThread\<close>; the status of the threads at each call is given.\<close>

fun schedule_run :: "sched_state \<Rightarrow> ThreadStatus list list \<Rightarrow> nat list option" where
  "schedule_run s [] = Some []"
| "schedule_run s (ts # tss) =
     (case nextThread (s\<lparr>threads := ts\<rparr>) of None \<Rightarrow> None
      | Some (c, s') \<Rightarrow> map_option (Cons c) (schedule_run s' tss))"

lemma schedule_run_serves:
  assumes "\<forall>ts \<in> set tss. length ts = n \<and> ts ! j = Running" and "j < n" and "s_currentThread s < n"
  shows "\<exists>cs. schedule_run s tss = Some cs \<and> length cs = length tss
    \<and> (\<forall>k < length tss. cs ! k < n \<and> tss ! k ! (cs ! k) = Running)
    \<and> (steps_to n (s_currentThread s) j \<le> length tss \<longrightarrow> j \<in> set (take (steps_to n (s_currentThread s) j) cs))"
  using assms
proof (induction tss arbitrary: s)
  case Nil
  then show ?case using steps_to_pos [of "s_currentThread s" n j] by simp
next
  case (Cons ts tss)
  then have ts: "length ts = n" "ts ! j = Running" by simp_all
  let ?c = "s_currentThread s"
  from nextThread_loop_running [of ?c ts j] Cons.prems ts obtain c' where
    c': "nextThread_loop ts ?c = Some c'" "c' < n" "ts ! c' = Running"
    "c' = j \<or> steps_to n c' j < steps_to n ?c j" by auto
  let ?s = "s\<lparr>threads := ts, s_currentThread := c'\<rparr>"
  from Cons.IH [of ?s] Cons.prems c'(2) obtain cs where
    cs: "schedule_run ?s tss = Some cs" "length cs = length tss"
    "\<forall>k < length tss. cs ! k < n \<and> tss ! k ! (cs ! k) = Running"
    "steps_to n c' j \<le> length tss \<longrightarrow> j \<in> set (take (steps_to n c' j) cs)" by auto
  have "schedule_run s (ts # tss) = Some (c' # cs)"
    using c'(1) cs(1) by (simp add: nextThread_def)
  moreover have "j \<in> set (take (steps_to n ?c j) (c' # cs))" if len: "steps_to n ?c j \<le> length (ts # tss)"
  proof (cases "c' = j")
    case True
    then show ?thesis using steps_to_pos [of ?c n j] Cons.prems by (cases "steps_to n ?c j") auto
  next
    case False
    with c'(4) have less: "steps_to n c' j < steps_to n ?c j" by blast
    then obtain d where d: "steps_to n ?c j = Suc d" "steps_to n c' j \<le> d"
      by (cases "steps_to n ?c j") auto
    with cs(4) len have "j \<in> set (take (steps_to n c' j) cs)" by simp
    with set_take_subset_set_take [OF d(2), of cs] d(1) show ?thesis by auto
  qed
  moreover have "\<forall>k < length (ts # tss). (c' # cs) ! k < n \<and> (ts # tss) ! k ! ((c' # cs) ! k) = Running"
    using cs(3) c' by (auto simp: nth_Cons split: nat.splits)
  ultimately show ?case using cs(2) by auto
qed

text \<open>
  C15: A thread that stays running is chosen within as many calls of \<open>nextThread\<close> as there are threads,
  whatever happens to the status of the other threads between the calls, and every thread that is chosen
  is running. When no thread is running the call never returns.
\<close>
theorem scheduler_serves_running_threads:
  assumes "\<forall>ts \<in> set tss. length ts = n \<and> ts ! j = Running" and "j < n" and "s_currentThread s < n"
  shows "(\<exists>cs. schedule_run s tss = Some cs \<and> length cs = length tss
      \<and> (\<forall>k < length tss. cs ! k < n \<and> tss ! k ! (cs ! k) = Running)
      \<and> (n \<le> length tss \<longrightarrow> j \<in> set (take n cs)))
    \<and> ((\<forall>i < length (threads s'). threads s' ! i \<noteq> Running) \<longrightarrow> nextThread s' = None)"
proof
  let ?d = "steps_to n (s_currentThread s) j"
  have d: "?d \<le> n" using steps_to_pos [OF assms(3,2)] by simp
  from schedule_run_serves [OF assms] obtain cs where
    cs: "schedule_run s tss = Some cs" "length cs = length tss"
    "\<forall>k < length tss. cs ! k < n \<and> tss ! k ! (cs ! k) = Running"
    "?d \<le> length tss \<longrightarrow> j \<in> set (take ?d cs)" by blast
  moreover have "j \<in> set (take n cs)" if "n \<le> length tss"
    using cs(4) that d set_take_subset_set_take [OF d, of cs] by auto
  ultimately show "\<exists>cs. schedule_run s tss = Some cs \<and> length cs = length tss
      \<and> (\<forall>k < length tss. cs ! k < n \<and> tss ! k ! (cs ! k) = Running)
      \<and> (n \<le> length tss \<longrightarrow> j \<in> set (take n cs))" by blast
  show "(\<forall>i < length (threads s'). threads s' ! i \<noteq> Running) \<longrightarrow> nextThread s' = None"
    by (simp add: nextThread_def nextThread_loop_diverges)
qed

definition sample_sched :: sched_state where
  "sample_sched = \<lparr>threads = [Running, IWaiting, IWaiting], s_currentThread = 0, preemptionEnabled = True,
     timers = [\<lparr>parentThread = 1, expiralSystemTime = 5\<rparr>, \<lparr>parentThread = 2, expiralSystemTime = 5\<rparr>],
     systemTicks = 5, tickFrequency = 100, startupTimestamp = 0\<rparr>"

theorem scheduler_serves_running_threads_witness:
  "\<exists>cs. schedule_run sample_sched [[Running, Running, Running], [Running, Defunct, Running],
      [UWaiting, Running, Running]] = Some cs \<and> 2 \<in> set cs"
proof -
  let ?tss = "[[Running, Running, Running], [Running, Defunct, Running], [UWaiting, Running, Running]]"
  have h: "\<forall>ts \<in> set ?tss. length ts = 3 \<and> ts ! 2 = Running" "(2 :: nat) < 3"
    "s_currentThread sample_sched < 3" "3 \<le> length ?tss" by (simp_all add: sample_sched_def)
  from conjunct1 [OF scheduler_serves_running_threads [OF h(1,2,3)]] h(4)
  obtain cs where cs: "schedule_run sample_sched ?tss = Some cs" "2 \<in> set (take 3 cs)" by blast
  from in_set_takeD [OF cs(2)] cs(1) show ?thesis by blast
qed

text \<open>
  C29: A thread that sleeps is woken: if the timer is at position \<open>p\<close> of the list, its thread is running
  at the latest \<open>p\<close> ticks after the first tick at which the timer has expired, since the loop of the tick
  skips the timer after each one it removes. And it is not woken early: while no timer of the thread has
  expired, its status does not become running.
\<close>
theorem timer_wakes_thread:
  assumes "p < length (timers s)" and "t = timers s ! p" and "parentThread t < length (threads s)"
    and "n = max (systemTicks s) (expiralSystemTime t) - systemTicks s + Suc p" and "systemTicks s + n < 2 ^ 64"
  shows "(\<exists>k \<le> n. threads ((timerTickISR ^^ k) s) ! parentThread t = Running)
    \<and> (\<forall>k. (\<forall>t' \<in> set (timers s). parentThread t' = parentThread t \<longrightarrow> systemTicks s + k \<le> expiralSystemTime t')
        \<longrightarrow> k \<le> n \<longrightarrow> threads s ! parentThread t \<noteq> Running
        \<longrightarrow> threads ((timerTickISR ^^ k) s) ! parentThread t \<noteq> Running)"
proof (intro conjI allI impI)
  show "\<exists>k \<le> n. threads ((timerTickISR ^^ k) s) ! parentThread t = Running"
    using timer_position [OF assms(5,1,2,3)] assms(4) by auto
  fix k
  assume early: "\<forall>t' \<in> set (timers s). parentThread t' = parentThread t \<longrightarrow> systemTicks s + k \<le> expiralSystemTime t'"
    and kn: "k \<le> n" and sl: "threads s ! parentThread t \<noteq> Running"
  have "threads ((timerTickISR ^^ k') s) ! parentThread t \<noteq> Running" if "k' \<le> k" for k'
    using that
  proof (induction k')
    case (Suc k')
    let ?s = "(timerTickISR ^^ k') s"
    have b: "systemTicks s + k' < 2 ^ 64" using Suc.prems kn assms(5) by simp
    note now = systemTicks_ticks [OF b]
    have "systemTicks ?s + 1 < 2 ^ 64" using Suc.prems kn assms(5) now by simp
    note parts = timerTickISR_parts [OF this]
    note sub = ticks_set_timers [OF b]
    have "\<not> expired (systemTicks ?s + 1) t'" if "t' \<in> set (timers ?s)" "parentThread t' = parentThread t" for t'
      using early that sub Suc.prems now by (fastforce simp: expired_def)
    with Suc tick_loop_threads [of "systemTicks ?s + 1" 0 "timers ?s" "threads ?s" "parentThread t"]
      assms(3) sub parts show ?case by auto
  qed (use sl in simp)
  then show "threads ((timerTickISR ^^ k) s) ! parentThread t \<noteq> Running" by simp
qed

theorem timer_wakes_thread_witness:
  "(\<exists>k \<le> 2. threads ((timerTickISR ^^ k) sample_sched) ! 2 = Running)
    \<and> threads (timerTickISR sample_sched) ! 2 \<noteq> Running"
proof
  let ?t = "\<lparr>parentThread = 2, expiralSystemTime = 5\<rparr>"
  have h: "1 < length (timers sample_sched)" "?t = timers sample_sched ! 1"
    "parentThread ?t < length (threads sample_sched)"
    "2 = max (systemTicks sample_sched) (expiralSystemTime ?t) - systemTicks sample_sched + Suc 1"
    "systemTicks sample_sched + 2 < 2 ^ 64" by (simp_all add: sample_sched_def)
  from conjunct1 [OF timer_wakes_thread [OF h]]
  show "\<exists>k \<le> 2. threads ((timerTickISR ^^ k) sample_sched) ! 2 = Running" by (simp only: ThreadTimer.simps)
  show "threads (timerTickISR sample_sched) ! 2 \<noteq> Running"
  proof -
    have "tick_loop 6 0 (timers sample_sched) (threads sample_sched)
        = ([\<lparr>parentThread = 2, expiralSystemTime = 5\<rparr>], [Running, Running, IWaiting])"
      unfolding sample_sched_def by (subst tick_loop.simps, simp, subst tick_loop.simps, simp)
    moreover have "(systemTicks sample_sched + 1) mod 2 ^ 64 = 6" by (simp add: sample_sched_def)
    ultimately show ?thesis by (simp add: timerTickISR_def del: One_nat_def)
  qed
qed

end
