(* ===== verification/Bson.thy ===== *)
theory Bson
  imports Libc_String
begin

text \<open>
  The reader of stored documents in init: src/src/init/libDataStore/bson.c. A document is its length, a
  sequence of typed elements, each with a NUL-terminated key, and a final 0 byte; the only type the
  code knows is the string.

  \<open>readUInt32\<close> combines four values of type \<open>char\<close>, which is signed, so a byte from 128 on is extended
  with ones. Offsets are unsigned 32-bit and wrap around. The search loop need not end, so it is a
  partial function: \<open>None\<close> is a fault or a loop that never returns.
\<close>

section \<open>The functions\<close>

definition TYPE_STRING :: u8 where
  "TYPE_STRING = 2"

text \<open>The local \<open>strnlen\<close> of the file ignores its bound.\<close>

definition bson_strnlen :: "mem \<Rightarrow> addr \<Rightarrow> nat \<Rightarrow> nat option" where
  "bson_strnlen m c n = strlen m c"

definition combine_chars :: "u8 \<Rightarrow> u8 \<Rightarrow> u8 \<Rightarrow> u8 \<Rightarrow> u32" where
  "combine_chars b0 b1 b2 b3 =
     scast b0 OR push_bit 8 (scast b1) OR push_bit 16 (scast b2) OR push_bit 24 (scast b3)"

definition readUInt32 :: "mem \<Rightarrow> addr \<Rightarrow> u32 option" where
  "readUInt32 m u = do {
     b0 \<leftarrow> load m u; b1 \<leftarrow> load m (u + 1); b2 \<leftarrow> load m (u + 2); b3 \<leftarrow> load m (u + 3);
     Some (combine_chars b0 b1 b2 b3) }"

partial_function (option) bsonKeyLookup_loop ::
  "mem \<Rightarrow> addr \<Rightarrow> addr \<Rightarrow> nat \<Rightarrow> nat \<Rightarrow> (addr \<times> u8 option) option" where
  "bsonKeyLookup_loop m key doc docLen offset =
     (if add32 offset 1 < docLen then do {
        elementType \<leftarrow> load m (doc + offset);
        keyLen \<leftarrow> bson_strnlen m (doc + offset + 1) (sub32 docLen offset);
        c \<leftarrow> strncmp m key (doc + offset + 1) (sub32 docLen offset);
        if c = 0 then Some (doc + offset + 1 + keyLen + 1, Some elementType)
        else if elementType = TYPE_STRING then do {
          stringLen \<leftarrow> readUInt32 m (doc + add32 offset (1 + keyLen + 1));
          bsonKeyLookup_loop m key doc docLen
            (add32 (add32 offset (1 + keyLen + 1)) (add32 (unat stringLen) 4)) }
        else bsonKeyLookup_loop m key doc docLen (add32 offset (1 + keyLen + 1)) }
      else Some (NULL, None))"

definition bsonKeyLookup :: "mem \<Rightarrow> addr \<Rightarrow> addr \<Rightarrow> (addr \<times> u8 option) option" where
  "bsonKeyLookup m key document = do {
     docLen \<leftarrow> readUInt32 m document;
     bsonKeyLookup_loop m key document (unat docLen) 4 }"

text \<open>The string of a value and the length, cut to a byte, that is stored through \<open>len\<close>.\<close>

definition bsonValueToString :: "mem \<Rightarrow> addr \<Rightarrow> (addr \<times> u8) option" where
  "bsonValueToString m valuePtr = do {
     stringLen \<leftarrow> readUInt32 m valuePtr;
     Some (valuePtr + 4, ucast stringLen) }"

definition bsonValueToInt32 :: "mem \<Rightarrow> addr \<Rightarrow> u32 option" where
  "bsonValueToInt32 m valuePtr = readUInt32 m valuePtr"

definition bsonCheckValidity :: "mem \<Rightarrow> addr \<Rightarrow> nat \<Rightarrow> nat option" where
  "bsonCheckValidity m document fileSize = do {
     docLen \<leftarrow> readUInt32 m document;
     if fileSize < 4 + 1 + 2 + 1 then Some 0
     else if fileSize < unat docLen then Some 0
     else do {
       b \<leftarrow> load m (document + 4);
       Some (if b = TYPE_STRING then 1 else 0) } }"

section \<open>Documents\<close>

definition bson_element :: "u8 list \<times> u8 list \<Rightarrow> u8 list" where
  "bson_element e = [TYPE_STRING] @ fst e @ [0] @ bytes_of_u32 (word_of_nat (length (snd e))) @ snd e"

definition bson_document :: "(u8 list \<times> u8 list) list \<Rightarrow> u8 list" where
  "bson_document es =
     (let body = concat (map bson_element es) @ [0] in
      bytes_of_u32 (word_of_nat (4 + length body)) @ body)"

text \<open>The offset of the value of the first element with a key, from the element at \<open>off\<close> on.\<close>

fun bson_value_offset :: "u8 list \<Rightarrow> nat \<Rightarrow> (u8 list \<times> u8 list) list \<Rightarrow> nat option" where
  "bson_value_offset key off [] = None"
| "bson_value_offset key off ((k, v) # es) =
     (if k = key then Some (off + length k + 2)
      else bson_value_offset key (off + length (bson_element (k, v))) es)"

section \<open>Reading integers\<close>

lemma scast_small:
  fixes b :: u8
  assumes "b < 128"
  shows "(scast b :: u32) = ucast b"
proof -
  have "uint b < 128" using assms by (simp add: word_less_def)
  then have "sint b = uint b"
    using signed_take_bit_int_eq_self [of 7 "uint b"] uint_ge_0 [of b] by (simp add: sint_uint)
  then have "(word_of_int (sint b) :: u32) = word_of_int (uint b)" by simp
  then show ?thesis by simp
qed

lemma combine_chars_little_endian:
  assumes "b0 < 128" and "b1 < 128" and "b2 < 128"
  shows "combine_chars b0 b1 b2 b3 = u32_of_bytes [b0, b1, b2, b3]"
proof -
  have "push_bit 24 (scast b3 :: u32) = push_bit 24 (ucast b3)"
    by (rule bit_word_eqI) (auto simp: bit_simps)
  then show ?thesis using assms by (simp add: combine_chars_def u32_of_bytes_def scast_small)
qed

lemma uint_or_ge:
  fixes x y :: u32
  shows "uint x \<le> uint (x OR y)"
  by (simp add: unsigned_or_eq or_greater_eq)

lemma combine_chars_sign:
  assumes "128 \<le> b0"
  shows "2 ^ 32 - 128 \<le> unat (combine_chars b0 b1 b2 b3)"
proof -
  have "128 \<le> uint b0" "uint b0 < 256" using assms unsigned_less [of b0] by (simp_all add: word_le_def)
  then have "(uint b0 + 128) mod 256 = uint b0 - 128" by (intro int_mod_pos_eq [where q = 1]) auto
  then have "sint b0 = uint b0 - 256"
    by (simp add: sint_uint signed_take_bit_eq_take_bit_shift take_bit_eq_mod)
  with \<open>128 \<le> uint b0\<close> \<open>uint b0 < 256\<close> have s: "- 128 \<le> sint b0" "sint b0 < 0" by simp_all
  have "(scast b0 :: u32) = word_of_int (sint b0)" by simp
  then have "uint (scast b0 :: u32) = sint b0 mod 2 ^ 32" by (simp only: uint_word_of_int) simp
  also have "\<dots> = sint b0 + 2 ^ 32" using s by (intro int_mod_pos_eq [where q = "- 1"]) auto
  finally have "2 ^ 32 - 128 \<le> uint (scast b0 :: u32)" using s by simp
  also have "\<dots> \<le> uint (combine_chars b0 b1 b2 b3)"
    using uint_or_ge [of "scast b0" "push_bit 8 (scast b1) OR push_bit 16 (scast b2) OR push_bit 24 (scast b3)"]
    unfolding combine_chars_def or.assoc .
  finally have "int (2 ^ 32 - 128) \<le> int (unat (combine_chars b0 b1 b2 b3))" by simp
  then show ?thesis by (simp only: of_nat_le_iff)
qed

lemma readUInt32_bytes:
  assumes "region m a 4"
  shows "readUInt32 m a = Some (combine_chars (m ! a) (m ! (a + 1)) (m ! (a + 2)) (m ! (a + 3)))"
  using assms by (simp add: readUInt32_def load_def region_def)

lemma small_word_bytes:
  assumes "n < 128"
  shows "bytes_of_u32 (word_of_nat n) = [word_of_nat n, 0, 0, 0]"
proof -
  have u: "unat (word_of_nat n :: u32) = n" using assms by (simp add: unat_of_nat take_bit_nat_eq_self)
  have "drop_bit k (word_of_nat n :: u32) = 0" if "8 \<le> k" for k
  proof -
    have "n < 2 ^ k" using assms power_increasing [of 8 k "2::nat"] that by simp
    then have "unat (drop_bit k (word_of_nat n :: u32)) = 0"
      by (simp add: unat_drop_bit_eq u) (simp add: drop_bit_eq_div)
    then show ?thesis by (simp add: unat_eq_zero)
  qed
  moreover have "(ucast (word_of_nat n :: u32) :: u8) = word_of_nat n"
  proof -
    have "unat (ucast (word_of_nat n :: u32) :: u8) = unat (word_of_nat n :: u8)"
      using assms by (simp add: unsigned_ucast_eq u unat_of_nat take_bit_nat_eq_self)
    then show ?thesis by (simp only: word_unat_eq_iff)
  qed
  ultimately show ?thesis by (simp add: bytes_of_u32_def)
qed

text \<open>A length below 128 is read back; with one from 128 to 255 the value is at least \<open>2 ^ 32 - 128\<close>.\<close>

lemma readUInt32_small:
  assumes "region m a 4" and "bytes_at m a 4 = bytes_of_u32 (word_of_nat n)" and "n < 128"
  shows "readUInt32 m a = Some (word_of_nat n)"
proof -
  have b: "bytes_at m a 4 = [m ! a, m ! (a + 1), m ! (a + 2), m ! (a + 3)]"
    using assms(1) by (intro nth_equalityI) (auto simp: nth_bytes_at less_Suc_eq numeral_eq_Suc)
  have "(word_of_nat n :: u8) < 128"
    using assms(3) by (simp add: word_less_nat_alt unat_of_nat take_bit_nat_eq_self)
  then have "combine_chars (m ! a) (m ! (a + 1)) (m ! (a + 2)) (m ! (a + 3)) = u32_of_bytes (bytes_at m a 4)"
    using assms(2,3) b by (simp add: combine_chars_little_endian small_word_bytes)
  then show ?thesis using assms by (simp add: readUInt32_bytes)
qed

section \<open>Searching a document\<close>

text \<open>\<open>holds m p D\<close>: the bytes \<open>D\<close> are stored at \<open>p\<close>.\<close>

definition holds :: "mem \<Rightarrow> addr \<Rightarrow> u8 list \<Rightarrow> bool" where
  "holds m p D \<longleftrightarrow> region m p (length D) \<and> bytes_at m p (length D) = D"

lemma holds_part:
  assumes "holds m p D" and "drop i D = xs @ ys" and "i \<le> length D"
  shows "holds m (p + i) xs"
proof -
  have l: "length D = i + length xs + length ys" using arg_cong [OF assms(2), of length] assms(3) by simp
  have "bytes_at m (p + i) (length xs) = take (length xs) (drop i D)"
    using bytes_at_sub [of i "length xs" "length D" m p] l assms(1) by (simp add: holds_def)
  with assms l show ?thesis by (simp add: holds_def region_def)
qed

lemma holds_load: "holds m p (b # xs) \<Longrightarrow> load m p = Some b"
proof -
  assume h: "holds m p (b # xs)"
  then have r: "region m p (Suc (length xs))" by (simp add: holds_def)
  with h have "m ! p = b" using nth_bytes_at [OF r, of 0] by (simp add: holds_def)
  with r show ?thesis by (simp add: load_def region_def)
qed

lemma holds_cstr: "holds m p (k @ [0]) \<Longrightarrow> 0 \<notin> set k \<Longrightarrow> cstr m p k"
  by (simp add: holds_def cstr_def)

text \<open>One element: its type, its key, the length of its value and where the next element starts.\<close>

lemma element_parts:
  assumes h: "holds m p D" and d: "drop i D = bson_element (k, v) @ rest" and i: "i \<le> length D"
    and k: "0 \<notin> set k" and v: "length v < 128"
  shows "load m (p + i) = Some TYPE_STRING" and "cstr m (p + i + 1) k"
    and "readUInt32 m (p + (i + length k + 2)) = Some (word_of_nat (length v))"
    and "drop (i + length (bson_element (k, v))) D = rest"
    and "i + length (bson_element (k, v)) + length rest = length D"
proof -
  let ?b = "bytes_of_u32 (word_of_nat (length v))"
  have d0: "drop i D = (TYPE_STRING # []) @ (k @ [0]) @ ?b @ v @ rest"
    using d by (simp add: bson_element_def)
  have l: "length D = i + (1 + (length k + 1) + 4 + length v + length rest)"
    using arg_cong [OF d0, of length] i by simp
  show "load m (p + i) = Some TYPE_STRING"
    using holds_load holds_part [OF h d0 i] by simp
  have "drop (i + 1) D = drop 1 (drop i D)" by (simp add: add.commute)
  then have d1: "drop (i + 1) D = (k @ [0]) @ ?b @ v @ rest" by (simp add: d0)
  have "holds m (p + (i + 1)) (k @ [0])" using holds_part [OF h d1] l by simp
  then show "cstr m (p + i + 1) k" using holds_cstr k by (simp add: add.assoc)
  have "drop (i + length k + 2) D = drop (length k + 2) (drop i D)" by (simp add: ac_simps)
  then have "drop (i + length k + 2) D = ?b @ v @ rest" by (simp add: d0)
  from holds_part [OF h this] l have "holds m (p + (i + length k + 2)) ?b" by simp
  then show "readUInt32 m (p + (i + length k + 2)) = Some (word_of_nat (length v))"
    using v by (intro readUInt32_small) (simp_all add: holds_def)
  have "drop (i + length (bson_element (k, v))) D = drop (length (bson_element (k, v))) (drop i D)"
    by (simp add: add.commute)
  then show "drop (i + length (bson_element (k, v))) D = rest" by (simp add: d)
  show "i + length (bson_element (k, v)) + length rest = length D"
    using l by (simp add: bson_element_def)
qed

lemma strncmp_key:
  assumes "cstr m q key" and "cstr m a k" and "length k < n"
  shows "\<exists>c. strncmp m q a n = Some c \<and> (c = 0 \<longleftrightarrow> k = key)"
proof -
  have "take n key = k \<longleftrightarrow> key = k" using assms(3) by (metis length_take min_less_iff_disj less_irrefl_nat
      linorder_not_le order_less_imp_le take_all)
  with strncmp_lex3 [OF assms(1,2), of n] assms(3) show ?thesis by (auto simp: lex3_zero)
qed

lemma bsonKeyLookup_loop_finds:
  assumes h: "holds m p D" and q: "cstr m q key" and l: "length D < 128"
    and ok: "\<forall>(k, v) \<in> set es. 0 \<notin> set k" and d: "drop i D = concat (map bson_element es) @ [0]"
    and i: "i \<le> length D"
  shows "bsonKeyLookup_loop m q p (length D) i
    = Some (case bson_value_offset key i es of None \<Rightarrow> (NULL, None)
            | Some off \<Rightarrow> (p + off, Some TYPE_STRING))"
  using ok d i
proof (induction es arbitrary: i)
  case Nil
  have "length (drop i D) = 1" using Nil(2) by simp
  then have "length D = i + 1" using Nil(3) by simp
  with l show ?case by (subst bsonKeyLookup_loop.simps) (simp add: add32_small)
next
  case (Cons e es)
  obtain k v where e: "e = (k, v)" by (cases e)
  let ?n = "length (bson_element (k, v))" and ?rest = "concat (map bson_element es) @ [0]"
  have d: "drop i D = bson_element (k, v) @ ?rest" using Cons.prems(2) by (simp add: e)
  have k: "0 \<notin> set k" using Cons.prems(1) by (simp add: e)
  have len: "i + ?n + length ?rest = length D" "?n = length k + length v + 6"
    using arg_cong [OF d, of length] Cons.prems(3) by (simp_all add: bson_element_def)
  then have v: "length v < 128" using l by simp
  note el = element_parts [OF h d Cons.prems(3) k v]
  have rl: "0 < length ?rest" by simp
  have sub: "sub32 (length D) i = length D - i" "add32 i 1 = i + 1" "add32 i (1 + length k + 1) = i + length k + 2"
    using len l by (simp_all add: sub32_small add32_small)
  obtain c where c: "strncmp m q (p + i + 1) (length D - i) = Some c" "c = 0 \<longleftrightarrow> k = key"
  proof -
    have "length k < length D - i" using len by linarith
    from strncmp_key [OF q el(2) this] that show ?thesis by blast
  qed
  have IH: "bsonKeyLookup_loop m q p (length D) (i + ?n)
      = Some (case bson_value_offset key (i + ?n) es of None \<Rightarrow> (NULL, None)
              | Some off \<Rightarrow> (p + off, Some TYPE_STRING))"
    using Cons.IH [of "i + ?n"] Cons.prems(1) el(4) len(1) by simp
  have u: "unat (word_of_nat (length v) :: u32) = length v"
    using v by (simp add: unat_of_nat take_bit_nat_eq_self)
  have step: "add32 (i + length k + 2) (add32 (length v) 4) = i + ?n"
    using len l v by (simp add: add32_small)
  show ?case
    using strlen_cstr [OF el(2)] el(1,3) c sub u step IH len rl
    by (subst bsonKeyLookup_loop.simps) (simp add: bson_strnlen_def e ac_simps)
qed

section \<open>Properties\<close>

text \<open>
  C19: In a well-formed document of less than 128 bytes, \<open>bsonKeyLookup\<close> ends and returns the address of
  the value of the first element with the given key, with its type, or \<open>NULL\<close> when no element has it.
\<close>
theorem bsonKeyLookup_finds_first:
  assumes "holds m p (bson_document es)" and "cstr m q key"
    and "length (bson_document es) < 128" and "\<forall>(k, v) \<in> set es. 0 \<notin> set k"
  shows "bsonKeyLookup m q p
    = Some (case bson_value_offset key 4 es of None \<Rightarrow> (NULL, None)
            | Some off \<Rightarrow> (p + off, Some TYPE_STRING))"
proof -
  let ?D = "bson_document es" and ?body = "concat (map bson_element es) @ [0]"
  have D: "?D = bytes_of_u32 (word_of_nat (length ?D)) @ ?body" by (simp add: bson_document_def Let_def)
  have "holds m (p + 0) (bytes_of_u32 (word_of_nat (length ?D)))"
    using holds_part [OF assms(1), of 0] D by auto
  then have r: "readUInt32 m p = Some (word_of_nat (length ?D))"
    using assms(3) by (intro readUInt32_small) (simp_all add: holds_def)
  have u: "unat (word_of_nat (length ?D) :: u32) = length ?D"
    using assms(3) by (simp add: unat_of_nat take_bit_nat_eq_self)
  have d4: "drop 4 ?D = ?body" by (subst D) simp
  have "4 \<le> length ?D" by (subst D) simp
  from bsonKeyLookup_loop_finds [OF assms d4 this] r u show ?thesis by (simp add: bsonKeyLookup_def)
qed

theorem bsonKeyLookup_finds_first_witness:
  "bsonKeyLookup ([9, 97, 0] @ bson_document [([97], [120, 0])]) 1 3 = Some (10, Some TYPE_STRING)"
proof -
  let ?D = "bson_document [([97], [120, 0])]"
  have D: "?D = [14, 0, 0, 0, 2, 97, 0, 2, 0, 0, 0, 120, 0, 0]"
    by (simp add: bson_document_def Let_def bson_element_def TYPE_STRING_def bytes_of_u32_def)
  have "holds ([9, 97, 0] @ ?D) 3 ?D" unfolding D by (simp add: holds_def region_def bytes_at_def)
  moreover have "cstr ([9, 97, 0] @ ?D) 1 [97]" unfolding D by (simp add: cstr_def region_def bytes_at_def)
  ultimately show ?thesis
    using bsonKeyLookup_finds_first [of "[9, 97, 0] @ ?D" 3 "[([97], [120, 0])]" 1 "[97]"]
    by (simp add: D)
qed

text \<open>
  The integers of a document are read as little-endian numbers when the three lower bytes are
  below 128. When the lowest byte is 128 or more, as for any document of 128 to 255 bytes, the value
  read is at least \<open>2 ^ 32 - 128\<close> whatever the other bytes are, and \<open>bsonCheckValidity\<close> rejects such a
  document in a file of any realistic size.
\<close>
theorem readUInt32_sign_extends:
  assumes "region m a 4"
  shows "(m ! a < 128 \<longrightarrow> m ! (a + 1) < 128 \<longrightarrow> m ! (a + 2) < 128 \<longrightarrow> readUInt32 m a = load32 m a)
    \<and> (128 \<le> m ! a \<longrightarrow> (\<exists>w. readUInt32 m a = Some w \<and> 2 ^ 32 - 128 \<le> unat w)
         \<and> (\<forall>fileSize. fileSize < 2 ^ 32 - 128 \<longrightarrow> bsonCheckValidity m a fileSize = Some 0))"
proof -
  have b: "bytes_at m a 4 = [m ! a, m ! (a + 1), m ! (a + 2), m ! (a + 3)]"
    using assms by (intro nth_equalityI) (auto simp: nth_bytes_at less_Suc_eq numeral_eq_Suc)
  note r = readUInt32_bytes [OF assms]
  have "readUInt32 m a = load32 m a" if "m ! a < 128" "m ! (a + 1) < 128" "m ! (a + 2) < 128"
    using that r assms by (simp add: load32_def b combine_chars_little_endian)
  moreover have "\<exists>w. readUInt32 m a = Some w \<and> 2 ^ 32 - 128 \<le> unat w" if "128 \<le> m ! a"
    using combine_chars_sign [OF that] r by blast
  moreover have "bsonCheckValidity m a fileSize = Some 0"
    if "128 \<le> m ! a" "fileSize < 2 ^ 32 - 128" for fileSize
    using combine_chars_sign [OF that(1), of "m ! (a + 1)" "m ! (a + 2)" "m ! (a + 3)"] that(2)
    unfolding bsonCheckValidity_def r by auto
  ultimately show ?thesis by blast
qed

theorem readUInt32_sign_extends_witness:
  "bsonCheckValidity [9, 200, 0, 0, 0, 2] 1 200 = Some 0"
  using readUInt32_sign_extends [of "[9, 200, 0, 0, 0, 2]" 1] by (simp add: region_def)

end
