(* ===== verification/Processes.thy ===== *)
theory Processes
  imports File_Calls_Refinement Scheduler
begin

text \<open>
  The processes of the kernel, src/src/kernel/task/task.cpp, their termination in
  src/src/kernel/task/threadsmanager.cpp and the system calls of src/src/kernel/uapi/processuapi.cpp.

  A process control block is found through the table from numbers to processes, through a doubly linked list
  that new processes join at the front, through the parent pointers of its children and through its threads.
  Each of these pointers is a counted reference; a block whose last reference is put is deleted. The state
  (record \<open>system\<close>) maps the addresses of live blocks and threads to their fields, and an access to a deleted
  block or through a null pointer is a fault, \<open>None\<close>. A kernel panic, which halts the machine, is \<open>None\<close> too.
  What the allocator returns is an argument. The counts are not bounded here: the numbers of processes run
  out before a count of 31 bits does.

  A call on files works on the part of the state that theory File\_Calls calls \<open>kernel\<close>, with the descriptors
  of the process of the current thread. A memory context is represented by whether it still exists. A call
  that has to wait for an event returns \<open>None\<close> as its result and leaves the state alone: it is tried again
  after the event. The reference that \<open>waitpid\<close> holds to the child while it waits only delays the deletion.
\<close>

section \<open>Data\<close>

datatype TaskStatus = NOT_STARTED | READY | WAITING | SLEEPING | RUNNING | TERMINATED

record ProcessControlBlock =
  pid :: int
  p_uid :: u32
  p_euid :: u32
  p_gid :: u32
  p_egid :: u32
  p_pgid :: u32
  p_sid :: u32
  p_status :: TaskStatus
  p_exitStatus :: int
  p_parent :: addr
  p_mainThread :: addr
  p_memory :: bool
  p_files :: "FileDescriptor option QList"
  p_cwd :: addr
  p_umask :: u32
  p_refCount :: int
  p_prev :: addr
  p_next :: addr

record ThreadControlBlock =
  parentProcess :: addr
  thread_status :: ThreadStatus

record 'w system =
  procs :: "addr \<rightharpoonup> ProcessControlBlock"
  tcbs :: "addr \<rightharpoonup> ThreadControlBlock"
  processes :: "(int, addr) QHash"
  lastUsedPID :: int
  firstProcess :: addr
  thread_list :: "addr list"
  current :: addr
  sys_vnodes :: vnode_state
  sys_world :: 'w

definition the_proc :: "'w system \<Rightarrow> addr \<Rightarrow> ProcessControlBlock option" where
  "the_proc s p = (if p = NULL then None else procs s p)"

definition set_proc ::
  "'w system \<Rightarrow> addr \<Rightarrow> (ProcessControlBlock \<Rightarrow> ProcessControlBlock) \<Rightarrow> 'w system option" where
  "set_proc s p f = map_option (\<lambda>x. s\<lparr>procs := (procs s)(p \<mapsto> f x)\<rparr>) (the_proc s p)"

definition the_thread :: "'w system \<Rightarrow> addr \<Rightarrow> ThreadControlBlock option" where
  "the_thread s t = (if t = NULL then None else tcbs s t)"

text \<open>\<open>Scheduler::currentThread()->parentProcess\<close>, a pointer, and the block behind it.\<close>

definition current_process :: "'w system \<Rightarrow> addr option" where
  "current_process s = map_option parentProcess (the_thread s (current s))"

definition current_block :: "'w system \<Rightarrow> ProcessControlBlock option" where
  "current_block s = do { p \<leftarrow> current_process s; the_proc s p }"

section \<open>References\<close>

definition referenceProcess :: "'w system \<Rightarrow> addr \<Rightarrow> 'w system option" where
  "referenceProcess s p = (if p = NULL then Some s else set_proc s p (\<lambda>x. x\<lparr>p_refCount := p_refCount x + 1\<rparr>))"

text \<open>The stacks of the main thread are freed, so there must be one.\<close>

definition deleteProcess :: "'w system \<Rightarrow> addr \<Rightarrow> 'w system option" where
  "deleteProcess s p = do {
     x \<leftarrow> the_proc s p;
     t \<leftarrow> the_thread s (p_mainThread x);
     Some (s\<lparr>procs := (procs s)(p := None)\<rparr>) }"

definition putProcess :: "'w system \<Rightarrow> addr \<Rightarrow> 'w system option" where
  "putProcess s p =
     (if p = NULL then Some s
      else do {
        s \<leftarrow> set_proc s p (\<lambda>x. x\<lparr>p_refCount := p_refCount x - 1\<rparr>);
        x \<leftarrow> the_proc s p;
        if p_refCount x = 0 then deleteProcess s p else Some s })"

definition process_of :: "'w system \<Rightarrow> int \<Rightarrow> addr option" where
  "process_of s n = QHash_value (\<lambda>i. i) (processes s) n NULL"

definition isValidPID :: "'w system \<Rightarrow> int \<Rightarrow> bool option" where
  "isValidPID s n = map_option (\<lambda>p. p \<noteq> NULL) (process_of s n)"

definition getProcess :: "'w system \<Rightarrow> int \<Rightarrow> (addr \<times> 'w system) option" where
  "getProcess s n = do {
     p \<leftarrow> process_of s n;
     s \<leftarrow> referenceProcess s p;
     Some (p, s) }"

definition getProcessRef :: "'w system \<Rightarrow> int \<Rightarrow> (addr \<times> 'w system) option" where
  "getProcessRef s n = do {
     p \<leftarrow> process_of s n;
     s \<leftarrow> referenceProcess s p;
     Some (p, s) }"

text \<open>The iterator over the list holds a reference to the process it points to.\<close>

definition processEnumerationBegin :: "'w system \<Rightarrow> (addr \<times> 'w system) option" where
  "processEnumerationBegin s = do {
     s \<leftarrow> referenceProcess s (firstProcess s);
     Some (firstProcess s, s) }"

definition processEnumerationNext :: "'w system \<Rightarrow> addr \<Rightarrow> (addr \<times> 'w system) option" where
  "processEnumerationNext s it = do {
     x \<leftarrow> the_proc s it;
     s \<leftarrow> referenceProcess s (p_next x);
     s \<leftarrow> putProcess s it;
     Some (p_next x, s) }"

section \<open>Files of the current process\<close>

definition kernel_of :: "'w system \<Rightarrow> ProcessControlBlock \<Rightarrow> 'w kernel" where
  "kernel_of s x = \<lparr>vnode_table = sys_vnodes s, world = sys_world s, openFiles = p_files x,
     currentWorkingDirNode = p_cwd x, umask_value = p_umask x, uid = unat (p_uid x), gid = unat (p_gid x)\<rparr>"

definition files_back :: "ProcessControlBlock \<Rightarrow> 'w kernel \<Rightarrow> ProcessControlBlock" where
  "files_back x k = x\<lparr>p_files := openFiles k, p_cwd := currentWorkingDirNode k, p_umask := umask_value k\<rparr>"

definition file_call :: "'w system \<Rightarrow> ('w kernel \<Rightarrow> ('r \<times> 'w kernel) option) \<Rightarrow> ('r \<times> 'w system) option" where
  "file_call s f = do {
     p \<leftarrow> current_process s;
     x \<leftarrow> the_proc s p;
     (r, k) \<leftarrow> f (kernel_of s x);
     Some (r, s\<lparr>procs := (procs s)(p \<mapsto> files_back x k), sys_vnodes := vnode_table k, sys_world := world k\<rparr>) }"

text \<open>
  The loop over the descriptors of \<open>process\<close> closes the same numbers of the current process, because
  \<open>FSUAPI::close\<close> works on that one. \<open>None\<close> is a fault or no end.
\<close>

partial_function (option) closeAllFiles_loop ::
  "'w fs_calls \<Rightarrow> 'w system \<Rightarrow> addr \<Rightarrow> u32 \<Rightarrow> int \<Rightarrow> 'w system option" where
  "closeAllFiles_loop C s process conditionalFlag i = do {
     x \<leftarrow> the_proc s process;
     if i < QList_size (p_files x) then do {
       d \<leftarrow> at (p_files x) i;
       s \<leftarrow> (case d of None \<Rightarrow> Some s
            | Some f \<Rightarrow> if fd_flags f AND conditionalFlag = conditionalFlag
                then map_option snd (file_call s (\<lambda>k. FSUAPI_close C k i)) else Some s);
       closeAllFiles_loop C s process conditionalFlag (i + 1) }
     else Some s }"

definition closeAllFiles :: "'w fs_calls \<Rightarrow> 'w system \<Rightarrow> addr \<Rightarrow> u32 \<Rightarrow> 'w system option" where
  "closeAllFiles C s process conditionalFlag = closeAllFiles_loop C s process conditionalFlag 0"

section \<open>Creation\<close>

definition DEV_TTY1 :: fname where
  "DEV_TTY1 = map of_nat [47, 100, 101, 118, 47, 116, 116, 121, 49]"

definition system_vnode :: "'w fs_calls \<Rightarrow> 'w system \<Rightarrow> fname \<Rightarrow> bool \<Rightarrow> (int \<times> addr \<times> 'w system) option" where
  "system_vnode C s path leaf =
     map_option (\<lambda>(r, p, vs). (r, p, s\<lparr>sys_vnodes := vs\<rparr>))
       (RelativePathToVnode (vfs C (sys_world s)) (sys_vnodes s) 0 path leaf)"

definition reference_vnode :: "'w system \<Rightarrow> addr \<Rightarrow> 'w system option" where
  "reference_vnode s p = map_option (\<lambda>vs. s\<lparr>sys_vnodes := vs\<rparr>) (ReferenceVnode (sys_vnodes s) p)"

definition insert_process :: "'w fs_calls \<Rightarrow> 'w system \<Rightarrow> int \<Rightarrow> addr \<Rightarrow> 'w system option" where
  "insert_process C s n p =
     map_option (\<lambda>(_, q). s\<lparr>processes := q\<rparr>) (QHash_insert (\<lambda>i. i) (heap_ok C) (processes s) n p)"

definition add_file ::
  "'w fs_calls \<Rightarrow> FileDescriptor option QList \<Rightarrow> FileDescriptor \<Rightarrow> FileDescriptor option QList option" where
  "add_file C l d = map_option snd (add_value (heap_ok C) None l (Some d))"

text \<open>
  The first process. A field the code does not set, such as the main thread, is null here. When a path
  cannot be resolved, the process stays in the table without its remaining fields, and the result is null.
\<close>

definition blank_process :: "'w fs_calls \<Rightarrow> int \<Rightarrow> ProcessControlBlock" where
  "blank_process C n = \<lparr>pid = n, p_uid = 0, p_euid = 0, p_gid = 0, p_egid = 0, p_pgid = 0, p_sid = 0,
     p_status = NOT_STARTED, p_exitStatus = 0, p_parent = NULL, p_mainThread = NULL, p_memory = True,
     p_files = ListWithHoles_new (heap_ok C), p_cwd = NULL, p_umask = 0, p_refCount = 0,
     p_prev = NULL, p_next = NULL\<rparr>"

definition CreateNewTask :: "'w fs_calls \<Rightarrow> addr \<Rightarrow> 'w system \<Rightarrow> (addr \<times> 'w system) option" where
  "CreateNewTask C new s =
     (if new = NULL \<or> lastUsedPID s = 2 ^ 31 - 1 then None
      else do {
        let n = lastUsedPID s + 1;
        s \<leftarrow> insert_process C (s\<lparr>lastUsedPID := n\<rparr>) n new;
        let x = blank_process C n;
        (res, ttyNode, s) \<leftarrow> system_vnode C s DEV_TTY1 True;
        if res < 0 then Some (NULL, s\<lparr>procs := (procs s)(new \<mapsto> x)\<rparr>)
        else do {
          l \<leftarrow> add_file C (p_files x) (new_FileDescriptor ttyNode O_RDONLY);
          s \<leftarrow> reference_vnode s ttyNode;
          l \<leftarrow> add_file C l (new_FileDescriptor ttyNode O_WRONLY);
          s \<leftarrow> reference_vnode s ttyNode;
          l \<leftarrow> add_file C l (new_FileDescriptor ttyNode O_WRONLY);
          (res, cwdNode, s) \<leftarrow> system_vnode C s [SLASH] True;
          if res < 0 then Some (NULL, s\<lparr>procs := (procs s)(new \<mapsto> x\<lparr>p_files := l\<rparr>)\<rparr>)
          else Some (new, s\<lparr>firstProcess := new, procs := (procs s)(new \<mapsto>
                 x\<lparr>p_files := l, p_cwd := cwdNode, p_status := READY, p_refCount := 2\<rparr>)\<rparr>) } })"

text \<open>
  The copy of the descriptors: holes are skipped, and \<open>add\<close> puts each copy at the lowest free number.
\<close>

function copy_files ::
  "'w fs_calls \<Rightarrow> vnode_state \<Rightarrow> FileDescriptor option QList \<Rightarrow> int \<Rightarrow> FileDescriptor option QList \<Rightarrow>
     (vnode_state \<times> FileDescriptor option QList) option" where
  "copy_files C vs old i new =
     (if i < QList_size old then do {
        oldFd \<leftarrow> at old i;
        (case oldFd of None \<Rightarrow> copy_files C vs old (i + 1) new
         | Some f \<Rightarrow> do {
             vs \<leftarrow> ReferenceVnode vs (node f);
             new \<leftarrow> add_file C new \<lparr>node = node f, fpos = fpos f, fd_flags = fd_flags f\<rparr>;
             copy_files C vs old (i + 1) new }) }
      else Some (vs, new))"
  by pat_completeness auto
termination by (relation "measure (\<lambda>(C, vs, old, i, new). nat (QList_size old - i))") auto

declare copy_files.simps [simp del]

definition NewProcess :: "'w fs_calls \<Rightarrow> addr \<Rightarrow> 'w system \<Rightarrow> (addr \<times> 'w system) option" where
  "NewProcess C new s =
     (if new = NULL \<or> lastUsedPID s = 2 ^ 31 - 1 then None
      else do {
        let n = lastUsedPID s + 1;
        parent \<leftarrow> current_process s;
        s \<leftarrow> referenceProcess (s\<lparr>lastUsedPID := n\<rparr>) parent;
        s \<leftarrow> insert_process C s n new;
        y \<leftarrow> the_proc s parent;
        (vs, l) \<leftarrow> copy_files C (sys_vnodes s) (p_files y) 0 (ListWithHoles_new (heap_ok C));
        vs \<leftarrow> ReferenceVnode vs (p_cwd y);
        s \<leftarrow> set_proc s (firstProcess s) (\<lambda>x. x\<lparr>p_prev := new\<rparr>);
        let x = \<lparr>pid = n, p_uid = p_uid y, p_euid = p_euid y, p_gid = p_gid y, p_egid = p_egid y, p_pgid = p_pgid y,
          p_sid = p_sid y, p_status = READY, p_exitStatus = 0, p_parent = parent, p_mainThread = NULL,
          p_memory = True, p_files = l, p_cwd = p_cwd y, p_umask = p_umask y, p_refCount = 3,
          p_prev = NULL, p_next = firstProcess s\<rparr>;
        Some (new, s\<lparr>procs := (procs s)(new \<mapsto> x), sys_vnodes := vs, firstProcess := new\<rparr>) })"

text \<open>
  \<open>fork\<close>: the number and the thread that \<open>UserProcsManager::forkThread\<close> of the architecture returns are
  arguments. The copy of the page tables and of the registers is not part of the state.
\<close>

definition ProcessUAPI_fork :: "'w fs_calls \<Rightarrow> int \<Rightarrow> addr \<Rightarrow> addr \<Rightarrow> 'w system \<Rightarrow> (int \<times> 'w system) option" where
  "ProcessUAPI_fork C ret tcb new s =
     (if ret < 0 then Some (ret, s)
      else do {
        (process, s) \<leftarrow> NewProcess C new s;
        if process = NULL then Some (- errno_code ENOMEM, s)
        else if tcb = NULL then None
        else do {
          s \<leftarrow> referenceProcess (s\<lparr>tcbs := (tcbs s)(tcb \<mapsto> \<lparr>parentProcess = process, thread_status = Running\<rparr>)\<rparr>) process;
          s \<leftarrow> set_proc s process (\<lambda>x. x\<lparr>p_mainThread := tcb\<rparr>);
          x \<leftarrow> the_proc s process;
          Some (pid x, s\<lparr>thread_list := thread_list s @ [tcb]\<rparr>) } })"

section \<open>Termination\<close>

definition put_vnode :: "'w fs_calls \<Rightarrow> 'w system \<Rightarrow> addr \<Rightarrow> 'w system option" where
  "put_vnode C s p =
     map_option (\<lambda>vs. s\<lparr>sys_vnodes := vs\<rparr>) (PutVnode (fs_of (vfs C (sys_world s))) (sys_vnodes s) p)"

definition terminateProcess :: "'w fs_calls \<Rightarrow> 'w system \<Rightarrow> addr \<Rightarrow> int \<Rightarrow> (int \<times> 'w system) option" where
  "terminateProcess C s tcb exitStatus = do {
     t \<leftarrow> the_thread s tcb;
     let process = parentProcess t;
     s \<leftarrow> referenceProcess s process;
     x \<leftarrow> the_proc s process;
     if pid x = 1 \<or> \<not> p_memory x then None
     else do {
       s \<leftarrow> set_proc s process (\<lambda>x. x\<lparr>p_memory := False\<rparr>);
       s \<leftarrow> closeAllFiles C s process 0;
       x \<leftarrow> the_proc s process;
       s \<leftarrow> put_vnode C s (p_cwd x);
       s \<leftarrow> set_proc s process (\<lambda>x. x\<lparr>p_exitStatus := exitStatus, p_status := TERMINATED\<rparr>);
       s \<leftarrow> putProcess s process;
       Some (0, s) } }"

definition terminateThread :: "'w fs_calls \<Rightarrow> 'w system \<Rightarrow> addr \<Rightarrow> int \<Rightarrow> 'w system option" where
  "terminateThread C s tcb exitStatus = do {
     (_, s) \<leftarrow> terminateProcess C s tcb exitStatus;
     t \<leftarrow> the_thread s tcb;
     s \<leftarrow> putProcess s (parentProcess t);
     Some (s\<lparr>tcbs := (tcbs s)(tcb \<mapsto> \<lparr>parentProcess = NULL, thread_status = UWaiting\<rparr>)\<rparr>) }"

definition ProcessUAPI_exit :: "'w fs_calls \<Rightarrow> 'w system \<Rightarrow> int \<Rightarrow> 'w system option" where
  "ProcessUAPI_exit C s exitStatus = terminateThread C s (current s) exitStatus"

text \<open>
  \<open>removePid\<close> takes a process out of the list and the table. Each pointer that goes away is put, with the
  value it has at that moment.
\<close>

definition unlink_first :: "'w system \<Rightarrow> addr \<Rightarrow> 'w system option" where
  "unlink_first s p = do {
     s \<leftarrow> putProcess s (firstProcess s);
     x \<leftarrow> the_proc s p;
     let s = s\<lparr>firstProcess := p_next x\<rparr>;
     y \<leftarrow> the_proc s (firstProcess s);
     s \<leftarrow> putProcess s (p_prev y);
     set_proc s (firstProcess s) (\<lambda>y. y\<lparr>p_prev := NULL\<rparr>) }"

definition unlink_later :: "'w system \<Rightarrow> addr \<Rightarrow> 'w system option" where
  "unlink_later s p = do {
     x \<leftarrow> the_proc s p;
     if p_prev x = NULL then Some s
     else do {
       a \<leftarrow> the_proc s (p_prev x);
       s \<leftarrow> putProcess s (p_next a);
       x \<leftarrow> the_proc s p;
       s \<leftarrow> set_proc s (p_prev x) (\<lambda>a. a\<lparr>p_next := p_next x\<rparr>);
       if p_next x = NULL then Some s
       else do {
         b \<leftarrow> the_proc s (p_next x);
         s \<leftarrow> putProcess s (p_prev b);
         x \<leftarrow> the_proc s p;
         set_proc s (p_next x) (\<lambda>b. b\<lparr>p_prev := p_prev x\<rparr>) } } }"

definition unlink_process :: "'w system \<Rightarrow> addr \<Rightarrow> 'w system option" where
  "unlink_process s p = (if firstProcess s = p then unlink_first s p else unlink_later s p)"

definition removePid :: "'w system \<Rightarrow> int \<Rightarrow> 'w system option" where
  "removePid s n = do {
     p \<leftarrow> process_of s n;
     if p = NULL then Some s
     else do {
       s \<leftarrow> referenceProcess s p;
       s \<leftarrow> unlink_process s p;
       (_, q) \<leftarrow> QHash_remove (\<lambda>i. i) (processes s) n;
       s \<leftarrow> putProcess (s\<lparr>processes := q\<rparr>) p;
       x \<leftarrow> the_proc s p;
       s \<leftarrow> putProcess s (p_parent x);
       s \<leftarrow> set_proc s p (\<lambda>x. x\<lparr>p_parent := NULL\<rparr>);
       putProcess s p } }"

section \<open>System calls\<close>

definition ProcessUAPI_getpid :: "'w system \<Rightarrow> int option" where
  "ProcessUAPI_getpid s = map_option pid (current_block s)"

definition ProcessUAPI_getppid :: "'w system \<Rightarrow> int option" where
  "ProcessUAPI_getppid s = do {
     x \<leftarrow> current_block s;
     if p_parent x \<noteq> NULL then map_option pid (the_proc s (p_parent x)) else Some (pid x) }"

definition ProcessUAPI_getsid :: "'w system \<Rightarrow> int \<Rightarrow> u32 option" where
  "ProcessUAPI_getsid s n = map_option p_sid (current_block s)"

definition ProcessUAPI_getuid :: "'w system \<Rightarrow> u32 option" where
  "ProcessUAPI_getuid s = map_option p_uid (current_block s)"

definition ProcessUAPI_geteuid :: "'w system \<Rightarrow> u32 option" where
  "ProcessUAPI_geteuid s = map_option p_euid (current_block s)"

definition ProcessUAPI_getgid :: "'w system \<Rightarrow> u32 option" where
  "ProcessUAPI_getgid s = map_option p_gid (current_block s)"

definition ProcessUAPI_getegid :: "'w system \<Rightarrow> u32 option" where
  "ProcessUAPI_getegid s = map_option p_egid (current_block s)"

definition ProcessUAPI_setsid :: "'w system \<Rightarrow> (u32 \<times> 'w system) option" where
  "ProcessUAPI_setsid s = do {
     p \<leftarrow> current_process s;
     x \<leftarrow> the_proc s p;
     s \<leftarrow> set_proc s p (\<lambda>x. x\<lparr>p_sid := word_of_int (pid x)\<rparr>);
     Some (word_of_int (pid x), s) }"

definition ProcessUAPI_setuid :: "'w system \<Rightarrow> u32 \<Rightarrow> (int \<times> 'w system) option" where
  "ProcessUAPI_setuid s u = do {
     task \<leftarrow> current_process s;
     x \<leftarrow> the_proc s task;
     if p_uid x = 0 then map_option (Pair 0) (set_proc s task (\<lambda>x. x\<lparr>p_uid := u\<rparr>))
     else Some (- errno_code EPERM, s) }"

definition ProcessUAPI_setresuid :: "'w system \<Rightarrow> u32 \<Rightarrow> u32 \<Rightarrow> u32 \<Rightarrow> (int \<times> 'w system) option" where
  "ProcessUAPI_setresuid s ruid euid suid = Some (- errno_code EFAULT, s)"

definition ProcessUAPI_setgid :: "'w system \<Rightarrow> u32 \<Rightarrow> (int \<times> 'w system) option" where
  "ProcessUAPI_setgid s g = do {
     task \<leftarrow> current_process s;
     x \<leftarrow> the_proc s task;
     if p_uid x = 0 then map_option (Pair 0) (set_proc s task (\<lambda>x. x\<lparr>p_gid := g\<rparr>))
     else Some (- errno_code EPERM, s) }"

definition ProcessUAPI_setresgid :: "'w system \<Rightarrow> u32 \<Rightarrow> u32 \<Rightarrow> u32 \<Rightarrow> (int \<times> 'w system) option" where
  "ProcessUAPI_setresgid s rgid egid sgid = Some (- errno_code EFAULT, s)"

text \<open>
  \<open>waitpid\<close>. The result of a call that need not wait is its return value and the status that was copied to the
  caller, if it was. \<open>can_write\<close> is the check of the pointer, \<open>put_result\<close> the result of \<open>putToUser\<close>.
\<close>

type_synonym wait_result = "(int \<times> int option) option"

definition ended_child :: "ProcessControlBlock \<Rightarrow> addr \<Rightarrow> bool" where
  "ended_child x me \<longleftrightarrow> p_status x = TERMINATED \<and> p_parent x = me"

partial_function (option) wait_loop ::
  "'w system \<Rightarrow> addr \<Rightarrow> addr \<Rightarrow> addr \<Rightarrow> (addr \<times> addr \<times> 'w system) option" where
  "wait_loop s me p it =
     (if it = NULL then Some (p, it, s)
      else do {
        x \<leftarrow> the_proc s it;
        if ended_child x me then Some (it, it, s)
        else do {
          (it', s) \<leftarrow> processEnumerationNext s it;
          wait_loop s me it it' } })"

definition finish_wait :: "'w system \<Rightarrow> int \<Rightarrow> int \<Rightarrow> int \<Rightarrow> (wait_result \<times> 'w system) option" where
  "finish_wait s n exitStatus put_result =
     (if put_result < 0 then Some (Some (put_result, None), s)
      else do {
        s \<leftarrow> removePid s n;
        Some (Some (n, Some exitStatus), s) })"

definition wait_one :: "'w system \<Rightarrow> int \<Rightarrow> int \<Rightarrow> (wait_result \<times> 'w system) option" where
  "wait_one s n put_result = do {
     (p, s1) \<leftarrow> getProcessRef s n;
     if p = NULL then Some (Some (- errno_code ECHILD, None), s1)
     else do {
       x \<leftarrow> the_proc s1 p;
       me \<leftarrow> current_process s1;
       if p_parent x \<noteq> me then do {
         s2 \<leftarrow> putProcess s1 p;
         Some (Some (- errno_code ECHILD, None), s2) }
       else if p_status x \<noteq> TERMINATED then Some (None, s)
       else do {
         s2 \<leftarrow> putProcess s1 p;
         finish_wait s2 n (p_exitStatus x) put_result } } }"

definition wait_any :: "'w system \<Rightarrow> int \<Rightarrow> (wait_result \<times> 'w system) option" where
  "wait_any s put_result = do {
     me \<leftarrow> current_process s;
     (it, s1) \<leftarrow> processEnumerationBegin s;
     (p, it, s2) \<leftarrow> wait_loop s1 me NULL it;
     s3 \<leftarrow> putProcess s2 it;
     x \<leftarrow> the_proc s3 p;
     if ended_child x me then finish_wait s3 (pid x) (p_exitStatus x) put_result
     else Some (None, s) }"

definition ProcessUAPI_waitpid :: "'w system \<Rightarrow> bool \<Rightarrow> u32 \<Rightarrow> int \<Rightarrow> (wait_result \<times> 'w system) option" where
  "ProcessUAPI_waitpid s can_write n put_result =
     (if \<not> can_write then Some (Some (- errno_code EFAULT, None), s)
      else if n \<noteq> -1 then wait_one s (sint n) put_result
      else wait_any s put_result)"

definition SIGKILL :: int where "SIGKILL = 9"
definition SIGSEGV :: int where "SIGSEGV = 11"

definition ProcessUAPI_kill :: "'w fs_calls \<Rightarrow> 'w system \<Rightarrow> u32 \<Rightarrow> int \<Rightarrow> (int \<times> 'w system) option" where
  "ProcessUAPI_kill C s n signal = do {
     (target, s) \<leftarrow> getProcessRef s (sint n);
     if target = NULL then Some (- errno_code ESRCH, s)
     else do {
       currentProcess \<leftarrow> current_block s;
       x \<leftarrow> the_proc s target;
       (r, s) \<leftarrow> (if p_uid currentProcess \<noteq> 0 \<and> p_uid currentProcess \<noteq> p_uid x
            then Some (- errno_code EPERM, s)
          else if signal = SIGKILL \<or> signal = SIGSEGV
            then map_option (\<lambda>(_, s). (0, s)) (terminateProcess C s (p_mainThread x) (- 1))
          else Some (- errno_code EINVAL, s));
       s \<leftarrow> putProcess s target;
       Some (r, s) } }"

end
