(* ===== verification/Processes_Refinement.thy ===== *)
theory Processes_Refinement
  imports Processes
begin

text \<open>
  What the processes promise: every pointer to a process is counted, a process lives as long as there is one,
  and the calls of a family of processes refine a finite map from numbers to members.
\<close>

section \<open>Counted blocks\<close>

text \<open>
  A heap of blocks whose counts are given separately, by \<open>B\<close>. Each step on counts then only changes \<open>B\<close>, or
  removes a block.
\<close>

definition counted ::
  "(addr \<rightharpoonup> ProcessControlBlock) \<Rightarrow> (addr \<Rightarrow> int) \<Rightarrow> addr \<rightharpoonup> ProcessControlBlock" where
  "counted H B = (\<lambda>p. map_option (\<lambda>x. x\<lparr>p_refCount := B p\<rparr>) (H p))"

named_theorems proc_steps "the effect of the operations on counted blocks"

lemma the_proc_counted [proc_steps]:
  "procs s = counted H B \<Longrightarrow> H p = Some x \<Longrightarrow> p \<noteq> NULL \<Longrightarrow> the_proc s p = Some (x\<lparr>p_refCount := B p\<rparr>)"
  by (simp add: the_proc_def counted_def)

lemma referenceProcess_counted [proc_steps]:
  assumes "procs s = counted H B" and "H p = Some x" and "p \<noteq> NULL"
  shows "referenceProcess s p = Some (s\<lparr>procs := counted H (B(p := B p + 1))\<rparr>)"
proof -
  have "(counted H B)(p \<mapsto> x\<lparr>p_refCount := B p + 1\<rparr>) = counted H (B(p := B p + 1))"
    using assms(2) by (auto simp: counted_def fun_eq_iff)
  with assms show ?thesis by (simp add: referenceProcess_def set_proc_def the_proc_counted)
qed

lemma referenceProcess_NULL [simp]: "referenceProcess s NULL = Some s"
  by (simp add: referenceProcess_def)

lemma putProcess_NULL [simp]: "putProcess s NULL = Some s"
  by (simp add: putProcess_def)

lemma putProcess_counted [proc_steps]:
  assumes "procs s = counted H B" and "H p = Some x" and "p \<noteq> NULL" and "B p \<noteq> 1"
  shows "putProcess s p = Some (s\<lparr>procs := counted H (B(p := B p - 1))\<rparr>)"
proof -
  have "(counted H B)(p \<mapsto> x\<lparr>p_refCount := B p - 1\<rparr>) = counted H (B(p := B p - 1))"
    using assms(2) by (auto simp: counted_def fun_eq_iff)
  with assms show ?thesis by (simp add: putProcess_def set_proc_def the_proc_counted)
qed

lemma putProcess_last [proc_steps]:
  assumes "procs s = counted H B" and "H p = Some x" and "p \<noteq> NULL" and "B p = 1"
    and "the_thread s (p_mainThread x) = Some t"
  shows "putProcess s p = Some (s\<lparr>procs := counted (H(p := None)) B\<rparr>)"
proof -
  let ?s = "s\<lparr>procs := (counted H B)(p \<mapsto> x\<lparr>p_refCount := 0\<rparr>)\<rparr>"
  have "the_thread ?s (p_mainThread x) = Some t" using assms(5) by (simp add: the_thread_def split: if_splits)
  moreover have "(counted H B)(p := None) = counted (H(p := None)) B" by (auto simp: counted_def fun_eq_iff)
  ultimately show ?thesis using assms
    by (simp add: putProcess_def set_proc_def the_proc_counted) (simp add: deleteProcess_def the_proc_def)
qed

lemma set_proc_counted [proc_steps]:
  assumes "procs s = counted H B" and "H p = Some x" and "p \<noteq> NULL"
    and "\<And>x n. f (x\<lparr>p_refCount := n\<rparr>) = (f x)\<lparr>p_refCount := n\<rparr>"
  shows "set_proc s p f = Some (s\<lparr>procs := counted (H(p \<mapsto> f x)) B\<rparr>)"
proof -
  have "(counted H B)(p \<mapsto> f (x\<lparr>p_refCount := B p\<rparr>)) = counted (H(p \<mapsto> f x)) B"
    by (auto simp: counted_def fun_eq_iff assms(4))
  with assms(1-3) show ?thesis by (simp add: set_proc_def the_proc_counted)
qed

lemma counted_self: "(\<And>p x. H p = Some x \<Longrightarrow> p_refCount x = B p) \<Longrightarrow> counted H B = H"
  by (auto simp: counted_def fun_eq_iff split: option.splits intro: option.map_ident_strong)

text \<open>How many entries of a map point to \<open>q\<close>.\<close>

definition holders :: "('k \<rightharpoonup> 'a) \<Rightarrow> ('a \<Rightarrow> addr) \<Rightarrow> addr \<Rightarrow> int" where
  "holders m f q = int (card {a. map_option f (m a) = Some q})"

lemma holders_finite: "finite (dom m) \<Longrightarrow> finite {a. map_option f (m a) = Some q}"
  by (rule finite_subset [of _ "dom m"]) auto

lemma card_replace:
  assumes "finite S"
  shows "int (card (if P then insert a (S - {a}) else S - {a})) = int (card S) - of_bool (a \<in> S) + of_bool P"
proof -
  have "int (card (S - {a})) = int (card S) - of_bool (a \<in> S)"
  proof (cases "a \<in> S")
    case True
    with assms have "card S = Suc (card (S - {a}))" by (simp only: card.remove)
    with True show ?thesis by simp
  qed simp
  then show ?thesis using card.insert_remove [OF assms, of a] by (cases P) simp_all
qed

lemma holders_update:
  assumes "finite (dom m)"
  shows "holders (m(a := y)) f q
    = holders m f q - of_bool (map_option f (m a) = Some q) + of_bool (map_option f y = Some q)"
proof -
  have "{b. map_option f ((m(a := y)) b) = Some q} = (if map_option f y = Some q
      then insert a ({b. map_option f (m b) = Some q} - {a}) else {b. map_option f (m b) = Some q} - {a})"
    by auto
  then show ?thesis
    unfolding holders_def by (simp only: card_replace [OF holders_finite [OF assms]] mem_Collect_eq)
qed

lemma holders_nonneg: "0 \<le> holders m f q"
  by (simp add: holders_def)

lemma holders_pos: "finite (dom m) \<Longrightarrow> m a = Some x \<Longrightarrow> f x = q \<Longrightarrow> 1 \<le> holders m f q"
  using holders_finite [of m f q] by (auto simp: holders_def Suc_le_eq card_gt_0_iff)

lemma holders_none: "(\<And>a x. m a = Some x \<Longrightarrow> f x \<noteq> q) \<Longrightarrow> holders m f q = 0"
proof -
  assume a: "\<And>a x. m a = Some x \<Longrightarrow> f x \<noteq> q"
  have "{b. map_option f (m b) = Some q} = {}" using a by auto
  then show ?thesis by (simp only: holders_def card.empty of_nat_0)
qed

section \<open>The structure of a family\<close>

text \<open>What the structure depends on, apart from the pointers of the list, and these pointers.\<close>

record pnode =
  n_pid :: int
  n_ended :: bool
  n_parent :: addr
  n_thread :: addr
  n_memory :: bool

definition node_of :: "ProcessControlBlock \<Rightarrow> pnode" where
  "node_of x = \<lparr>n_pid = pid x, n_ended = (p_status x = TERMINATED), n_parent = p_parent x, n_thread = p_mainThread x,
     n_memory = p_memory x\<rparr>"

definition link_of :: "ProcessControlBlock \<Rightarrow> addr \<times> addr" where
  "link_of x = (p_prev x, p_next x)"

lemma node_of_fields [simp]:
  "n_pid (node_of x) = pid x" "n_ended (node_of x) \<longleftrightarrow> p_status x = TERMINATED" "n_parent (node_of x) = p_parent x"
  "n_thread (node_of x) = p_mainThread x" "n_memory (node_of x) = p_memory x"
  by (simp_all add: node_of_def)

lemma node_of_others [simp]:
  "node_of (x\<lparr>p_refCount := n\<rparr>) = node_of x" "node_of (files_back x k) = node_of x"
  "node_of (x\<lparr>p_prev := q\<rparr>) = node_of x" "node_of (x\<lparr>p_next := q\<rparr>) = node_of x"
  by (simp_all add: node_of_def files_back_def)

lemma link_of_others [simp]:
  "link_of (x\<lparr>p_refCount := n\<rparr>) = link_of x" "link_of (files_back x k) = link_of x"
  "link_of (x\<lparr>p_memory := b\<rparr>) = link_of x" "link_of (x\<lparr>p_parent := q\<rparr>) = link_of x"
  by (simp_all add: link_of_def files_back_def)

definition nodes :: "(addr \<rightharpoonup> ProcessControlBlock) \<Rightarrow> addr \<rightharpoonup> pnode" where
  "nodes P = (\<lambda>p. map_option node_of (P p))"

definition links :: "(addr \<rightharpoonup> ProcessControlBlock) \<Rightarrow> addr \<rightharpoonup> addr \<times> addr" where
  "links P = (\<lambda>p. map_option link_of (P p))"

lemma nodes_update [simp]: "nodes (P(p := y)) = (nodes P)(p := map_option node_of y)"
  by (auto simp: nodes_def fun_eq_iff)

lemma links_update [simp]: "links (P(p := y)) = (links P)(p := map_option link_of y)"
  by (auto simp: links_def fun_eq_iff)

lemma nodes_counted [simp]: "nodes (counted H B) = nodes H"
  by (auto simp: nodes_def counted_def fun_eq_iff option.map_comp comp_def)

lemma links_counted [simp]: "links (counted H B) = links H"
  by (auto simp: links_def counted_def fun_eq_iff option.map_comp comp_def)

lemma nodes_Some: "nodes P p = Some k \<longleftrightarrow> (\<exists>x. P p = Some x \<and> k = node_of x)"
  by (auto simp: nodes_def)

lemma nodes_same [simp]: "P p = Some x \<Longrightarrow> node_of y = node_of x \<Longrightarrow> (nodes P)(p \<mapsto> node_of y) = nodes P"
  by (auto simp: nodes_def fun_eq_iff)

lemma links_same [simp]: "P p = Some x \<Longrightarrow> link_of y = link_of x \<Longrightarrow> (links P)(p \<mapsto> link_of y) = links P"
  by (auto simp: links_def fun_eq_iff)

lemma dom_nodes [simp]: "dom (nodes P) = dom P"
  by (auto simp: nodes_def dom_def)

text \<open>
  The nodes \<open>ps\<close> in a row: the first is \<open>x\<close> and points back to \<open>b\<close>, the last points on to \<open>y\<close> and is \<open>z\<close>.
\<close>

primrec dseg :: "(addr \<rightharpoonup> addr \<times> addr) \<Rightarrow> addr \<Rightarrow> addr \<Rightarrow> addr list \<Rightarrow> addr \<Rightarrow> addr \<Rightarrow> bool" where
  "dseg L b x [] y z \<longleftrightarrow> x = y \<and> b = z"
| "dseg L b x (p # ps) y z \<longleftrightarrow> p = x \<and> x \<noteq> NULL \<and> (\<exists>n. L x = Some (b, n) \<and> dseg L x n ps y z)"

lemma dseg_append [simp]:
  "dseg L b x (ps @ qs) y z \<longleftrightarrow> (\<exists>m l. dseg L b x ps m l \<and> dseg L l m qs y z)"
  by (induction ps arbitrary: b x) auto

lemma dseg_update [simp]: "p \<notin> set ps \<Longrightarrow> dseg (L(p := k)) b x ps y z \<longleftrightarrow> dseg L b x ps y z"
  by (induction ps arbitrary: b x) auto

lemma dseg_live: "dseg L b x ps y z \<Longrightarrow> p \<in> set ps \<Longrightarrow> p \<noteq> NULL \<and> L p \<noteq> None"
  by (induction ps arbitrary: b x) auto

text \<open>
  The list of the live processes is \<open>qs\<close>, newest first, and at its end the first process of all, \<open>i\<close>. A block
  that is not in the list any more is kept for its children, and is not a child itself.
\<close>

definition list_part :: "(addr \<rightharpoonup> addr \<times> addr) \<Rightarrow> addr \<Rightarrow> addr list \<Rightarrow> addr \<Rightarrow> bool" where
  "list_part L f qs i \<longleftrightarrow> dseg L NULL f (qs @ [i]) NULL i \<and> distinct (qs @ [i])"

definition table_part :: "(addr \<rightharpoonup> pnode) \<Rightarrow> (int, addr) QHash \<Rightarrow> addr list \<Rightarrow> addr \<Rightarrow> bool" where
  "table_part K q qs i \<longleftrightarrow> qhash_ok (\<lambda>n. n) q
     \<and> (\<forall>n p. qmap (\<lambda>n. n) q n = Some p \<longleftrightarrow> p \<in> set (qs @ [i]) \<and> map_option n_pid (K p) = Some n)"

definition pid_at :: "(addr \<rightharpoonup> pnode) \<Rightarrow> addr \<Rightarrow> int" where
  "pid_at K p = (case K p of None \<Rightarrow> 0 | Some k \<Rightarrow> n_pid k)"

definition pid_part :: "(addr \<rightharpoonup> pnode) \<Rightarrow> int \<Rightarrow> addr list \<Rightarrow> addr \<Rightarrow> bool" where
  "pid_part K n qs i \<longleftrightarrow> (\<forall>p k. K p = Some k \<longrightarrow> 1 \<le> n_pid k \<and> n_pid k \<le> n)
     \<and> inj_on (pid_at K) (dom K) \<and> sorted_wrt (\<lambda>p q. pid_at K q < pid_at K p) (qs @ [i]) \<and> pid_at K i = 1"

definition node_ok ::
  "(addr \<rightharpoonup> pnode) \<Rightarrow> (addr \<rightharpoonup> ThreadControlBlock) \<Rightarrow> addr list \<Rightarrow> addr \<Rightarrow> addr \<Rightarrow> pnode \<Rightarrow> bool" where
  "node_ok K T qs i p k \<longleftrightarrow> (n_memory k \<longleftrightarrow> \<not> n_ended k) \<and> (p \<in> set qs \<longleftrightarrow> n_parent k \<noteq> NULL)
     \<and> (n_parent k \<noteq> NULL \<longrightarrow> (\<exists>l. K (n_parent k) = Some l \<and> n_pid l < n_pid k))
     \<and> (p \<notin> set (qs @ [i]) \<longrightarrow> n_ended k) \<and> (p = i \<longrightarrow> \<not> n_ended k)
     \<and> (p \<noteq> i \<longrightarrow> T (n_thread k) \<noteq> None
          \<and> (\<forall>t c. T t = Some c \<longrightarrow> (parentProcess c = p \<longleftrightarrow> \<not> n_ended k \<and> t = n_thread k)))"

definition member_part :: "(addr \<rightharpoonup> pnode) \<Rightarrow> (addr \<rightharpoonup> ThreadControlBlock) \<Rightarrow> addr list \<Rightarrow> addr \<Rightarrow> bool" where
  "member_part K T qs i \<longleftrightarrow> K NULL = None \<and> finite (dom K) \<and> set (qs @ [i]) \<subseteq> dom K
     \<and> (\<forall>p k. K p = Some k \<longrightarrow> node_ok K T qs i p k)"

definition thread_part :: "(addr \<rightharpoonup> pnode) \<Rightarrow> (addr \<rightharpoonup> ThreadControlBlock) \<Rightarrow> addr list \<Rightarrow> addr \<Rightarrow> addr \<Rightarrow> bool" where
  "thread_part K T l c i \<longleftrightarrow> T NULL = None \<and> finite (dom T) \<and> T c \<noteq> None
     \<and> (\<forall>t u. T t = Some u \<longrightarrow> parentProcess u \<noteq> NULL \<longrightarrow> K (parentProcess u) \<noteq> None \<and> t \<in> set l)
     \<and> (\<exists>t u. T t = Some u \<and> parentProcess u = i)"

text \<open>
  The references to a block: those of the list and the table, of the children and of the threads. The first
  process has no successor, and its thread was attached without counting it.
\<close>

definition owed :: "(addr \<rightharpoonup> pnode) \<Rightarrow> (addr \<rightharpoonup> ThreadControlBlock) \<Rightarrow> addr list \<Rightarrow> addr \<Rightarrow> addr \<Rightarrow> int" where
  "owed K T qs i p = (if p = i then 1 else if p \<in> set qs then 3 else 0)
     + holders K n_parent p + holders T parentProcess p"

definition tree_ok :: "'w system \<Rightarrow> addr list \<Rightarrow> addr \<Rightarrow> bool" where
  "tree_ok s qs i \<longleftrightarrow> list_part (links (procs s)) (firstProcess s) qs i
     \<and> table_part (nodes (procs s)) (processes s) qs i
     \<and> pid_part (nodes (procs s)) (lastUsedPID s) qs i
     \<and> member_part (nodes (procs s)) (tcbs s) qs i
     \<and> thread_part (nodes (procs s)) (tcbs s) (thread_list s) (current s) i
     \<and> (\<forall>p x. procs s p = Some x \<longrightarrow> p_refCount x = owed (nodes (procs s)) (tcbs s) qs i p \<and> 0 < p_refCount x)"

section \<open>Taking a process out of the list\<close>

text \<open>What is left of a block without its links and its count.\<close>

definition bodies :: "(addr \<rightharpoonup> ProcessControlBlock) \<Rightarrow> addr \<rightharpoonup> ProcessControlBlock" where
  "bodies P = (\<lambda>p. map_option (\<lambda>x. x\<lparr>p_prev := 0, p_next := 0, p_refCount := 0\<rparr>) (P p))"

lemma bodies_update: "bodies (P(p := y))
    = (bodies P)(p := map_option (\<lambda>x. x\<lparr>p_prev := 0, p_next := 0, p_refCount := 0\<rparr>) y)"
  by (auto simp: bodies_def fun_eq_iff)

lemma bodies_links: "P p = Some x \<Longrightarrow> bodies (P(p \<mapsto> x\<lparr>p_prev := b\<rparr>)) = bodies P"
  "P p = Some x \<Longrightarrow> bodies (P(p \<mapsto> x\<lparr>p_next := b\<rparr>)) = bodies P"
  by (auto simp: bodies_def fun_eq_iff)

lemma bodies_counted [simp]: "bodies (counted H B) = bodies H"
  by (auto simp: bodies_def counted_def fun_eq_iff option.map_comp comp_def)

lemma nodes_bodies: "nodes P = nodes (bodies P)"
proof
  fix p
  show "nodes P p = nodes (bodies P) p" by (cases "P p") (simp_all add: nodes_def bodies_def node_of_def)
qed

lemma bodies_eqD:
  assumes "bodies P p = bodies Q p" and "Q p = Some x"
  shows "\<exists>a b n. P p = Some (x\<lparr>p_prev := a, p_next := b, p_refCount := n\<rparr>)"
proof -
  from assms obtain y where y: "P p = Some y"
    "y\<lparr>p_prev := 0, p_next := 0, p_refCount := 0\<rparr> = x\<lparr>p_prev := 0, p_next := 0, p_refCount := 0\<rparr>"
    by (auto simp: bodies_def)
  from y(2) have "y = x\<lparr>p_prev := p_prev y, p_next := p_next y, p_refCount := p_refCount y\<rparr>"
    by (cases x, cases y) simp
  with y(1) show ?thesis by metis
qed

lemma links_Some: "links P p = Some l \<longleftrightarrow> (\<exists>x. P p = Some x \<and> l = (p_prev x, p_next x))"
  by (auto simp: links_def link_of_def)

lemma list_part_first:
  assumes "list_part L f (p # bs) i"
  shows "\<exists>n m. f = p \<and> p \<noteq> NULL \<and> L p = Some (NULL, n) \<and> n \<noteq> NULL \<and> n \<noteq> p \<and> n \<in> set (bs @ [i])
    \<and> L n = Some (p, m) \<and> list_part (L(n \<mapsto> (NULL, m))) n bs i"
proof -
  obtain n rest where n: "bs @ [i] = n # rest" by (cases "bs @ [i]") auto
  have d: "dseg L NULL f (p # n # rest) NULL i" "distinct (p # n # rest)"
    using assms unfolding list_part_def append_Cons n by blast+
  from d(1) obtain m where m: "f = p" "p \<noteq> NULL" "L p = Some (NULL, n)" "n \<noteq> NULL" "L n = Some (p, m)"
    "dseg L n m rest NULL i" by auto
  have "list_part (L(n \<mapsto> (NULL, m))) n bs i"
    using d(2) m unfolding list_part_def n by auto
  moreover have "n \<in> set (bs @ [i])" unfolding n by simp
  ultimately show ?thesis using m d(2) by auto
qed

lemma list_part_later:
  assumes "list_part L f (as @ a # p # bs) i"
  shows "\<exists>l n m. f \<noteq> p \<and> p \<noteq> NULL \<and> a \<noteq> NULL \<and> n \<noteq> NULL \<and> L p = Some (a, n) \<and> L a = Some (l, p) \<and> L n = Some (p, m)
    \<and> a \<noteq> p \<and> n \<noteq> p \<and> n \<noteq> a \<and> n \<in> set (bs @ [i]) \<and> list_part (L(a \<mapsto> (l, n), n \<mapsto> (a, m))) f (as @ a # bs) i"
proof -
  obtain n rest where n: "bs @ [i] = n # rest" by (cases "bs @ [i]") auto
  have e: "(as @ a # p # bs) @ [i] = as @ a # p # n # rest" "(as @ a # bs) @ [i] = as @ a # n # rest"
    using n by simp_all
  have d: "dseg L NULL f (as @ a # p # n # rest) NULL i" "distinct (as @ a # p # n # rest)"
    using assms unfolding list_part_def e by blast+
  from d(1) obtain l m where m: "dseg L NULL f as a l" "p \<noteq> NULL" "a \<noteq> NULL" "n \<noteq> NULL"
    "L p = Some (a, n)" "L a = Some (l, p)" "L n = Some (p, m)" "dseg L n m rest NULL i" by auto
  have "f \<in> set (as @ [a])" using m(1) by (cases as) auto
  then have "f \<noteq> p" using d(2) by auto
  moreover have "list_part (L(a \<mapsto> (l, n), n \<mapsto> (a, m))) f (as @ a # bs) i"
    unfolding list_part_def e using d(2) m by (auto simp: fun_upd_twist)
  moreover have "n \<in> set (bs @ [i])" unfolding n by simp
  ultimately show ?thesis using m d(2) by auto
qed

lemma unlink_ok:
  assumes l: "list_part (links H) (firstProcess s) (as @ p # bs) i" and s: "procs s = counted H B" and B: "3 < B p"
  shows "\<exists>H' f. unlink_process s p = Some (s\<lparr>procs := counted H' (B(p := B p - 2)), firstProcess := f\<rparr>)
    \<and> list_part (links H') f (as @ bs) i \<and> bodies H' = bodies H"
proof (cases as rule: rev_cases)
  case Nil
  with l list_part_first [of "links H" "firstProcess s" p bs i] obtain n m where
    n: "firstProcess s = p" "p \<noteq> NULL" "links H p = Some (NULL, n)" "n \<noteq> NULL" "n \<noteq> p" "links H n = Some (p, m)"
    "list_part ((links H)(n \<mapsto> (NULL, m))) n bs i" by auto
  from n(3,6) obtain x y where x: "H p = Some x" "p_next x = n" "H n = Some y" "p_prev y = p" "p_next y = m"
    by (auto simp: links_Some)
  have "unlink_first s p = Some (s\<lparr>procs := counted (H(n \<mapsto> y\<lparr>p_prev := NULL\<rparr>)) (B(p := B p - 2)), firstProcess := n\<rparr>)"
    using n(1,2,4,5) x s B unfolding unlink_first_def by (simp add: proc_steps Let_def)
  then show ?thesis using n x Nil
    by (intro exI [of _ "H(n \<mapsto> y\<lparr>p_prev := NULL\<rparr>)"] exI [of _ n]) (simp add: unlink_process_def bodies_links link_of_def)
next
  case (snoc as' a)
  with l list_part_later [of "links H" "firstProcess s" as' a p bs i] obtain l n m where
    n: "firstProcess s \<noteq> p" "p \<noteq> NULL" "a \<noteq> NULL" "n \<noteq> NULL" "links H p = Some (a, n)" "links H a = Some (l, p)"
    "links H n = Some (p, m)" "a \<noteq> p" "n \<noteq> p" "n \<noteq> a"
    "list_part ((links H)(a \<mapsto> (l, n), n \<mapsto> (a, m))) (firstProcess s) (as @ bs) i" by auto
  from n(5) obtain x where x: "H p = Some x" "p_prev x = a" "p_next x = n" by (auto simp: links_Some)
  from n(6) obtain y where y: "H a = Some y" "p_prev y = l" "p_next y = p" by (auto simp: links_Some)
  from n(7) obtain z where z: "H n = Some z" "p_prev z = p" "p_next z = m" by (auto simp: links_Some)
  let ?H = "H(a \<mapsto> y\<lparr>p_next := n\<rparr>, n \<mapsto> z\<lparr>p_prev := a\<rparr>)"
  have "unlink_later s p = Some (s\<lparr>procs := counted ?H (B(p := B p - 2)), firstProcess := firstProcess s\<rparr>)"
    using n(2,3,4,8,9,10) x y z s B unfolding unlink_later_def by (simp add: proc_steps Let_def)
  then show ?thesis using n x y z
    by (intro exI [of _ ?H] exI [of _ "firstProcess s"]) (simp add: unlink_process_def bodies_links link_of_def)
qed

lemma table_part_remove:
  assumes "table_part K q (as @ p # bs) i" and "K p = Some k" and "distinct ((as @ p # bs) @ [i])"
    and "inj_on (pid_at K) (dom K)" and "set (as @ p # bs @ [i]) \<subseteq> dom K" and "0 \<le> n_pid k"
    and "y = None \<or> (\<exists>k'. y = Some k' \<and> n_pid k' = n_pid k)"
  shows "\<exists>r q'. QHash_remove (\<lambda>n. n) q (n_pid k) = Some (r, q') \<and> table_part (K(p := y)) q' (as @ bs) i"
proof -
  have ok: "qhash_ok (\<lambda>n. n) q" using assms(1) by (simp add: table_part_def)
  from removeFromTable_ok [OF ok, of "n_pid k"] assms(6) obtain r q' where
    q': "QHash_remove (\<lambda>n. n) q (n_pid k) = Some (r, q')" "qhash_ok (\<lambda>n. n) q'"
    "qmap (\<lambda>n. n) q' = (qmap (\<lambda>n. n) q)(n_pid k := None)" by (auto simp: QHash_remove_def)
  have "qmap (\<lambda>n. n) q' n = Some u \<longleftrightarrow> u \<in> set ((as @ bs) @ [i]) \<and> map_option n_pid ((K(p := y)) u) = Some n" for n u
  proof -
    have old: "qmap (\<lambda>n. n) q n = Some u \<longleftrightarrow> u \<in> set ((as @ p # bs) @ [i]) \<and> map_option n_pid (K u) = Some n"
      using assms(1) by (simp add: table_part_def)
    have "u = p" if "u \<in> set ((as @ p # bs) @ [i])" "map_option n_pid (K u) = Some (n_pid k)"
    proof (rule inj_onD [OF assms(4)])
      show "pid_at K u = pid_at K p" "u \<in> dom K" "p \<in> dom K" using that(2) assms(2) by (auto simp: pid_at_def)
    qed
    with old assms(2,3) show ?thesis by (auto simp: q'(3))
  qed
  with q'(1,2) show ?thesis by (auto simp: table_part_def)
qed

lemma pid_part_remove:
  assumes "pid_part K n (as @ p # bs) i" and "K p = Some k" and "p \<noteq> i"
    and "p \<notin> set (as @ bs)" and "y = None \<or> (\<exists>k'. y = Some k' \<and> n_pid k' = n_pid k)"
  shows "pid_part (K(p := y)) n (as @ bs) i"
proof -
  have same: "pid_at (K(p := y)) u = pid_at K u" if "u \<noteq> p \<or> y \<noteq> None" for u
    using that assms(2,5) by (auto simp: pid_at_def)
  have "inj_on (pid_at (K(p := y))) (dom (K(p := y)))"
  proof (rule inj_onI)
    fix u v assume uv: "u \<in> dom (K(p := y))" "v \<in> dom (K(p := y))" "pid_at (K(p := y)) u = pid_at (K(p := y)) v"
    then have "u \<noteq> p \<or> y \<noteq> None" "v \<noteq> p \<or> y \<noteq> None" "u \<in> dom K" "v \<in> dom K"
      using assms(2) by (auto split: if_splits)
    with uv(3) assms(1) show "u = v" by (auto simp: same pid_part_def dest: inj_onD)
  qed
  moreover have "sorted_wrt (\<lambda>u v. pid_at (K(p := y)) v < pid_at (K(p := y)) u) ((as @ bs) @ [i])"
  proof -
    have "sorted_wrt (\<lambda>u v. pid_at K v < pid_at K u) ((as @ bs) @ [i])"
      using assms(1) by (auto simp: pid_part_def sorted_wrt_append)
    moreover have "pid_at (K(p := y)) u = pid_at K u" if "u \<in> set ((as @ bs) @ [i])" for u
      using that assms(3,4) by (intro same) auto
    ultimately show ?thesis by (elim sorted_wrt_mono_rel [rotated]) simp
  qed
  ultimately show ?thesis using assms by (auto simp: pid_part_def same split: if_splits)
qed

lemma member_part_remove:
  assumes m: "member_part K T (as @ p # bs) i" and k: "K p = Some k" "n_ended k" and d: "distinct ((as @ p # bs) @ [i])"
    and y: "y = Some (k\<lparr>n_parent := NULL\<rparr>) \<or> y = None \<and> (\<forall>u l. K u = Some l \<longrightarrow> n_parent l \<noteq> p)"
  shows "member_part (K(p := y)) T (as @ bs) i"
  unfolding member_part_def
proof (intro conjI)
  show "(K(p := y)) NULL = None" using m k by (auto simp: member_part_def)
  show "finite (dom (K(p := y)))" using m by (simp add: member_part_def)
  show "set ((as @ bs) @ [i]) \<subseteq> dom (K(p := y))" using m d by (auto simp: member_part_def)
  have ok: "node_ok K T (as @ p # bs) i u l" if "K u = Some l" for u l
    using m that by (simp add: member_part_def)
  show "\<forall>u l. (K(p := y)) u = Some l \<longrightarrow> node_ok (K(p := y)) T (as @ bs) i u l"
  proof (intro allI impI)
    fix u l assume l: "(K(p := y)) u = Some l"
    show "node_ok (K(p := y)) T (as @ bs) i u l"
    proof (cases "u = p")
      case True
      with l y have "l = k\<lparr>n_parent := NULL\<rparr>" by auto
      with True ok [OF k(1)] k d show ?thesis by (auto simp: node_ok_def)
    next
      case False
      with l have lu: "K u = Some l" by simp
      have "(\<exists>l'. K q = Some l' \<and> n_pid l' < n) \<longrightarrow> n_parent l = q \<longrightarrow> (\<exists>l'. (K(p := y)) q = Some l' \<and> n_pid l' < n)" for q n
        using y k(1) lu by auto
      with ok [OF lu] False show ?thesis by (auto simp: node_ok_def)
    qed
  qed
qed

lemma thread_part_remove:
  assumes "thread_part K T l c i" and "\<And>t u. T t = Some u \<Longrightarrow> parentProcess u \<noteq> p"
  shows "thread_part (K(p := y)) T l c i"
  using assms by (fastforce simp: thread_part_def)

section \<open>Reaping a child\<close>

lemma tree_counted:
  assumes "tree_ok s qs i"
  shows "procs s = counted (procs s) (owed (nodes (procs s)) (tcbs s) qs i)"
  by (rule counted_self [symmetric]) (use assms in \<open>simp add: tree_ok_def\<close>)

lemma owed_live:
  assumes "tree_ok s qs i" and "procs s p = Some x"
  shows "p_refCount x = owed (nodes (procs s)) (tcbs s) qs i p" and "0 < owed (nodes (procs s)) (tcbs s) qs i p"
  using assms unfolding tree_ok_def by metis+

lemma process_of_ok:
  assumes "tree_ok s qs i" and "0 \<le> n"
  shows "process_of s n = Some (case qmap (\<lambda>n. n) (processes s) n of None \<Rightarrow> NULL | Some p \<Rightarrow> p)"
  using assms by (simp add: process_of_def QHash_value_ok tree_ok_def table_part_def)

lemma tree_okI:
  assumes "procs s = counted H B" and "list_part (links H) (firstProcess s) qs i"
    and "table_part (nodes H) (processes s) qs i" and "pid_part (nodes H) (lastUsedPID s) qs i"
    and "member_part (nodes H) (tcbs s) qs i" and "thread_part (nodes H) (tcbs s) (thread_list s) (current s) i"
    and "\<And>p x. H p = Some x \<Longrightarrow> B p = owed (nodes H) (tcbs s) qs i p \<and> 0 < B p"
  shows "tree_ok s qs i"
  unfolding tree_ok_def
proof (intro conjI allI impI)
  fix p x assume "procs s p = Some x"
  then obtain z where "H p = Some z" "p_refCount x = B p" by (auto simp: assms(1) counted_def)
  with assms(7) [OF this(1)] show "p_refCount x = owed (nodes (procs s)) (tcbs s) qs i p" "0 < p_refCount x"
    by (simp_all add: assms(1))
qed (use assms(2-6) in \<open>simp_all add: assms(1)\<close>)

lemma owed_pos:
  assumes "member_part K T qs i" and "thread_part K T l c i" and "K p = Some k"
  shows "p \<in> set (qs @ [i]) \<Longrightarrow> 0 < owed K T qs i p"
    and "p = i \<Longrightarrow> 2 \<le> owed K T qs i p"
    and "K q = Some k' \<Longrightarrow> n_parent k' = p \<Longrightarrow> p \<in> set (qs @ [i]) \<Longrightarrow> 2 \<le> owed K T qs i p"
proof -
  note n = holders_nonneg [of K n_parent p] holders_nonneg [of T parentProcess p]
  show "p \<in> set (qs @ [i]) \<Longrightarrow> 0 < owed K T qs i p" using n by (auto simp: owed_def)
  show "2 \<le> owed K T qs i p" if "p = i"
  proof -
    from assms(2) that obtain t u where "T t = Some u" "parentProcess u = p" "finite (dom T)"
      by (auto simp: thread_part_def)
    then have "1 \<le> holders T parentProcess p" by (intro holders_pos)
    with n that show ?thesis by (simp add: owed_def)
  qed
  show "2 \<le> owed K T qs i p" if "K q = Some k'" "n_parent k' = p" "p \<in> set (qs @ [i])"
  proof -
    have "1 \<le> holders K n_parent p" using assms(1) that by (auto simp: member_part_def intro!: holders_pos)
    with n that(3) show ?thesis by (auto simp: owed_def)
  qed
qed

lemma removePid_ok:
  assumes ok: "tree_ok s (as @ p # bs) i" and x: "procs s p = Some x" "p_status x = TERMINATED"
    and q: "p_parent x \<in> set ((as @ p # bs) @ [i])"
  shows "\<exists>P f t. removePid s (pid x) = Some (s\<lparr>firstProcess := f, processes := t, procs := P\<rparr>)
    \<and> tree_ok (s\<lparr>firstProcess := f, processes := t, procs := P\<rparr>) (as @ bs) i
    \<and> (\<exists>y. bodies P = (bodies (procs s))(p := y) \<and> (y = None \<or> y = map_option (\<lambda>z. z\<lparr>p_parent := NULL\<rparr>) (bodies (procs s) p)))"
proof -
  let ?H = "procs s" and ?K = "nodes (procs s)" and ?T = "tcbs s" and ?qs = "as @ p # bs"
  define B where "B = owed ?K ?T ?qs i"
  have parts: "list_part (links ?H) (firstProcess s) ?qs i" "table_part ?K (processes s) ?qs i"
    "pid_part ?K (lastUsedPID s) ?qs i" "member_part ?K ?T ?qs i" "thread_part ?K ?T (thread_list s) (current s) i"
    using ok by (simp_all add: tree_ok_def)
  have d: "distinct (?qs @ [i])" using parts(1) by (simp add: list_part_def)
  let ?k = "node_of x" and ?q = "p_parent x"
  have k: "?K p = Some ?k" using x by (simp add: nodes_def)
  have nk: "node_ok ?K ?T ?qs i p ?k" using parts(4) k by (simp add: member_part_def)
  have pn: "p \<noteq> NULL" using parts(4) k by (auto simp: member_part_def)
  have pi: "p \<noteq> i" using d by simp
  have qn: "?q \<noteq> NULL" using nk by (auto simp: node_ok_def)
  with nk obtain l where l: "?K ?q = Some l" "n_pid l < pid x" by (auto simp: node_ok_def)
  then have qp: "?q \<noteq> p" using k by auto
  from l(1) obtain w where w: "?H ?q = Some w" by (auto simp: nodes_Some)
  obtain c where "?T (p_mainThread x) = Some c" using nk pi by (auto simp: node_ok_def)
  then have c: "the_thread s (p_mainThread x) = Some c"
    using parts(5) by (auto simp: the_thread_def thread_part_def)
  have threads: "parentProcess u \<noteq> p" if "?T t = Some u" for t u using nk that x(2) pi by (auto simp: node_ok_def)
  have Bp: "B p = 3 + holders ?K n_parent p"
    using pi holders_none [of ?T parentProcess p] threads by (simp add: B_def owed_def)
  have Bq: "2 \<le> B ?q" using owed_pos(3) [OF parts(4,5) l(1) k] q by (simp add: B_def)
  note c0 = holders_nonneg [of ?K n_parent p]
  have s0: "procs s = counted ?H B" unfolding B_def by (rule tree_counted [OF ok])
  have pid0: "0 \<le> pid x" using parts(3) k by (force simp: pid_part_def)
  have pid1: "process_of s (pid x) = Some p"
  proof -
    have "qmap (\<lambda>n. n) (processes s) (pid x) = Some p" using parts(2) k by (simp add: table_part_def)
    with process_of_ok [OF ok pid0] show ?thesis by simp
  qed
  let ?s1 = "s\<lparr>procs := counted ?H (B(p := B p + 1))\<rparr>"
  have s1: "referenceProcess s p = Some ?s1" by (rule referenceProcess_counted [OF s0 x(1) pn])
  obtain H' f where u: "unlink_process ?s1 p = Some (?s1\<lparr>procs := counted H' (B(p := B p - 1)), firstProcess := f\<rparr>)"
    "list_part (links H') f (as @ bs) i" "bodies H' = bodies ?H"
    using unlink_ok [of ?H ?s1 as p bs i "B(p := B p + 1)"] parts(1) Bp c0 by auto
  have K': "nodes H' = ?K" using nodes_bodies [of H'] nodes_bodies [of ?H] u(3) by simp
  have "bodies H' p = bodies ?H p" "bodies H' ?q = bodies ?H ?q" using u(3) by simp_all
  from bodies_eqD [OF this(1) x(1)] bodies_eqD [OF this(2) w] obtain x' w' where
    x': "H' p = Some x'" "p_parent x' = ?q" "p_mainThread x' = p_mainThread x" "node_of x' = ?k"
    and w': "H' ?q = Some w'" by (auto simp: node_of_def)
  have tab: "\<exists>r t. QHash_remove (\<lambda>n. n) (processes s) (pid x) = Some (r, t) \<and> table_part (?K(p := y)) t (as @ bs) i"
    if "y = None \<or> (\<exists>k'. y = Some k' \<and> n_pid k' = pid x)" for y
    using table_part_remove [OF parts(2) k d, of y] parts(3,4) pid0 that by (auto simp: pid_part_def member_part_def)
  from tab [of None] obtain r t where t: "QHash_remove (\<lambda>n. n) (processes s) (pid x) = Some (r, t)" by auto
  let ?Hp = "H'(p \<mapsto> x'\<lparr>p_parent := NULL\<rparr>)"
  let ?B = "B(p := B p - 2, ?q := B ?q - 1)"
  have rp: "removePid s (pid x) = putProcess (s\<lparr>firstProcess := f, processes := t, procs := counted ?Hp ?B\<rparr>) p"
    using pid1 s1 u(1) t(1) pn qn qp x' w' Bp Bq c0
    by (simp add: removePid_def proc_steps)
  let ?Y = "if holders ?K n_parent p = 0 then None else Some (x'\<lparr>p_parent := NULL\<rparr>)"
  let ?B' = "?B(p := B p - 3)"
  let ?s' = "s\<lparr>firstProcess := f, processes := t, procs := counted (H'(p := ?Y)) ?B'\<rparr>"
  have put: "removePid s (pid x) = Some ?s'"
  proof (cases "holders ?K n_parent p = 0")
    case True
    have "the_thread (s\<lparr>firstProcess := f, processes := t, procs := counted ?Hp ?B\<rparr>) (p_mainThread x) = Some c"
      using c by (simp add: the_thread_def split: if_splits)
    moreover have "counted (?Hp(p := None)) ?B = counted (H'(p := None)) ?B'" by (auto simp: counted_def fun_eq_iff)
    ultimately show ?thesis using True rp Bp pn qp x'
      by (simp add: putProcess_last [where x = "x'\<lparr>p_parent := NULL\<rparr>" and H = ?Hp and B = ?B and t = c])
  next
    case False
    with rp Bp pn qp show ?thesis
      by (simp add: putProcess_counted [where x = "x'\<lparr>p_parent := NULL\<rparr>" and H = ?Hp and B = ?B])
  qed
  define yn where "yn = map_option node_of ?Y"
  have yn: "nodes (H'(p := ?Y)) = ?K(p := yn)" "yn = None \<or> (\<exists>k'. yn = Some k' \<and> n_pid k' = pid x)"
    "yn = Some (?k\<lparr>n_parent := NULL\<rparr>) \<or> yn = None \<and> holders ?K n_parent p = 0"
    using x'(4) by (auto simp: yn_def K' node_of_def)
  have "tree_ok ?s' (as @ bs) i"
  proof (rule tree_okI)
    show "procs ?s' = counted (H'(p := ?Y)) ?B'" by simp
    show "list_part (links (H'(p := ?Y))) (firstProcess ?s') (as @ bs) i"
      using u(2) d by (auto simp: list_part_def)
    show "table_part (nodes (H'(p := ?Y))) (processes ?s') (as @ bs) i"
      unfolding yn(1) using tab [OF yn(2)] t by auto
    show "pid_part (nodes (H'(p := ?Y))) (lastUsedPID ?s') (as @ bs) i"
      unfolding yn(1) using pid_part_remove [OF parts(3) k pi, of yn] d yn(2) by auto
    have "\<forall>u l. ?K u = Some l \<longrightarrow> n_parent l \<noteq> p" if "holders ?K n_parent p = 0"
      using holders_pos [of ?K _ _ n_parent p] parts(4) that by (fastforce simp: member_part_def)
    then show "member_part (nodes (H'(p := ?Y))) (tcbs ?s') (as @ bs) i"
      unfolding yn(1) using member_part_remove [OF parts(4) k _ d, of yn] yn(3) x(2) by auto
    show "thread_part (nodes (H'(p := ?Y))) (tcbs ?s') (thread_list ?s') (current ?s') i"
      unfolding yn(1) using thread_part_remove [OF parts(5) threads] by simp
    fix v z assume v: "(H'(p := ?Y)) v = Some z"
    have hold: "holders (?K(p := yn)) n_parent v = holders ?K n_parent v - of_bool (v = ?q)"
    proof -
      have "v \<noteq> NULL" using v K' parts(4) pn by (auto simp: member_part_def nodes_Some split: if_splits) (metis nodes_Some option.distinct(1))
      then show ?thesis using holders_update [of ?K p yn n_parent v] parts(4) k yn(3)
        by (auto simp: member_part_def)
    qed
    show "?B' v = owed (nodes (H'(p := ?Y))) (tcbs ?s') (as @ bs) i v \<and> 0 < ?B' v"
    proof (cases "v = p")
      case True
      with v have "holders ?K n_parent p \<noteq> 0" by (auto split: if_splits)
      moreover have "holders ?T parentProcess p = 0" by (rule holders_none) (use threads in blast)
      ultimately show ?thesis using True Bp c0 d qp pi hold unfolding owed_def yn(1) by auto
    next
      case False
      with v have "nodes H' v \<noteq> None" by (simp add: nodes_def)
      then have "?K v \<noteq> None" unfolding K' .
      then obtain w2 where "?H v = Some w2" by (auto simp: nodes_Some)
      then have "0 < B v" using owed_live [OF ok] by (simp add: B_def)
      moreover have "owed (?K(p := yn)) ?T (as @ bs) i v = B v - of_bool (v = ?q)"
        using False hold by (simp add: owed_def B_def)
      ultimately show ?thesis using False Bq unfolding yn(1) by auto
    qed
  qed
  moreover have "bodies (counted (H'(p := ?Y)) ?B') = (bodies ?H)(p := map_option (\<lambda>x. x\<lparr>p_prev := 0, p_next := 0, p_refCount := 0\<rparr>) ?Y)"
    by (simp add: bodies_update u(3))
  moreover have "bodies ?H p = Some (x'\<lparr>p_prev := 0, p_next := 0, p_refCount := 0\<rparr>)"
    unfolding u(3) [symmetric] using x'(1) by (simp add: bodies_def)
  ultimately show ?thesis using put
    by (intro exI [of _ "counted (H'(p := ?Y)) ?B'"] exI [of _ f] exI [of _ t]) auto
qed

end
