(* ===== verification/Processes_Calls.thy ===== *)
theory Processes_Calls
  imports Processes_Refinement
begin

text \<open>
  What \<open>fork\<close> and \<open>exit\<close> do to the structure of a family of processes and to the references they hold to
  vnodes through their descriptors and directories.
\<close>

section \<open>References of the processes to vnodes\<close>

definition file_refs :: "ProcessControlBlock \<Rightarrow> addr \<Rightarrow> nat" where
  "file_refs x v = count_list (map (map_option node) (elements (p_files x))) (Some v)
     + of_bool (p_status x \<noteq> TERMINATED \<and> p_cwd x = v)"

definition all_refs :: "(addr \<rightharpoonup> ProcessControlBlock) \<Rightarrow> addr \<Rightarrow> nat" where
  "all_refs P v = (\<Sum>p \<in> dom P. file_refs (the (P p)) v)"

definition files_ok :: "(addr \<rightharpoonup> ProcessControlBlock) \<Rightarrow> vnode_state \<Rightarrow> (addr \<Rightarrow> nat) \<Rightarrow> bool" where
  "files_ok P vs r \<longleftrightarrow> vnodes_ok vs (\<lambda>v. r v + all_refs P v)
     \<and> (\<forall>p x. P p = Some x \<longrightarrow> qlist_ok (p_files x) \<and> (p_status x = TERMINATED \<longrightarrow> set (elements (p_files x)) \<subseteq> {None}))"

lemma all_refs_update:
  assumes "finite (dom P)"
  shows "all_refs (P(p := y)) v + (case P p of None \<Rightarrow> 0 | Some x \<Rightarrow> file_refs x v)
    = all_refs P v + (case y of None \<Rightarrow> 0 | Some x \<Rightarrow> file_refs x v)"
proof -
  define S where "S = dom P - {p}"
  have S: "finite S" "p \<notin> S" using assms by (simp_all add: S_def)
  have others: "(\<Sum>q \<in> S. file_refs (the ((P(p := y)) q)) v) = (\<Sum>q \<in> S. file_refs (the (P q)) v)"
    using S(2) by (intro sum.cong) auto
  have "all_refs P v = (\<Sum>q \<in> S. file_refs (the (P q)) v) + (case P p of None \<Rightarrow> 0 | Some x \<Rightarrow> file_refs x v)"
  proof (cases "P p")
    case None
    then have "dom P = S" by (auto simp: S_def)
    with None show ?thesis by (simp add: all_refs_def)
  next
    case (Some x)
    then have "dom P = insert p S" by (auto simp: S_def)
    with Some S show ?thesis by (simp add: all_refs_def)
  qed
  moreover have "all_refs (P(p := y)) v = (\<Sum>q \<in> S. file_refs (the ((P(p := y)) q)) v) + (case y of None \<Rightarrow> 0 | Some x \<Rightarrow> file_refs x v)"
  proof (cases y)
    case None
    then have "dom (P(p := y)) = S" by (auto simp: S_def)
    with None show ?thesis by (simp add: all_refs_def)
  next
    case (Some x)
    then have "dom (P(p := y)) = insert p S" by (auto simp: S_def)
    with Some S show ?thesis by (simp add: all_refs_def)
  qed
  ultimately show ?thesis using others by simp
qed

lemma all_refs_ge: "finite (dom P) \<Longrightarrow> P p = Some x \<Longrightarrow> file_refs x v \<le> all_refs P v"
  using all_refs_update [of P p None v] by simp

lemma all_refs_bodies: "all_refs P = all_refs (bodies P)"
proof
  fix v
  have "dom (bodies P) = dom P" by (auto simp: bodies_def dom_def)
  then show "all_refs P v = all_refs (bodies P) v"
    unfolding all_refs_def by (intro sum.cong) (auto simp: bodies_def file_refs_def)
qed

lemma files_ok_bodies: "files_ok P vs r \<longleftrightarrow> files_ok (bodies P) vs r"
proof -
  have "(\<forall>p x. P p = Some x \<longrightarrow> Q (p_files x) (p_status x)) \<longleftrightarrow> (\<forall>p x. bodies P p = Some x \<longrightarrow> Q (p_files x) (p_status x))"
    for Q
  proof (intro iffI allI impI)
    fix p x assume a: "\<forall>p x. bodies P p = Some x \<longrightarrow> Q (p_files x) (p_status x)" and "P p = Some x"
    then have "bodies P p = Some (x\<lparr>p_prev := 0, p_next := 0, p_refCount := 0\<rparr>)" by (simp add: bodies_def)
    from a [rule_format, OF this] show "Q (p_files x) (p_status x)" by simp
  qed (auto simp: bodies_def)
  from this [of "\<lambda>l t. qlist_ok l \<and> (t = TERMINATED \<longrightarrow> set (elements l) \<subseteq> {None})"] show ?thesis
    unfolding files_ok_def all_refs_bodies [of P] by simp
qed

text \<open>The file calls of a live process see the references of the others.\<close>

lemma kernel_of_ok:
  assumes "files_ok (procs s) (sys_vnodes s) r" and "finite (dom (procs s))" and "procs s p = Some x" and "p_status x \<noteq> TERMINATED"
  shows "kernel_ok (kernel_of s x) (\<lambda>v. r v + all_refs ((procs s)(p := None)) v)"
proof -
  have "refs (kernel_of s x) = file_refs x"
    using assms(4) by (auto simp: refs_def file_refs_def table_def kernel_of_def fun_eq_iff)
  moreover have "all_refs (procs s) v = all_refs ((procs s)(p := None)) v + file_refs x v" for v
    using all_refs_update [OF assms(2), of p None v] assms(3) by simp
  ultimately show ?thesis using assms(1,3)
    by (auto simp: kernel_ok_def counts_ok_def files_ok_def kernel_of_def add.assoc)
qed

lemma files_back_ok:
  assumes "files_ok P vs r" and "finite (dom P)" and "P p = Some x" and "p_status x \<noteq> TERMINATED"
    and "kernel_ok k (\<lambda>v. r v + all_refs (P(p := None)) v)"
  shows "files_ok (P(p \<mapsto> files_back x k)) (vnode_table k) r"
proof -
  have "refs k = file_refs (files_back x k)"
    using assms(4) by (auto simp: refs_def file_refs_def table_def files_back_def fun_eq_iff)
  moreover have "all_refs (P(p \<mapsto> files_back x k)) v = all_refs (P(p := None)) v + file_refs (files_back x k) v" for v
    using all_refs_update [OF assms(2), of p None v] all_refs_update [OF assms(2), of p "Some (files_back x k)" v] assms(3) by simp
  ultimately have "vnodes_ok (vnode_table k) (\<lambda>v. r v + all_refs (P(p \<mapsto> files_back x k)) v)"
    using assms(5) by (simp add: kernel_ok_def counts_ok_def add.assoc)
  moreover have "qlist_ok (p_files (files_back x k))" "p_status (files_back x k) = p_status x"
    using assms(5) by (simp_all add: kernel_ok_def counts_ok_def files_back_def)
  ultimately show ?thesis using assms(1,4) by (auto simp: files_ok_def)
qed

lemma tree_ok_files:
  assumes "tree_ok s qs i" and "procs s p = Some x"
  shows "tree_ok (s\<lparr>procs := (procs s)(p \<mapsto> files_back x k), sys_vnodes := vs, sys_world := w\<rparr>) qs i"
proof -
  let ?P = "(procs s)(p \<mapsto> files_back x k)"
  have e: "nodes ?P = nodes (procs s)" "links ?P = links (procs s)" using assms(2) by simp_all
  have "p_refCount y = owed (nodes (procs s)) (tcbs s) qs i q \<and> 0 < p_refCount y" if "?P q = Some y" for q y
  proof -
    from that assms(2) obtain z where "procs s q = Some z" "p_refCount y = p_refCount z"
      by (auto simp: files_back_def split: if_splits)
    with owed_live [OF assms(1) this(1)] show ?thesis by simp
  qed
  then have live: "p_refCount y = owed (nodes ?P) (tcbs s) qs i q" "0 < owed (nodes ?P) (tcbs s) qs i q"
    if "?P q = Some y" for q y
    unfolding e using that by metis+
  have "?P = counted ?P (owed (nodes ?P) (tcbs s) qs i)" by (rule counted_self [symmetric]) (rule live(1))
  then show ?thesis using assms(1) e live(2)
    by (intro tree_okI [where H = ?P and B = "owed (nodes ?P) (tcbs s) qs i"]) (simp_all add: tree_ok_def)
qed

definition fds :: "FileDescriptor option QList \<Rightarrow> nat \<rightharpoonup> FileDescriptor" where
  "fds l n = (if n < length (elements l) then elements l ! n else None)"

lemma fdmap_kernel_of: "fdmap (kernel_of s x) = fds (p_files x)"
  by (auto simp: fdmap_def fds_def kernel_of_def table_def fun_eq_iff)

lemma fdmap_back: "fdmap k = fds (p_files (files_back x k))"
  by (auto simp: fdmap_def fds_def files_back_def table_def fun_eq_iff)

lemma file_refs_bound: "file_refs x v \<le> card (dom (fds (p_files x))) + 1"
proof -
  fix s :: "unit system"
  have "refs (kernel_of s x) v = count_list (map (map_option node) (elements (p_files x))) (Some v) + of_bool (p_cwd x = v)"
    by (simp add: refs_def table_def kernel_of_def)
  with refs_bound [of "kernel_of s x" v] show ?thesis by (auto simp: file_refs_def fdmap_kernel_of)
qed

section \<open>Copying the descriptors\<close>

definition compact :: "(nat \<rightharpoonup> FileDescriptor) \<Rightarrow> nat \<rightharpoonup> FileDescriptor" where
  "compact t n = (if n < card (dom t) then t (sorted_list_of_set (dom t) ! n) else None)"

lemma copy_files_ok:
  assumes "vnodes_ok vs R" and "old = shape xs junk" and "new = shape ys jk" and "None \<notin> set ys" and "0 < length ys + length jk"
    and "\<And>f. Some f \<in> set (drop i xs) \<Longrightarrow> 0 < R (node f)" and "\<And>v. R v + length (filter (\<lambda>d. d \<noteq> None) (drop i xs)) < 2 ^ 32" and "heap_ok C" and "i \<le> length xs"
  shows "\<exists>vs' jk'. copy_files C vs old (int i) new = Some (vs', shape (ys @ filter (\<lambda>d. d \<noteq> None) (drop i xs)) jk')
    \<and> 0 < length (filter (\<lambda>d. d \<noteq> None) (drop i xs)) + length ys + length jk' \<and> vnodes_ok vs' (\<lambda>v. R v + count_list (map (map_option node) (drop i xs)) (Some v))"
  using assms
proof (induction "length xs - i" arbitrary: i vs R ys jk new)
  case 0
  then have "drop i xs = []" by simp
  with 0 show ?case by (subst copy_files.simps) auto
next
  case (Suc m)
  then have i: "i < length xs" and m: "m = length xs - Suc i" by simp_all
  have d: "drop i xs = xs ! i # drop (Suc i) xs" using i by (simp add: Cons_nth_drop_Suc)
  have ati: "at old (int i) = Some (xs ! i)" unfolding Suc.prems(2) by (rule at_shape [OF i])
  have e: "int i + 1 = int (Suc i)" by simp
  show ?case
  proof (cases "xs ! i")
    case None
    have pos: "0 < R (node g)" if "Some g \<in> set (drop (Suc i) xs)" for g
      using Suc.prems(6) [of g] that by (simp add: d)
    have lim: "R v + length (filter (\<lambda>d. d \<noteq> None) (drop (Suc i) xs)) < 2 ^ 32" for v
      using Suc.prems(7) [of v] None by (simp add: d)
    from Suc.hyps(1) [OF m Suc.prems(1-5) pos lim Suc.prems(8)] i obtain vs' jk' where
      "copy_files C vs old (int (Suc i)) new = Some (vs', shape (ys @ filter (\<lambda>d. d \<noteq> None) (drop (Suc i) xs)) jk')"
      "0 < length (filter (\<lambda>d. d \<noteq> None) (drop (Suc i) xs)) + length ys + length jk'"
      "vnodes_ok vs' (\<lambda>v. R v + count_list (map (map_option node) (drop (Suc i) xs)) (Some v))"
      by auto
    with None ati i show ?thesis unfolding d
      by (intro exI [of _ vs'] exI [of _ jk'], subst copy_files.simps) (simp add: Suc.prems(2) e)
  next
    case (Some f)
    have "0 < R (node f)" by (rule Suc.prems(6)) (simp add: d Some)
    then obtain n where "vheap vs (node f) = Some n" by (rule held_vnode [OF Suc.prems(1)])
    moreover have "R (node f) + 1 < 2 ^ 32" using Suc.prems(7) [of "node f"] Some by (simp add: d)
    ultimately obtain vs1 where vs1: "ReferenceVnode vs (node f) = Some vs1" "vnodes_ok vs1 (R(node f := R (node f) + 1))"
      using ReferenceVnode_ok [OF Suc.prems(1)] by blast
    obtain jk1 where jk1: "add_value (heap_ok C) None new (Some f) = Some (int (length ys), shape (ys @ [Some f]) jk1)"
      using add_shape [OF Suc.prems(5), of None "Some f"] Suc.prems(3,4,8) by auto
    have pos: "0 < (R(node f := R (node f) + 1)) (node g)" if "Some g \<in> set (drop (Suc i) xs)" for g
      using Suc.prems(6) [of g] that by (simp add: d)
    have lim: "(R(node f := R (node f) + 1)) v + length (filter (\<lambda>d. d \<noteq> None) (drop (Suc i) xs)) < 2 ^ 32" for v
      using Suc.prems(7) [of v] Suc.prems(7) [of "node f"] Some by (simp add: d)
    from Suc.hyps(1) [OF m vs1(2) Suc.prems(2) refl _ _ pos lim Suc.prems(8), of "ys @ [Some f]" jk1] Suc.prems(4) i
    obtain vs' jk' where r: "copy_files C vs1 old (int (Suc i)) (shape (ys @ [Some f]) jk1)
        = Some (vs', shape ((ys @ [Some f]) @ filter (\<lambda>d. d \<noteq> None) (drop (Suc i) xs)) jk')"
      "vnodes_ok vs' (\<lambda>v. (R(node f := R (node f) + 1)) v + count_list (map (map_option node) (drop (Suc i) xs)) (Some v))"
      by auto
    have "(\<lambda>v. (R(node f := R (node f) + 1)) v + count_list (map (map_option node) (drop (Suc i) xs)) (Some v))
      = (\<lambda>v. R v + count_list (map (map_option node) (drop i xs)) (Some v))"
      by (auto simp: d Some fun_eq_iff)
    with r(2) have "vnodes_ok vs' (\<lambda>v. R v + count_list (map (map_option node) (drop i xs)) (Some v))" by simp
    moreover have "copy_files C vs old (int i) new = copy_files C vs1 old (int (Suc i)) (shape (ys @ [Some f]) jk1)"
      using vs1(1) jk1 ati i Some
      by (subst copy_files.simps) (simp add: Suc.prems(2) e add_file_def fd_eta)
    ultimately show ?thesis using r(1) by (intro exI [of _ vs'] exI [of _ jk']) (simp add: d Some)
  qed
qed

lemma somes_nth: "filter (\<lambda>d. d \<noteq> None) xs = map ((!) xs) (filter (\<lambda>j. xs ! j \<noteq> None) [0 ..< length xs])"
proof -
  have "filter (\<lambda>d. d \<noteq> None) xs = filter (\<lambda>d. d \<noteq> None) (map ((!) xs) [0 ..< length xs])" by (simp only: map_nth)
  also have "\<dots> = map ((!) xs) (filter (\<lambda>j. xs ! j \<noteq> None) [0 ..< length xs])" by (simp only: filter_map comp_def)
  finally show ?thesis .
qed

lemma count_somes:
  "count_list (map (map_option node) (filter (\<lambda>d. d \<noteq> None) xs)) (Some v) = count_list (map (map_option node) xs) (Some v)"
  by (induction xs) auto

lemma card_fds: "card (dom (fds l)) = length (filter (\<lambda>d. d \<noteq> None) (elements l))"
proof -
  have "dom (fds l) = set (filter (\<lambda>j. elements l ! j \<noteq> None) [0 ..< length (elements l)])"
    by (auto simp: fds_def split: if_splits)
  then have "card (dom (fds l)) = length (filter (\<lambda>j. elements l ! j \<noteq> None) [0 ..< length (elements l)])"
    by (metis distinct_card distinct_filter distinct_upt)
  then show ?thesis unfolding somes_nth [of "elements l"] by simp
qed

lemma fds_compact:
  assumes "0 < length (filter (\<lambda>d. d \<noteq> None) (elements l)) + length jk"
  shows "fds (shape (filter (\<lambda>d. d \<noteq> None) (elements l)) jk) = compact (fds l)"
proof
  fix n
  let ?xs = "elements l" and ?js = "filter (\<lambda>j. elements l ! j \<noteq> None) [0 ..< length (elements l)]"
  define js where "js = ?js"
  have dom: "dom (fds l) = set js" unfolding js_def by (auto simp: fds_def split: if_splits)
  have sl: "sorted_list_of_set (dom (fds l)) = js" unfolding dom js_def
    by (rule sorted_list_of_set.idem_if_sorted_distinct) (simp_all add: sorted_wrt_filter)
  have card: "card (dom (fds l)) = length js" unfolding dom js_def by (rule distinct_card) simp
  have ys: "filter (\<lambda>d. d \<noteq> None) ?xs = map ((!) ?xs) js" unfolding js_def by (rule somes_nth)
  have "?xs ! (js ! n) = fds l (js ! n)" if "n < length js"
  proof -
    have "js ! n \<in> set js" using that by (rule nth_mem)
    then show ?thesis by (simp add: fds_def js_def)
  qed
  then show "fds (shape (filter (\<lambda>d. d \<noteq> None) ?xs) jk) n = compact (fds l) n"
    unfolding compact_def sl card ys by (simp add: fds_def)
qed

section \<open>Fork\<close>

lemma list_part_cons:
  assumes "list_part L f qs i" and "new \<notin> set (qs @ [i])" and "new \<noteq> NULL"
  shows "\<exists>m. f \<noteq> NULL \<and> L f = Some (NULL, m) \<and> f \<in> set (qs @ [i]) \<and> list_part (L(f \<mapsto> (new, m), new \<mapsto> (NULL, f))) new (new # qs) i"
proof -
  obtain a rest where a: "qs @ [i] = a # rest" by (cases "qs @ [i]") auto
  have d: "dseg L NULL f (a # rest) NULL i" "distinct (a # rest)" "new \<notin> set (a # rest)"
    using assms(1,2) unfolding list_part_def a by blast+
  from d(1) obtain m where m: "a = f" "f \<noteq> NULL" "L f = Some (NULL, m)" "dseg L f m rest NULL i" by auto
  have "list_part (L(f \<mapsto> (new, m), new \<mapsto> (NULL, f))) new (new # qs) i"
    unfolding list_part_def append_Cons a using d m assms(3) by auto
  with m show ?thesis unfolding a by auto
qed

lemma table_part_insert:
  assumes "table_part K q qs i" and "pid_part K n qs i" and "K new = None" and "n_pid k = n + 1" and "set (qs @ [i]) \<subseteq> dom K"
    and "0 \<le> n"
  shows "\<exists>r q'. QHash_insert (\<lambda>n. n) True q (n + 1) new = Some (r, q') \<and> table_part (K(new \<mapsto> k)) q' (new # qs) i"
proof -
  have ok: "qhash_ok (\<lambda>n. n) q" using assms(1) by (simp add: table_part_def)
  have tab: "qmap (\<lambda>n. n) q m = Some u \<longleftrightarrow> u \<in> set (qs @ [i]) \<and> map_option n_pid (K u) = Some m" for m u
    using assms(1) by (simp add: table_part_def)
  have range: "1 \<le> m \<and> m \<le> n" if "qmap (\<lambda>n. n) q m = Some u" for m u
    using that assms(2) unfolding tab by (auto simp: pid_part_def)
  then have "\<forall>m \<in> insert (n + 1) (dom (qmap (\<lambda>n. n) q)). 0 \<le> m" using assms(6) by force
  from QHash_insert_ok [OF ok this, of new] obtain q' where
    q': "QHash_insert (\<lambda>n. n) True q (n + 1) new = Some (True, q')" "qhash_ok (\<lambda>n. n) q'"
    "qmap (\<lambda>n. n) q' = (qmap (\<lambda>n. n) q)(n + 1 \<mapsto> new)" by blast
  have "qmap (\<lambda>n. n) q' m = Some u \<longleftrightarrow> u \<in> set ((new # qs) @ [i]) \<and> map_option n_pid ((K(new \<mapsto> k)) u) = Some m" for m u
  proof (cases "u = new")
    case True
    have "qmap (\<lambda>n. n) q m \<noteq> Some new" using assms(3) tab [of m new] by auto
    with True show ?thesis using assms(4) by (auto simp: q'(3))
  next
    case False
    have "qmap (\<lambda>n. n) q (n + 1) \<noteq> Some u" using range [of "n + 1" u] by auto
    with False show ?thesis using tab [of m u] by (auto simp: q'(3))
  qed
  with q'(1,2) show ?thesis by (auto simp: table_part_def)
qed

lemma pid_part_insert:
  assumes "pid_part K n qs i" and "K new = None" and "n_pid k = n + 1" and "set (qs @ [i]) \<subseteq> dom K" and "0 \<le> n"
  shows "pid_part (K(new \<mapsto> k)) (n + 1) (new # qs) i"
proof -
  have ni: "u \<noteq> new" if "u \<in> set (qs @ [i])" for u using that assms(2,4) by auto
  have same: "pid_at (K(new \<mapsto> k)) u = pid_at K u" if "u \<noteq> new" for u using that by (simp add: pid_at_def)
  have top: "pid_at (K(new \<mapsto> k)) new = n + 1" using assms(3) by (simp add: pid_at_def)
  have le: "pid_at K u \<le> n" for u using assms(1,5) by (auto simp: pid_part_def pid_at_def split: option.splits)
  have "inj_on (pid_at (K(new \<mapsto> k))) (dom (K(new \<mapsto> k)))"
  proof (rule inj_onI)
    fix u v assume uv: "u \<in> dom (K(new \<mapsto> k))" "v \<in> dom (K(new \<mapsto> k))" "pid_at (K(new \<mapsto> k)) u = pid_at (K(new \<mapsto> k)) v"
    have "u = new \<longleftrightarrow> v = new"
    proof (rule ccontr)
      assume "(u = new) \<noteq> (v = new)"
      then show False using uv(3) same [of u] same [of v] le [of u] le [of v] top by (cases "u = new") auto
    qed
    moreover have "u = v" if "u \<noteq> new" "v \<noteq> new"
      using uv that assms(1) by (auto simp: same pid_part_def dest: inj_onD)
    ultimately show "u = v" by blast
  qed
  moreover have "sorted_wrt (\<lambda>u v. pid_at (K(new \<mapsto> k)) v < pid_at (K(new \<mapsto> k)) u) ((new # qs) @ [i])"
  proof -
    have "sorted_wrt (\<lambda>u v. pid_at K v < pid_at K u) (qs @ [i])" using assms(1) by (simp add: pid_part_def)
    then have "sorted_wrt (\<lambda>u v. pid_at (K(new \<mapsto> k)) v < pid_at (K(new \<mapsto> k)) u) (qs @ [i])"
      by (rule sorted_wrt_mono_rel [rotated]) (use ni same in auto)
    moreover have "pid_at (K(new \<mapsto> k)) v < n + 1" if "v \<in> set (qs @ [i])" for v
      using ni [OF that] same le [of v] by simp
    ultimately show ?thesis by (simp only: append_Cons sorted_wrt.simps top) blast
  qed
  moreover have "pid_at (K(new \<mapsto> k)) i = 1" using ni [of i] same [of i] assms(1) by (simp add: pid_part_def)
  ultimately show ?thesis using assms(1,3,5) by (auto simp: pid_part_def) force
qed

lemma member_part_insert:
  assumes m: "member_part K T qs i" and new: "K new = None" "new \<noteq> NULL" and t: "T t = None"
    and k: "k = \<lparr>n_pid = n, n_ended = False, n_parent = me, n_thread = t, n_memory = True\<rparr>"
    and me: "K me = Some l" "n_pid l < n" and thr: "\<And>t u. T t = Some u \<Longrightarrow> parentProcess u \<noteq> new"
  shows "member_part (K(new \<mapsto> k)) (T(t \<mapsto> \<lparr>parentProcess = new, thread_status = st\<rparr>)) (new # qs) i"
    (is "member_part ?K ?T _ _")
  unfolding member_part_def
proof (intro conjI allI impI)
  have men: "me \<noteq> NULL" using m me(1) by (auto simp: member_part_def)
  have ni: "new \<notin> set (qs @ [i])" using m new(1) by (auto simp: member_part_def)
  fix u z assume u: "?K u = Some z"
  show "node_ok ?K ?T (new # qs) i u z"
  proof (cases "u = new")
    case True
    then have "z = k" using u by simp
    then show ?thesis using True k me new ni men thr by (auto simp: node_ok_def)
  next
    case False
    with u have ok: "node_ok K T qs i u z" using m by (simp add: member_part_def)
    have "n_parent z \<noteq> new \<or> n_parent z = NULL" using ok new by (auto simp: node_ok_def)
    moreover have "n_thread z \<noteq> t \<or> u = i" using ok t by (auto simp: node_ok_def)
    ultimately show ?thesis using ok False new by (auto simp: node_ok_def)
  qed
qed (use m new in \<open>auto simp: member_part_def\<close>)

lemma thread_part_insert:
  assumes "thread_part K T l c i" and "T t = None" and "t \<noteq> NULL"
  shows "thread_part (K(new \<mapsto> k)) (T(t \<mapsto> \<lparr>parentProcess = new, thread_status = st\<rparr>)) (l @ [t]) c i"
proof -
  from assms(1) obtain t0 u0 where "T t0 = Some u0" "parentProcess u0 = i" by (auto simp: thread_part_def)
  moreover from this assms(2) have "t0 \<noteq> t" by auto
  ultimately show ?thesis using assms by (auto simp: thread_part_def intro!: exI [of _ t0])
qed

lemma vnode_held:
  assumes "vnodes_ok vs R" and "0 < R p" and "R p + 1 < 2 ^ 32"
  shows "\<exists>vs'. ReferenceVnode vs p = Some vs' \<and> vnodes_ok vs' (inc R p)"
proof -
  obtain n where "vheap vs p = Some n" by (rule held_vnode [OF assms(1,2)])
  from ReferenceVnode_ok [OF assms(1) this assms(3)] show ?thesis by (simp add: inc_def)
qed

lemma fork_ok:
  assumes ok: "tree_ok s qs i" and fok: "files_ok (procs s) (sys_vnodes s) r"
    and me: "current_process s = Some me" "procs s me = Some y" "p_status y \<noteq> TERMINATED"
    and new: "new \<noteq> NULL" "procs s new = None" and t: "t \<noteq> NULL" "tcbs s t = None"
    and lim: "\<And>v. r v + all_refs (procs s) v + card (dom (fds (p_files y))) < 2 ^ 31" and "heap_ok C" "lastUsedPID s < 2 ^ 31 - 1"
  shows "\<exists>P q vs x. ProcessUAPI_fork C 0 t new s = Some (lastUsedPID s + 1, s\<lparr>procs := P, processes := q, lastUsedPID := lastUsedPID s + 1,
      firstProcess := new, tcbs := (tcbs s)(t \<mapsto> \<lparr>parentProcess = new, thread_status = Running\<rparr>),
      thread_list := thread_list s @ [t], sys_vnodes := vs\<rparr>)
    \<and> tree_ok (s\<lparr>procs := P, processes := q, lastUsedPID := lastUsedPID s + 1,
      firstProcess := new, tcbs := (tcbs s)(t \<mapsto> \<lparr>parentProcess = new, thread_status = Running\<rparr>),
      thread_list := thread_list s @ [t], sys_vnodes := vs\<rparr>) (new # qs) i
    \<and> files_ok P vs r \<and> bodies P = (bodies (procs s))(new \<mapsto> x) \<and> pid x = lastUsedPID s + 1 \<and> p_parent x = me
    \<and> p_status x \<noteq> TERMINATED \<and> fds (p_files x) = compact (fds (p_files y))"
proof -
  let ?H = "procs s" and ?K = "nodes (procs s)" and ?T = "tcbs s" and ?n = "lastUsedPID s"
  define B where "B = owed ?K ?T qs i"
  have parts: "list_part (links ?H) (firstProcess s) qs i" "table_part ?K (processes s) qs i"
    "pid_part ?K ?n qs i" "member_part ?K ?T qs i" "thread_part ?K ?T (thread_list s) (current s) i"
    using ok by (simp_all add: tree_ok_def)
  have s0: "procs s = counted ?H B" unfolding B_def by (rule tree_counted [OF ok])
  have new0: "?K new = None" "new \<notin> set (qs @ [i])" using new parts(4) by (auto simp: nodes_def member_part_def)
  have men: "me \<noteq> NULL" "?K me = Some (node_of y)" using me(2) parts(4) by (auto simp: member_part_def nodes_def)
  have fin: "finite (dom ?H)" using parts(4) by (simp add: member_part_def)
  have neq: "me \<noteq> new" using me(2) new(2) by auto
  from list_part_cons [OF parts(1) new0(2) new(1)] obtain m where
    m: "firstProcess s \<noteq> NULL" "links ?H (firstProcess s) = Some (NULL, m)" "firstProcess s \<in> set (qs @ [i])"
    "list_part ((links ?H)(firstProcess s \<mapsto> (new, m), new \<mapsto> (NULL, firstProcess s))) new (new # qs) i" by blast
  from m(2) obtain xf where xf: "?H (firstProcess s) = Some xf" "p_next xf = m" "p_prev xf = NULL" by (auto simp: links_Some)
  have n0: "0 \<le> ?n" using parts(3) men(2) by (auto simp: pid_part_def) force
  have dom: "set (qs @ [i]) \<subseteq> dom ?K" using parts(4) by (simp add: member_part_def)
  define k where "k = \<lparr>n_pid = ?n + 1, n_ended = False, n_parent = me, n_thread = t, n_memory = True\<rparr>"
  obtain r0 q where q: "QHash_insert (\<lambda>n. n) True (processes s) (?n + 1) new = Some (r0, q)" "table_part (?K(new \<mapsto> k)) q (new # qs) i"
    using table_part_insert [OF parts(2,3) new0(1) _ dom n0, of k] by (auto simp: k_def)
  obtain vs jk where c: "copy_files C (sys_vnodes s) (p_files y) 0 (ListWithHoles_new (heap_ok C))
        = Some (vs, shape (filter (\<lambda>d. d \<noteq> None) (elements (p_files y))) jk)"
    "0 < length (filter (\<lambda>d. d \<noteq> None) (elements (p_files y))) + length jk"
    "vnodes_ok vs (\<lambda>v. r v + all_refs ?H v + count_list (map (map_option node) (elements (p_files y))) (Some v))"
  proof -
    have "qlist_ok (p_files y)" using fok me(2) by (simp add: files_ok_def)
    then obtain junk where l: "p_files y = shape (elements (p_files y)) junk" by (auto elim: qlist_okE)
    have pos: "0 < r (node f) + all_refs ?H (node f)" if "Some f \<in> set (drop 0 (elements (p_files y)))" for f
    proof -
      have "Some (node f) \<in> set (map (map_option node) (elements (p_files y)))" using that by force
      then have "0 < file_refs y (node f)" unfolding file_refs_def by (metis add_gr_0 count_list_0_iff gr0I)
      with all_refs_ge [OF fin me(2), of "node f"] show ?thesis by simp
    qed
    have lim2: "r v + all_refs ?H v + length (filter (\<lambda>d. d \<noteq> None) (drop 0 (elements (p_files y)))) < 2 ^ 32" for v
      using lim [of v] by (simp add: card_fds)
    have n: "ListWithHoles_new (heap_ok C) = shape [] [None, None]"
      using assms by (simp add: ListWithHoles_new_def QList_new_shape)
    have "vnodes_ok (sys_vnodes s) (\<lambda>v. r v + all_refs ?H v)" using fok by (simp add: files_ok_def)
    from copy_files_ok [where R = "\<lambda>v. r v + all_refs ?H v" and i = 0 and xs = "elements (p_files y)" and C = C,
      OF this l n _ _ pos lim2] assms(11) that show ?thesis by auto
  qed
  obtain vs' where v: "ReferenceVnode vs (p_cwd y) = Some vs'"
    "vnodes_ok vs' (\<lambda>v. r v + all_refs ?H v + file_refs y v)"
  proof -
    let ?R = "\<lambda>v. r v + all_refs ?H v + count_list (map (map_option node) (elements (p_files y))) (Some v)"
    have "0 < all_refs ?H (p_cwd y)" using all_refs_ge [OF fin me(2), of "p_cwd y"] me(3) by (simp add: file_refs_def)
    then have pos: "0 < ?R (p_cwd y)" by simp
    have "?R (p_cwd y) + 1 < 2 ^ 32"
      using lim [of "p_cwd y"] count_le_length [of "map (map_option node) (filter (\<lambda>d. d \<noteq> None) (elements (p_files y)))" "Some (p_cwd y)"]
      unfolding card_fds count_somes by simp
    from vnode_held [OF c(3) pos this] obtain vs' where "ReferenceVnode vs (p_cwd y) = Some vs'" "vnodes_ok vs' (inc ?R (p_cwd y))"
      by blast
    moreover have "inc ?R (p_cwd y) = (\<lambda>v. r v + all_refs ?H v + file_refs y v)"
      using me(3) by (auto simp: inc_def file_refs_def fun_eq_iff)
    ultimately show ?thesis using that by simp
  qed
  let ?f = "firstProcess s" and ?l = "shape (filter (\<lambda>d. d \<noteq> None) (elements (p_files y))) jk"
  let ?x = "\<lparr>pid = ?n + 1, p_uid = p_uid y, p_euid = p_euid y, p_gid = p_gid y, p_egid = p_egid y, p_pgid = p_pgid y,
          p_sid = p_sid y, p_status = READY, p_exitStatus = 0, p_parent = me, p_mainThread = t,
          p_memory = True, p_files = ?l, p_cwd = p_cwd y, p_umask = p_umask y, p_refCount = 3,
          p_prev = NULL, p_next = ?f\<rparr>"
  let ?H1 = "?H(?f \<mapsto> xf\<lparr>p_prev := new\<rparr>)" and ?B1 = "B(me := B me + 1, new := 3)"
  define s1 where "s1 = s\<lparr>lastUsedPID := ?n + 1, processes := q, procs := counted (?H1(new \<mapsto> ?x\<lparr>p_mainThread := NULL\<rparr>)) ?B1,
    sys_vnodes := vs', firstProcess := new\<rparr>"
  have ref: "referenceProcess (s\<lparr>lastUsedPID := ?n + 1\<rparr>) me = Some (s\<lparr>lastUsedPID := ?n + 1, procs := counted ?H (B(me := B me + 1))\<rparr>)"
    by (rule referenceProcess_counted) (use s0 me men in simp_all)
  have put_new: "(counted ?H1 (B(me := B me + 1)))(new \<mapsto> ?x\<lparr>p_mainThread := NULL\<rparr>) = counted (?H1(new \<mapsto> ?x\<lparr>p_mainThread := NULL\<rparr>)) ?B1"
    by (auto simp: counted_def fun_eq_iff)
  have np: "NewProcess C new s = Some (new, s1)"
    using assms(11,12) new m(1) xf me neq men q(1) c(1) v(1) ref put_new
    unfolding NewProcess_def by (simp add: proc_steps insert_process_def Let_def s1_def)
  let ?T' = "?T(t \<mapsto> \<lparr>parentProcess = new, thread_status = Running\<rparr>)"
  let ?H2 = "?H1(new \<mapsto> ?x)" and ?B2 = "B(me := B me + 1, new := 4)"
  let ?s' = "s\<lparr>procs := counted ?H2 ?B2, processes := q, lastUsedPID := ?n + 1, firstProcess := new, tcbs := ?T',
      thread_list := thread_list s @ [t], sys_vnodes := vs'\<rparr>"
  have fork: "ProcessUAPI_fork C 0 t new s = Some (?n + 1, ?s')"
  proof -
    let ?s2 = "s1\<lparr>tcbs := ?T', procs := counted (?H1(new \<mapsto> ?x\<lparr>p_mainThread := NULL\<rparr>)) (?B1(new := 4))\<rparr>"
    have "referenceProcess (s1\<lparr>tcbs := ?T'\<rparr>) new = Some ?s2"
      using referenceProcess_counted [where s = "s1\<lparr>tcbs := ?T'\<rparr>" and p = new and x = "?x\<lparr>p_mainThread := NULL\<rparr>"
          and H = "?H1(new \<mapsto> ?x\<lparr>p_mainThread := NULL\<rparr>)" and B = ?B1] new(1)
      by (simp add: s1_def)
    moreover have "set_proc ?s2 new (\<lambda>x. x\<lparr>p_mainThread := t\<rparr>) = Some (s1\<lparr>tcbs := ?T', procs := counted ?H2 ?B2\<rparr>)"
      using new(1) by (simp add: proc_steps)
    moreover have "the_proc (s1\<lparr>tcbs := ?T', procs := counted ?H2 ?B2\<rparr>) new = Some (?x\<lparr>p_refCount := 4\<rparr>)"
      using new(1) by (simp add: proc_steps)
    moreover have "tcbs s1 = ?T" by (simp add: s1_def)
    ultimately show ?thesis using np new(1) t(1) by (simp add: ProcessUAPI_fork_def s1_def)
  qed
  have K': "nodes ?H2 = ?K(new \<mapsto> k)" using xf(1) by (simp add: k_def node_of_def) (simp add: nodes_def fun_eq_iff node_of_def)
  have thr: "parentProcess u \<noteq> new" if "?T a = Some u" for a u
  proof
    assume "parentProcess u = new"
    with parts(5) that new(1) have "?K new \<noteq> None" unfolding thread_part_def by metis
    with new0(1) show False by simp
  qed
  have nodes_new: "n_parent z \<noteq> new" if "?K a = Some z" for a z
  proof
    assume "n_parent z = new"
    moreover have "node_ok ?K ?T qs i a z" using parts(4) that by (simp add: member_part_def)
    ultimately show False using new(1) new0(1) by (auto simp: node_ok_def)
  qed
  have "tree_ok ?s' (new # qs) i"
  proof (rule tree_okI)
    show "procs ?s' = counted ?H2 ?B2" by simp
    show "list_part (links ?H2) (firstProcess ?s') (new # qs) i"
      using m(4) xf by (simp add: link_of_def)
    show "table_part (nodes ?H2) (processes ?s') (new # qs) i" unfolding K' using q(2) by simp
    show "pid_part (nodes ?H2) (lastUsedPID ?s') (new # qs) i"
      unfolding K' using pid_part_insert [OF parts(3) new0(1) _ dom n0] by (simp add: k_def)
    show "member_part (nodes ?H2) (tcbs ?s') (new # qs) i"
    proof -
      have "n_pid (node_of y) < ?n + 1" using parts(3) men(2) by (force simp: pid_part_def)
      from member_part_insert [OF parts(4) new0(1) new(1) t(2) k_def men(2) this, of Running] thr
      show ?thesis unfolding K' by simp
    qed
    show "thread_part (nodes ?H2) (tcbs ?s') (thread_list ?s') (current ?s') i"
      unfolding K' using thread_part_insert [OF parts(5) t(2,1)] by simp
    fix u z assume u: "?H2 u = Some z"
    show "?B2 u = owed (nodes ?H2) (tcbs ?s') (new # qs) i u \<and> 0 < ?B2 u"
    proof (cases "u = new")
      case True
      have "new \<noteq> i" using new0(2) by simp
      moreover have "holders (nodes ?H2) n_parent new = 0"
        unfolding K' by (rule holders_none) (use nodes_new neq in \<open>auto simp: k_def split: if_splits\<close>)
      moreover have "holders ?T' parentProcess new = 1"
        using holders_update [of ?T t _ parentProcess new] holders_none [of ?T parentProcess new] thr t(2) parts(5)
        by (simp add: thread_part_def)
      ultimately show ?thesis using True by (simp add: owed_def)
    next
      case False
      have "holders (nodes ?H2) n_parent u = holders ?K n_parent u + of_bool (me = u)"
        unfolding K' using holders_update [of ?K new "Some k" n_parent u] new0(1) fin by (simp add: k_def)
      moreover have "holders ?T' parentProcess u = holders ?T parentProcess u"
        using holders_update [of ?T t _ parentProcess u] t(2) parts(5) False by (simp add: thread_part_def)
      ultimately have e: "owed (nodes ?H2) ?T' (new # qs) i u = B u + of_bool (me = u)"
        using False by (simp only: owed_def B_def) simp
      have "0 < B u"
      proof -
        from u False obtain w where "?H u = Some w" using xf(1) by (auto split: if_splits)
        with owed_live [OF ok] show ?thesis by (simp add: B_def)
      qed
      moreover have "tcbs ?s' = ?T'" by simp
      ultimately show ?thesis using False by (simp only: e) auto
    qed
  qed
  moreover define bx where "bx = ?x\<lparr>p_prev := 0, p_next := 0, p_refCount := 0\<rparr>"
  moreover have bodies: "bodies (counted ?H2 ?B2) = (bodies ?H)(new \<mapsto> bx)"
    using bodies_links(1) [where P = ?H and p = ?f and x = xf and b = new, OF xf(1)] by (simp add: bodies_update bx_def)
  moreover have "files_ok (counted ?H2 ?B2) vs' r"
  proof -
    have d: "dom (bodies ?H) = dom ?H" by (auto simp: bodies_def dom_def)
    have el: "elements ?l = filter (\<lambda>d. d \<noteq> None) (elements (p_files y))" by simp
    have "file_refs bx v = file_refs y v" for v
      using me(3) unfolding file_refs_def bx_def by (simp only: ProcessControlBlock.simps el count_somes) simp
    then have "all_refs (counted ?H2 ?B2) v = all_refs ?H v + file_refs y v" for v
      unfolding all_refs_bodies [of "counted ?H2 ?B2"] all_refs_bodies [of ?H] bodies
      using all_refs_update [of "bodies ?H" new "Some bx" v] fin new(2) by (simp add: d) (simp add: bodies_def)
    moreover have "qlist_ok ?l" using c(2) by (intro qlist_ok_shape) simp
    moreover have "qlist_ok (p_files z) \<and> (p_status z = TERMINATED \<longrightarrow> set (elements (p_files z)) \<subseteq> {None})"
      if z: "counted ?H2 ?B2 u = Some z" for u z
    proof (cases "u = new")
      case True
      with z have "p_files z = ?l" "p_status z = READY" by (auto simp: counted_def)
      with \<open>qlist_ok ?l\<close> show ?thesis by simp
    next
      case False
      with z xf(1) obtain w where "?H u = Some w" "p_files z = p_files w" "p_status z = p_status w"
        by (auto simp: counted_def split: if_splits)
      with fok show ?thesis by (auto simp: files_ok_def)
    qed
    ultimately show ?thesis using v(2) unfolding files_ok_def by (simp add: add.assoc)
  qed
  moreover have "fds (p_files bx) = compact (fds (p_files y))" using fds_compact [OF c(2)] by (simp add: bx_def)
  ultimately show ?thesis using fork
    by (intro exI [of _ "counted ?H2 ?B2"] exI [of _ q] exI [of _ vs'] exI [of _ bx]) (simp add: bx_def)
qed

section \<open>Exit\<close>

lemma files_back_back [simp]: "files_back (files_back x k) k' = files_back x k'"
  by (simp add: files_back_def)

lemma files_back_fields [simp]:
  "p_files (files_back x k) = openFiles k" "p_cwd (files_back x k) = currentWorkingDirNode k"
  "p_status (files_back x k) = p_status x" "pid (files_back x k) = pid x" "p_parent (files_back x k) = p_parent x"
  "p_mainThread (files_back x k) = p_mainThread x" "p_memory (files_back x k) = p_memory x"
  by (simp_all add: files_back_def)

lemma closeAllFiles_loop_ok:
  fixes s :: "'w system"
  assumes "current_process s = Some p" and "p \<noteq> NULL" and "procs s p = Some x" and "p_status x \<noteq> TERMINATED"
    and "files_ok (procs s) (sys_vnodes s) r" and "finite (dom (procs s))" and "\<forall>m < j. elements (p_files x) ! m = None"
    and "j \<le> length (elements (p_files x))"
  shows "\<exists>k :: 'w kernel. closeAllFiles_loop C s p 0 (int j)
      = Some (s\<lparr>procs := (procs s)(p \<mapsto> files_back x k), sys_vnodes := vnode_table k, sys_world := sys_world s\<rparr>)
    \<and> files_ok ((procs s)(p \<mapsto> files_back x k)) (vnode_table k) r \<and> currentWorkingDirNode k = p_cwd x
    \<and> set (table k) \<subseteq> {None}"
  using assms
proof (induction "length (elements (p_files x)) - j" arbitrary: j s x)
  case 0
  let ?k = "kernel_of s x"
  have q: "qlist_ok (p_files x)" using 0 by (auto simp: files_ok_def)
  then obtain junk where l: "p_files x = shape (elements (p_files x)) junk" by (auto elim: qlist_okE)
  have "QList_size (p_files x) = int (length (elements (p_files x)))" by (subst l) simp
  moreover have "length (elements (p_files x)) = j" using 0 by simp
  moreover have "the_proc s p = Some x" using 0 by (simp add: the_proc_def)
  ultimately have "closeAllFiles_loop C s p 0 (int j) = Some s" by (subst closeAllFiles_loop.simps) simp
  moreover have "files_back x ?k = x" "(procs s)(p \<mapsto> x) = procs s" using 0 by (simp_all add: files_back_def kernel_of_def map_upd_triv)
  ultimately show ?case using 0
    by (intro exI [of _ ?k]) (auto simp: kernel_of_def table_def in_set_conv_nth)
next
  case (Suc n)
  let ?xs = "elements (p_files x)"
  have q: "qlist_ok (p_files x)" using Suc.prems by (auto simp: files_ok_def)
  then obtain junk where l: "p_files x = shape ?xs junk" by (auto elim: qlist_okE)
  have j: "j < length ?xs" and n: "n = length ?xs - Suc j" using Suc.hyps(2) by simp_all
  have size: "int j < QList_size (p_files x)" using j by (subst l) simp
  have ati: "at (p_files x) (int j) = Some (?xs ! j)" by (subst l) (rule at_shape [OF j])
  have px: "the_proc s p = Some x" using Suc.prems by (simp add: the_proc_def)
  have e: "int j + 1 = int (Suc j)" by simp
  show ?case
  proof (cases "?xs ! j")
    case None
    then have "\<forall>m < Suc j. ?xs ! m = None" using Suc.prems(7) by (simp add: less_Suc_eq)
    from Suc.hyps(1) [OF n Suc.prems(1-6) this] j
    have "\<exists>k :: 'w kernel. closeAllFiles_loop C s p 0 (int (Suc j))
        = Some (s\<lparr>procs := (procs s)(p \<mapsto> files_back x k), sys_vnodes := vnode_table k, sys_world := sys_world s\<rparr>)
      \<and> files_ok ((procs s)(p \<mapsto> files_back x k)) (vnode_table k) r \<and> currentWorkingDirNode k = p_cwd x \<and> set (table k) \<subseteq> {None}"
      by simp
    moreover have "closeAllFiles_loop C s p 0 (int j) = closeAllFiles_loop C s p 0 (int (Suc j))"
      using size px ati None by (subst closeAllFiles_loop.simps) (simp add: add.commute)
    ultimately show ?thesis by simp
  next
    case (Some f)
    let ?r = "\<lambda>v. r v + all_refs ((procs s)(p := None)) v"
    have kok: "kernel_ok (kernel_of s x) ?r" by (rule kernel_of_ok [OF Suc.prems(5,6,3,4)])
    have "fdmap (kernel_of s x) j = Some f" using Some j by (simp add: fdmap_kernel_of fds_def)
    from close_ok [OF kok this, of C] obtain k where k: "FSUAPI_close C (kernel_of s x) (int j) = Some (0, k)" "kernel_ok k ?r"
      "fdmap k = (fdmap (kernel_of s x))(j := None)" "same_rest (kernel_of s x) k" "length (table k) = length (table (kernel_of s x))"
      by auto
    let ?x = "files_back x k" and ?s = "s\<lparr>procs := (procs s)(p \<mapsto> files_back x k), sys_vnodes := vnode_table k, sys_world := world k\<rparr>"
    have w: "world k = sys_world s" "currentWorkingDirNode k = p_cwd x" using k(4) by (simp_all add: same_rest_def kernel_of_def)
    have call: "file_call s (\<lambda>k. FSUAPI_close C k (int j)) = Some (0, ?s)"
      using k(1) Suc.prems(1) px by (simp add: file_call_def)
    have len: "length (elements (p_files ?x)) = length ?xs" using k(5) by (simp add: table_def kernel_of_def)
    have nth: "elements (p_files ?x) ! m = (if m = j then None else ?xs ! m)" if "m < length ?xs" for m
      using fun_cong [OF k(3), of m] that len by (simp add: fdmap_def table_def kernel_of_def)
    have prems: "current_process ?s = Some p" "procs ?s p = Some ?x" "p_status ?x \<noteq> TERMINATED" "finite (dom (procs ?s))"
      using Suc.prems by (auto simp: current_process_def the_thread_def split: if_splits)
    have fok: "files_ok (procs ?s) (sys_vnodes ?s) r"
      using files_back_ok [OF Suc.prems(5,6,3,4) k(2)] by simp
    have none: "\<forall>m < Suc j. elements (p_files ?x) ! m = None"
      using Suc.prems(7) j nth by (auto simp: less_Suc_eq)
    have le: "Suc j \<le> length (elements (p_files ?x))" and n': "n = length (elements (p_files ?x)) - Suc j"
      using j n len by simp_all
    from Suc.hyps(1) [OF n' prems(1) Suc.prems(2) prems(2,3) fok prems(4) none le] obtain k' :: "'w kernel" where
      k': "closeAllFiles_loop C ?s p 0 (int (Suc j))
        = Some (?s\<lparr>procs := (procs ?s)(p \<mapsto> files_back ?x k'), sys_vnodes := vnode_table k', sys_world := sys_world ?s\<rparr>)"
      "files_ok ((procs ?s)(p \<mapsto> files_back ?x k')) (vnode_table k') r" "currentWorkingDirNode k' = p_cwd ?x" "set (table k') \<subseteq> {None}"
      by blast
    moreover have "closeAllFiles_loop C s p 0 (int j) = closeAllFiles_loop C ?s p 0 (int (Suc j))"
      using size px ati Some call by (subst closeAllFiles_loop.simps) (simp add: add.commute)
    ultimately show ?thesis using w by (intro exI [of _ k']) simp
  qed
qed

lemma files_ok_same:
  assumes "files_ok P vs r" and "finite (dom P)" and "P p = Some x" and "p_files y = p_files x" "p_status y = p_status x" "p_cwd y = p_cwd x"
  shows "files_ok (P(p \<mapsto> y)) vs r"
proof -
  have "file_refs y = file_refs x" using assms(4-6) by (simp add: file_refs_def fun_eq_iff)
  then have "all_refs (P(p \<mapsto> y)) v = all_refs P v" for v
    using all_refs_update [OF assms(2), of p "Some y" v] assms(3) by simp
  with assms show ?thesis by (auto simp: files_ok_def)
qed

lemma files_ok_counted [simp]: "files_ok (counted H B) vs r \<longleftrightarrow> files_ok H vs r"
  by (simp add: files_ok_bodies [of "counted H B"] files_ok_bodies [of H])

lemma files_ok_ended:
  assumes "files_ok P vs r" and "finite (dom P)" and "P p = Some x" and "p_status x \<noteq> TERMINATED" and "set (elements (p_files x)) \<subseteq> {None}"
    and "p_files y = p_files x" "p_status y = TERMINATED"
  shows "\<exists>vs'. PutVnode (fs :: addr \<Rightarrow> addr) vs (p_cwd x) = Some vs' \<and> files_ok (P(p \<mapsto> y)) vs' r"
proof -
  have zero: "count_list (map (map_option node) (elements (p_files x))) (Some v) = 0" for v
    using assms(5) by (auto simp: count_list_0_iff)
  have e: "all_refs P v = all_refs (P(p \<mapsto> y)) v + of_bool (v = p_cwd x)" for v
    using all_refs_update [OF assms(2), of p "Some y" v] assms(3,4,6,7) zero by (auto simp: file_refs_def)
  have "(\<lambda>v. r v + all_refs P v) = inc (\<lambda>v. r v + all_refs (P(p \<mapsto> y)) v) (p_cwd x)"
    unfolding e inc_def by (rule ext) simp
  with assms(1) have "vnodes_ok vs (inc (\<lambda>v. r v + all_refs (P(p \<mapsto> y)) v) (p_cwd x))" by (simp add: files_ok_def)
  from put_held [OF this, of fs] obtain vs' where "PutVnode fs vs (p_cwd x) = Some vs'"
    "vnodes_ok vs' (\<lambda>v. r v + all_refs (P(p \<mapsto> y)) v)" by blast
  with assms show ?thesis by (auto simp: files_ok_def)
qed

lemma table_part_same: "table_part K q qs i \<Longrightarrow> K p = Some k \<Longrightarrow> n_pid k' = n_pid k \<Longrightarrow> table_part (K(p \<mapsto> k')) q qs i"
  by (auto simp: table_part_def)

lemma pid_part_same: 
  assumes "pid_part K n qs i" and "K p = Some k" and "n_pid k' = n_pid k"
  shows "pid_part (K(p \<mapsto> k')) n qs i"
proof -
  have "pid_at (K(p \<mapsto> k')) = pid_at K" using assms(2,3) by (auto simp: pid_at_def fun_eq_iff)
  moreover have "dom (K(p \<mapsto> k')) = dom K" using assms(2) by auto
  ultimately show ?thesis using assms by (auto simp: pid_part_def)
qed

lemma member_part_ended:
  assumes m: "member_part K T qs i" and k: "K p = Some k" "T t = Some c" "parentProcess c = p" "p \<noteq> i" "p \<noteq> NULL"
    and k': "k' = k\<lparr>n_ended := True, n_memory := False\<rparr>"
  shows "member_part (K(p \<mapsto> k')) (T(t \<mapsto> \<lparr>parentProcess = NULL, thread_status = st\<rparr>)) qs i"
    (is "member_part ?K ?T _ _")
  unfolding member_part_def
proof (intro conjI allI impI)
  have ok: "node_ok K T qs i u z" if "K u = Some z" for u z using m that by (simp add: member_part_def)
  have null: "K NULL = None" using m by (simp add: member_part_def)
  fix u z assume u: "?K u = Some z"
  then obtain z0 where z0: "K u = Some z0" "n_pid z = n_pid z0" "n_parent z = n_parent z0" "n_thread z = n_thread z0"
    "u \<noteq> p \<Longrightarrow> z = z0" "u = p \<Longrightarrow> n_ended z \<and> \<not> n_memory z"
    using k(1) k' by (cases "u = p") auto
  have pid: "\<exists>l. ?K q = Some l \<and> n_pid l < n" if "\<exists>l. K q = Some l \<and> n_pid l < n" for q n
    using that k(1) k' by auto
  have un: "u \<noteq> NULL" using z0(1) null by auto
  show "node_ok ?K ?T qs i u z"
  proof (cases "u = p")
    case True
    then have "\<not> (\<exists>t' c'. ?T t' = Some c' \<and> parentProcess c' = p)"
      using ok [OF k(1)] k by (auto simp: node_ok_def)
    with True ok [OF z0(1)] z0 pid k(4) un show ?thesis by (auto simp: node_ok_def)
  next
    case False
    then have z: "z = z0" using z0(5) by simp
    note old = ok [OF z0(1)]
    have "T t' = Some c' \<Longrightarrow> u \<noteq> i \<Longrightarrow> parentProcess c' = u \<longleftrightarrow> \<not> n_ended z0 \<and> t' = n_thread z0" for t' c'
      using old by (simp add: node_ok_def)
    from this [OF k(2)] False k(3) have "u \<noteq> i \<Longrightarrow> n_ended z0 \<or> t \<noteq> n_thread z0" by auto
    with old pid un show ?thesis unfolding z by (auto simp: node_ok_def)
  qed
qed (use m k in \<open>auto simp: member_part_def\<close>)

lemma thread_part_ended:
  assumes "thread_part K T l t i" and "T t = Some c" "parentProcess c \<noteq> i" "K p = Some k"
  shows "thread_part (K(p \<mapsto> k')) (T(t \<mapsto> \<lparr>parentProcess = NULL, thread_status = st\<rparr>)) l t i"
proof -
  from assms(1) obtain t0 u0 where "T t0 = Some u0" "parentProcess u0 = i" by (auto simp: thread_part_def)
  moreover from this assms(2,3) have "t0 \<noteq> t" by auto
  ultimately show ?thesis using assms by (auto simp: thread_part_def intro!: exI [of _ t0])
qed

lemma dom_counted [simp]: "dom (counted H B) = dom H"
  by (auto simp: counted_def dom_def)

lemma exit_ok:
  fixes s :: "'w system"
  assumes ok: "tree_ok s qs i" and fok: "files_ok (procs s) (sys_vnodes s) r"
    and p: "current_process s = Some p" "procs s p = Some x" "pid x \<noteq> 1"
  shows "\<exists>P vs z. ProcessUAPI_exit C s e = Some (s\<lparr>procs := P, sys_vnodes := vs,
      tcbs := (tcbs s)(current s \<mapsto> \<lparr>parentProcess = NULL, thread_status = UWaiting\<rparr>)\<rparr>)
    \<and> tree_ok (s\<lparr>procs := P, sys_vnodes := vs,
      tcbs := (tcbs s)(current s \<mapsto> \<lparr>parentProcess = NULL, thread_status = UWaiting\<rparr>)\<rparr>) qs i
    \<and> files_ok P vs r \<and> bodies P = (bodies (procs s))(p \<mapsto> z) \<and> pid z = pid x \<and> p_parent z = p_parent x
    \<and> p_status z = TERMINATED \<and> p_exitStatus z = e \<and> fds (p_files z) = Map.empty
    \<and> p_mainThread z = p_mainThread x \<and> p_uid z = p_uid x"
proof -
  let ?H = "procs s" and ?K = "nodes (procs s)" and ?T = "tcbs s" and ?t = "current s"
  define B where "B = owed ?K ?T qs i"
  have parts: "list_part (links ?H) (firstProcess s) qs i" "table_part ?K (processes s) qs i"
    "pid_part ?K (lastUsedPID s) qs i" "member_part ?K ?T qs i" "thread_part ?K ?T (thread_list s) (current s) i"
    using ok by (simp_all add: tree_ok_def)
  have s0: "procs s = counted ?H B" unfolding B_def by (rule tree_counted [OF ok])
  have fin: "finite (dom ?H)" using parts(4) by (simp add: member_part_def)
  have k: "?K p = Some (node_of x)" using p(2) by (simp add: nodes_def)
  have pn: "p \<noteq> NULL" using parts(4) k by (auto simp: member_part_def)
  obtain c where c: "the_thread s ?t = Some c" "?T ?t = Some c" "?t \<noteq> NULL" "parentProcess c = p"
    using p(1) by (auto simp: current_process_def the_thread_def split: if_splits)
  have pi: "p \<noteq> i" using p(3) k parts(3) by (auto simp: pid_part_def pid_at_def)
  have nk: "node_ok ?K ?T qs i p (node_of x)" using parts(4) k by (simp add: member_part_def)
  then have alive: "p_status x \<noteq> TERMINATED" "p_memory x" "?t = p_mainThread x" "p \<in> set qs"
    using c(2,4) pi by (auto simp: node_ok_def)
  have Bp: "4 \<le> B p"
  proof -
    have "finite (dom ?T)" using parts(5) by (simp add: thread_part_def)
    then have "1 \<le> holders ?T parentProcess p" using c(2,4) by (rule holders_pos)
    with pi alive(4) holders_nonneg [of ?K n_parent p] show ?thesis by (simp add: B_def owed_def)
  qed
  let ?H1 = "?H(p \<mapsto> x\<lparr>p_memory := False\<rparr>)" and ?B1 = "B(p := B p + 1)"
  let ?s1 = "s\<lparr>procs := counted ?H1 ?B1\<rparr>"
  have ref: "referenceProcess s p = Some (s\<lparr>procs := counted ?H ?B1\<rparr>)"
    by (rule referenceProcess_counted [OF s0 p(2) pn])
  have mem: "set_proc (s\<lparr>procs := counted ?H ?B1\<rparr>) p (\<lambda>x. x\<lparr>p_memory := False\<rparr>) = Some ?s1"
    using p(2) pn by (simp add: proc_steps)
  let ?x1 = "x\<lparr>p_memory := False, p_refCount := B p + 1\<rparr>"
  have s1: "current_process ?s1 = Some p" "procs ?s1 p = Some ?x1" "p_status ?x1 \<noteq> TERMINATED" "finite (dom (procs ?s1))"
    using p alive fin c by (simp_all add: current_process_def the_thread_def) (simp add: counted_def)
  have "files_ok ?H1 (sys_vnodes s) r" by (rule files_ok_same [OF fok fin p(2)]) simp_all
  then have f1: "files_ok (procs ?s1) (sys_vnodes ?s1) r" by simp
  obtain k :: "'w kernel" where loop: "closeAllFiles C ?s1 p 0 = Some (?s1\<lparr>procs := (procs ?s1)(p \<mapsto> files_back ?x1 k),
        sys_vnodes := vnode_table k, sys_world := sys_world s\<rparr>)"
      "files_ok ((procs ?s1)(p \<mapsto> files_back ?x1 k)) (vnode_table k) r" "set (table k) \<subseteq> {None}"
    using closeAllFiles_loop_ok [OF s1(1) pn s1(2,3) f1 s1(4), of 0 C] that by (auto simp: closeAllFiles_def)
  let ?x2 = "files_back ?x1 k"
  let ?x3 = "?x2\<lparr>p_exitStatus := e, p_status := TERMINATED\<rparr>"
  let ?H2 = "?H(p \<mapsto> ?x2)" and ?H3 = "?H(p \<mapsto> ?x3)"
  have rc: "p_refCount ?x2 = B p + 1" by (simp add: files_back_def)
  have P2: "(procs ?s1)(p \<mapsto> ?x2) = counted ?H2 ?B1" using rc by (auto simp: counted_def fun_eq_iff)
  have el: "elements (p_files ?x2) = table k" by (simp add: table_def)
  obtain vs' where vs': "PutVnode (fs_of (vfs C (sys_world s))) (vnode_table k) (p_cwd ?x2) = Some vs'"
    "files_ok ((procs ?s1)(p \<mapsto> ?x2, p \<mapsto> ?x3)) vs' r"
    using files_ok_ended [OF loop(2), of p ?x2 ?x3 "fs_of (vfs C (sys_world s))"] s1(3,4) loop(3) el by auto
  let ?s2 = "s\<lparr>procs := counted ?H2 ?B1, sys_vnodes := vnode_table k, sys_world := sys_world s\<rparr>"
  let ?s3 = "s\<lparr>procs := counted ?H3 B, sys_vnodes := vs'\<rparr>"
  have tp: "terminateProcess C s ?t e = Some (0, ?s3)"
  proof -
    have "the_proc (s\<lparr>procs := counted ?H ?B1\<rparr>) p = Some (x\<lparr>p_refCount := B p + 1\<rparr>)" using p(2) pn by (simp add: proc_steps)
    moreover have "closeAllFiles C ?s1 p 0 = Some ?s2" using loop(1) P2 by simp
    moreover have "the_proc ?s2 p = Some ?x2" using pn rc by (simp add: the_proc_def counted_def)
    moreover have "put_vnode C ?s2 (p_cwd ?x2) = Some (s\<lparr>procs := counted ?H2 ?B1, sys_vnodes := vs'\<rparr>)"
      using vs'(1) by (simp add: put_vnode_def)
    moreover have "set_proc (s\<lparr>procs := counted ?H2 ?B1, sys_vnodes := vs'\<rparr>) p (\<lambda>x. x\<lparr>p_exitStatus := e, p_status := TERMINATED\<rparr>)
        = Some (s\<lparr>procs := counted ?H3 ?B1, sys_vnodes := vs'\<rparr>)"
      using pn by (simp add: proc_steps)
    moreover have "putProcess (s\<lparr>procs := counted ?H3 ?B1, sys_vnodes := vs'\<rparr>) p = Some ?s3"
      using putProcess_counted [where s = "s\<lparr>procs := counted ?H3 ?B1, sys_vnodes := vs'\<rparr>" and p = p and H = ?H3 and B = ?B1 and x = ?x3] pn Bp
      by simp
    ultimately show ?thesis using c p alive(2) ref mem pn
      by (simp add: terminateProcess_def Let_def)
  qed
  let ?T' = "?T(?t \<mapsto> \<lparr>parentProcess = NULL, thread_status = UWaiting\<rparr>)" and ?B3 = "B(p := B p - 1)"
  let ?s' = "s\<lparr>procs := counted ?H3 ?B3, sys_vnodes := vs', tcbs := ?T'\<rparr>"
  have exit: "ProcessUAPI_exit C s e = Some ?s'"
  proof -
    have "putProcess ?s3 p = Some (s\<lparr>procs := counted ?H3 ?B3, sys_vnodes := vs'\<rparr>)"
      using putProcess_counted [where s = ?s3 and p = p and H = ?H3 and B = B and x = ?x3] pn Bp by simp
    moreover have "the_thread ?s3 ?t = Some c" using c by (simp add: the_thread_def)
    ultimately show ?thesis using tp c(4) by (simp add: ProcessUAPI_exit_def terminateThread_def)
  qed
  have L3: "links ?H3 = links ?H" using p(2) by (simp add: link_of_def files_back_def) (simp add: links_def fun_eq_iff link_of_def)
  let ?k' = "node_of x\<lparr>n_ended := True, n_memory := False\<rparr>"
  have K3: "nodes ?H3 = ?K(p \<mapsto> ?k')" by (simp add: node_of_def)
  have "tree_ok ?s' qs i"
  proof (rule tree_okI)
    show "procs ?s' = counted ?H3 ?B3" by simp
    show "list_part (links ?H3) (firstProcess ?s') qs i" unfolding L3 using parts(1) by simp
    show "table_part (nodes ?H3) (processes ?s') qs i"
      unfolding K3 using table_part_same [OF parts(2) k, of ?k'] by simp
    show "pid_part (nodes ?H3) (lastUsedPID ?s') qs i"
      unfolding K3 using pid_part_same [OF parts(3) k, of ?k'] by simp
    show "member_part (nodes ?H3) (tcbs ?s') qs i"
      unfolding K3 using member_part_ended [OF parts(4) k c(2,4) pi pn refl] by simp
    show "thread_part (nodes ?H3) (tcbs ?s') (thread_list ?s') (current ?s') i"
      unfolding K3 using thread_part_ended [OF parts(5) c(2) _ k] c(4) pi by simp
    fix u z assume u: "?H3 u = Some z"
    have hk: "holders (nodes ?H3) n_parent u = holders ?K n_parent u"
      unfolding K3 using holders_update [of ?K p "Some ?k'" n_parent u] fin k by simp
    have un: "u \<noteq> NULL" using u parts(4) pn by (auto simp: member_part_def nodes_def split: if_splits)
    have "holders ?T' parentProcess u = holders ?T parentProcess u - of_bool (u = p)"
      using holders_update [of ?T ?t _ parentProcess u] c(2,4) parts(5) un by (auto simp: thread_part_def)
    with hk have e: "owed (nodes ?H3) ?T' qs i u = B u - of_bool (u = p)" by (simp only: owed_def B_def)
    have "0 < B u"
    proof -
      from u p(2) obtain w where "?H u = Some w" by (auto split: if_splits)
      with owed_live [OF ok] show ?thesis by (simp add: B_def)
    qed
    moreover have "tcbs ?s' = ?T'" by simp
    ultimately show "?B3 u = owed (nodes ?H3) (tcbs ?s') qs i u \<and> 0 < ?B3 u" using Bp by (simp only: e) auto
  qed
  moreover have "files_ok (counted ?H3 ?B3) vs' r"
  proof -
    have "(procs ?s1)(p \<mapsto> ?x2, p \<mapsto> ?x3) = counted ?H3 ?B1" using rc by (auto simp: counted_def fun_eq_iff)
    with vs'(2) show ?thesis by simp
  qed
  moreover have "bodies (counted ?H3 ?B3) = (bodies ?H)(p \<mapsto> ?x3\<lparr>p_prev := 0, p_next := 0, p_refCount := 0\<rparr>)"
    by (simp add: bodies_update)
  moreover have "fds (p_files ?x3) = Map.empty"
    using loop(3) by (auto simp: fds_def table_def fun_eq_iff) (metis nth_mem option.distinct(1) singletonD subset_iff)
  moreover have "p_uid ?x3 = p_uid x" by (simp add: files_back_def)
  ultimately show ?thesis using exit
    by (intro exI [of _ "counted ?H3 ?B3"] exI [of _ vs'] exI [of _ "?x3\<lparr>p_prev := 0, p_next := 0, p_refCount := 0\<rparr>"]) simp
qed

end
