(* ===== verification/Processes_Family.thy ===== *)
theory Processes_Family
  imports Processes_Calls
begin

text \<open>
  A family of processes as a finite map from numbers to members, and the proof that the calls implement it.
\<close>

section \<open>Waiting\<close>

lemma current_alive:
  assumes "tree_ok s qs i" and "current_process s = Some me" and "me \<noteq> NULL"
  obtains y where "procs s me = Some y" "p_status y \<noteq> TERMINATED" "me \<in> set (qs @ [i])"
proof -
  have m: "member_part (nodes (procs s)) (tcbs s) qs i" and t: "thread_part (nodes (procs s)) (tcbs s) (thread_list s) (current s) i"
    using assms(1) by (simp_all add: tree_ok_def)
  obtain c where c: "tcbs s (current s) = Some c" "parentProcess c = me"
    using assms(2) by (auto simp: current_process_def the_thread_def split: if_splits)
  with t assms(3) have "nodes (procs s) me \<noteq> None" unfolding thread_part_def by metis
  then obtain y where y: "procs s me = Some y" by (auto simp: nodes_Some)
  then have "node_ok (nodes (procs s)) (tcbs s) qs i me (node_of y)" using m by (auto simp: member_part_def nodes_Some)
  with c y that show thesis by (cases "me = i") (auto simp: node_ok_def)
qed

lemma counted_put:
  assumes "procs s = counted H B" and "H p = Some x" and "p \<noteq> NULL" and "0 < B p"
  shows "putProcess (s\<lparr>procs := counted H (B(p := B p + 1))\<rparr>) p = Some s"
proof -
  have "putProcess (s\<lparr>procs := counted H (B(p := B p + 1))\<rparr>) p = Some (s\<lparr>procs := counted H B\<rparr>)"
    using putProcess_counted [where s = "s\<lparr>procs := counted H (B(p := B p + 1))\<rparr>" and H = H and B = "B(p := B p + 1)" and p = p and x = x] assms
    by simp
  with assms(1) show ?thesis by (metis system.surjective system.update_convs(1) system.select_convs(1))
qed

definition first_ended :: "(addr \<rightharpoonup> ProcessControlBlock) \<Rightarrow> addr \<Rightarrow> addr list \<Rightarrow> addr option" where
  "first_ended H me ps = find (\<lambda>p. \<exists>x. H p = Some x \<and> ended_child x me) ps"

lemma wait_loop_ok:
  assumes s: "procs s = counted H B" and "dseg (links H) b it bs NULL z" and "distinct bs" and "bs \<noteq> []"
    and "\<And>p. p \<in> set bs \<Longrightarrow> 0 < B p"
  shows "wait_loop (s\<lparr>procs := counted H (B(it := B it + 1))\<rparr>) me u it = (case first_ended H me bs of
      None \<Rightarrow> Some (last bs, NULL, s)
    | Some p \<Rightarrow> Some (p, p, s\<lparr>procs := counted H (B(p := B p + 1))\<rparr>))"
  using assms(2-)
proof (induction bs arbitrary: b it u)
  case (Cons a bs)
  then obtain x where x: "a = it" "it \<noteq> NULL" "H it = Some x" "dseg (links H) it (p_next x) bs NULL z"
    by (auto simp: links_Some)
  let ?s = "s\<lparr>procs := counted H (B(it := B it + 1))\<rparr>"
  have px: "the_proc ?s it = Some (x\<lparr>p_refCount := B it + 1\<rparr>)"
    using the_proc_counted [where s = ?s and H = H and B = "B(it := B it + 1)" and p = it and x = x] x by simp
  have ended: "ended_child (x\<lparr>p_refCount := B it + 1\<rparr>) me \<longleftrightarrow> ended_child x me" by (simp add: ended_child_def)
  have Bit: "0 < B it" using Cons.prems(4) x(1) by simp
  show ?case
  proof (cases "ended_child x me")
    case True
    with x px ended show ?thesis by (subst wait_loop.simps) (simp add: first_ended_def)
  next
    case False
    show ?thesis
    proof (cases bs)
      case Nil
      then have n: "p_next x = NULL" using x(4) by simp
      have "putProcess ?s it = Some s" using counted_put [OF s x(3,2) Bit] by simp
      with n px have "processEnumerationNext ?s it = Some (NULL, s)" by (simp add: processEnumerationNext_def)
      with False x px ended Nil show ?thesis
        by (subst wait_loop.simps) (simp, subst wait_loop.simps, simp add: first_ended_def)
    next
      case (Cons n rest)
      with x(4) have n: "p_next x = n" "n \<noteq> NULL" "n \<in> set bs" by auto
      with x(4) Cons obtain w where w: "H n = Some w" by (auto simp: links_Some)
      have ne: "n \<noteq> it" using Cons.prems(2) x(1) n(3) by auto
      have "referenceProcess ?s n = Some (s\<lparr>procs := counted H (B(it := B it + 1, n := B n + 1))\<rparr>)"
        using referenceProcess_counted [where s = ?s and H = H and B = "B(it := B it + 1)" and p = n and x = w] w n(2) ne by simp
      moreover have "putProcess (s\<lparr>procs := counted H (B(it := B it + 1, n := B n + 1))\<rparr>) it = Some (s\<lparr>procs := counted H (B(n := B n + 1))\<rparr>)"
        using putProcess_counted [where s = "s\<lparr>procs := counted H (B(it := B it + 1, n := B n + 1))\<rparr>" and H = H
            and B = "B(it := B it + 1, n := B n + 1)" and p = it and x = x] x Bit ne
        by (simp add: fun_upd_twist)
      ultimately have "processEnumerationNext ?s it = Some (n, s\<lparr>procs := counted H (B(n := B n + 1))\<rparr>)"
        using px n(1) by (simp add: processEnumerationNext_def)
      moreover have "wait_loop (s\<lparr>procs := counted H (B(n := B n + 1))\<rparr>) me it n = (case first_ended H me bs of
          None \<Rightarrow> Some (last bs, NULL, s) | Some p \<Rightarrow> Some (p, p, s\<lparr>procs := counted H (B(p := B p + 1))\<rparr>))"
      proof (rule Cons.IH)
        show "dseg (links H) it n bs NULL z" using x(4) n(1) by simp
        show "distinct bs" "bs \<noteq> []" using Cons.prems(2) n(3) by auto
        show "0 < B p" if "p \<in> set bs" for p using Cons.prems(4) [of p] that by simp
      qed
      moreover have "first_ended H me (a # bs) = first_ended H me bs" using False x(1,3) by (simp add: first_ended_def)
      moreover have "bs \<noteq> []" using n(3) by auto
      ultimately show ?thesis using False x(2) px ended n(1)
        by (subst wait_loop.simps) (simp split: option.splits)
    qed
  qed
qed simp

lemma list_live:
  assumes "tree_ok s qs i" and "p \<in> set (qs @ [i])"
  obtains x where "procs s p = Some x" "p \<noteq> NULL" "0 < owed (nodes (procs s)) (tcbs s) qs i p"
proof -
  have "member_part (nodes (procs s)) (tcbs s) qs i" using assms(1) by (simp add: tree_ok_def)
  then have "nodes (procs s) NULL = None" "p \<in> dom (nodes (procs s))" using assms(2) by (auto simp: member_part_def)
  moreover from this have "p \<noteq> NULL" by (metis domIff)
  ultimately obtain x where x: "procs s p = Some x" "p \<noteq> NULL" by (auto simp: nodes_Some)
  with that owed_live [OF assms(1)] show thesis by blast
qed

text \<open>The child that \<open>waitpid\<close> reaps, and the rest of the family.\<close>

definition reaped :: "'w system \<Rightarrow> addr \<Rightarrow> 'w system \<Rightarrow> bool" where
  "reaped s p s' \<longleftrightarrow> (\<exists>P f t y. s' = s\<lparr>firstProcess := f, processes := t, procs := P\<rparr>
     \<and> bodies P = (bodies (procs s))(p := y) \<and> (y = None \<or> y = map_option (\<lambda>z. z\<lparr>p_parent := NULL\<rparr>) (bodies (procs s) p)))"

lemma finish_wait_ok:
  assumes ok: "tree_ok s qs i" and x: "procs s p = Some x" "p \<in> set (qs @ [i])" "ended_child x me" and me: "current_process s = Some me" "me \<noteq> NULL"
  shows "\<exists>s' as bs. finish_wait s (pid x) (p_exitStatus x) 0 = Some (Some (pid x, Some (p_exitStatus x)), s')
    \<and> qs = as @ p # bs \<and> tree_ok s' (as @ bs) i \<and> reaped s p s'"
proof -
  obtain y where y: "me \<in> set (qs @ [i])" using current_alive [OF ok me] by blast
  have "node_ok (nodes (procs s)) (tcbs s) qs i p (node_of x)"
    using ok x(1) by (auto simp: tree_ok_def member_part_def nodes_Some)
  then have "p \<noteq> i" using x(3) by (auto simp: node_ok_def ended_child_def)
  with x(2) obtain as bs where qs: "qs = as @ p # bs" by (metis (no_types) in_set_conv_decomp rotate1.simps(2) set_ConsD set_rotate1)
  from removePid_ok [OF ok [unfolded qs] x(1)] x(3) y obtain P f t v where
    "removePid s (pid x) = Some (s\<lparr>firstProcess := f, processes := t, procs := P\<rparr>)"
    "tree_ok (s\<lparr>firstProcess := f, processes := t, procs := P\<rparr>) (as @ bs) i"
    "bodies P = (bodies (procs s))(p := v)" "v = None \<or> v = map_option (\<lambda>z. z\<lparr>p_parent := NULL\<rparr>) (bodies (procs s) p)"
    unfolding qs by (auto simp: ended_child_def)
  moreover from this(3,4) have "reaped s p (s\<lparr>firstProcess := f, processes := t, procs := P\<rparr>)" unfolding reaped_def by blast
  ultimately show ?thesis unfolding qs finish_wait_def
    by (intro exI [of _ "s\<lparr>firstProcess := f, processes := t, procs := P\<rparr>"] exI [of _ as] exI [of _ bs]) simp
qed

lemma wait_any_ok:
  assumes ok: "tree_ok s qs i" and me: "current_process s = Some me" "me \<noteq> NULL"
  shows "case first_ended (procs s) me (qs @ [i]) of None \<Rightarrow> wait_any s 0 = Some (None, s)
    | Some p \<Rightarrow> \<exists>x s' as bs. procs s p = Some x \<and> ended_child x me \<and> wait_any s 0 = Some (Some (pid x, Some (p_exitStatus x)), s')
        \<and> qs = as @ p # bs \<and> first_ended (procs s) me as = None \<and> tree_ok s' (as @ bs) i \<and> reaped s p s'"
proof -
  let ?H = "procs s" and ?f = "firstProcess s"
  define B where "B = owed (nodes ?H) (tcbs s) qs i"
  have s0: "procs s = counted ?H B" unfolding B_def by (rule tree_counted [OF ok])
  have pos: "0 < B p" if "p \<in> set (qs @ [i])" for p using list_live [OF ok that] by (auto simp: B_def)
  have l: "dseg (links ?H) NULL ?f (qs @ [i]) NULL i" "distinct (qs @ [i])" using ok by (simp_all add: tree_ok_def list_part_def)
  have f: "?f \<in> set (qs @ [i])"
  proof -
    obtain a rest where a: "qs @ [i] = a # rest" by (cases "qs @ [i]") auto
    from l(1) show ?thesis unfolding a by simp
  qed
  then obtain xf where xf: "?H ?f = Some xf" "?f \<noteq> NULL" by (rule list_live [OF ok])
  have "processEnumerationBegin s = Some (?f, s\<lparr>procs := counted ?H (B(?f := B ?f + 1))\<rparr>)"
    using referenceProcess_counted [OF s0 xf] by (simp add: processEnumerationBegin_def)
  moreover have "wait_loop (s\<lparr>procs := counted ?H (B(?f := B ?f + 1))\<rparr>) me NULL ?f = (case first_ended ?H me (qs @ [i]) of
      None \<Rightarrow> Some (last (qs @ [i]), NULL, s) | Some p \<Rightarrow> Some (p, p, s\<lparr>procs := counted ?H (B(p := B p + 1))\<rparr>))"
    by (rule wait_loop_ok [OF s0 l _ pos]) simp_all
  ultimately have any: "wait_any s 0 = (case first_ended ?H me (qs @ [i]) of
      None \<Rightarrow> the_proc s i \<bind> (\<lambda>x. if ended_child x me then finish_wait s (pid x) (p_exitStatus x) 0 else Some (None, s))
    | Some p \<Rightarrow> putProcess (s\<lparr>procs := counted ?H (B(p := B p + 1))\<rparr>) p \<bind> (\<lambda>s3. the_proc s3 p \<bind>
        (\<lambda>x. if ended_child x me then finish_wait s3 (pid x) (p_exitStatus x) 0 else Some (None, s))))"
    using me(1) by (cases "first_ended ?H me (qs @ [i])") (simp_all add: wait_any_def)
  show ?thesis
  proof (cases "first_ended ?H me (qs @ [i])")
    case None
    obtain xi where xi: "?H i = Some xi" "i \<noteq> NULL" by (rule list_live [OF ok, of i]) simp_all
    with None have "\<not> ended_child xi me" by (auto simp: first_ended_def find_None_iff)
    with None any xi show ?thesis by (simp add: the_proc_def)
  next
    case (Some p)
    then obtain x n where x: "?H p = Some x" "ended_child x me" "n < length (qs @ [i])" "(qs @ [i]) ! n = p"
      "\<forall>m < n. \<not> (\<exists>x. ?H ((qs @ [i]) ! m) = Some x \<and> ended_child x me)"
      by (auto simp: first_ended_def find_Some_iff)
    have p: "p \<in> set (qs @ [i])" using x(3,4) nth_mem by blast
    then have pn: "p \<noteq> NULL" by (rule list_live [OF ok])
    have "wait_any s 0 = finish_wait s (pid x) (p_exitStatus x) 0"
      using any Some counted_put [OF s0 x(1) pn pos [OF p]] x(1,2) pn by (simp add: the_proc_def)
    with finish_wait_ok [OF ok x(1) p x(2) me] obtain s' as bs where
      s': "wait_any s 0 = Some (Some (pid x, Some (p_exitStatus x)), s')" "qs = as @ p # bs" "tree_ok s' (as @ bs) i" "reaped s p s'"
      by auto
    have "first_ended ?H me as = None"
    proof -
      have "(qs @ [i]) ! length as = p" using s'(2) by simp
      then have n: "n = length as" using x(3,4) l(2) s'(2) nth_eq_iff_index_eq [OF l(2), of n "length as"] by simp
      have "\<not> (\<exists>x. ?H a = Some x \<and> ended_child x me)" if "a \<in> set as" for a
      proof -
        from that obtain m where "m < length as" "as ! m = a" by (auto simp: in_set_conv_nth)
        with x(5) n s'(2) show ?thesis by (auto simp: nth_append)
      qed
      then show ?thesis by (auto simp: first_ended_def find_None_iff)
    qed
    with s' x(1,2) Some show ?thesis by auto
  qed
qed

lemma wait_one_ok:
  assumes ok: "tree_ok s qs i" and me: "current_process s = Some me" "me \<noteq> NULL" and n: "0 \<le> n"
  shows "case qmap (\<lambda>n. n) (processes s) n of None \<Rightarrow> wait_one s n 0 = Some (Some (- errno_code ECHILD, None), s)
    | Some p \<Rightarrow> \<exists>x. procs s p = Some x \<and> pid x = n \<and>
       (if p_parent x \<noteq> me then wait_one s n 0 = Some (Some (- errno_code ECHILD, None), s)
        else if p_status x \<noteq> TERMINATED then wait_one s n 0 = Some (None, s)
        else \<exists>s' as bs. wait_one s n 0 = Some (Some (n, Some (p_exitStatus x)), s')
          \<and> qs = as @ p # bs \<and> tree_ok s' (as @ bs) i \<and> reaped s p s')"
proof (cases "qmap (\<lambda>n. n) (processes s) n")
  case None
  with process_of_ok [OF ok n] show ?thesis by (simp add: wait_one_def getProcessRef_def)
next
  case (Some p)
  let ?H = "procs s"
  define B where "B = owed (nodes ?H) (tcbs s) qs i"
  have s0: "procs s = counted ?H B" unfolding B_def by (rule tree_counted [OF ok])
  have p: "p \<in> set (qs @ [i])" "map_option n_pid (nodes ?H p) = Some n"
    using ok Some by (auto simp: tree_ok_def table_part_def)
  from p(2) obtain x where x: "?H p = Some x" "pid x = n" by (auto simp: nodes_Some)
  have pn: "p \<noteq> NULL" "0 < B p" using list_live [OF ok p(1)] by (auto simp: B_def)
  let ?s = "s\<lparr>procs := counted ?H (B(p := B p + 1))\<rparr>"
  have ref: "getProcessRef s n = Some (p, ?s)"
    using process_of_ok [OF ok n] Some referenceProcess_counted [OF s0 x(1) pn(1)] by (simp add: getProcessRef_def)
  have px: "the_proc ?s p = Some (x\<lparr>p_refCount := B p + 1\<rparr>)" using x(1) pn(1) by (simp add: the_proc_def counted_def)
  have cur: "current_process ?s = Some me" using me(1) by (auto simp: current_process_def the_thread_def split: if_splits)
  note put = counted_put [OF s0 x(1) pn]
  have "wait_one s n 0 = (if p_parent x \<noteq> me then Some (Some (- errno_code ECHILD, None), s)
      else if p_status x \<noteq> TERMINATED then Some (None, s) else finish_wait s n (p_exitStatus x) 0)"
    using ref px cur put pn(1) by (simp add: wait_one_def)
  moreover have "\<exists>s' as bs. finish_wait s n (p_exitStatus x) 0 = Some (Some (n, Some (p_exitStatus x)), s')
      \<and> qs = as @ p # bs \<and> tree_ok s' (as @ bs) i \<and> reaped s p s'" if "p_parent x = me" "p_status x = TERMINATED"
    using finish_wait_ok [OF ok x(1) p(1) _ me] that x(2) by (simp add: ended_child_def)
  ultimately show ?thesis using Some x by auto
qed

section \<open>Specification\<close>

text \<open>
  A member has a number, the number of its parent (0 for the first process), the status it ended with, if it
  did, and its descriptors. \<open>running\<close> is the member that has the processor, if its process has not ended.
\<close>

record member =
  m_parent :: int
  m_exit :: "int option"
  m_fds :: "nat \<rightharpoonup> FileDescriptor"

record family =
  members :: "int \<rightharpoonup> member"
  f_last :: int
  running :: "int option"

datatype task_op = Fork | Exit int | Wait int | Wait_any | Getppid | Files fd_op | Switch int

definition number_result :: "int \<Rightarrow> wait_result" where
  "number_result n = Some (n, None)"

definition ended_children :: "family \<Rightarrow> int \<Rightarrow> int set" where
  "ended_children A me = {n. \<exists>m. members A n = Some m \<and> m_parent m = me \<and> m_exit m \<noteq> None}"

definition reap :: "family \<Rightarrow> int \<Rightarrow> wait_result \<times> family" where
  "reap A n = (Some (n, m_exit (the (members A n))), A\<lparr>members := (members A)(n := None)\<rparr>)"

fun member_step :: "family \<Rightarrow> int \<Rightarrow> member \<Rightarrow> task_op \<Rightarrow> wait_result \<times> family" where
  "member_step A me m Fork = (number_result (f_last A + 1), A\<lparr>f_last := f_last A + 1,
     members := (members A)(f_last A + 1 \<mapsto> \<lparr>m_parent = me, m_exit = None, m_fds = compact (m_fds m)\<rparr>)\<rparr>)"
| "member_step A me m (Exit e) = (number_result 0, A\<lparr>running := None,
     members := (members A)(me \<mapsto> m\<lparr>m_exit := Some e, m_fds := Map.empty\<rparr>)\<rparr>)"
| "member_step A me m (Wait n) = (case members A n of None \<Rightarrow> (number_result (- errno_code ECHILD), A)
     | Some c \<Rightarrow> if m_parent c \<noteq> me then (number_result (- errno_code ECHILD), A)
         else if m_exit c = None then (None, A) else reap A n)"
| "member_step A me m Wait_any = (if ended_children A me = {} then (None, A) else reap A (Max (ended_children A me)))"
| "member_step A me m Getppid = (number_result (if m_parent m = 0 then me else m_parent m), A)"
| "member_step A me m (Files x) = (case fd_spec (m_fds m) x of
     (r, t) \<Rightarrow> (number_result r, A\<lparr>members := (members A)(me \<mapsto> m\<lparr>m_fds := t\<rparr>)\<rparr>))"
| "member_step A me m (Switch n) = (number_result 0, A\<lparr>running := Some n\<rparr>)"

fun family_step :: "family \<Rightarrow> task_op \<Rightarrow> wait_result \<times> family" where
  "family_step A (Switch n) = (number_result 0, A\<lparr>running := Some n\<rparr>)"
| "family_step A x = member_step A (the (running A)) (the (members A (the (running A)))) x"

text \<open>All references of the family to vnodes, and the limits: at most \<open>2 ^ 29\<close> of them, and numbers of 31 bits.\<close>

definition total_fds :: "family \<Rightarrow> nat" where
  "total_fds A = (\<Sum>n \<in> dom (members A). card (dom (m_fds (the (members A n)))) + 1)"

fun family_pre :: "family \<Rightarrow> task_op \<Rightarrow> bool" where
  "family_pre A (Switch n) \<longleftrightarrow> (\<exists>m. members A n = Some m \<and> m_exit m = None)"
| "family_pre A Fork \<longleftrightarrow> running A \<noteq> None \<and> f_last A < 2 ^ 31 - 1 \<and> total_fds A < 2 ^ 29"
| "family_pre A (Exit e) \<longleftrightarrow> running A \<noteq> None \<and> running A \<noteq> Some 1"
| "family_pre A (Wait n) \<longleftrightarrow> running A \<noteq> None \<and> 0 \<le> n \<and> n < 2 ^ 31"
| "family_pre A Wait_any \<longleftrightarrow> running A \<noteq> None"
| "family_pre A Getppid \<longleftrightarrow> running A \<noteq> None"
| "family_pre A (Files x) \<longleftrightarrow> (\<exists>me m. running A = Some me \<and> members A me = Some m \<and> fd_pre (m_fds m) x) \<and> total_fds A < 2 ^ 29"

text \<open>
  The calls of the kernel. \<open>new\<close> is the allocator: the addresses of a new process and of a new thread. The
  scheduler gives the processor to a thread of the process.
\<close>

definition switch_to :: "'w system \<Rightarrow> int \<Rightarrow> 'w system option" where
  "switch_to s n = do {
     p \<leftarrow> process_of s n;
     t \<leftarrow> find (\<lambda>t. map_option parentProcess (the_thread s t) = Some p) (thread_list s);
     Some (s\<lparr>current := t\<rparr>) }"

fun task_step ::
  "'w fs_calls \<Rightarrow> ('w system \<Rightarrow> addr \<times> addr) \<Rightarrow> 'w system \<Rightarrow> task_op \<Rightarrow> (wait_result \<times> 'w system) option" where
  "task_step C new s Fork =
     map_option (\<lambda>(r, s). (number_result r, s)) (ProcessUAPI_fork C 0 (snd (new s)) (fst (new s)) s)"
| "task_step C new s (Exit e) = map_option (Pair (number_result 0)) (ProcessUAPI_exit C s e)"
| "task_step C new s (Wait n) = ProcessUAPI_waitpid s True (word_of_int n) 0"
| "task_step C new s Wait_any = ProcessUAPI_waitpid s True (- 1) 0"
| "task_step C new s Getppid = map_option (\<lambda>r. (number_result r, s)) (ProcessUAPI_getppid s)"
| "task_step C new s (Files x) = map_option (\<lambda>(r, s). (number_result r, s)) (file_call s (\<lambda>k. fd_step C k x))"
| "task_step C new s (Switch n) = map_option (Pair (number_result 0)) (switch_to s n)"

section \<open>The family a state stands for\<close>

definition member_of :: "(addr \<rightharpoonup> pnode) \<Rightarrow> ProcessControlBlock \<Rightarrow> member" where
  "member_of K x = \<lparr>m_parent = pid_at K (p_parent x), m_exit = (if p_status x = TERMINATED then Some (p_exitStatus x) else None),
     m_fds = fds (p_files x)\<rparr>"

definition family_of :: "'w system \<Rightarrow> family" where
  "family_of s = \<lparr>members = (\<lambda>n. case qmap (\<lambda>n. n) (processes s) n of None \<Rightarrow> None
       | Some p \<Rightarrow> map_option (member_of (nodes (procs s))) (bodies (procs s) p)),
     f_last = lastUsedPID s,
     running = (case current_process s of None \<Rightarrow> None | Some p \<Rightarrow> map_option n_pid (nodes (procs s) p))\<rparr>"

lemma family_fields [simp]:
  "f_last (family_of s) = lastUsedPID s"
  "running (family_of s) = (case current_process s of None \<Rightarrow> None | Some p \<Rightarrow> map_option n_pid (nodes (procs s) p))"
  by (simp_all add: family_of_def)

lemma bodies_node: "map_option node_of (bodies P p) = nodes P p"
  using fun_cong [OF nodes_bodies [of P], of p] by (simp add: nodes_def)

lemma members_iff:
  assumes "tree_ok s qs i"
  shows "members (family_of s) n = Some m \<longleftrightarrow>
    (\<exists>p \<in> set (qs @ [i]). \<exists>x. bodies (procs s) p = Some x \<and> pid x = n \<and> m = member_of (nodes (procs s)) x)"
proof -
  have tab: "qmap (\<lambda>n. n) (processes s) n = Some p \<longleftrightarrow> p \<in> set (qs @ [i]) \<and> map_option n_pid (nodes (procs s) p) = Some n" for p
    using assms by (simp add: tree_ok_def table_part_def)
  have b: "map_option n_pid (nodes (procs s) p) = map_option pid (bodies (procs s) p)" for p
    unfolding bodies_node [symmetric] by (simp add: option.map_comp comp_def)
  show ?thesis
  proof
    assume "members (family_of s) n = Some m"
    then obtain p x where p: "qmap (\<lambda>n. n) (processes s) n = Some p" "bodies (procs s) p = Some x" "m = member_of (nodes (procs s)) x"
      by (auto simp: family_of_def split: option.splits)
    with tab [of p] have "p \<in> set (qs @ [i])" "pid x = n" unfolding b by simp_all
    with p(2,3) show "\<exists>p \<in> set (qs @ [i]). \<exists>x. bodies (procs s) p = Some x \<and> pid x = n \<and> m = member_of (nodes (procs s)) x"
      by blast
  next
    assume "\<exists>p \<in> set (qs @ [i]). \<exists>x. bodies (procs s) p = Some x \<and> pid x = n \<and> m = member_of (nodes (procs s)) x"
    then obtain p x where p: "p \<in> set (qs @ [i])" "bodies (procs s) p = Some x" "pid x = n" "m = member_of (nodes (procs s)) x" by blast
    with tab [of p] have "qmap (\<lambda>n. n) (processes s) n = Some p" unfolding b by simp
    with p show "members (family_of s) n = Some m" by (simp add: family_of_def)
  qed
qed

lemma option_eqI: "(\<And>m. a = Some m \<longleftrightarrow> b = Some m) \<Longrightarrow> a = b"
  by (metis option.exhaust)

lemma members_procs:
  assumes "tree_ok s qs i"
  shows "members (family_of s) n = Some m \<longleftrightarrow>
    (\<exists>p \<in> set (qs @ [i]). \<exists>x. procs s p = Some x \<and> pid x = n \<and> m = member_of (nodes (procs s)) x)"
  unfolding members_iff [OF assms]
proof (rule bex_cong [OF refl])
  fix p
  show "(\<exists>x. bodies (procs s) p = Some x \<and> pid x = n \<and> m = member_of (nodes (procs s)) x)
    \<longleftrightarrow> (\<exists>x. procs s p = Some x \<and> pid x = n \<and> m = member_of (nodes (procs s)) x)"
    by (cases "procs s p") (simp_all add: bodies_def member_of_def)
qed

lemma family_eqI:
  fixes A A' :: family
  assumes "\<And>n m. members A n = Some m \<longleftrightarrow> members A' n = Some m" and "f_last A = f_last A'" and "running A = running A'"
  shows "A = A'"
proof -
  have "members A n = members A' n" for n
  proof (cases "members A n")
    case None
    then have "members A' n \<noteq> Some m" for m using assms(1) [of n m] by simp
    then have "members A' n = None" by (meson not_None_eq)
    with None show ?thesis by simp
  next
    case (Some m)
    with assms(1) [of n m] show ?thesis by simp
  qed
  then have "members A = members A'" by (rule ext)
  with assms(2,3) show ?thesis by (intro family.equality) simp_all
qed

lemma member_of_body [simp]: "member_of K (x\<lparr>p_prev := a, p_next := b, p_refCount := c\<rparr>) = member_of K x"
  by (simp add: member_of_def)

lemma bodies_Some: "P p = Some x \<Longrightarrow> bodies P p = Some (x\<lparr>p_prev := 0, p_next := 0, p_refCount := 0\<rparr>)"
  by (simp add: bodies_def)

lemma member_known:
  assumes "tree_ok s qs i" and "p \<in> set (qs @ [i])" and "procs s p = Some x"
  shows "members (family_of s) (pid x) = Some (member_of (nodes (procs s)) x)"
  unfolding members_iff [OF assms(1)] using bodies_Some [where P = "procs s" and p = p and x = x, OF assms(3)]
  by (intro bexI [OF _ assms(2)] exI [of _ "x\<lparr>p_prev := 0, p_next := 0, p_refCount := 0\<rparr>"]) simp

lemma running_member:
  assumes "tree_ok s qs i" and "running (family_of s) = Some n"
  obtains me y where "current_process s = Some me" "me \<noteq> NULL" "procs s me = Some y" "p_status y \<noteq> TERMINATED"
    "me \<in> set (qs @ [i])" "pid y = n" "members (family_of s) n = Some (member_of (nodes (procs s)) y)"
proof -
  from assms(2) obtain me where me: "current_process s = Some me" "map_option n_pid (nodes (procs s) me) = Some n"
    by (auto split: option.splits)
  have "nodes (procs s) NULL = None" using assms(1) by (simp add: tree_ok_def member_part_def)
  with me(2) have "me \<noteq> NULL" by auto
  from current_alive [OF assms(1) me(1) this] obtain y where y: "procs s me = Some y" "p_status y \<noteq> TERMINATED" "me \<in> set (qs @ [i])" .
  moreover from y(1) me(2) have "pid y = n" by (simp add: nodes_def)
  moreover note member_known [OF assms(1) y(3,1)]
  ultimately show thesis using that me(1) \<open>me \<noteq> NULL\<close> by simp
qed

lemma members_dom:
  assumes ok: "tree_ok s qs i"
  shows "dom (members (family_of s)) = pid_at (nodes (procs s)) ` set (qs @ [i])" and "inj_on (pid_at (nodes (procs s))) (set (qs @ [i]))"
proof -
  let ?P = "procs s" and ?K = "nodes (procs s)" and ?L = "set (qs @ [i])"
  have m: "member_part ?K (tcbs s) qs i" and pp: "pid_part ?K (lastUsedPID s) qs i" using ok by (simp_all add: tree_ok_def)
  have sub: "?L \<subseteq> dom ?P" using m by (simp add: member_part_def)
  show "inj_on (pid_at ?K) ?L"
  proof (rule inj_on_subset)
    show "inj_on (pid_at ?K) (dom ?P)" using pp by (simp add: pid_part_def)
  qed (rule sub)
  show "dom (members (family_of s)) = pid_at ?K ` ?L"
  proof (rule set_eqI)
    fix n
    have "(\<exists>x. bodies ?P p = Some x \<and> pid x = n) \<longleftrightarrow> n = pid_at ?K p" if "p \<in> ?L" for p
    proof -
      from that sub obtain x where x: "?P p = Some x" by auto
      then show ?thesis by (auto simp: bodies_def nodes_def pid_at_def)
    qed
    then have "(\<exists>p \<in> ?L. \<exists>x. bodies ?P p = Some x \<and> pid x = n) \<longleftrightarrow> (\<exists>p \<in> ?L. n = pid_at ?K p)"
      by (intro bex_cong [OF refl])
    moreover have "n \<in> dom (members (family_of s)) \<longleftrightarrow> (\<exists>p \<in> ?L. \<exists>x. bodies ?P p = Some x \<and> pid x = n)"
      unfolding domIff not_None_eq members_iff [OF ok] by blast
    ultimately show "n \<in> dom (members (family_of s)) \<longleftrightarrow> n \<in> pid_at ?K ` ?L" unfolding image_iff by simp
  qed
qed

lemma own_fds_bound:
  assumes "tree_ok s qs i" and "members (family_of s) n = Some m"
  shows "card (dom (m_fds m)) + 1 \<le> total_fds (family_of s)"
proof -
  have "finite (dom (members (family_of s)))" unfolding members_dom(1) [OF assms(1)] by simp
  moreover have "n \<in> dom (members (family_of s))" using assms(2) by blast
  ultimately have "card (dom (m_fds (the (members (family_of s) n)))) + 1 \<le> total_fds (family_of s)"
    unfolding total_fds_def by (intro member_le_sum [where f = "\<lambda>n. card (dom (m_fds (the (members (family_of s) n)))) + 1"]) simp_all
  with assms(2) show ?thesis by simp
qed

lemma all_refs_bound:
  assumes ok: "tree_ok s qs i" and fok: "files_ok (procs s) (sys_vnodes s) r"
  shows "all_refs (procs s) v \<le> total_fds (family_of s)"
proof -
  let ?P = "procs s" and ?K = "nodes (procs s)" and ?L = "set (qs @ [i])"
  have m: "member_part ?K (tcbs s) qs i" and pp: "pid_part ?K (lastUsedPID s) qs i" using ok by (simp_all add: tree_ok_def)
  have fin: "finite (dom ?P)" and sub: "?L \<subseteq> dom ?P" using m by (simp_all add: member_part_def)
  have zero: "file_refs (the (?P p)) v = 0" if "p \<in> dom ?P - ?L" for p
  proof -
    from that obtain x where x: "?P p = Some x" "p \<notin> ?L" by auto
    then have "node_ok ?K (tcbs s) qs i p (node_of x)" using m by (auto simp: member_part_def nodes_Some)
    with x have "p_status x = TERMINATED" by (auto simp: node_ok_def)
    moreover from this fok x(1) have "set (elements (p_files x)) \<subseteq> {None}" by (auto simp: files_ok_def)
    ultimately show ?thesis using x(1) by (auto simp: file_refs_def count_list_0_iff)
  qed
  have "all_refs ?P v = (\<Sum>p \<in> ?L. file_refs (the (?P p)) v)"
    unfolding all_refs_def by (rule sum.mono_neutral_right [OF fin sub]) (use zero in blast)
  also have "\<dots> \<le> (\<Sum>p \<in> ?L. card (dom (fds (p_files (the (?P p))))) + 1)"
    by (rule sum_mono) (rule file_refs_bound)
  also have "\<dots> = (\<Sum>p \<in> ?L. card (dom (m_fds (the (members (family_of s) (pid_at ?K p))))) + 1)"
  proof (rule sum.cong [OF refl])
    fix p assume p: "p \<in> ?L"
    with sub obtain x where x: "?P p = Some x" by auto
    then have "pid_at ?K p = pid x" by (simp add: pid_at_def nodes_def)
    with member_known [OF ok p x] x show "card (dom (fds (p_files (the (?P p))))) + 1
        = card (dom (m_fds (the (members (family_of s) (pid_at ?K p))))) + 1" by (simp add: member_of_def)
  qed
  also have "\<dots> = total_fds (family_of s)"
  proof -
    note d = members_dom [OF ok]
    show ?thesis unfolding total_fds_def d(1) by (simp only: sum.reindex [OF d(2)] comp_def)
  qed
  finally show ?thesis .
qed

section \<open>The calls implement the specification\<close>

definition fresh_alloc :: "('w system \<Rightarrow> addr \<times> addr) \<Rightarrow> bool" where
  "fresh_alloc new \<longleftrightarrow> (\<forall>s. finite (dom (procs s)) \<longrightarrow> finite (dom (tcbs s)) \<longrightarrow>
     fst (new s) \<noteq> NULL \<and> procs s (fst (new s)) = None \<and> snd (new s) \<noteq> NULL \<and> tcbs s (snd (new s)) = None)"

definition family_ok :: "(addr \<Rightarrow> nat) \<Rightarrow> 'w system \<Rightarrow> bool" where
  "family_ok r s \<longleftrightarrow> (\<exists>qs i. tree_ok s qs i \<and> files_ok (procs s) (sys_vnodes s) r) \<and> (\<forall>v. r v < 2 ^ 30)"

lemma tree_finite: "tree_ok s qs i \<Longrightarrow> finite (dom (procs s)) \<and> finite (dom (tcbs s))"
  by (simp add: tree_ok_def member_part_def thread_part_def)

lemma pid_at_parent:
  assumes "tree_ok s qs i" and "bodies (procs s) p = Some x" and "K' NULL = None" and "\<And>q. q \<in> dom (procs s) \<Longrightarrow> pid_at K' q = pid_at (nodes (procs s)) q"
  shows "pid_at K' (p_parent x) = pid_at (nodes (procs s)) (p_parent x)"
proof -
  have m: "member_part (nodes (procs s)) (tcbs s) qs i" using assms(1) by (simp add: tree_ok_def)
  have k: "nodes (procs s) p = Some (node_of x)" using assms(2) bodies_node [of "procs s" p] by simp
  with m have "node_ok (nodes (procs s)) (tcbs s) qs i p (node_of x)" by (simp add: member_part_def)
  then have "p_parent x = NULL \<or> nodes (procs s) (p_parent x) \<noteq> None" by (auto simp: node_ok_def)
  then have "p_parent x = NULL \<or> p_parent x \<in> dom (procs s)" by (auto simp: nodes_Some)
  moreover have "nodes (procs s) NULL = None" using m by (simp add: member_part_def)
  ultimately show ?thesis using assms(3,4) by (auto simp: pid_at_def)
qed

lemma fork_step:
  assumes ok: "tree_ok s qs i" and fok: "files_ok (procs s) (sys_vnodes s) r" and r: "\<forall>v. r v < 2 ^ 30"
    and pre: "family_pre (family_of s) Fork" and C: "heap_ok C" "fresh_alloc new"
  shows "\<exists>res s'. task_step C new s Fork = Some (res, s') \<and> family_ok r s' \<and> family_step (family_of s) Fork = (res, family_of s')"
proof -
  let ?P = "procs s" and ?K = "nodes (procs s)" and ?n = "lastUsedPID s"
  from pre obtain mp where mp: "running (family_of s) = Some mp" "?n < 2 ^ 31 - 1" "total_fds (family_of s) < 2 ^ 29" by auto
  from running_member [OF ok mp(1)] obtain me y where me: "current_process s = Some me" "me \<noteq> NULL" "?P me = Some y" "p_status y \<noteq> TERMINATED"
    "me \<in> set (qs @ [i])" "pid y = mp" "members (family_of s) mp = Some (member_of ?K y)" .
  let ?new = "fst (new s)" and ?t = "snd (new s)"
  have fresh: "?new \<noteq> NULL" "?P ?new = None" "?t \<noteq> NULL" "tcbs s ?t = None"
    using C(2) tree_finite [OF ok] by (simp_all add: fresh_alloc_def)
  have lim: "r v + all_refs ?P v + card (dom (fds (p_files y))) < 2 ^ 31" for v
  proof -
    have "all_refs ?P v \<le> total_fds (family_of s)" by (rule all_refs_bound [OF ok fok])
    moreover have "card (dom (fds (p_files y))) + 1 \<le> total_fds (family_of s)"
      using own_fds_bound [OF ok me(7)] by (simp add: member_of_def)
    ultimately show ?thesis using mp(3) r [rule_format, of v] by simp
  qed
  let ?S = "\<lambda>P q vs. s\<lparr>procs := P, processes := q, lastUsedPID := ?n + 1,
      firstProcess := ?new, tcbs := (tcbs s)(?t \<mapsto> \<lparr>parentProcess = ?new, thread_status = Running\<rparr>),
      thread_list := thread_list s @ [?t], sys_vnodes := vs\<rparr>"
  from fork_ok [OF ok fok me(1,3,4) fresh lim C(1) mp(2)] obtain P q vs x where f:
    "ProcessUAPI_fork C 0 ?t ?new s = Some (?n + 1, ?S P q vs)"
    "tree_ok (?S P q vs) (?new # qs) i" "files_ok P vs r" "bodies P = (bodies ?P)(?new \<mapsto> x)" "pid x = ?n + 1" "p_parent x = me"
    "p_status x \<noteq> TERMINATED" "fds (p_files x) = compact (fds (p_files y))" by blast
  let ?s' = "?S P q vs"
  have K': "nodes P = ?K(?new \<mapsto> node_of x)"
  proof
    fix p show "nodes P p = (?K(?new \<mapsto> node_of x)) p"
      unfolding bodies_node [symmetric] f(4) by (simp add: bodies_node)
  qed
  have null: "?K NULL = None" using ok by (simp add: tree_ok_def member_part_def)
  have at: "pid_at (nodes P) p = pid_at ?K p" if "p \<noteq> ?new" for p using that by (simp add: K' pid_at_def)
  have mem: "member_of (nodes P) z = member_of ?K z" if "bodies ?P p = Some z" for p z
  proof -
    have "pid_at (nodes P) (p_parent z) = pid_at ?K (p_parent z)"
    proof (rule pid_at_parent [OF ok that])
      show "nodes P NULL = None" using null fresh(1) by (simp add: K')
      show "pid_at (nodes P) q = pid_at ?K q" if "q \<in> dom ?P" for q using that fresh(2) by (intro at) auto
    qed
    then show ?thesis by (simp add: member_of_def)
  qed
  have "family_of ?s' = (family_of s)\<lparr>f_last := ?n + 1, members := (members (family_of s))(?n + 1 \<mapsto>
      \<lparr>m_parent = mp, m_exit = None, m_fds = compact (fds (p_files y))\<rparr>)\<rparr>"
  proof (rule family_eqI)
    fix n m
    have "\<not> members (family_of s) (?n + 1) = Some m'" for m'
    proof
      assume "members (family_of s) (?n + 1) = Some m'"
      then obtain p z where "bodies ?P p = Some z" "pid z = ?n + 1" unfolding members_iff [OF ok] by blast
      then have "?K p = Some (node_of z)" "pid z = ?n + 1" using bodies_node [of ?P p] by simp_all
      with ok show False by (force simp: tree_ok_def pid_part_def)
    qed
    moreover have "member_of (nodes P) x = \<lparr>m_parent = mp, m_exit = None, m_fds = compact (fds (p_files y))\<rparr>"
    proof -
      have "me \<noteq> ?new" using me(3) fresh(2) by auto
      then have "pid_at (nodes P) me = mp" using at [of me] me(3,6) by (simp add: pid_at_def nodes_def)
      with f(6-8) show ?thesis by (simp add: member_of_def)
    qed
    moreover have "members (family_of ?s') n = Some m \<longleftrightarrow> (\<exists>p \<in> set ((?new # qs) @ [i]). \<exists>z. bodies P p = Some z \<and> pid z = n \<and> m = member_of (nodes P) z)"
      using members_iff [OF f(2), of n m] by simp
    moreover have "\<dots> \<longleftrightarrow> n = ?n + 1 \<and> m = member_of (nodes P) x \<or> (\<exists>p \<in> set (qs @ [i]). \<exists>z. bodies ?P p = Some z \<and> pid z = n \<and> m = member_of ?K z)"
    proof -
      have "?new \<notin> set (qs @ [i])" using f(2) by (simp add: tree_ok_def list_part_def)
      then have "(\<exists>z. bodies P p = Some z \<and> pid z = n \<and> m = member_of (nodes P) z) \<longleftrightarrow> (\<exists>z. bodies ?P p = Some z \<and> pid z = n \<and> m = member_of ?K z)"
        if "p \<in> set (qs @ [i])" for p
        using that mem [of p] by (auto simp: f(4))
      then show ?thesis using f(4,5) by auto
    qed
    ultimately show "members (family_of ?s') n = Some m \<longleftrightarrow> members ((family_of s)\<lparr>f_last := ?n + 1, members := (members (family_of s))(?n + 1 \<mapsto>
      \<lparr>m_parent = mp, m_exit = None, m_fds = compact (fds (p_files y))\<rparr>)\<rparr>) n = Some m"
      unfolding members_iff [OF ok, symmetric] by auto
  next
    have c: "current_process ?s' = Some me"
      using me(1) fresh(4) by (auto simp: current_process_def the_thread_def split: if_splits)
    show "running (family_of ?s') = running ((family_of s)\<lparr>f_last := ?n + 1, members := (members (family_of s))(?n + 1 \<mapsto>
      \<lparr>m_parent = mp, m_exit = None, m_fds = compact (fds (p_files y))\<rparr>)\<rparr>)"
      using c me(1,3) fresh(2) by (auto simp: K')
  qed simp
  moreover have "family_ok r ?s'" using f(2,3) r by (auto simp: family_ok_def)
  ultimately show ?thesis using f(1) mp(1) me(7) by (simp add: member_of_def)
qed

text \<open>A call that changes one member, and a call that takes one away.\<close>

lemma members_update:
  assumes ok: "tree_ok s qs i" and ok': "tree_ok s' qs i" and b: "bodies (procs s') = (bodies (procs s))(p \<mapsto> z)"
    and z: "bodies (procs s) p = Some z0" "pid z = pid z0" "p_parent z = p_parent z0" "p \<in> set (qs @ [i])"
  shows "members (family_of s') = (members (family_of s))(pid z \<mapsto> member_of (nodes (procs s)) z)"
    and "pid_at (nodes (procs s')) = pid_at (nodes (procs s))"
proof -
  let ?K = "nodes (procs s)" and ?K' = "nodes (procs s')"
  have K': "?K' = ?K(p \<mapsto> node_of z)"
  proof
    fix q show "?K' q = (?K(p \<mapsto> node_of z)) q" unfolding bodies_node [symmetric] b by (simp add: bodies_node)
  qed
  have "?K p = Some (node_of z0)" using bodies_node [of "procs s" p] z(1) by simp
  with K' z(2) show at: "pid_at ?K' = pid_at ?K" by (auto simp: pid_at_def fun_eq_iff)
  then have mem: "member_of ?K' = member_of ?K" by (simp add: member_of_def fun_eq_iff)
  have inj: "inj_on (pid_at ?K) (set (qs @ [i]))" by (rule members_dom(2) [OF ok])
  have pidb: "pid_at ?K q = pid w" if "bodies (procs s) q = Some w" for q w
    using that bodies_node [of "procs s" q, symmetric] by (simp add: pid_at_def)
  show "members (family_of s') = (members (family_of s))(pid z \<mapsto> member_of ?K z)"
  proof (rule ext, rule option_eqI)
    fix n m
    have other: "q = p" if "q \<in> set (qs @ [i])" "bodies (procs s) q = Some w" "pid w = pid z" for q w
      using that z pidb [OF that(2)] pidb [OF z(1)] by (intro inj_onD [OF inj]) simp_all
    show "members (family_of s') n = Some m \<longleftrightarrow> ((members (family_of s))(pid z \<mapsto> member_of ?K z)) n = Some m"
    proof (cases "n = pid z")
      case True
      have "members (family_of s') n = Some m \<longleftrightarrow> m = member_of ?K z"
        unfolding members_iff [OF ok'] mem b
      proof
        assume "\<exists>q \<in> set (qs @ [i]). \<exists>w. ((bodies (procs s))(p \<mapsto> z)) q = Some w \<and> pid w = n \<and> m = member_of ?K w"
        then obtain q w where q: "q \<in> set (qs @ [i])" "((bodies (procs s))(p \<mapsto> z)) q = Some w" "pid w = n" "m = member_of ?K w" by blast
        have "q = p"
        proof (rule ccontr)
          assume "q \<noteq> p"
          then have "bodies (procs s) q = Some w" using q(2) by simp
          with other [OF q(1) this] q(3) True \<open>q \<noteq> p\<close> show False by blast
        qed
        with q show "m = member_of ?K z" by simp
      next
        assume "m = member_of ?K z"
        with True z(4) show "\<exists>q \<in> set (qs @ [i]). \<exists>w. ((bodies (procs s))(p \<mapsto> z)) q = Some w \<and> pid w = n \<and> m = member_of ?K w"
          by (intro bexI [of _ p] exI [of _ z]) simp_all
      qed
      with True show ?thesis by auto
    next
      case False
      then have "members (family_of s') n = Some m \<longleftrightarrow> members (family_of s) n = Some m"
        unfolding members_iff [OF ok'] members_iff [OF ok] mem b using z(1,2)
        by (intro bex_cong [OF refl]) auto
      with False show ?thesis by simp
    qed
  qed
qed

lemma members_reaped:
  assumes ok: "tree_ok s (as @ p # bs) i" and ok': "tree_ok s' (as @ bs) i" and re: "reaped s p s'" and x: "procs s p = Some x"
  shows "members (family_of s') = (members (family_of s))(pid x := None)"
    and "\<And>q. q \<noteq> p \<Longrightarrow> nodes (procs s') q = nodes (procs s) q"
proof -
  let ?K = "nodes (procs s)" and ?K' = "nodes (procs s')" and ?L = "set ((as @ bs) @ [i])"
  from re obtain y where y: "bodies (procs s') = (bodies (procs s))(p := y)"
    "y = None \<or> y = map_option (\<lambda>z. z\<lparr>p_parent := NULL\<rparr>) (bodies (procs s) p)" by (auto simp: reaped_def)
  show K': "?K' q = ?K q" if "q \<noteq> p" for q using that unfolding bodies_node [symmetric] y(1) by simp
  have L: "set ((as @ p # bs) @ [i]) = insert p ?L" "p \<notin> ?L" using ok by (auto simp: tree_ok_def list_part_def)
  have inj: "inj_on (pid_at ?K) (set ((as @ p # bs) @ [i]))" by (rule members_dom(2) [OF ok])
  have pidb: "pid_at ?K q = pid w" if "bodies (procs s) q = Some w" for q w
    using that bodies_node [of "procs s" q, symmetric] by (simp add: pid_at_def)
  have bp: "pid w = pid x" if "bodies (procs s) p = Some w" for w using that x by (auto simp: bodies_def)
  have mem: "member_of ?K' w = member_of ?K w" if "q \<in> ?L" "bodies (procs s) q = Some w" for q w
  proof -
    have "bodies (procs s') q = Some w" using that L(2) y(1) by auto
    then have "?K' q = Some (node_of w)" using bodies_node [of "procs s'" q] by simp
    moreover have "member_part ?K' (tcbs s') (as @ bs) i" using ok' by (simp add: tree_ok_def)
    ultimately have "node_ok ?K' (tcbs s') (as @ bs) i q (node_of w)" by (simp add: member_part_def)
    then have par: "p_parent w = NULL \<or> ?K' (p_parent w) \<noteq> None" by (auto simp: node_ok_def)
    have "pid_at ?K' (p_parent w) = pid_at ?K (p_parent w)"
    proof (cases "p_parent w = p")
      case True
      have pn: "p \<noteq> NULL" using list_live [OF ok, of p] by auto
      with par True have "?K' p \<noteq> None" by auto
      then have "bodies (procs s') p \<noteq> None" using bodies_node [of "procs s'" p, symmetric] by auto
      with y obtain w' where "bodies (procs s) p = Some w'" "bodies (procs s') p = Some (w'\<lparr>p_parent := NULL\<rparr>)"
        by (cases "bodies (procs s) p") auto
      then show ?thesis using True bodies_node [of "procs s'" p, symmetric] bodies_node [of "procs s" p, symmetric]
        by (simp add: pid_at_def)
    qed (simp add: K' pid_at_def)
    then show ?thesis by (simp add: member_of_def)
  qed
  show "members (family_of s') = (members (family_of s))(pid x := None)"
  proof (rule ext, rule option_eqI)
    fix n m
    have "members (family_of s') n = Some m \<longleftrightarrow> (\<exists>q \<in> ?L. \<exists>w. bodies (procs s) q = Some w \<and> pid w = n \<and> m = member_of ?K w)"
    proof -
      have "bodies (procs s') q = bodies (procs s) q" if "q \<in> ?L" for q using that L(2) y(1) by auto
      with mem show ?thesis unfolding members_iff [OF ok'] by (intro bex_cong [OF refl]) (metis (no_types, lifting))
    qed
    also have "\<dots> \<longleftrightarrow> members (family_of s) n = Some m \<and> n \<noteq> pid x"
    proof -
      have "pid w \<noteq> pid x" if "q \<in> ?L" "bodies (procs s) q = Some w" for q w
      proof
        assume "pid w = pid x"
        moreover have "pid_at ?K p = pid x" using x by (simp add: pid_at_def nodes_def)
        ultimately have "q = p" using that pidb [OF that(2)] L(1) by (intro inj_onD [OF inj]) simp_all
        with that(1) L(2) show False by simp
      qed
      then show ?thesis unfolding members_iff [OF ok] L(1) using bp by (auto simp del: set_append)
    qed
    finally show "members (family_of s') n = Some m \<longleftrightarrow> ((members (family_of s))(pid x := None)) n = Some m" by auto
  qed
qed

lemma exit_step:
  assumes ok: "tree_ok s qs i" and fok: "files_ok (procs s) (sys_vnodes s) r" and r: "\<forall>v. r v < 2 ^ 30"
    and pre: "family_pre (family_of s) (Exit e)"
  shows "\<exists>res s'. task_step C new s (Exit e) = Some (res, s') \<and> family_ok r s' \<and> family_step (family_of s) (Exit e) = (res, family_of s')"
proof -
  from pre obtain mp where mp: "running (family_of s) = Some mp" "mp \<noteq> 1" by auto
  from running_member [OF ok mp(1)] obtain p y where p: "current_process s = Some p" "p \<noteq> NULL" "procs s p = Some y" "p_status y \<noteq> TERMINATED"
    "p \<in> set (qs @ [i])" "pid y = mp" "members (family_of s) mp = Some (member_of (nodes (procs s)) y)" .
  let ?S = "\<lambda>P vs. s\<lparr>procs := P, sys_vnodes := vs,
      tcbs := (tcbs s)(current s \<mapsto> \<lparr>parentProcess = NULL, thread_status = UWaiting\<rparr>)\<rparr>"
  from exit_ok [OF ok fok p(1,3), of C e] p(6) mp(2) obtain P vs z where e: "ProcessUAPI_exit C s e = Some (?S P vs)" "tree_ok (?S P vs) qs i"
    "files_ok P vs r" "bodies P = (bodies (procs s))(p \<mapsto> z)" "pid z = pid y" "p_parent z = p_parent y"
    "p_status z = TERMINATED" "p_exitStatus z = e" "fds (p_files z) = Map.empty" by blast
  let ?s' = "?S P vs"
  have b: "bodies (procs ?s') = (bodies (procs s))(p \<mapsto> z)" using e(4) by simp
  note mu = members_update [OF ok e(2) b bodies_Some [where P = "procs s" and p = p and x = y, OF p(3)]]
  have m: "members (family_of ?s') = (members (family_of s))(mp \<mapsto> member_of (nodes (procs s)) z)"
    using mu(1) e(5,6) p(5,6) by simp
  have "family_of ?s' = (family_of s)\<lparr>running := None, members := (members (family_of s))(mp \<mapsto>
      (member_of (nodes (procs s)) y)\<lparr>m_exit := Some e, m_fds := Map.empty\<rparr>)\<rparr>"
  proof (rule family_eqI)
    have "member_of (nodes (procs s)) z = (member_of (nodes (procs s)) y)\<lparr>m_exit := Some e, m_fds := Map.empty\<rparr>"
      using e(6-9) by (simp add: member_of_def)
    then show "members (family_of ?s') n = Some u \<longleftrightarrow> members ((family_of s)\<lparr>running := None, members := (members (family_of s))(mp \<mapsto>
      (member_of (nodes (procs s)) y)\<lparr>m_exit := Some e, m_fds := Map.empty\<rparr>)\<rparr>) n = Some u" for n u
      unfolding m by simp
    have "nodes P NULL = None" using e(2) by (simp add: tree_ok_def member_part_def)
    then show "running (family_of ?s') = running ((family_of s)\<lparr>running := None, members := (members (family_of s))(mp \<mapsto>
      (member_of (nodes (procs s)) y)\<lparr>m_exit := Some e, m_fds := Map.empty\<rparr>)\<rparr>)"
      by (simp add: current_process_def the_thread_def)
  qed simp
  moreover have "family_ok r ?s'" using e(2,3) r by (auto simp: family_ok_def)
  ultimately show ?thesis using e(1) mp(1) p(7) by simp
qed

lemma files_step:
  assumes ok: "tree_ok s qs i" and fok: "files_ok (procs s) (sys_vnodes s) r" and r: "\<forall>v. r v < 2 ^ 30"
    and pre: "family_pre (family_of s) (Files x)" and C: "heap_ok C"
  shows "\<exists>res s'. task_step C new s (Files x) = Some (res, s') \<and> family_ok r s' \<and> family_step (family_of s) (Files x) = (res, family_of s')"
proof -
  from pre obtain mp m where mp: "running (family_of s) = Some mp" "members (family_of s) mp = Some m" "fd_pre (m_fds m) x"
    "total_fds (family_of s) < 2 ^ 29" by auto
  from running_member [OF ok mp(1)] obtain p y where p: "current_process s = Some p" "p \<noteq> NULL" "procs s p = Some y" "p_status y \<noteq> TERMINATED"
    "p \<in> set (qs @ [i])" "pid y = mp" "members (family_of s) mp = Some (member_of (nodes (procs s)) y)" .
  have m: "m = member_of (nodes (procs s)) y" using mp(2) p(7) by simp
  let ?r = "\<lambda>v. r v + all_refs ((procs s)(p := None)) v" and ?k = "kernel_of s y"
  have fin: "finite (dom (procs s))" using tree_finite [OF ok] by simp
  have "fd_valid ?r ?k ?k"
  proof -
    have "all_refs ((procs s)(p := None)) v < 2 ^ 29" for v
      using all_refs_update [OF fin, of p None v] p(3) all_refs_bound [OF ok fok, of v] mp(4) by simp
    then have "?r v < 2 ^ 31" for v using r [rule_format, of v] add_strict_mono [of "r v" "2 ^ 30" "all_refs ((procs s)(p := None)) v" "2 ^ 29"]
      by simp
    with kernel_of_ok [OF fok fin p(3,4)] show ?thesis by (simp add: fd_valid_def)
  qed
  from fd_step_refines [OF this _ C, of x] mp(3) m obtain res k where k: "fd_step C ?k x = Some (res, k)" "fd_valid ?r ?k k"
    "fd_spec (m_fds m) x = (res, fdmap k)" by (auto simp: fdmap_kernel_of member_of_def)
  let ?z = "files_back y k"
  let ?s' = "s\<lparr>procs := (procs s)(p \<mapsto> ?z), sys_vnodes := vnode_table k, sys_world := world k\<rparr>"
  have call: "file_call s (\<lambda>k. fd_step C k x) = Some (res, ?s')"
    using p(1-3) k(1) by (simp add: file_call_def the_proc_def)
  have tok: "tree_ok ?s' qs i" by (rule tree_ok_files [OF ok p(3)])
  have fok': "files_ok (procs ?s') (sys_vnodes ?s') r"
    using files_back_ok [OF fok fin p(3,4), of k] k(2) by (simp add: fd_valid_def)
  let ?bz = "?z\<lparr>p_prev := 0, p_next := 0, p_refCount := 0\<rparr>"
  have b: "bodies (procs ?s') = (bodies (procs s))(p \<mapsto> ?bz)" by (simp add: bodies_update)
  note mu = members_update [OF ok tok b bodies_Some [where P = "procs s" and p = p and x = y, OF p(3)]]
  have mem: "members (family_of ?s') = (members (family_of s))(mp \<mapsto> member_of (nodes (procs s)) ?z)" "pid_at (nodes (procs ?s')) = pid_at (nodes (procs s))"
    using mu p(5,6) by simp_all
  have "family_of ?s' = (family_of s)\<lparr>members := (members (family_of s))(mp \<mapsto> m\<lparr>m_fds := fdmap k\<rparr>)\<rparr>"
  proof (rule family_eqI)
    have "member_of (nodes (procs s)) ?z = m\<lparr>m_fds := fdmap k\<rparr>"
      unfolding m fdmap_back [of k y] by (simp add: member_of_def) (simp add: files_back_def)
    then show "members (family_of ?s') n = Some u \<longleftrightarrow> members ((family_of s)\<lparr>members := (members (family_of s))(mp \<mapsto> m\<lparr>m_fds := fdmap k\<rparr>)\<rparr>) n = Some u" for n u
      unfolding mem by simp
    have "current_process ?s' = Some p" using p(1) by (auto simp: current_process_def the_thread_def split: if_splits)
    with p(1,3) show "running (family_of ?s') = running ((family_of s)\<lparr>members := (members (family_of s))(mp \<mapsto> m\<lparr>m_fds := fdmap k\<rparr>)\<rparr>)"
      by (simp add: nodes_def)
  qed simp
  moreover have "family_ok r ?s'" using tok fok' r by (auto simp: family_ok_def)
  ultimately show ?thesis using call k(3) mp(1,2) by simp
qed

lemma getppid_step:
  assumes ok: "tree_ok s qs i" and fok: "files_ok (procs s) (sys_vnodes s) r" and r: "\<forall>v. r v < 2 ^ 30"
    and pre: "family_pre (family_of s) Getppid"
  shows "\<exists>res s'. task_step C new s Getppid = Some (res, s') \<and> family_ok r s' \<and> family_step (family_of s) Getppid = (res, family_of s')"
proof -
  from pre obtain mp where mp: "running (family_of s) = Some mp" by auto
  from running_member [OF ok mp] obtain p y where p: "current_process s = Some p" "p \<noteq> NULL" "procs s p = Some y" "p_status y \<noteq> TERMINATED"
    "p \<in> set (qs @ [i])" "pid y = mp" "members (family_of s) mp = Some (member_of (nodes (procs s)) y)" .
  have m: "member_part (nodes (procs s)) (tcbs s) qs i" and pp: "pid_part (nodes (procs s)) (lastUsedPID s) qs i"
    using ok by (simp_all add: tree_ok_def)
  have null: "nodes (procs s) NULL = None" using m by (simp add: member_part_def)
  have "node_ok (nodes (procs s)) (tcbs s) qs i p (node_of y)" using m p(3) by (auto simp: member_part_def nodes_Some)
  then have "p_parent y = NULL \<or> (\<exists>z. procs s (p_parent y) = Some z)" by (auto simp: node_ok_def nodes_Some)
  then have "ProcessUAPI_getppid s = Some (if pid_at (nodes (procs s)) (p_parent y) = 0 then mp else pid_at (nodes (procs s)) (p_parent y))"
  proof
    assume "p_parent y = NULL"
    with p null show ?thesis by (simp add: ProcessUAPI_getppid_def current_block_def the_proc_def pid_at_def)
  next
    assume "\<exists>z. procs s (p_parent y) = Some z"
    then obtain z where z: "procs s (p_parent y) = Some z" by blast
    then have n: "nodes (procs s) (p_parent y) = Some (node_of z)" by (simp add: nodes_def)
    then have "1 \<le> pid z" using pp by (force simp: pid_part_def)
    moreover have "p_parent y \<noteq> NULL" using n null by auto
    ultimately show ?thesis using p n z by (simp add: ProcessUAPI_getppid_def current_block_def the_proc_def pid_at_def)
  qed
  moreover have "family_ok r s" using ok fok r by (auto simp: family_ok_def)
  ultimately show ?thesis using mp p(7) by (simp add: member_of_def)
qed

lemma switch_step:
  assumes ok: "tree_ok s qs i" and fok: "files_ok (procs s) (sys_vnodes s) r" and r: "\<forall>v. r v < 2 ^ 30"
    and pre: "family_pre (family_of s) (Switch n)"
  shows "\<exists>res s'. task_step C new s (Switch n) = Some (res, s') \<and> family_ok r s' \<and> family_step (family_of s) (Switch n) = (res, family_of s')"
proof -
  let ?K = "nodes (procs s)"
  from pre obtain m where m: "members (family_of s) n = Some m" "m_exit m = None" by auto
  then obtain p x where p: "p \<in> set (qs @ [i])" "bodies (procs s) p = Some x" "pid x = n" "m = member_of ?K x"
    unfolding members_iff [OF ok] by blast
  have k: "?K p = Some (node_of x)" using bodies_node [of "procs s" p, symmetric] p(2) by simp
  have alive: "p_status x \<noteq> TERMINATED" using m(2) p(4) by (auto simp: member_of_def split: if_splits)
  have parts: "table_part ?K (processes s) qs i" "pid_part ?K (lastUsedPID s) qs i" "member_part ?K (tcbs s) qs i"
    "thread_part ?K (tcbs s) (thread_list s) (current s) i" using ok by (simp_all add: tree_ok_def)
  have nk: "node_ok ?K (tcbs s) qs i p (node_of x)" using parts(3) k by (simp add: member_part_def)
  have pn: "p \<noteq> NULL" using parts(3) k by (auto simp: member_part_def)
  have "0 \<le> n" using parts(2) k p(3) by (force simp: pid_part_def)
  then have proc: "process_of s n = Some p"
  proof -
    have "qmap (\<lambda>n. n) (processes s) n = Some p" using parts(1) p(1,3) k by (simp add: table_part_def)
    with process_of_ok [OF ok \<open>0 \<le> n\<close>] show ?thesis by simp
  qed
  obtain t u where t: "tcbs s t = Some u" "parentProcess u = p"
  proof (cases "p = i")
    case True
    with parts(4) that show thesis by (auto simp: thread_part_def)
  next
    case False
    with nk alive obtain u where "tcbs s (p_mainThread x) = Some u" "parentProcess u = p" by (auto simp: node_ok_def)
    with that show thesis by blast
  qed
  have tn: "t \<noteq> NULL" "t \<in> set (thread_list s)" using t parts(4) pn by (auto simp: thread_part_def)
  let ?Q = "\<lambda>t. map_option parentProcess (the_thread s t) = Some p"
  have "?Q t" using t tn(1) by (simp add: the_thread_def)
  with tn(2) obtain t' where t': "find ?Q (thread_list s) = Some t'" by (cases "find ?Q (thread_list s)") (auto simp: find_None_iff)
  then have q: "?Q t'" by (auto simp: find_Some_iff)
  let ?s' = "s\<lparr>current := t'\<rparr>"
  have sw: "switch_to s n = Some ?s'" using proc t' by (simp add: switch_to_def)
  have cur: "current_process ?s' = Some p" using q by (auto simp: current_process_def the_thread_def split: if_splits)
  have tok: "tree_ok ?s' qs i"
  proof -
    have "tcbs s t' \<noteq> None" using q by (auto simp: the_thread_def split: if_splits)
    with parts(4) have "thread_part ?K (tcbs s) (thread_list s) t' i" by (auto simp: thread_part_def)
    with ok tree_counted [OF ok] owed_live(2) [OF ok] show ?thesis
      by (intro tree_okI [where H = "procs s" and B = "owed ?K (tcbs s) qs i"]) (simp_all add: tree_ok_def)
  qed
  have "family_of ?s' = (family_of s)\<lparr>running := Some n\<rparr>"
  proof (rule family_eqI)
    show "members (family_of ?s') n' = Some u \<longleftrightarrow> members ((family_of s)\<lparr>running := Some n\<rparr>) n' = Some u" for n' u
      by (simp add: family_of_def split: option.splits)
  qed (use cur k p(3) in simp_all)
  moreover have "family_ok r ?s'" using tok fok r by (auto simp: family_ok_def)
  ultimately show ?thesis using sw by simp
qed

lemma parent_number:
  assumes ok: "tree_ok s qs i" and x: "procs s p = Some x" and y: "procs s me = Some y"
  shows "pid_at (nodes (procs s)) (p_parent x) = pid y \<longleftrightarrow> p_parent x = me"
proof -
  let ?K = "nodes (procs s)"
  have m: "member_part ?K (tcbs s) qs i" and pp: "pid_part ?K (lastUsedPID s) qs i" using ok by (simp_all add: tree_ok_def)
  have me: "?K me = Some (node_of y)" "pid_at ?K me = pid y" using y by (simp_all add: nodes_def pid_at_def)
  have "1 \<le> pid y" using pp me(1) by (force simp: pid_part_def)
  have "node_ok ?K (tcbs s) qs i p (node_of x)" using m x by (auto simp: member_part_def nodes_Some)
  then consider "p_parent x = NULL" | l where "?K (p_parent x) = Some l" by (auto simp: node_ok_def)
  then show ?thesis
  proof cases
    case 1
    moreover have null: "?K NULL = None" using m by (simp add: member_part_def)
    moreover have "me \<noteq> NULL" using null me(1) by auto
    ultimately show ?thesis using \<open>1 \<le> pid y\<close> by (simp add: pid_at_def)
  next
    case 2
    have "inj_on (pid_at ?K) (dom ?K)" using pp by (simp add: pid_part_def)
    moreover have "p_parent x \<in> dom ?K" "me \<in> dom ?K" using 2 me(1) by (blast, blast)
    ultimately show ?thesis unfolding me(2) [symmetric] by (rule inj_on_eq_iff)
  qed
qed

lemma reap_family:
  assumes ok: "tree_ok s (as @ p # bs) i" and ok': "tree_ok s' (as @ bs) i" and re: "reaped s p s'"
    and x: "procs s p = Some x" "p_status x = TERMINATED" and me: "current_process s = Some me" "procs s me = Some y" "p_status y \<noteq> TERMINATED"
    and fok: "files_ok (procs s) (sys_vnodes s) r" and r: "\<forall>v. r v < 2 ^ 30"
  shows "reap (family_of s) (pid x) = (Some (pid x, Some (p_exitStatus x)), family_of s') \<and> family_ok r s'"
proof -
  note mr = members_reaped [OF ok ok' re x(1)]
  have "p \<in> set ((as @ p # bs) @ [i])" by simp
  from member_known [OF ok this x(1)] x(2) have "m_exit (the (members (family_of s) (pid x))) = Some (p_exitStatus x)"
    by (simp add: member_of_def)
  moreover have "family_of s' = (family_of s)\<lparr>members := (members (family_of s))(pid x := None)\<rparr>"
  proof (rule family_eqI)
    have "current_process s' = Some me" using re me(1) by (auto simp: reaped_def current_process_def the_thread_def split: if_splits)
    moreover have "me \<noteq> p" using me(2,3) x by auto
    ultimately show "running (family_of s') = running ((family_of s)\<lparr>members := (members (family_of s))(pid x := None)\<rparr>)"
      using me(1) mr(2) [of me] by simp
  qed (use mr(1) re in \<open>auto simp: reaped_def\<close>)
  moreover have "files_ok (procs s') (sys_vnodes s') r"
  proof -
    from re obtain w where w: "bodies (procs s') = (bodies (procs s))(p := w)" "sys_vnodes s' = sys_vnodes s"
      "w = None \<or> w = map_option (\<lambda>z. z\<lparr>p_parent := NULL\<rparr>) (bodies (procs s) p)" by (auto simp: reaped_def)
    let ?Q = "bodies (procs s)"
    have fb: "files_ok ?Q (sys_vnodes s) r" using fok by (simp add: files_ok_bodies [symmetric])
    have fin: "finite (dom ?Q)" using tree_finite [OF ok] by (simp add: bodies_def dom_def)
    have bx: "?Q p = Some (x\<lparr>p_prev := 0, p_next := 0, p_refCount := 0\<rparr>)" by (rule bodies_Some [where P = "procs s", OF x(1)])
    have "files_ok (?Q(p := w)) (sys_vnodes s) r"
    proof (cases w)
      case None
      have "set (elements (p_files x)) \<subseteq> {None}" using fok x by (auto simp: files_ok_def)
      then have "file_refs (x\<lparr>p_prev := 0, p_next := 0, p_refCount := 0\<rparr>) v = 0" for v
        using x(2) by (auto simp: file_refs_def count_list_0_iff)
      then have "all_refs (?Q(p := w)) v = all_refs ?Q v" for v using all_refs_update [OF fin, of p w v] bx None by simp
      with fb None show ?thesis by (auto simp: files_ok_def)
    next
      case (Some z)
      with w(3) bx have "z = x\<lparr>p_prev := 0, p_next := 0, p_refCount := 0, p_parent := NULL\<rparr>" by auto
      with files_ok_same [OF fb fin bx, of z] Some show ?thesis by simp
    qed
    then show ?thesis unfolding w(1) [symmetric] w(2) by (simp add: files_ok_bodies [symmetric])
  qed
  ultimately show ?thesis using ok' r by (auto simp: reap_def family_ok_def)
qed

lemma wait_step:
  assumes ok: "tree_ok s qs i" and fok: "files_ok (procs s) (sys_vnodes s) r" and r: "\<forall>v. r v < 2 ^ 30"
    and pre: "family_pre (family_of s) (Wait n)"
  shows "\<exists>res s'. task_step C new s (Wait n) = Some (res, s') \<and> family_ok r s' \<and> family_step (family_of s) (Wait n) = (res, family_of s')"
proof -
  let ?K = "nodes (procs s)"
  from pre obtain mp where mp: "running (family_of s) = Some mp" "0 \<le> n" "n < 2 ^ 31" by auto
  from running_member [OF ok mp(1)] obtain me y where me: "current_process s = Some me" "me \<noteq> NULL" "procs s me = Some y" "p_status y \<noteq> TERMINATED"
    "me \<in> set (qs @ [i])" "pid y = mp" "members (family_of s) mp = Some (member_of ?K y)" .
  have sint: "sint (word_of_int n :: u32) = n"
    using mp(2,3) unfolding sint_sbintrunc' by (intro signed_take_bit_int_eq_self) simp_all
  then have "(word_of_int n :: u32) \<noteq> - 1" using mp(2) by auto
  then have step: "task_step C new s (Wait n) = wait_one s n 0" using sint by (simp add: ProcessUAPI_waitpid_def)
  have same: "family_ok r s" using ok fok r by (auto simp: family_ok_def)
  have spec: "family_step (family_of s) (Wait n) = member_step (family_of s) mp (member_of ?K y) (Wait n)"
    using mp(1) me(7) by simp
  note w = wait_one_ok [OF ok me(1,2) mp(2)]
  show ?thesis
  proof (cases "qmap (\<lambda>n. n) (processes s) n")
    case None
    then have "members (family_of s) n = None" by (simp add: family_of_def)
    with None w same step spec show ?thesis by (simp add: number_result_def)
  next
    case (Some p)
    with w obtain x where x: "procs s p = Some x" "pid x = n" "(if p_parent x \<noteq> me then wait_one s n 0 = Some (Some (- errno_code ECHILD, None), s)
        else if p_status x \<noteq> TERMINATED then wait_one s n 0 = Some (None, s)
        else \<exists>s' as bs. wait_one s n 0 = Some (Some (n, Some (p_exitStatus x)), s')
          \<and> qs = as @ p # bs \<and> tree_ok s' (as @ bs) i \<and> reaped s p s')" by auto
    have "p \<in> set (qs @ [i])" using ok Some by (simp add: tree_ok_def table_part_def)
    from member_known [OF ok this x(1)] x(2) have known: "members (family_of s) n = Some (member_of ?K x)" by simp
    have par: "m_parent (member_of ?K x) = mp \<longleftrightarrow> p_parent x = me"
      using parent_number [OF ok x(1) me(3)] me(6) by (simp add: member_of_def)
    have ex: "m_exit (member_of ?K x) = None \<longleftrightarrow> p_status x \<noteq> TERMINATED" by (simp add: member_of_def)
    consider "p_parent x \<noteq> me" | "p_parent x = me" "p_status x \<noteq> TERMINATED" | "p_parent x = me" "p_status x = TERMINATED" by blast
    then show ?thesis
    proof cases
      case 1
      with x(3) par known same step spec show ?thesis by (simp add: number_result_def)
    next
      case 2
      with x(3) par ex known same step spec show ?thesis by simp
    next
      case 3
      with x(3) obtain s' as bs where s': "wait_one s n 0 = Some (Some (n, Some (p_exitStatus x)), s')" "qs = as @ p # bs"
        "tree_ok s' (as @ bs) i" "reaped s p s'" by auto
      from reap_family [OF ok [unfolded s'(2)] s'(3,4) x(1) 3(2) me(1,3,4) fok r] x(2) s'(1) 3 par ex known step spec
      show ?thesis by simp
    qed
  qed
qed

lemma ended_children_eq:
  assumes ok: "tree_ok s qs i" and y: "procs s me = Some y"
  shows "ended_children (family_of s) (pid y) = {pid x | p x. p \<in> set (qs @ [i]) \<and> procs s p = Some x \<and> ended_child x me}"
proof (rule set_eqI)
  fix n
  have "n \<in> ended_children (family_of s) (pid y) \<longleftrightarrow> (\<exists>p \<in> set (qs @ [i]). \<exists>x. procs s p = Some x \<and> pid x = n
      \<and> m_parent (member_of (nodes (procs s)) x) = pid y \<and> m_exit (member_of (nodes (procs s)) x) \<noteq> None)"
    unfolding ended_children_def mem_Collect_eq members_procs [OF ok] by blast
  also have "\<dots> \<longleftrightarrow> (\<exists>p \<in> set (qs @ [i]). \<exists>x. procs s p = Some x \<and> pid x = n \<and> ended_child x me)"
  proof (intro bex_cong [OF refl] ex_cong1 conj_cong refl)
    fix p x assume "procs s p = Some x"
    with parent_number [OF ok _ y] show "(m_parent (member_of (nodes (procs s)) x) = pid y \<and> m_exit (member_of (nodes (procs s)) x) \<noteq> None) \<longleftrightarrow> ended_child x me"
      by (auto simp: member_of_def ended_child_def)
  qed
  finally show "n \<in> ended_children (family_of s) (pid y) \<longleftrightarrow> n \<in> {pid x | p x. p \<in> set (qs @ [i]) \<and> procs s p = Some x \<and> ended_child x me}"
    by auto
qed

lemma wait_any_step:
  assumes ok: "tree_ok s qs i" and fok: "files_ok (procs s) (sys_vnodes s) r" and r: "\<forall>v. r v < 2 ^ 30"
    and pre: "family_pre (family_of s) Wait_any"
  shows "\<exists>res s'. task_step C new s Wait_any = Some (res, s') \<and> family_ok r s' \<and> family_step (family_of s) Wait_any = (res, family_of s')"
proof -
  let ?K = "nodes (procs s)"
  from pre obtain mp where mp: "running (family_of s) = Some mp" by auto
  from running_member [OF ok mp(1)] obtain me y where me: "current_process s = Some me" "me \<noteq> NULL" "procs s me = Some y" "p_status y \<noteq> TERMINATED"
    "me \<in> set (qs @ [i])" "pid y = mp" "members (family_of s) mp = Some (member_of ?K y)" .
  have step: "task_step C new s Wait_any = wait_any s 0" by (simp add: ProcessUAPI_waitpid_def)
  have spec: "family_step (family_of s) Wait_any = member_step (family_of s) mp (member_of ?K y) Wait_any" using mp me(7) by simp
  note kids = ended_children_eq [OF ok me(3), unfolded me(6)]
  note w = wait_any_ok [OF ok me(1,2)]
  show ?thesis
  proof (cases "first_ended (procs s) me (qs @ [i])")
    case None
    then have "ended_children (family_of s) mp = {}" unfolding kids by (auto simp: first_ended_def find_None_iff)
    moreover have "family_ok r s" using ok fok r by (auto simp: family_ok_def)
    ultimately show ?thesis using None w step spec by simp
  next
    case (Some p)
    with w obtain x s' as bs where x: "procs s p = Some x" "ended_child x me"
      "wait_any s 0 = Some (Some (pid x, Some (p_exitStatus x)), s')" "qs = as @ p # bs" "first_ended (procs s) me as = None"
      "tree_ok s' (as @ bs) i" "reaped s p s'" by auto
    have kid: "pid x \<in> ended_children (family_of s) mp" unfolding kids using x(1,2,4) by auto
    have "Max (ended_children (family_of s) mp) = pid x"
    proof (rule Max_eqI)
      have "ended_children (family_of s) mp \<subseteq> dom (members (family_of s))" by (auto simp: ended_children_def)
      then show "finite (ended_children (family_of s) mp)"
        by (rule finite_subset) (simp add: members_dom(1) [OF ok])
      fix n assume "n \<in> ended_children (family_of s) mp"
      then obtain q z where q: "q \<in> set (qs @ [i])" "procs s q = Some z" "ended_child z me" "n = pid z" unfolding kids by blast
      have "q \<notin> set as" using x(5) q(2,3) by (auto simp: first_ended_def find_None_iff)
      then have "q = p \<or> q \<in> set (bs @ [i])" using q(1) x(4) by auto
      moreover have "sorted_wrt (\<lambda>u v. pid_at ?K v < pid_at ?K u) ((as @ p # bs) @ [i])" using ok x(4) by (simp add: tree_ok_def pid_part_def)
      ultimately have "q = p \<or> pid_at ?K q < pid_at ?K p" by (auto simp: sorted_wrt_append)
      with q(2,4) x(1) show "n \<le> pid x" by (auto simp: pid_at_def nodes_def)
    qed (rule kid)
    moreover have "p_status x = TERMINATED" using x(2) by (simp add: ended_child_def)
    moreover note reap_family [OF ok [unfolded x(4)] x(6,7,1) this me(1,3,4) fok r]
    moreover have "ended_children (family_of s) mp \<noteq> {}" using kid by auto
    ultimately show ?thesis using x(3) step spec by simp
  qed
qed

lemma task_step_refines:
  assumes "family_ok r s" and "family_pre (family_of s) x" and "heap_ok C" and "fresh_alloc new"
  shows "\<exists>res s'. task_step C new s x = Some (res, s') \<and> family_ok r s' \<and> family_step (family_of s) x = (res, family_of s')"
proof -
  from assms(1) obtain qs i where ok: "tree_ok s qs i" and fok: "files_ok (procs s) (sys_vnodes s) r" and r: "\<forall>v. r v < 2 ^ 30"
    by (auto simp: family_ok_def)
  show ?thesis
  proof (cases x)
    case Fork
    with fork_step [OF ok fok r _ assms(3,4)] assms(2) show ?thesis by blast
  next
    case (Exit e)
    with exit_step [OF ok fok r, of e C new] assms(2) show ?thesis by blast
  next
    case (Wait n)
    with wait_step [OF ok fok r, of n C new] assms(2) show ?thesis by blast
  next
    case Wait_any
    with wait_any_step [OF ok fok r, of C new] assms(2) show ?thesis by blast
  next
    case Getppid
    with getppid_step [OF ok fok r, of C new] assms(2) show ?thesis by blast
  next
    case (Files y)
    with files_step [OF ok fok r _ assms(3), of y new] assms(2) show ?thesis by blast
  next
    case (Switch n)
    with switch_step [OF ok fok r, of n C new] assms(2) show ?thesis by blast
  qed
qed

text \<open>The calls as an instance of \<open>data_refinement\<close>.\<close>

definition family_fits :: "'w fs_calls \<Rightarrow> ('w system \<Rightarrow> addr \<times> addr) \<Rightarrow> family \<Rightarrow> task_op \<Rightarrow> bool" where
  "family_fits C new A x \<longleftrightarrow> heap_ok C \<and> fresh_alloc new \<and> family_pre A x"

interpretation family: data_refinement "family_ok r" family_of "task_step C new" family_step "family_fits C new" for r C new
proof
  fix s :: "'a system" and x
  assume "family_ok r s" "family_fits C new (family_of s) x"
  then show "\<exists>res s'. task_step C new s x = Some (res, s') \<and> family_ok r s' \<and> family_step (family_of s) x = (res, family_of s')"
    using task_step_refines [of r s x C new] by (simp add: family_fits_def)
qed

lemma allowed_family:
  "heap_ok C \<Longrightarrow> fresh_alloc new \<Longrightarrow> allowed family_pre family_step A xs \<Longrightarrow> allowed (family_fits C new) family_step A xs"
  by (induction xs arbitrary: A) (simp_all add: family_fits_def)

end
