(* ===== verification/Processes_Properties.thy ===== *)
theory Processes_Properties
  imports Processes_Family
begin

text \<open>
  Properties of processes: the calls refine a family, the structure stays well formed, and what \<open>fork\<close> does to the
  numbers of descriptors.
\<close>

section \<open>A first process\<close>

definition sample_init :: ProcessControlBlock where
  "sample_init = \<lparr>pid = 1, p_uid = 0, p_euid = 0, p_gid = 0, p_egid = 0, p_pgid = 0, p_sid = 0, p_status = READY,
     p_exitStatus = 0, p_parent = NULL, p_mainThread = NULL, p_memory = True,
     p_files = shape [Some (new_FileDescriptor 8 O_RDWR)] [None], p_cwd = 8, p_umask = 0, p_refCount = 2,
     p_prev = NULL, p_next = NULL\<rparr>"

definition sample_processes :: "(int, addr) QHash" where
  "sample_processes = \<lparr>m_size = 1, m_capacity = 2, m_array = [[], [(1, 8)]]\<rparr>"

definition sample_system :: "vnode_state \<Rightarrow> 'w \<Rightarrow> 'w system" where
  "sample_system vs w = \<lparr>procs = [8 \<mapsto> sample_init], tcbs = [16 \<mapsto> \<lparr>parentProcess = 8, thread_status = Running\<rparr>],
     processes = sample_processes, lastUsedPID = 1, firstProcess = 8,
     thread_list = [16], current = 16, sys_vnodes = vs, sys_world = w\<rparr>"

lemma empty_family [simp]: "nodes Map.empty = Map.empty" "links Map.empty = Map.empty"
  by (simp_all add: nodes_def links_def)

lemma sample_node: "node_of sample_init = \<lparr>n_pid = 1, n_ended = False, n_parent = NULL, n_thread = NULL, n_memory = True\<rparr>"
  by (simp add: node_of_def sample_init_def)

lemma sample_table: "qmap (\<lambda>n. n) sample_processes = [1 \<mapsto> 8]" "qhash_ok (\<lambda>n. n) sample_processes"
proof -
  show "qmap (\<lambda>n. n) sample_processes = [1 \<mapsto> 8]"
  proof
    fix n :: int
    have "nat n mod 2 = 0 \<or> nat n mod 2 = 1" by arith
    then show "qmap (\<lambda>n. n) sample_processes n = [1 \<mapsto> 8] n"
      by (auto simp: qmap_def bucket_def sample_processes_def)
  qed
  show "qhash_ok (\<lambda>n. n) sample_processes"
    by (auto simp: qhash_ok_def bucket_def less_2_cases_iff sample_processes_def)
qed

lemma sample_tree_ok: "tree_ok (sample_system vs w) [] 8"
proof -
  have "holders [8 :: nat \<mapsto> node_of sample_init] n_parent 8 = 0" by (rule holders_none) (auto simp: sample_node NULL_def split: if_splits)
  moreover have "holders [16 :: nat \<mapsto> \<lparr>parentProcess = 8, thread_status = Running\<rparr>] parentProcess 8 = 1"
    using holders_update [of Map.empty "16 :: nat" "Some \<lparr>parentProcess = 8, thread_status = Running\<rparr>" parentProcess 8]
      holders_none [of "Map.empty :: nat \<rightharpoonup> ThreadControlBlock" parentProcess 8] by simp
  ultimately show ?thesis
    unfolding tree_ok_def sample_system_def
    by (auto simp: sample_node list_part_def table_part_def sample_table pid_part_def member_part_def thread_part_def
        owed_def node_ok_def pid_at_def link_of_def NULL_def sample_node split: if_splits) (auto simp: sample_init_def NULL_def)
qed

lemma sample_family_ok: "\<exists>vs. family_ok (\<lambda>v. 0) (sample_system vs w)"
proof -
  from sample_kernel_ok [of w] obtain vs where vs: "kernel_ok (sample_kernel vs 8 w) (\<lambda>p. 0)" by blast
  have "all_refs [8 \<mapsto> sample_init] v = refs (sample_kernel vs 8 w) v" for v
    by (simp add: all_refs_def file_refs_def refs_def table_def sample_kernel_def sample_init_def)
  with vs have "files_ok [8 \<mapsto> sample_init] vs (\<lambda>v. 0)"
    by (auto simp: files_ok_def kernel_ok_def counts_ok_def sample_kernel_def sample_init_def split: if_splits)
  then have "family_ok (\<lambda>v. 0) (sample_system vs w)"
    unfolding family_ok_def
  proof (intro conjI exI)
    show "tree_ok (sample_system vs w) [] 8" by (rule sample_tree_ok)
  qed (simp_all add: sample_system_def)
  then show ?thesis by blast
qed

lemma sample_family: "family_of (sample_system vs w) = \<lparr>members = [1 \<mapsto> \<lparr>m_parent = 0, m_exit = None, m_fds = [0 \<mapsto> new_FileDescriptor 8 O_RDWR]\<rparr>],
     f_last = 1, running = Some 1\<rparr>"
proof (rule family_eqI)
  fix n m
  have "fds (shape [Some (new_FileDescriptor 8 O_RDWR)] [None]) = [0 \<mapsto> new_FileDescriptor 8 O_RDWR]"
    by (auto simp: fds_def fun_eq_iff)
  then have "member_of (nodes (procs (sample_system vs w))) sample_init = \<lparr>m_parent = 0, m_exit = None, m_fds = [0 \<mapsto> new_FileDescriptor 8 O_RDWR]\<rparr>"
    by (simp add: member_of_def sample_system_def sample_init_def pid_at_def nodes_def NULL_def)
  then show "members (family_of (sample_system vs w)) n = Some m \<longleftrightarrow> members \<lparr>members = [1 \<mapsto> \<lparr>m_parent = 0, m_exit = None,
      m_fds = [0 \<mapsto> new_FileDescriptor 8 O_RDWR]\<rparr>], f_last = 1, running = Some 1\<rparr> n = Some m"
    unfolding members_procs [OF sample_tree_ok] by (auto simp: sample_system_def sample_init_def)
qed (simp_all add: sample_system_def current_process_def the_thread_def NULL_def sample_node sample_node)

section \<open>Properties\<close>

text \<open>
  C6: Every sequence of \<open>fork\<close>, \<open>exit\<close>, \<open>waitpid\<close>, \<open>getppid\<close>, calls on descriptors and changes of the running
  process within the limits of \<open>family_pre\<close> never faults and behaves like the same steps on a finite map from
  numbers to members: numbers are not used twice, a child that has ended stays a member with its status until
  its parent has waited for it, \<open>waitpid (-1)\<close> takes the child with the largest number and waits for ever when
  there is none, and a new member gets the descriptors of its parent, without the holes. The state stays well
  formed.
\<close>
theorem processes_refine_family:
  assumes "family_ok r s" and "heap_ok C" and "fresh_alloc new" and "allowed family_pre family_step (family_of s) xs"
  shows "\<exists>rs s'. crun (task_step C new) s xs = Some (rs, s') \<and> arun family_step (family_of s) xs = (rs, family_of s')
    \<and> family_ok r s'"
  using family.run_refines [OF assms(1) allowed_family [OF assms(2-4)]] by blast

definition next_free :: "(addr \<rightharpoonup> 'a) \<Rightarrow> addr" where
  "next_free m = Suc (Max (insert 0 (dom m)))"

lemma next_free: "finite (dom m) \<Longrightarrow> next_free m \<noteq> NULL \<and> m (next_free m) = None"
proof -
  assume fin: "finite (dom m)"
  have "next_free m \<notin> dom m"
  proof
    assume "next_free m \<in> dom m"
    with fin have "next_free m \<le> Max (insert 0 (dom m))" by simp
    then show False by (simp add: next_free_def)
  qed
  then show ?thesis by (auto simp: next_free_def NULL_def)
qed

lemma fresh_next: "fresh_alloc (\<lambda>s. (next_free (procs s), next_free (tcbs s)))"
  by (simp add: fresh_alloc_def next_free)

lemma sample_total: "total_fds (family_of (sample_system vs w)) = 2"
  by (simp add: sample_family total_fds_def)

theorem processes_refine_family_witness:
  "\<exists>C new s s'. crun (task_step C new) (s :: unit system) [Fork, Switch 2, Getppid, Exit 7, Switch 1, Wait_any]
     = Some ([Some (2, None), Some (0, None), Some (1, None), Some (0, None), Some (0, None), Some (2, Some 7)], s')"
proof -
  obtain vs where ok: "family_ok (\<lambda>v. 0) (sample_system vs ())" using sample_family_ok [of "()"] by (elim exE)
  let ?C = "undefined\<lparr>heap_ok := True\<rparr> :: unit fs_calls" and ?new = "\<lambda>s :: unit system. (next_free (procs s), next_free (tcbs s))"
  let ?xs = "[Fork, Switch 2, Getppid, Exit 7, Switch 1, Wait_any]" and ?s = "sample_system vs ()"
  have C: "heap_ok ?C" by simp
  have kids: "ended_children \<lparr>members = [1 \<mapsto> \<lparr>m_parent = 0, m_exit = None, m_fds = u\<rparr>,
      2 \<mapsto> \<lparr>m_parent = 1, m_exit = Some e, m_fds = t\<rparr>], f_last = l, running = R\<rparr> 1 = {2}" for u e t l R
    by (auto simp: ended_children_def split: if_splits)
  have a: "allowed family_pre family_step (family_of ?s) ?xs"
    using sample_total [of vs "()"] unfolding sample_family by simp
  have r: "fst (arun family_step (family_of ?s) ?xs)
      = [Some (2, None), Some (0, None), Some (1, None), Some (0, None), Some (0, None), Some (2, Some 7)]"
    unfolding sample_family by (simp add: number_result_def reap_def kids)
  from processes_refine_family [OF ok C fresh_next a] obtain rs s' where
    "crun (task_step ?C ?new) ?s ?xs = Some (rs, s')" "arun family_step (family_of ?s) ?xs = (rs, family_of s')" by blast
  with r show ?thesis by (intro exI [of _ ?C] exI [of _ ?new] exI [of _ ?s] exI [of _ s']) simp
qed

lemma family_run_ok:
  assumes "family_ok r s" and "heap_ok C" and "fresh_alloc new" and "allowed family_pre family_step (family_of s) xs"
    and "crun (task_step C new) s xs = Some (rs, s')"
  obtains qs i where "tree_ok s' qs i" "files_ok (procs s') (sys_vnodes s') r"
  using family.run_refines [OF assms(1) allowed_family [OF assms(2-4)]] assms(5) that by (auto simp: family_ok_def)

text \<open>
  C7: After every such sequence each process counts exactly the pointers to it: from the list and the table
  (one for the first process, whose thread was attached without a reference, and three for the others, none
  after it was reaped), from its children and from its threads; so a process with no pointer to it is gone, and
  every pointer of a thread, of a child and of the table leads to a live process, to one with a smaller number in
  the case of a parent. The count of each vnode is what others hold plus the descriptors and directories of the
  processes.
\<close>
theorem process_pointers_stay_counted:
  assumes "family_ok r s" and "heap_ok C" and "fresh_alloc new" and "allowed family_pre family_step (family_of s) xs"
    and "crun (task_step C new) s xs = Some (rs, s')"
  shows "(\<exists>qs i. \<forall>p x. procs s' p = Some x \<longrightarrow> 0 < p_refCount x \<and> p_refCount x = (if p = i then 1 else if p \<in> set qs then 3 else 0)
        + holders (nodes (procs s')) n_parent p + holders (tcbs s') parentProcess p)
    \<and> (\<forall>t u. tcbs s' t = Some u \<longrightarrow> parentProcess u \<noteq> NULL \<longrightarrow> procs s' (parentProcess u) \<noteq> None)
    \<and> (\<forall>p x. procs s' p = Some x \<longrightarrow> p_parent x \<noteq> NULL \<longrightarrow> (\<exists>y. procs s' (p_parent x) = Some y \<and> pid y < pid x))
    \<and> (\<forall>n p. 0 \<le> n \<longrightarrow> process_of s' n = Some p \<longrightarrow> p \<noteq> NULL \<longrightarrow> (\<exists>x. procs s' p = Some x \<and> pid x = n))
    \<and> (\<forall>v n. vheap (sys_vnodes s') v = Some n \<longrightarrow> refCount n = r v + all_refs (procs s') v)"
proof -
  from family_run_ok [OF assms] obtain qs i where ok: "tree_ok s' qs i" and fok: "files_ok (procs s') (sys_vnodes s') r" .
  let ?K = "nodes (procs s')"
  have parts: "table_part ?K (processes s') qs i" "member_part ?K (tcbs s') qs i" "thread_part ?K (tcbs s') (thread_list s') (current s') i"
    using ok by (simp_all add: tree_ok_def)
  have live: "?K p \<noteq> None \<longleftrightarrow> procs s' p \<noteq> None" for p by (simp add: nodes_def)
  show ?thesis
  proof (intro conjI)
    show "\<exists>qs i. \<forall>p x. procs s' p = Some x \<longrightarrow> 0 < p_refCount x \<and> p_refCount x = (if p = i then 1 else if p \<in> set qs then 3 else 0)
        + holders ?K n_parent p + holders (tcbs s') parentProcess p"
      using owed_live [OF ok] unfolding owed_def by (intro exI [of _ qs] exI [of _ i]) simp
    show "\<forall>t u. tcbs s' t = Some u \<longrightarrow> parentProcess u \<noteq> NULL \<longrightarrow> procs s' (parentProcess u) \<noteq> None"
      using parts(3) live unfolding thread_part_def by metis
    show "\<forall>p x. procs s' p = Some x \<longrightarrow> p_parent x \<noteq> NULL \<longrightarrow> (\<exists>y. procs s' (p_parent x) = Some y \<and> pid y < pid x)"
    proof (intro allI impI)
      fix p x assume "procs s' p = Some x" "p_parent x \<noteq> NULL"
      moreover from this have "node_ok ?K (tcbs s') qs i p (node_of x)" using parts(2) by (auto simp: member_part_def nodes_Some)
      ultimately show "\<exists>y. procs s' (p_parent x) = Some y \<and> pid y < pid x" by (auto simp: node_ok_def nodes_Some)
    qed
    show "\<forall>n p. 0 \<le> n \<longrightarrow> process_of s' n = Some p \<longrightarrow> p \<noteq> NULL \<longrightarrow> (\<exists>x. procs s' p = Some x \<and> pid x = n)"
    proof (intro allI impI)
      fix n p assume n: "0 \<le> n" "process_of s' n = Some p" "p \<noteq> NULL"
      with process_of_ok [OF ok n(1)] have "qmap (\<lambda>n. n) (processes s') n = Some p" by (auto split: option.splits)
      with parts(1) have "map_option n_pid (?K p) = Some n" by (simp add: table_part_def)
      then show "\<exists>x. procs s' p = Some x \<and> pid x = n" by (auto simp: nodes_Some)
    qed
    show "\<forall>v n. vheap (sys_vnodes s') v = Some n \<longrightarrow> refCount n = r v + all_refs (procs s') v"
      using fok vnodes_okD(2) by (fastforce simp: files_ok_def)
  qed
qed

theorem process_pointers_stay_counted_witness:
  "\<exists>C new s rs s'. crun (task_step C new) (s :: unit system) [Fork] = Some (rs, s')
    \<and> (\<forall>t u. tcbs s' t = Some u \<longrightarrow> parentProcess u \<noteq> NULL \<longrightarrow> procs s' (parentProcess u) \<noteq> None)"
proof -
  obtain vs where ok: "family_ok (\<lambda>v. 0) (sample_system vs ())" using sample_family_ok [of "()"] by (elim exE)
  let ?C = "undefined\<lparr>heap_ok := True\<rparr> :: unit fs_calls" and ?new = "\<lambda>s :: unit system. (next_free (procs s), next_free (tcbs s))"
  let ?s = "sample_system vs ()"
  have C: "heap_ok ?C" by simp
  have a: "allowed family_pre family_step (family_of ?s) [Fork]"
    using sample_total [of vs "()"] unfolding sample_family by simp
  from family.run_refines [OF ok allowed_family [OF C fresh_next a]] obtain rs s' where r: "crun (task_step ?C ?new) ?s [Fork] = Some (rs, s')" by blast
  from process_pointers_stay_counted [OF ok C fresh_next a r] r show ?thesis
    by (intro exI [of _ ?C] exI [of _ ?new] exI [of _ ?s] exI [of _ rs] exI [of _ s']) simp
qed

lemma compact_dom: "finite (dom t) \<Longrightarrow> dom (compact t) = {..< card (dom t)}"
proof -
  assume fin: "finite (dom t)"
  have "t (sorted_list_of_set (dom t) ! n) \<noteq> None" if "n < card (dom t)" for n
  proof -
    have "sorted_list_of_set (dom t) ! n \<in> dom t" using fin that nth_mem [of n "sorted_list_of_set (dom t)"] by simp
    then show ?thesis by blast
  qed
  then show ?thesis by (auto simp: compact_def split: if_splits)
qed

lemma compact_same: "dom t = {..< k} \<Longrightarrow> compact t = t"
proof
  fix n assume d: "dom t = {..< k}"
  then have "t n = None" if "\<not> n < k" using that by blast
  with d show "compact t n = t n" by (auto simp: compact_def lessThan_atLeast0)
qed

text \<open>
  C30: \<open>fork\<close> gives the child the next number and copies of the open descriptors of the parent, but it numbers
  them from 0 without holes: descriptor \<open>n\<close> of the child is the \<open>n\<close>-th open one of the parent. So the child has
  the descriptors of its parent just when the parent has no hole below an open descriptor.
\<close>
theorem fork_renumbers_descriptors:
  assumes "family_ok r s" and "heap_ok C" and "fresh_alloc new" and "family_pre (family_of s) Fork"
    and "running (family_of s) = Some me" and "members (family_of s) me = Some m"
  shows "\<exists>s' c. task_step C new s Fork = Some (number_result (lastUsedPID s + 1), s') \<and> members (family_of s') me = Some m
    \<and> members (family_of s') (lastUsedPID s + 1) = Some c \<and> m_parent c = me \<and> dom (m_fds c) = {..< card (dom (m_fds m))}
    \<and> (\<forall>n < card (dom (m_fds m)). m_fds c n = m_fds m (sorted_list_of_set (dom (m_fds m)) ! n))
    \<and> (m_fds c = m_fds m \<longleftrightarrow> dom (m_fds m) = {..< card (dom (m_fds m))})"
proof -
  from task_step_refines [OF assms(1,4,2,3)] obtain res s' where s': "task_step C new s Fork = Some (res, s')"
    "family_step (family_of s) Fork = (res, family_of s')" by blast
  from assms(1) obtain qs i where ok: "tree_ok s qs i" by (auto simp: family_ok_def)
  obtain p x where p: "procs s p = Some x" "pid x = me" "m = member_of (nodes (procs s)) x"
    using assms(6) unfolding members_procs [OF ok] by blast
  have "nodes (procs s) p = Some (node_of x)" using p(1) by (simp add: nodes_def)
  then have "pid x \<le> lastUsedPID s" using ok unfolding tree_ok_def pid_part_def by force
  then have ne: "me \<noteq> lastUsedPID s + 1" using p(2) by simp
  have "dom (fds (p_files x)) \<subseteq> {..< length (elements (p_files x))}" by (auto simp: fds_def split: if_splits)
  then have fin: "finite (dom (m_fds m))" using p(3) finite_subset by (auto simp: member_of_def)
  let ?c = "\<lparr>m_parent = me, m_exit = None, m_fds = compact (m_fds m)\<rparr>"
  have fam: "res = number_result (lastUsedPID s + 1)" "members (family_of s') = (members (family_of s))(lastUsedPID s + 1 \<mapsto> ?c)"
    using s'(2) assms(5,6) by (auto dest!: arg_cong [where f = members] simp: family_fields(1) [symmetric] simp del: family_fields)
  have "compact (m_fds m) = m_fds m \<longleftrightarrow> dom (m_fds m) = {..< card (dom (m_fds m))}"
    using compact_dom [OF fin] compact_same by metis
  then show ?thesis using s'(1) fam ne assms(6) compact_dom [OF fin]
    by (intro exI [of _ s'] exI [of _ ?c]) (simp add: compact_def)
qed

theorem fork_renumbers_descriptors_witness:
  "\<exists>C new s s' c. task_step C new (s :: unit system) Fork = Some (number_result 2, s')
    \<and> members (family_of s') 2 = Some c \<and> dom (m_fds c) = {0}"
proof -
  obtain vs where ok: "family_ok (\<lambda>v. 0) (sample_system vs ())" using sample_family_ok [of "()"] by (elim exE)
  let ?C = "undefined\<lparr>heap_ok := True\<rparr> :: unit fs_calls" and ?new = "\<lambda>s :: unit system. (next_free (procs s), next_free (tcbs s))"
  let ?s = "sample_system vs ()" and ?m = "\<lparr>m_parent = 0, m_exit = None, m_fds = [0 \<mapsto> new_FileDescriptor 8 O_RDWR]\<rparr>"
  have C: "heap_ok ?C" by simp
  have a: "family_pre (family_of ?s) Fork" using sample_total [of vs "()"] unfolding sample_family by simp
  have b: "running (family_of ?s) = Some 1" "members (family_of ?s) 1 = Some ?m" unfolding sample_family by simp_all
  from fork_renumbers_descriptors [OF ok C fresh_next a b] obtain s' c where
    "task_step ?C ?new ?s Fork = Some (number_result (lastUsedPID ?s + 1), s')"
    "members (family_of s') (lastUsedPID ?s + 1) = Some c" "dom (m_fds c) = {..< card (dom (m_fds ?m))}" by blast
  moreover have "lastUsedPID ?s = 1" by (simp add: sample_system_def)
  moreover have "{..< 1 :: nat} = {0}" by auto
  ultimately show ?thesis
    by (intro exI [of _ ?C] exI [of _ ?new] exI [of _ ?s] exI [of _ s'] exI [of _ c]) simp
qed

end
