(* ===== verification/Processes_Kill.thy ===== *)
theory Processes_Kill
  imports Processes_Properties
begin

text \<open>
  \<open>kill\<close>: the process that is killed loses its memory and its status changes, but it is the caller whose
  descriptors are closed; and the requests that fault.
\<close>

section \<open>The descriptors that are closed\<close>

text \<open>Closing a number that is not open changes nothing.\<close>

lemma close_any:
  assumes "kernel_ok k r"
  shows "\<exists>res k'. FSUAPI_close C k (int j) = Some (res, k') \<and> kernel_ok k' r \<and> fdmap k' = (fdmap k)(j := None) \<and> same_rest k k'"
proof (cases "fdmap k j")
  case None
  then have "\<not> open_fd (fdmap k) (int j)" by (simp add: open_fd_def)
  then have "FSUAPI_close C k (int j) = Some (- errno_code EBADF, k)"
    by (simp add: FSUAPI_close_def closePB_def closed_descriptor [OF assms]) (simp add: only_def)
  with None assms show ?thesis by (auto simp: fun_eq_iff)
next
  case (Some f)
  from close_ok [OF assms this, of C] show ?thesis by blast
qed

text \<open>
  While the loop runs over the descriptors of a process \<open>t\<close> that is not the current one, these stay as they are,
  and the current process \<open>p\<close> loses the numbers that are open in \<open>t\<close>.
\<close>

lemma closeAllFiles_loop_other:
  fixes s :: "'w system"
  assumes "current_process s = Some p" and "p \<noteq> NULL" and "procs s p = Some x" and "p_status x \<noteq> TERMINATED"
    and "files_ok (procs s) (sys_vnodes s) r" and "finite (dom (procs s))"
    and "procs s t = Some y" and "t \<noteq> p" and "t \<noteq> NULL" and "j \<le> length (elements (p_files y))"
  shows "\<exists>k :: 'w kernel. closeAllFiles_loop C s t 0 (int j)
      = Some (s\<lparr>procs := (procs s)(p \<mapsto> files_back x k), sys_vnodes := vnode_table k, sys_world := sys_world s\<rparr>)
    \<and> files_ok ((procs s)(p \<mapsto> files_back x k)) (vnode_table k) r
    \<and> fdmap k = (\<lambda>n. if j \<le> n \<and> fds (p_files y) n \<noteq> None then None else fds (p_files x) n)"
  using assms
proof (induction "length (elements (p_files y)) - j" arbitrary: j s x)
  case 0
  let ?k = "kernel_of s x"
  have "qlist_ok (p_files y)" using 0 by (auto simp: files_ok_def)
  then obtain junk where l: "p_files y = shape (elements (p_files y)) junk" by (auto elim: qlist_okE)
  have "QList_size (p_files y) = int (length (elements (p_files y)))" by (subst l) simp
  moreover have j: "length (elements (p_files y)) = j" using 0 by simp
  moreover have "the_proc s t = Some y" using 0 by (simp add: the_proc_def)
  ultimately have "closeAllFiles_loop C s t 0 (int j) = Some s" by (subst closeAllFiles_loop.simps) simp
  moreover have "files_back x ?k = x" "(procs s)(p \<mapsto> x) = procs s" using 0 by (simp_all add: files_back_def kernel_of_def map_upd_triv)
  moreover have "fdmap ?k = (\<lambda>n. if j \<le> n \<and> fds (p_files y) n \<noteq> None then None else fds (p_files x) n)"
    using j by (auto simp: fdmap_kernel_of fds_def fun_eq_iff)
  ultimately show ?case using 0 by (intro exI [of _ ?k]) (auto simp: kernel_of_def)
next
  case (Suc n)
  let ?ys = "elements (p_files y)"
  have "qlist_ok (p_files y)" using Suc.prems by (auto simp: files_ok_def)
  then obtain junk where l: "p_files y = shape ?ys junk" by (auto elim: qlist_okE)
  have j: "j < length ?ys" and n: "n = length ?ys - Suc j" and le: "Suc j \<le> length ?ys" using Suc.hyps(2) by simp_all
  have size: "int j < QList_size (p_files y)" using j by (subst l) simp
  have ati: "at (p_files y) (int j) = Some (?ys ! j)" by (subst l) (rule at_shape [OF j])
  have pt: "the_proc s t = Some y" and px: "the_proc s p = Some x" using Suc.prems by (simp_all add: the_proc_def)
  have fj: "fds (p_files y) j = ?ys ! j" using j by (simp add: fds_def)
  show ?case
  proof (cases "?ys ! j")
    case None
    have e: "j \<le> m \<and> fds (p_files y) m \<noteq> None \<longleftrightarrow> Suc j \<le> m \<and> fds (p_files y) m \<noteq> None" for m
      using fj None by (cases "m = j") auto
    have "closeAllFiles_loop C s t 0 (int j) = closeAllFiles_loop C s t 0 (int (Suc j))"
      using size pt ati None by (subst closeAllFiles_loop.simps) (simp add: add.commute)
    with Suc.hyps(1) [OF n Suc.prems(1-9) le] show ?thesis unfolding e by simp
  next
    case (Some f)
    let ?r = "\<lambda>v. r v + all_refs ((procs s)(p := None)) v"
    have kok: "kernel_ok (kernel_of s x) ?r" by (rule kernel_of_ok [OF Suc.prems(5,6,3,4)])
    from close_any [OF this, of C j] obtain res k where k: "FSUAPI_close C (kernel_of s x) (int j) = Some (res, k)" "kernel_ok k ?r"
      "fdmap k = (fdmap (kernel_of s x))(j := None)" "same_rest (kernel_of s x) k" by blast
    let ?x = "files_back x k" and ?s = "s\<lparr>procs := (procs s)(p \<mapsto> files_back x k), sys_vnodes := vnode_table k, sys_world := world k\<rparr>"
    have w: "world k = sys_world s" using k(4) by (simp add: same_rest_def kernel_of_def)
    have call: "file_call s (\<lambda>k. FSUAPI_close C k (int j)) = Some (res, ?s)"
      using k(1) Suc.prems(1) px by (simp add: file_call_def)
    have prems: "current_process ?s = Some p" "procs ?s p = Some ?x" "p_status ?x \<noteq> TERMINATED" "finite (dom (procs ?s))"
      "procs ?s t = Some y"
      using Suc.prems by (auto simp: current_process_def the_thread_def split: if_splits)
    have fok: "files_ok (procs ?s) (sys_vnodes ?s) r"
      using files_back_ok [OF Suc.prems(5,6,3,4) k(2)] by simp
    from Suc.hyps(1) [OF n prems(1) Suc.prems(2) prems(2,3) fok prems(4,5) Suc.prems(8,9) le] obtain k' :: "'w kernel" where
      k': "closeAllFiles_loop C ?s t 0 (int (Suc j))
        = Some (?s\<lparr>procs := (procs ?s)(p \<mapsto> files_back ?x k'), sys_vnodes := vnode_table k', sys_world := sys_world ?s\<rparr>)"
      "files_ok ((procs ?s)(p \<mapsto> files_back ?x k')) (vnode_table k') r"
      "fdmap k' = (\<lambda>n. if Suc j \<le> n \<and> fds (p_files y) n \<noteq> None then None else fds (p_files ?x) n)"
      by blast
    have "fds (p_files ?x) = (fds (p_files x))(j := None)" using k(3) unfolding fdmap_kernel_of fdmap_back [of k x] .
    then have m: "fdmap k' = (\<lambda>n. if j \<le> n \<and> fds (p_files y) n \<noteq> None then None else fds (p_files x) n)"
      unfolding k'(3) using fj Some by (auto simp: fun_eq_iff)
    have "closeAllFiles_loop C s t 0 (int j) = closeAllFiles_loop C ?s t 0 (int (Suc j))"
      using size pt ati Some call by (subst closeAllFiles_loop.simps) (simp add: add.commute)
    with k'(1,2) m w show ?thesis by (intro exI [of _ k']) simp
  qed
qed

text \<open>The directory of a process that ends, whatever its descriptors.\<close>

lemma put_directory:
  assumes "files_ok P vs r" and "finite (dom P)" and "P p = Some x" and "p_status x \<noteq> TERMINATED"
    and "p_files y = p_files x" "p_status y = TERMINATED"
  shows "\<exists>vs'. PutVnode (fs :: addr \<Rightarrow> addr) vs (p_cwd x) = Some vs' \<and> vnodes_ok vs' (\<lambda>v. r v + all_refs (P(p \<mapsto> y)) v)"
proof -
  have e: "all_refs P v = all_refs (P(p \<mapsto> y)) v + of_bool (v = p_cwd x)" for v
    using all_refs_update [OF assms(2), of p "Some y" v] assms(3-6) by (auto simp: file_refs_def)
  have "(\<lambda>v. r v + all_refs P v) = inc (\<lambda>v. r v + all_refs (P(p \<mapsto> y)) v) (p_cwd x)"
    unfolding e inc_def by (rule ext) simp
  with assms(1) have "vnodes_ok vs (inc (\<lambda>v. r v + all_refs (P(p \<mapsto> y)) v) (p_cwd x))" by (simp add: files_ok_def)
  from put_held [OF this, of fs] show ?thesis by blast
qed

section \<open>Killing another process\<close>

lemma all_refs_other: "finite (dom P) \<Longrightarrow> file_refs a = file_refs b \<Longrightarrow> all_refs (P(t \<mapsto> a)) v = all_refs (P(t \<mapsto> b)) v"
  using all_refs_update [of P t "Some a" v] all_refs_update [of P t "Some b" v] by simp

text \<open>The fields of a process that was killed.\<close>

abbreviation killed :: "int \<Rightarrow> ProcessControlBlock \<Rightarrow> ProcessControlBlock" where
  "killed e y \<equiv> y\<lparr>p_memory := False, p_exitStatus := e, p_status := TERMINATED\<rparr>"

lemma terminate_other:
  fixes s :: "'w system"
  assumes cur: "current_process s = Some p" "p \<noteq> NULL" "procs s p = Some x" "p_status x \<noteq> TERMINATED"
    and fok: "files_ok (procs s) (sys_vnodes s) r" and fin: "finite (dom (procs s))"
    and t: "procs s t = Some y" "t \<noteq> p" "t \<noteq> NULL" "p_status y \<noteq> TERMINATED" "pid y \<noteq> 1" "p_memory y" "0 < p_refCount y"
    and u: "the_thread s u = Some c" "parentProcess c = t"
  shows "\<exists>(k :: 'w kernel) vs. terminateProcess C s u e
      = Some (0, s\<lparr>procs := (procs s)(p \<mapsto> files_back x k, t \<mapsto> killed e y), sys_vnodes := vs\<rparr>)
    \<and> fdmap k = (\<lambda>n. if fds (p_files y) n \<noteq> None then None else fds (p_files x) n)
    \<and> vnodes_ok vs (\<lambda>v. r v + all_refs ((procs s)(p \<mapsto> files_back x k, t \<mapsto> killed e y)) v)"
proof -
  let ?y1 = "y\<lparr>p_refCount := p_refCount y + 1\<rparr>" and ?y2 = "y\<lparr>p_refCount := p_refCount y + 1, p_memory := False\<rparr>"
  let ?s1 = "s\<lparr>procs := (procs s)(t \<mapsto> ?y2)\<rparr>"
  have s1: "current_process ?s1 = Some p" "procs ?s1 p = Some x" "procs ?s1 t = Some ?y2" "finite (dom (procs ?s1))"
    using cur t(2) fin by (auto simp: current_process_def the_thread_def split: if_splits)
  have f1: "files_ok (procs ?s1) (sys_vnodes ?s1) r" using files_ok_same [OF fok fin t(1), of ?y2] by simp
  from closeAllFiles_loop_other [OF s1(1) cur(2) s1(2) cur(4) f1 s1(4,3) t(2,3), of 0 C] obtain k :: "'w kernel" where
    loop: "closeAllFiles C ?s1 t 0 = Some (?s1\<lparr>procs := (procs ?s1)(p \<mapsto> files_back x k), sys_vnodes := vnode_table k, sys_world := sys_world ?s1\<rparr>)"
    "files_ok ((procs ?s1)(p \<mapsto> files_back x k)) (vnode_table k) r"
    "fdmap k = (\<lambda>n. if fds (p_files y) n \<noteq> None then None else fds (p_files x) n)"
    by (auto simp: closeAllFiles_def)
  let ?P = "(procs ?s1)(p \<mapsto> files_back x k)"
  have P: "finite (dom ?P)" "?P t = Some ?y2" using s1 t(2) by simp_all
  have Pt: "?P(t \<mapsto> killed e y) = (procs s)(p \<mapsto> files_back x k, t \<mapsto> killed e y)"
    using t(2) by (auto simp: fun_eq_iff)
  have "\<exists>vs. PutVnode (fs_of (vfs C (sys_world s))) (vnode_table k) (p_cwd y) = Some vs
      \<and> vnodes_ok vs (\<lambda>v. r v + all_refs (?P(t \<mapsto> killed e y)) v)"
    using put_directory [OF loop(2) P, of "killed e y" "fs_of (vfs C (sys_world s))"] t(4) unfolding Pt by simp
  then obtain vs where vs: "PutVnode (fs_of (vfs C (sys_world s))) (vnode_table k) (p_cwd y) = Some vs"
    "vnodes_ok vs (\<lambda>v. r v + all_refs (?P(t \<mapsto> killed e y)) v)" by (elim exE conjE)
  have "terminateProcess C s u e = Some (0, s\<lparr>procs := (procs s)(p \<mapsto> files_back x k, t \<mapsto> killed e y), sys_vnodes := vs\<rparr>)"
  proof -
    have a: "referenceProcess s t = Some (s\<lparr>procs := (procs s)(t \<mapsto> ?y1)\<rparr>)"
      using t by (simp add: referenceProcess_def set_proc_def the_proc_def)
    have b: "set_proc (s\<lparr>procs := (procs s)(t \<mapsto> ?y1)\<rparr>) t (\<lambda>x. x\<lparr>p_memory := False\<rparr>) = Some ?s1"
      using t by (simp add: set_proc_def the_proc_def)
    let ?s2 = "s\<lparr>procs := ?P, sys_vnodes := vnode_table k\<rparr>"
    have c: "closeAllFiles C ?s1 t 0 = Some ?s2" using loop(1) by simp
    have d: "put_vnode C ?s2 (p_cwd ?y2) = Some (s\<lparr>procs := ?P, sys_vnodes := vs\<rparr>)" using vs(1) by (simp add: put_vnode_def)
    let ?y3 = "y\<lparr>p_refCount := p_refCount y + 1, p_memory := False, p_exitStatus := e, p_status := TERMINATED\<rparr>"
    have f: "set_proc (s\<lparr>procs := ?P, sys_vnodes := vs\<rparr>) t (\<lambda>x. x\<lparr>p_exitStatus := e, p_status := TERMINATED\<rparr>)
        = Some (s\<lparr>procs := ?P(t \<mapsto> ?y3), sys_vnodes := vs\<rparr>)"
      using t P(2) by (simp add: set_proc_def the_proc_def)
    have y: "?y3\<lparr>p_refCount := p_refCount y\<rparr> = killed e y" by simp
    have g: "putProcess (s\<lparr>procs := ?P(t \<mapsto> ?y3), sys_vnodes := vs\<rparr>) t = Some (s\<lparr>procs := ?P(t \<mapsto> killed e y), sys_vnodes := vs\<rparr>)"
      using t(3,7) by (simp add: putProcess_def set_proc_def the_proc_def)
    have h: "the_proc (s\<lparr>procs := (procs s)(t \<mapsto> ?y1)\<rparr>) t = Some ?y1" "the_proc ?s2 t = Some ?y2"
      using t(3) P(2) by (simp_all add: the_proc_def)
    show ?thesis using a b c d f g h u t(5,6) unfolding terminateProcess_def Let_def Pt [symmetric] by simp
  qed
  then show ?thesis using loop(3) vs(2) unfolding Pt by (intro exI [of _ k] exI [of _ vs]) simp
qed

text \<open>A process of the list is found under its number.\<close>

lemma find_process:
  assumes ok: "tree_ok s qs i" and t: "procs s t = Some y" "t \<in> set (qs @ [i])"
  shows "process_of s (pid y) = Some t" "t \<noteq> NULL"
proof -
  have n: "nodes (procs s) t = Some (node_of y)" using t(1) by (simp add: nodes_def)
  have parts: "table_part (nodes (procs s)) (processes s) qs i" "pid_part (nodes (procs s)) (lastUsedPID s) qs i"
    "member_part (nodes (procs s)) (tcbs s) qs i" using ok by (simp_all add: tree_ok_def)
  have "1 \<le> pid y" using parts(2) n unfolding pid_part_def by force
  moreover have "qmap (\<lambda>n. n) (processes s) (pid y) = Some t" using parts(1) n t(2) by (simp add: table_part_def)
  ultimately show "process_of s (pid y) = Some t" using process_of_ok [OF ok, of "pid y"] by simp
  show "t \<noteq> NULL" using parts(3) n by (auto simp: member_part_def)
qed

text \<open>A process that has not ended and is not the first one has a thread and its memory.\<close>

lemma live_process:
  assumes ok: "tree_ok s qs i" and t: "procs s t = Some y" "p_status y \<noteq> TERMINATED" "pid y \<noteq> 1"
  shows "t \<in> set (qs @ [i])" "p_memory y" "\<exists>c. the_thread s (p_mainThread y) = Some c \<and> parentProcess c = t"
proof -
  have n: "nodes (procs s) t = Some (node_of y)" using t(1) by (simp add: nodes_def)
  have parts: "pid_part (nodes (procs s)) (lastUsedPID s) qs i"
    "member_part (nodes (procs s)) (tcbs s) qs i" "tcbs s NULL = None" using ok by (simp_all add: tree_ok_def thread_part_def)
  have k: "node_ok (nodes (procs s)) (tcbs s) qs i t (node_of y)" using parts(2) n by (simp add: member_part_def)
  show "t \<in> set (qs @ [i])" "p_memory y" using k t(2) unfolding node_ok_def by auto
  have "t \<noteq> i" using parts(1) n t(3) by (auto simp: pid_part_def pid_at_def)
  with k have th: "tcbs s (p_mainThread y) \<noteq> None"
    "\<And>c. tcbs s (p_mainThread y) = Some c \<Longrightarrow> parentProcess c = t \<longleftrightarrow> p_status y \<noteq> TERMINATED"
    by (simp_all add: node_ok_def)
  then obtain c where c: "tcbs s (p_mainThread y) = Some c" by blast
  moreover from this parts(3) have "p_mainThread y \<noteq> NULL" by auto
  ultimately show "\<exists>c. the_thread s (p_mainThread y) = Some c \<and> parentProcess c = t" using th(2) [OF c] t(2)
    by (simp add: the_thread_def)
qed

text \<open>The first process of theory Processes\_Properties after a \<open>fork\<close>.\<close>

lemma sample_fork:
  obtains s1 :: "unit system" and x y where "tree_ok s1 [9] 8" "files_ok (procs s1) (sys_vnodes s1) (\<lambda>v. 0)"
    "current_process s1 = Some 8" "procs s1 8 = Some x" "p_uid x = 0" "fds (p_files x) = [0 \<mapsto> new_FileDescriptor 8 O_RDWR]"
    "procs s1 9 = Some y" "pid y = 2" "p_status y \<noteq> TERMINATED" "fds (p_files y) = [0 \<mapsto> new_FileDescriptor 8 O_RDWR]"
    "tcbs s1 = [16 \<mapsto> \<lparr>parentProcess = 8, thread_status = Running\<rparr>, 17 \<mapsto> \<lparr>parentProcess = 9, thread_status = Running\<rparr>]"
proof -
  obtain vs where f: "family_ok (\<lambda>v. 0) (sample_system vs ())" using sample_family_ok [of "()"] by (elim exE)
  let ?C = "undefined\<lparr>heap_ok := True\<rparr> :: unit fs_calls" and ?s = "sample_system vs ()"
  have ok: "tree_ok ?s [] 8" and fok: "files_ok (procs ?s) (sys_vnodes ?s) (\<lambda>v. 0)"
    using f sample_tree_ok by (auto simp: family_ok_def)
  have me: "current_process ?s = Some 8" "procs ?s 8 = Some sample_init" "p_status sample_init \<noteq> TERMINATED"
    by (simp_all add: sample_system_def current_process_def the_thread_def NULL_def) (simp add: sample_init_def)
  have init: "fds (p_files sample_init) = [0 \<mapsto> new_FileDescriptor 8 O_RDWR]" "p_uid sample_init = 0"
    by (auto simp: sample_init_def fds_def fun_eq_iff)
  have new: "9 \<noteq> NULL" "procs ?s 9 = None" "17 \<noteq> NULL" "tcbs ?s 17 = None" by (simp_all add: sample_system_def NULL_def)
  have lim: "0 + all_refs (procs ?s) v + card (dom (fds (p_files sample_init))) < 2 ^ 31" for v
  proof -
    have "all_refs (procs ?s) v \<le> 2"
      using file_refs_bound [of sample_init v] unfolding init(1) by (simp add: all_refs_def sample_system_def)
    then show ?thesis unfolding init(1) by simp
  qed
  have last: "lastUsedPID ?s < 2 ^ 31 - 1" "lastUsedPID ?s + 1 = 2" by (simp_all add: sample_system_def)
  let ?S = "\<lambda>P q v. ?s\<lparr>procs := P, processes := q, lastUsedPID := lastUsedPID ?s + 1, firstProcess := 9,
    tcbs := (tcbs ?s)(17 \<mapsto> \<lparr>parentProcess = 9, thread_status = Running\<rparr>), thread_list := thread_list ?s @ [17], sys_vnodes := v\<rparr>"
  have cur: "current_process (?S P q v) = Some 8" for P q v
    by (simp add: sample_system_def current_process_def the_thread_def NULL_def)
  from fork_ok [OF ok fok me new lim _ last(1), of ?C] obtain P q v z where
    S: "tree_ok (?S P q v) [9] 8" "files_ok P v (\<lambda>v. 0)" "bodies P = (bodies (procs ?s))(9 \<mapsto> z)" "pid z = 2"
    "p_status z \<noteq> TERMINATED" "fds (p_files z) = compact (fds (p_files sample_init))"
    unfolding last(2) by auto
  define s1 where "s1 = ?S P q v"
  have s1: "tree_ok s1 [9] 8" "files_ok (procs s1) (sys_vnodes s1) (\<lambda>v. 0)" "bodies (procs s1) = (bodies (procs ?s))(9 \<mapsto> z)"
    "pid z = 2" "p_status z \<noteq> TERMINATED" "fds (p_files z) = compact (fds (p_files sample_init))"
    "current_process s1 = Some 8" "tcbs s1 = (tcbs ?s)(17 \<mapsto> \<lparr>parentProcess = 9, thread_status = Running\<rparr>)"
    using S cur unfolding s1_def by simp_all
  have "bodies (procs s1) 8 = bodies (procs ?s) 8" "bodies (procs s1) 9 = Some z" using s1(3) by simp_all
  then obtain x y where e: "procs s1 8 = Some x" "procs s1 9 = Some y"
    "x\<lparr>p_prev := 0, p_next := 0, p_refCount := 0\<rparr> = sample_init\<lparr>p_prev := 0, p_next := 0, p_refCount := 0\<rparr>"
    "z = y\<lparr>p_prev := 0, p_next := 0, p_refCount := 0\<rparr>"
    using me(2) by (auto simp: bodies_def)
  have x: "procs s1 8 = Some x" "p_uid x = 0" "p_files x = p_files sample_init"
    using e(1) arg_cong [OF e(3), of p_uid] arg_cong [OF e(3), of p_files] init(2) by simp_all
  have y: "procs s1 9 = Some y" "pid y = 2" "p_status y \<noteq> TERMINATED" "p_files y = p_files z"
    using e(2,4) s1(4,5) by simp_all
  have "compact [0 \<mapsto> new_FileDescriptor 8 O_RDWR] = [0 \<mapsto> new_FileDescriptor 8 O_RDWR]"
    by (rule compact_same [of _ 1]) auto
  then have "fds (p_files y) = [0 \<mapsto> new_FileDescriptor 8 O_RDWR]" "fds (p_files x) = [0 \<mapsto> new_FileDescriptor 8 O_RDWR]"
    using y(4) x(3) s1(6) init(1) by simp_all
  moreover have "tcbs s1 = [16 \<mapsto> \<lparr>parentProcess = 8, thread_status = Running\<rparr>, 17 \<mapsto> \<lparr>parentProcess = 9, thread_status = Running\<rparr>]"
    using s1(8) by (simp add: sample_system_def)
  ultimately show thesis using that s1(1,2,7) x(1,2) y(1-3) by blast
qed

text \<open>
  C32: \<open>kill\<close> with a fatal signal, by the super user or the owner, of another process that is not the first one
  returns 0 and ends the target with status -1, but it closes descriptors of the caller: the caller loses each
  number that is open in the target. The target keeps its descriptors, so their vnodes stay counted, and its
  thread stays in the list of threads, running, although the memory of the process is gone.
\<close>
theorem kill_closes_descriptors_of_caller:
  assumes "family_ok r s" and "current_process s = Some p" and "procs s p = Some x"
    and "procs s t = Some y" and "t \<noteq> p" and "p_status y \<noteq> TERMINATED" and "pid y = sint w" and "pid y \<noteq> 1"
    and "p_uid x = 0 \<or> p_uid x = p_uid y" and "signal = SIGKILL \<or> signal = SIGSEGV"
  shows "\<exists>s' x'. ProcessUAPI_kill C s w signal = Some (0, s')
    \<and> procs s' = (procs s)(p \<mapsto> x', t \<mapsto> y\<lparr>p_memory := False, p_exitStatus := - 1, p_status := TERMINATED\<rparr>)
    \<and> fds (p_files x') = (\<lambda>n. if fds (p_files y) n \<noteq> None then None else fds (p_files x) n)
    \<and> tcbs s' = tcbs s \<and> thread_list s' = thread_list s
    \<and> (\<forall>v n. vheap (sys_vnodes s') v = Some n \<longrightarrow> refCount n = r v + all_refs (procs s') v)"
proof -
  from assms(1) obtain qs i where ok: "tree_ok s qs i" and fok: "files_ok (procs s) (sys_vnodes s) r"
    by (auto simp: family_ok_def)
  have fin: "finite (dom (procs s))" and pn: "p \<noteq> NULL"
    using ok assms(3) tree_finite [OF ok] by (auto simp: tree_ok_def member_part_def nodes_def)
  have x: "p_status x \<noteq> TERMINATED" using current_alive [OF ok assms(2) pn] assms(3) by auto
  note live = live_process [OF ok assms(4,6,8)]
  obtain c where c: "the_thread s (p_mainThread y) = Some c" "parentProcess c = t" using live(3) by blast
  note find = find_process [OF ok assms(4) live(1)]
  have R: "0 < p_refCount y" using owed_live [OF ok assms(4)] by simp
  let ?y = "y\<lparr>p_refCount := p_refCount y + 1\<rparr>" and ?s = "s\<lparr>procs := (procs s)(t \<mapsto> y\<lparr>p_refCount := p_refCount y + 1\<rparr>)\<rparr>"
  have cur: "current_process ?s = Some p" "procs ?s p = Some x" "procs ?s t = Some ?y" "finite (dom (procs ?s))"
    "the_thread ?s (p_mainThread y) = Some c"
    using assms(2,3,5) fin c by (auto simp: current_process_def the_thread_def split: if_splits)
  have fok': "files_ok (procs ?s) (sys_vnodes ?s) r" using files_ok_same [OF fok fin assms(4), of ?y] by simp
  have y: "p_status ?y \<noteq> TERMINATED" "pid ?y \<noteq> 1" "p_memory ?y" "0 < p_refCount ?y" using assms(6,8) live(2) R by simp_all
  from terminate_other [OF cur(1) pn cur(2) x fok' cur(4,3) assms(5) find(2) y cur(5) c(2), of C "- 1"] obtain k :: "'a kernel" and vs where
    k: "terminateProcess C ?s (p_mainThread y) (- 1)
      = Some (0, ?s\<lparr>procs := (procs ?s)(p \<mapsto> files_back x k, t \<mapsto> killed (- 1) ?y), sys_vnodes := vs\<rparr>)"
    "fdmap k = (\<lambda>n. if fds (p_files ?y) n \<noteq> None then None else fds (p_files x) n)"
    "vnodes_ok vs (\<lambda>v. r v + all_refs ((procs ?s)(p \<mapsto> files_back x k, t \<mapsto> killed (- 1) ?y)) v)" by blast
  let ?P = "(procs s)(p \<mapsto> files_back x k)"
  have P: "(procs ?s)(p \<mapsto> files_back x k, t \<mapsto> killed (- 1) ?y) = ?P(t \<mapsto> killed (- 1) ?y)" using assms(5) by (auto simp: fun_eq_iff)
  have refs: "all_refs (?P(t \<mapsto> killed (- 1) ?y)) v = all_refs (?P(t \<mapsto> killed (- 1) y)) v" for v
    using fin by (intro all_refs_other) (simp_all add: file_refs_def fun_eq_iff)
  let ?s' = "s\<lparr>procs := ?P(t \<mapsto> killed (- 1) y), sys_vnodes := vs\<rparr>"
  have "ProcessUAPI_kill C s w signal = Some (0, ?s')"
  proof -
    have a: "getProcessRef s (sint w) = Some (t, ?s)"
      using find assms(4,7) by (simp add: getProcessRef_def referenceProcess_def set_proc_def the_proc_def)
    have b: "current_block ?s = Some x" "the_proc ?s t = Some ?y" using cur(1,2) pn find(2) by (simp_all add: current_block_def the_proc_def)
    have d: "\<not> (p_uid x \<noteq> 0 \<and> p_uid x \<noteq> p_uid ?y)" using assms(9) by auto
    have e: "putProcess (s\<lparr>procs := ?P(t \<mapsto> killed (- 1) ?y), sys_vnodes := vs\<rparr>) t = Some ?s'"
      using find(2) R by (simp add: putProcess_def set_proc_def the_proc_def)
    show ?thesis using a b d e k(1) assms(10) find(2) unfolding ProcessUAPI_kill_def P by auto
  qed
  moreover have "fds (p_files (files_back x k)) = (\<lambda>n. if fds (p_files y) n \<noteq> None then None else fds (p_files x) n)"
    using k(2) unfolding fdmap_back [of k x] by simp
  moreover have "refCount n = r v + all_refs (procs ?s') v" if "vheap (sys_vnodes ?s') v = Some n" for v n
    using vnodes_okD(2) [OF k(3)] that refs unfolding P by fastforce
  ultimately show ?thesis by (intro exI [of _ ?s'] exI [of _ "files_back x k"]) simp
qed

theorem kill_closes_descriptors_of_caller_witness:
  "\<exists>C (s :: unit system) s' p x x'. ProcessUAPI_kill C s 2 SIGKILL = Some (0, s') \<and> current_process s = Some p
    \<and> procs s p = Some x \<and> dom (fds (p_files x)) = {0} \<and> procs s' p = Some x' \<and> dom (fds (p_files x')) = {}"
proof -
  obtain s x y where s: "tree_ok (s :: unit system) [9] 8" "files_ok (procs s) (sys_vnodes s) (\<lambda>v. 0)" "current_process s = Some 8"
    and x: "procs s 8 = Some x" "p_uid x = 0" "fds (p_files x) = [0 \<mapsto> new_FileDescriptor 8 O_RDWR]"
    and y: "procs s 9 = Some y" "pid y = 2" "p_status y \<noteq> TERMINATED" "fds (p_files y) = [0 \<mapsto> new_FileDescriptor 8 O_RDWR]"
    by (rule sample_fork)
  have fam: "family_ok (\<lambda>v. 0) s" using s(1,2) by (auto simp: family_ok_def)
  from kill_closes_descriptors_of_caller [OF fam s(3) x(1) y(1), of 2 SIGKILL undefined] x(2) y(2,3) obtain s' x' where
    "ProcessUAPI_kill undefined s 2 SIGKILL = Some (0, s')" "procs s' 8 = Some x'"
    "fds (p_files x') = (\<lambda>n. if fds (p_files y) n \<noteq> None then None else fds (p_files x) n)"
    by auto
  then show ?thesis using s(3) x(1,3) y(4)
    by (intro exI [of _ undefined] exI [of _ s] exI [of _ s'] exI [of _ 8] exI [of _ x] exI [of _ x']) (auto simp: dom_def split: if_splits)
qed

text \<open>
  C33: \<open>kill\<close> of a process that has ended by \<open>exit\<close> and that its parent has not waited for yet follows the null
  pointer of its detached thread. A negative number, such as the -1 that means every process, leads to an index
  below the table of processes unless it is a multiple of its capacity, in \<open>kill\<close> and in \<open>waitpid\<close>.
\<close>
theorem kill_faults:
  assumes "family_ok r s" and "current_process s = Some p" and "procs s p = Some x" and "pid x \<noteq> 1"
    and "ProcessUAPI_exit C s e = Some s'" and "signal = SIGKILL \<or> signal = SIGSEGV" and "sint w = pid x"
    and "current_block (s'\<lparr>current := u\<rparr>) = Some z" and "p_uid z = 0 \<or> p_uid z = p_uid x"
    and "sint v < 0" and "(- sint v) mod int (m_capacity (processes s2)) \<noteq> 0"
  shows "ProcessUAPI_kill C (s'\<lparr>current := u\<rparr>) w signal = None \<and> ProcessUAPI_kill C s2 v signal = None
    \<and> (v \<noteq> - 1 \<longrightarrow> ProcessUAPI_waitpid s2 True v n = None)"
proof -
  from assms(1) obtain qs i where ok: "tree_ok s qs i" and fok: "files_ok (procs s) (sys_vnodes s) r"
    by (auto simp: family_ok_def)
  have pn: "p \<noteq> NULL" using ok assms(3) by (auto simp: tree_ok_def member_part_def nodes_def)
  from current_alive [OF ok assms(2) pn] assms(3) have x: "p_status x \<noteq> TERMINATED" "p \<in> set (qs @ [i])" by auto
  from exit_ok [OF ok fok assms(2-4), of C e] assms(5) obtain P vs y where
    s': "s' = s\<lparr>procs := P, sys_vnodes := vs, tcbs := (tcbs s)(current s \<mapsto> \<lparr>parentProcess = NULL, thread_status = UWaiting\<rparr>)\<rparr>"
    "tree_ok s' qs i" "bodies P = (bodies (procs s))(p \<mapsto> y)" "pid y = pid x" "p_mainThread y = p_mainThread x" "p_uid y = p_uid x"
    by auto
  obtain c where c: "the_thread s (current s) = Some c" "parentProcess c = p"
    using assms(2) by (auto simp: current_process_def)
  have "\<exists>y. procs s' p = Some y \<and> pid y = pid x \<and> p_mainThread y = p_mainThread x \<and> p_uid y = p_uid x"
    using fun_cong [OF s'(3), of p] s'(1,4-6) by (auto simp: bodies_def)
  then obtain y' where y': "procs s' p = Some y'" "pid y' = pid x" "p_mainThread y' = p_mainThread x" "p_uid y' = p_uid x" by blast
  have "p_mainThread x = current s"
  proof -
    have n: "nodes (procs s) p = Some (node_of x)" using assms(3) by (simp add: nodes_def)
    have k: "node_ok (nodes (procs s)) (tcbs s) qs i p (node_of x)" and "pid_at (nodes (procs s)) i = 1"
      using ok n by (simp_all add: tree_ok_def member_part_def pid_part_def)
    with n assms(4) have "p \<noteq> i" by (auto simp: pid_at_def)
    with k c show ?thesis by (auto simp: node_ok_def the_thread_def split: if_splits)
  qed
  then have th: "the_thread s' (p_mainThread x) = Some \<lparr>parentProcess = NULL, thread_status = UWaiting\<rparr>"
    using c(1) s'(1) by (simp add: the_thread_def split: if_splits)
  let ?s = "s'\<lparr>current := u\<rparr>" and ?s1 = "s'\<lparr>current := u, procs := (procs s')(p \<mapsto> y'\<lparr>p_refCount := p_refCount y' + 1\<rparr>)\<rparr>"
  have "ProcessUAPI_kill C ?s w signal = None"
  proof -
    have "process_of ?s (sint w) = Some p" using find_process(1) [OF s'(2) y'(1) x(2)] y'(2) assms(7) by (simp add: process_of_def)
    then have a: "getProcessRef ?s (sint w) = Some (p, ?s1)"
      using pn y'(1) by (simp add: getProcessRef_def referenceProcess_def set_proc_def the_proc_def)
    obtain d where d: "tcbs s' u = Some d" "u \<noteq> NULL" "parentProcess d \<noteq> NULL" "procs s' (parentProcess d) = Some z"
      using assms(8) by (auto simp: current_block_def current_process_def the_thread_def the_proc_def Option.bind_eq_Some_conv split: if_splits)
    have "current_block ?s1 = Some (if parentProcess d = p then y'\<lparr>p_refCount := p_refCount y' + 1\<rparr> else z)"
      using d by (simp add: current_block_def current_process_def the_thread_def the_proc_def)
    moreover have "parentProcess d = p \<longrightarrow> z = y'" using d(4) y'(1) by auto
    ultimately have "\<exists>z'. current_block ?s1 = Some z' \<and> p_uid z' = p_uid z" by simp
    then obtain z' where b: "current_block ?s1 = Some z'" "p_uid z' = p_uid z" by blast
    have g: "the_proc ?s1 p = Some (y'\<lparr>p_refCount := p_refCount y' + 1\<rparr>)" using pn by (simp add: the_proc_def)
    have f: "terminateProcess C ?s1 (p_mainThread x) (- 1) = None"
      using th by (simp add: terminateProcess_def the_thread_def referenceProcess_def the_proc_def Let_def split: if_splits)
    show ?thesis using a b g f pn y'(3,4) assms(6,9) by (auto simp: ProcessUAPI_kill_def)
  qed
  moreover have "process_of s2 (sint v) = None"
    using toArrayIndex_negative [of "\<lambda>i. i" "sint v" "m_capacity (processes s2)"] assms(10,11)
    by (simp add: process_of_def QHash_value_def QHash_node_def)
  then have "getProcessRef s2 (sint v) = None" by (simp add: getProcessRef_def)
  then have "ProcessUAPI_kill C s2 v signal = None" "v \<noteq> - 1 \<longrightarrow> ProcessUAPI_waitpid s2 True v n = None"
    by (simp_all add: ProcessUAPI_kill_def ProcessUAPI_waitpid_def wait_one_def)
  ultimately show ?thesis by blast
qed

text \<open>Another thread may run next.\<close>

lemma tree_ok_current:
  assumes ok: "tree_ok s qs i" and t: "tcbs s t \<noteq> None"
  shows "tree_ok (s\<lparr>current := t\<rparr>) qs i"
proof -
  have "thread_part (nodes (procs s)) (tcbs s) (thread_list s) t i" using ok t by (simp add: tree_ok_def thread_part_def)
  with ok tree_counted [OF ok] owed_live(2) [OF ok] show ?thesis
    by (intro tree_okI [where H = "procs s" and B = "owed (nodes (procs s)) (tcbs s) qs i"]) (simp_all add: tree_ok_def)
qed

theorem kill_faults_witness:
  "\<exists>C (s :: unit system) s' s2. ProcessUAPI_exit C s 7 = Some s' \<and> ProcessUAPI_kill C (s'\<lparr>current := 16\<rparr>) 2 SIGKILL = None
    \<and> ProcessUAPI_kill C s2 (- 3) SIGKILL = None \<and> ProcessUAPI_waitpid s2 True (- 3) 0 = None"
proof -
  obtain s x y where s: "tree_ok (s :: unit system) [9] 8" "files_ok (procs s) (sys_vnodes s) (\<lambda>v. 0)"
    and x: "procs s 8 = Some x" "p_uid x = 0" and y: "procs s 9 = Some y" "pid y = 2" "p_status y \<noteq> TERMINATED"
    and t: "tcbs s = [16 \<mapsto> \<lparr>parentProcess = 8, thread_status = Running\<rparr>, 17 \<mapsto> \<lparr>parentProcess = 9, thread_status = Running\<rparr>]"
    by (rule sample_fork)
  let ?s = "s\<lparr>current := 17\<rparr>" and ?C = "undefined :: unit fs_calls"
  have ok: "tree_ok ?s [9] 8" using tree_ok_current [OF s(1), of 17] t by simp
  have fok: "files_ok (procs ?s) (sys_vnodes ?s) (\<lambda>v. 0)" using s(2) by simp
  have fam: "family_ok (\<lambda>v. 0) ?s" using ok s(2) by (auto simp: family_ok_def)
  have cur: "current_process ?s = Some 9" "procs ?s 9 = Some y" using t y(1) by (simp_all add: current_process_def the_thread_def NULL_def)
  from exit_ok [OF ok fok cur, of ?C 7] y(2) obtain P vs z where
    e: "ProcessUAPI_exit ?C ?s 7 = Some (?s\<lparr>procs := P, sys_vnodes := vs,
      tcbs := (tcbs ?s)(current ?s \<mapsto> \<lparr>parentProcess = NULL, thread_status = UWaiting\<rparr>)\<rparr>)"
    "bodies P = (bodies (procs ?s))(9 \<mapsto> z)" by auto
  define s' where "s' = ?s\<lparr>procs := P, sys_vnodes := vs, tcbs := (tcbs ?s)(current ?s \<mapsto> \<lparr>parentProcess = NULL, thread_status = UWaiting\<rparr>)\<rparr>"
  have "bodies P 8 = bodies (procs s) 8" using e(2) by simp
  from bodies_eqD [OF this x(1)] obtain z' where z: "P 8 = Some z'" "p_uid z' = 0" using x(2) by auto
  have "current_block (s'\<lparr>current := 16\<rparr>) = Some z'"
    using z(1) t by (simp add: s'_def current_block_def current_process_def the_thread_def the_proc_def NULL_def)
  moreover have "sint (- 3 :: u32) < 0" "(- sint (- 3 :: u32)) mod int (m_capacity (processes (sample_system undefined ()))) \<noteq> 0"
    by (simp_all add: sample_system_def sample_processes_def)
  moreover have "ProcessUAPI_exit ?C ?s 7 = Some s'" using e(1) by (simp only: s'_def)
  moreover have "(- 3 :: u32) \<noteq> - 1" by simp
  ultimately show ?thesis
    using kill_faults [OF fam cur _ _, of ?C 7 s' SIGKILL 2 16 z' "- 3" "sample_system undefined ()" 0] y(2) z(2)
    by (intro exI [of _ ?C] exI [of _ ?s] exI [of _ s'] exI [of _ "sample_system undefined ()"]) simp
qed

end
