(* ===== verification/Spec2Isabelle.thy ===== *)
theory Spec2Isabelle
  imports Prelude Libc_String Libc_Stdlib Libc_Time
    Syscall_Dispatch_Ia32 Syscalls_Mips Syscalls_X86_64 Syscalls_Arm
    Pipe QHash Vnode_Manager Buddy_Allocator Memory_Context File_Calls_Properties User_Memory Scheduler Bson
    Processes_Kill
begin

text \<open>
  FluxOS: a verification library.

  FluxOS is a small Unix-like operating system. A user program calls the C library (src/src/libc), whose
  system call stubs (src/src/libc/arch) put a call number and arguments into registers and trap; the
  kernel (src/src/kernel) saves the registers, looks the number up in a table and calls a handler, whose
  result goes back the same way. The handlers work on vnodes, which a table keeps once per file with a
  reference count, on pipes, on memory contexts that take address space from a buddy allocator, and on
  containers (hash tables, lists) of the kernel's own. The init program reads its configuration from BSON
  documents.

  Conventions. The reference port is ia32: \<open>int\<close>, \<open>long\<close>, \<open>size_t\<close> and pointers have 32 bits. Memory is
  a list of bytes (\<open>mem\<close> of theory Prelude); an address is a natural number, 0 is NULL, and a load or
  store outside the list is a fault. An operation that can fault, or whose loop may not end, returns an
  \<open>option\<close>, and \<open>None\<close> is the fault or the loop that does not end; in the theorems that an operation
  works, that the result is \<open>Some\<close> is part of the statement. Values that the C code returns as negative
  error numbers are integers or words, as in the code. Loops over C strings recurse on the distance to the
  end of memory, so their termination is proved; loops that can run forever are partial functions into
  \<open>option\<close>. There is no fuel.

  Theories, in the order of the calls:

  \<^item> Prelude: memory, words, wrapping 32-bit sums, generic lemmas.
  \<^item> Libc\_String (libc/string.c and libc/string/*.c): the string functions as loops over memory; each is
    shown equal to its meaning on byte lists, with what it leaves unchanged.
  \<^item> Libc\_Stdlib (libc/stdlib.c, libc/ctype.c): numbers and character classes.
  \<^item> Libc\_Time (libc/time/gmtime\_r.c): \<open>gmtime_r\<close> against a definition of the Gregorian calendar.
  \<^item> Syscall\_Abi, Syscalls\_Ia32, Kernel\_Handlers, Syscall\_Dispatch\_Ia32: the result convention, the
    ia32 stubs, the handlers as parameters, and the kernel's table and dispatcher; the stubs composed with
    the dispatcher reach the handlers with their arguments.
  \<^item> Syscalls\_Mips, Syscalls\_X86\_64, Syscalls\_Arm: the same for the other ports, as far as they work.
  \<^item> Pipe (kernel/filesystem/pipe.cpp): the ring buffer in memory; locale \<open>byte_channel\<close> states what a
    bounded FIFO channel promises, and the pipe is an interpretation of it.
  \<^item> QHash (kernel/include/lib/koof/QHash): the chained hash table; locale \<open>map_store\<close> states what a
    table promises for a sequence of updates, with and without memory, and QHash is an interpretation of it
    for the keys whose hash is not negative.
  \<^item> Vnode\_Manager (kernel/filesystem/vnodemanager.cpp): reference counting, over the hash table, and the
    creation of pipes.
  \<^item> Tmpfs, Tmpfs\_Refinement (kernel/filesystem/tmpfs/tmpfs.cpp): the file system in memory, its directory
    tables are those of QHash; it refines a directory graph, through the locale \<open>data_refinement\<close> of
    Prelude.
  \<^item> Vfs (kernel/filesystem/vfs.cpp): resolution of paths over the vnode table; on the file system in memory
    it is a walk in the directory graph, with the reference it leaves on a regular file inside a path.
  \<^item> QList (kernel/include/lib/koof/QList, ListWithHoles): the growing array, which refines plain lists.
  \<^item> User\_Memory (kernel/arch/ia32/mm/usermemoryops.cpp): the checks and copies between kernel and user.
  \<^item> File\_Calls, File\_Calls\_Refinement, File\_Calls\_Properties (kernel/uapi/fsuapi.cpp): the file system
    calls over descriptors, vnodes and paths. The file systems are a record of functions, as in the code; the
    calls on descriptors refine a map, over the file system in memory data written are read back, and each
    call on a path is shown to give back the vnode it resolved, or which one it forgets.
  \<^item> Buddy\_Allocator (kernel/lib/koof/BuddyAllocator.cpp): allocation of address space; the number of free
    chunks that contain a block is the measure of all its lemmas.
  \<^item> Memory\_Context (kernel/mm/memorycontext.cpp, kernel/uapi/memoryuapi.cpp): mappings of a process over
    the allocator, page faults, and the calls \<open>mmap\<close>, \<open>munmap\<close>, \<open>mprotect\<close>, \<open>brk\<close>; histories of mappings are
    an inductive predicate.
  \<^item> Scheduler (kernel/task/scheduler.cpp, kernel/core/systemtimer.cpp, kernel/task/eventsmanager.cpp): the
    choice of the next thread and the timers, with their liveness.
  \<^item> Processes (kernel/task/task.cpp, terminateThread of kernel/task/threadsmanager.cpp and
    kernel/uapi/processuapi.cpp): the process table, the linked list of processes and their counted references,
    creation, \<open>fork\<close>, \<open>exit\<close>, \<open>waitpid\<close>, \<open>kill\<close> and the calls on identities. A call on files is that of
    File\_Calls on the descriptors of the current process. Processes\_Refinement has the invariant
    \<open>tree_ok\<close>: list, table, parents and threads agree, and each process counts the pointers to it.
    Processes\_Calls shows that \<open>fork\<close> and \<open>exit\<close> keep it, with the counts of vnodes. Processes\_Family has
    \<open>waitpid\<close> and the abstract family of processes that sequences of calls refine, through the locale
    \<open>data_refinement\<close> again; Processes\_Properties states the results, and Processes\_Kill what \<open>kill\<close> does.
  \<^item> Bson (init/libDataStore/bson.c): lookup in a BSON document.

  Not modelled: code that drives devices or processor registers (drivers, boot code, page tables, context
  switch), tables of fonts and keys, and the vendored allocator malloc.c. The handlers behind the system
  call table are parameters of the dispatcher theories. Left for later: mounting and the path of a vnode,
  \<open>poll\<close>, the start of the first program, threads of the kernel, loading of programs, the file systems on devices, the network, the
  other containers and the rest of the C library.
\<close>

end
